(* ===== verification/Prelude.thy ===== *)
theory Prelude
  imports Main "HOL-Library.Word"
begin

section \<open>Prelude: machine words, faults and shared lemmas\<close>

text \<open>
  The vocabulary shared by every component of the development.
  \<^item> Machine integers are words of their width: \<open>size_t\<close>, \<open>uint64_t\<close>, \<open>uintptr_t\<close> and every
    pointer of the amd64 build are \<open>u64\<close>; a byte is \<open>u8\<close>.
  \<^item> C and C++ code that leaves the defined part of the language, or that never returns, is a value
    of type \<open>fault\<close>; an operation that may do so returns a value of type \<open>'a res\<close>, with \<open>Inl\<close> the fault.
    \<open>rbind\<close> is sequential composition: the first fault ends the operation.
  \<^item> Error numbers are the integers of \<open>src/Kernel/include/interface/errno.h\<close>; a function that
    returns \<open>-EINVAL\<close> returns \<open>- EINVAL\<close> here.
\<close>

unbundle bit_operations_syntax

type_synonym u8 = "8 word"
type_synonym u16 = "16 word"
type_synonym u32 = "32 word"
type_synonym u64 = "64 word"

subsection \<open>Faults and sequencing\<close>

datatype fault =
    OutOfBounds      \<comment> \<open>an array or vector accessed outside its extent\<close>
  | AssertFailed     \<comment> \<open>a failed \<open>assert\<close>\<close>
  | NullPointer      \<comment> \<open>a null pointer dereferenced\<close>
  | DanglingPointer  \<comment> \<open>an erased or deleted object used\<close>
  | OutOfMemory      \<comment> \<open>the kernel reports that it is out of memory and stops the CPU\<close>
  | BadAlloc         \<comment> \<open>\<open>std::bad_alloc\<close> thrown\<close>
  | Diverges         \<comment> \<open>a loop that never ends\<close>

type_synonym 'a res = "fault + 'a"

definition rbind :: "'a res \<Rightarrow> ('a \<Rightarrow> 'b res) \<Rightarrow> 'b res" where
  "rbind m k = (case m of Inl f \<Rightarrow> Inl f | Inr x \<Rightarrow> k x)"

text \<open>A loop over a list that the body does not change.\<close>

fun each_res :: "('a \<Rightarrow> 's \<Rightarrow> 's res) \<Rightarrow> 'a list \<Rightarrow> 's \<Rightarrow> 's res" where
  "each_res f [] s = Inr s"
| "each_res f (x # xs) s = rbind (f x s) (each_res f xs)"

definition assert_res :: "bool \<Rightarrow> unit res" where
  "assert_res b = (if b then Inr () else Inl AssertFailed)"

subsection \<open>Pages\<close>

definition PAGE_SIZE :: u64 where
  "PAGE_SIZE = 0x1000"

definition TO_PAGES :: "u64 \<Rightarrow> u64" where
  "TO_PAGES d = (d + PAGE_SIZE - 1) div PAGE_SIZE"

definition FROM_PAGES :: "u64 \<Rightarrow> u64" where
  "FROM_PAGES d = d * PAGE_SIZE"

subsection \<open>Error numbers\<close>

definition EACCES :: int where "EACCES = 2"
definition EAGAIN :: int where "EAGAIN = 6"
definition EBADF :: int where "EBADF = 8"
definition EEXIST :: int where "EEXIST = 20"
definition EFAULT :: int where "EFAULT = 21"
definition EINTR :: int where "EINTR = 27"
definition EINVAL :: int where "EINVAL = 28"
definition EISDIR :: int where "EISDIR = 31"
definition EMFILE :: int where "EMFILE = 33"
definition ENOENT :: int where "ENOENT = 45"
definition ENOMEM :: int where "ENOMEM = 49"
definition ENOSYS :: int where "ENOSYS = 55"
definition ENOTDIR :: int where "ENOTDIR = 57"
definition ENOTSUP :: int where "ENOTSUP = 61"
definition EPERM :: int where "EPERM = 67"

section \<open>Shared lemmas\<close>

named_theorems res_simps \<open>inversion of sequenced operations\<close>

lemma rbind_Inl [simp]: "rbind (Inl f) k = Inl f"
  by (simp add: rbind_def)

lemma rbind_Inr [simp]: "rbind (Inr x) k = k x"
  by (simp add: rbind_def)

lemma rbind_eq_Inr [res_simps]:
  "(rbind m k = Inr y) \<longleftrightarrow> (\<exists>x. m = Inr x \<and> k x = Inr y)"
  by (cases m) auto

lemma rbind_eq_Inl [res_simps]:
  "(rbind m k = Inl f) \<longleftrightarrow> (m = Inl f \<or> (\<exists>x. m = Inr x \<and> k x = Inl f))"
  by (cases m) auto

lemma rbind_cong [fundef_cong]:
  "m = m' \<Longrightarrow> (\<And>x. m' = Inr x \<Longrightarrow> k x = k' x) \<Longrightarrow> rbind m k = rbind m' k'"
  by (cases m') auto

lemma assert_res_eq_Inr [res_simps]: "(assert_res b = Inr u) \<longleftrightarrow> b"
  by (simp add: assert_res_def)

lemma assert_res_True [simp]: "assert_res True = Inr ()"
  by (simp add: assert_res_def)

lemma assert_res_False [simp]: "assert_res False = Inl AssertFailed"
  by (simp add: assert_res_def)

lemmas errno_defs =
  EACCES_def EAGAIN_def EBADF_def EEXIST_def EFAULT_def EINTR_def EINVAL_def EISDIR_def
  EMFILE_def ENOENT_def ENOMEM_def ENOSYS_def ENOTDIR_def ENOTSUP_def EPERM_def

subsection \<open>Counting with words\<close>

lemma unat_inc: "(i :: 'a::len word) < n \<Longrightarrow> unat (i + 1) = Suc (unat i)"
proof -
  assume "i < n"
  then have lt: "unat i < unat n" by (simp add: word_less_nat_alt)
  have "unat n < 2 ^ LENGTH('a)" by (rule unsigned_less)
  with lt have "Suc (unat i) < 2 ^ LENGTH('a)" by linarith
  then show ?thesis by (simp add: unat_word_ariths)
qed

lemma word_inc_measure:
  "(i :: 'a::len word) < n \<Longrightarrow> unat n - unat (i + 1) < unat n - unat i"
  by (simp add: unat_inc word_less_nat_alt)

lemma word_less_inc_iff:
  "(i :: 'a::len word) < n \<Longrightarrow> j < i + 1 \<longleftrightarrow> j < i \<or> j = i"
  by (auto simp: word_less_nat_alt unat_inc less_Suc_eq word_unat_eq_iff)

lemma word_inc_le: "(i :: 'a::len word) < n \<Longrightarrow> i + 1 \<le> n"
  by (simp add: word_le_nat_alt unat_inc word_less_nat_alt)

lemma unat_of_nat_less: "k < 2 ^ LENGTH('a) \<Longrightarrow> unat (of_nat k :: 'a::len word) = k"
  by (simp add: unat_of_nat)

lemma unat_u64: "unat (x :: u64) < 2 ^ 64"
  using unsigned_less [of x] by simp

lemma unat_mult_less:
  "unat (a :: 'a::len word) * unat b < 2 ^ LENGTH('a) \<Longrightarrow> unat (a * b) = unat a * unat b"
  by (simp add: unat_word_ariths)

lemma unat_add_less:
  "unat (a :: 'a::len word) + unat b < 2 ^ LENGTH('a) \<Longrightarrow> unat (a + b) = unat a + unat b"
  by (simp add: unat_word_ariths)

subsection \<open>Counted loops\<close>

text \<open>The loop \<open>for (i = i0; i < n; i++) body\<close> over a state, with no way out but a fault.\<close>

function for_range :: "u64 \<Rightarrow> u64 \<Rightarrow> (u64 \<Rightarrow> 's \<Rightarrow> 's res) \<Rightarrow> 's \<Rightarrow> 's res" where
  "for_range i n body s =
     (if i < n then rbind (body i s) (\<lambda>s'. for_range (i + 1) n body s') else Inr s)"
  by pat_completeness auto
termination
  by (relation "measure (\<lambda>(i, n, _). unat n - unat i)") (simp_all add: word_inc_measure)

declare for_range.simps [simp del]

lemma for_range_done [simp]: "\<not> i < n \<Longrightarrow> for_range i n body s = Inr s"
  by (simp add: for_range.simps [of i n])

lemma for_range_step:
  "i < n \<Longrightarrow> for_range i n body s = rbind (body i s) (\<lambda>s'. for_range (i + 1) n body s')"
  by (subst for_range.simps) simp

text \<open>An invariant indexed by the counter: it holds at the end of a loop that returns.\<close>

lemma for_range_invariant:
  assumes "for_range i n body s = Inr t" "i \<le> n" "I i s"
    and "\<And>k u u'. \<lbrakk>i \<le> k; k < n; I k u; body k u = Inr u'\<rbrakk> \<Longrightarrow> I (k + 1) u'"
  shows "I n t"
  using assms
proof (induction i n body s rule: for_range.induct)
  case (1 i n body s)
  show ?case
  proof (cases "i < n")
    case True
    with "1.prems"(1) obtain s' where s': "body i s = Inr s'" "for_range (i + 1) n body s' = Inr t"
      by (auto simp: for_range_step res_simps)
    have le: "i \<le> i + 1" using True by (simp add: word_le_nat_alt unat_inc)
    show ?thesis
    proof (rule "1.IH" [OF True s'])
      show "i + 1 \<le> n" using True by (rule word_inc_le)
      show "I (i + 1) s'" using "1.prems"(3,4) True s'(1) by blast
      show "\<And>k u u'. \<lbrakk>i + 1 \<le> k; k < n; I k u; body k u = Inr u'\<rbrakk> \<Longrightarrow> I (k + 1) u'"
        using "1.prems"(4) le order_trans by blast
    qed
  next
    case False
    with "1.prems" show ?thesis by simp
  qed
qed

text \<open>A body that never faults under an invariant gives a loop that returns.\<close>

lemma for_range_returns:
  assumes "I s" "\<And>k u. i \<le> k \<Longrightarrow> k < n \<Longrightarrow> I u \<Longrightarrow> \<exists>u'. body k u = Inr u' \<and> I u'"
  shows "\<exists>t. for_range i n body s = Inr t \<and> I t"
  using assms
proof (induction i n body s rule: for_range.induct)
  case (1 i n body s)
  show ?case
  proof (cases "i < n")
    case True
    obtain s' where s': "body i s = Inr s'" "I s'" using "1.prems" True by blast
    have le: "i \<le> i + 1" using True by (simp add: word_le_nat_alt unat_inc)
    have "\<exists>t. for_range (i + 1) n body s' = Inr t \<and> I t"
      by (rule "1.IH" [OF True s'(1) s'(2)]) (use "1.prems"(2) le order_trans in blast)
    with True s'(1) show ?thesis by (simp add: for_range_step)
  next
    case False
    with "1.prems" show ?thesis by simp
  qed
qed

text \<open>
  \<open>for (i = 0; i < n; i += step)\<close>: the sum may wrap around, and then the loop never leaves. Control
  depends on the 64-bit counter alone, so \<open>2 ^ 64\<close> iterations without leaving repeat a value of it.
\<close>

fun for_step_fuel :: "nat \<Rightarrow> u64 \<Rightarrow> u64 \<Rightarrow> u64 \<Rightarrow> (u64 \<Rightarrow> 's \<Rightarrow> 's res) \<Rightarrow> 's \<Rightarrow> 's res" where
  "for_step_fuel fuel i n st body s =
     (if fuel = 0 then Inl Diverges
      else if i < n then rbind (body i s) (\<lambda>s'. for_step_fuel (fuel - 1) (i + st) n st body s')
      else Inr s)"

declare for_step_fuel.simps [simp del]

definition for_step :: "u64 \<Rightarrow> u64 \<Rightarrow> (u64 \<Rightarrow> 's \<Rightarrow> 's res) \<Rightarrow> 's \<Rightarrow> 's res" where
  "for_step n st body s = for_step_fuel (2 ^ 64) 0 n st body s"

text \<open>A loop whose body returns and keeps an indexed invariant returns.\<close>

lemma for_range_total:
  assumes "i \<le> n" "I i s"
    and "\<And>k u. k < n \<Longrightarrow> I k u \<Longrightarrow> \<exists>u'. body k u = Inr u' \<and> I (k + 1) u'"
  shows "\<exists>t. for_range i n body s = Inr t \<and> I n t"
  using assms(1,2)
proof (induction "unat n - unat i" arbitrary: i s)
  case 0
  then have "i = n" by (simp add: word_le_nat_alt word_unat_eq_iff)
  with 0 show ?case by auto
next
  case (Suc d)
  then have lt: "i < n" by (simp add: word_less_nat_alt)
  obtain s' where s': "body i s = Inr s'" "I (i + 1) s'" using assms(3) [OF lt Suc.prems(2)] by blast
  have "d = unat n - unat (i + 1)" using Suc.hyps(2) unat_inc [OF lt] by simp
  from Suc.hyps(1) [OF this word_inc_le [OF lt] s'(2)] show ?case
    by (simp add: for_range_step [OF lt] s'(1))
qed

text \<open>A loop does not fail in a way its body cannot.\<close>

lemma for_range_no_fault:
  assumes "\<And>k u. body k u \<noteq> Inl f"
  shows "for_range i n body s \<noteq> Inl f"
  using assms
proof (induction i n body s rule: for_range.induct)
  case (1 i n body s)
  then show ?case by (subst for_range.simps) (auto simp: res_simps)
qed

lemma for_step_fuel_invariant:
  assumes "for_step_fuel fuel i n st body s = Inr t" "I s"
    and "\<And>k u u'. I u \<Longrightarrow> body k u = Inr u' \<Longrightarrow> I u'"
  shows "I t"
  using assms
proof (induction fuel i n st body s rule: for_step_fuel.induct)
  case (1 fuel i n st body s)
  from "1.prems"(1) have f: "fuel \<noteq> 0" by (subst (asm) for_step_fuel.simps) (auto split: if_splits)
  show ?case
  proof (cases "i < n")
    case True
    with "1.prems"(1) f obtain s' where s': "body i s = Inr s'"
      "for_step_fuel (fuel - 1) (i + st) n st body s' = Inr t"
      by (subst (asm) for_step_fuel.simps) (auto simp: res_simps)
    show ?thesis
      by (rule "1.IH" [OF f True s']) (use "1.prems" s'(1) in blast)+
  next
    case False
    with "1.prems" f show ?thesis by (subst (asm) for_step_fuel.simps) simp
  qed
qed

lemma for_step_invariant:
  assumes "for_step n st body s = Inr t" "I s"
    and "\<And>k u u'. I u \<Longrightarrow> body k u = Inr u' \<Longrightarrow> I u'"
  shows "I t"
  by (rule for_step_fuel_invariant [OF assms(1) [unfolded for_step_def]]) (fact assms(2,3))+

lemma for_range_keep:
  assumes "for_range 0 n body s = Inr t" "I s"
    and "\<And>k u u'. I u \<Longrightarrow> body k u = Inr u' \<Longrightarrow> I u'"
  shows "I t"
  by (rule for_range_invariant [OF assms(1), of "\<lambda>_. I"]) (use assms(2,3) in auto)

end
