(* ===== verification/Bitmap.thy ===== *)
theory Bitmap
  imports Prelude
begin

section \<open>The bitmap\<close>

text \<open>
  Models \<open>class Bitmap\<close> (\<open>src/Kernel/library/bitmap.cpp\<close>, \<open>src/Kernel/include/bitmap.hpp\<close>), the
  array of bits in which the physical allocator keeps one bit per page. Bits are stored from the
  most significant bit of each byte down. Both operations refuse an index above \<open>Size * 8\<close>, and
  access the byte \<open>index / 8\<close> of the buffer otherwise; an access outside the buffer is the fault
  \<open>OutOfBounds\<close>.

  The locale \<open>bit_array\<close> states what a client relies on; it is interpreted on the operations of
  the class, and its lemmas on single bits and on the number of set bits carry the proofs about the
  allocator.
\<close>

record bitmap =
  Size :: u64
  Buffer :: "u8 list"

definition bitIndexer :: "u64 \<Rightarrow> u8" where
  "bitIndexer index = drop_bit (unat (index mod 8)) 0b10000000"

definition Bitmap_Get :: "bitmap \<Rightarrow> u64 \<Rightarrow> bool res" where
  "Bitmap_Get b index =
     (if index > Size b * 8 then Inr False
      else let byteIndex = unat (index div 8) in
        if byteIndex < length (Buffer b)
        then Inr ((Buffer b ! byteIndex) AND bitIndexer index > 0)
        else Inl OutOfBounds)"

definition Bitmap_Set :: "bitmap \<Rightarrow> u64 \<Rightarrow> bool \<Rightarrow> (bool \<times> bitmap) res" where
  "Bitmap_Set b index value =
     (if index > Size b * 8 then Inr (False, b)
      else let byteIndex = unat (index div 8) in
        if byteIndex < length (Buffer b)
        then let buf = (Buffer b)[byteIndex := (Buffer b ! byteIndex) AND NOT (bitIndexer index)];
                 buf' = (if value then buf[byteIndex := (buf ! byteIndex) OR bitIndexer index] else buf)
             in Inr (True, b\<lparr>Buffer := buf'\<rparr>)
        else Inl OutOfBounds)"

subsection \<open>Abstraction and well-formedness\<close>

definition Bitmap_nbits :: "bitmap \<Rightarrow> u64" where
  "Bitmap_nbits b = Size b * 8"

text \<open>The bit an index stands for, read off the byte list without any guard.\<close>

definition Bitmap_bit :: "bitmap \<Rightarrow> u64 \<Rightarrow> bool" where
  "Bitmap_bit b i \<longleftrightarrow> i < Bitmap_nbits b \<and> bit (Buffer b ! (unat i div 8)) (7 - unat i mod 8)"

definition Bitmap_wf :: "bitmap \<Rightarrow> bool" where
  "Bitmap_wf b \<longleftrightarrow> length (Buffer b) = unat (Size b) \<and> unat (Size b) * 8 < 2 ^ 64"

section \<open>The interface of a bit array\<close>

locale bit_array =
  fixes get :: "'b \<Rightarrow> u64 \<Rightarrow> bool res"
    and put :: "'b \<Rightarrow> u64 \<Rightarrow> bool \<Rightarrow> (bool \<times> 'b) res"
    and nbits :: "'b \<Rightarrow> u64"
    and bitf :: "'b \<Rightarrow> u64 \<Rightarrow> bool"
    and invar :: "'b \<Rightarrow> bool"
  assumes get_in: "invar b \<Longrightarrow> i < nbits b \<Longrightarrow> get b i = Inr (bitf b i)"
    and get_end: "invar b \<Longrightarrow> get b (nbits b) = Inl OutOfBounds"
    and get_out: "nbits b < i \<Longrightarrow> get b i = Inr False"
    and put_in: "invar b \<Longrightarrow> i < nbits b \<Longrightarrow>
      \<exists>b'. put b i v = Inr (True, b') \<and> invar b' \<and> nbits b' = nbits b \<and> bitf b' = (bitf b)(i := v)"
    and put_end: "invar b \<Longrightarrow> put b (nbits b) v = Inl OutOfBounds"
    and put_out: "nbits b < i \<Longrightarrow> put b i v = Inr (False, b)"
    and bit_dom: "bitf b i \<Longrightarrow> i < nbits b"
begin

definition ones :: "'b \<Rightarrow> nat" where
  "ones b = card {i. bitf b i}"

lemma get_Inr_cases:
  assumes "invar b" "get b i = Inr v"
  obtains (inside) "i < nbits b" "v = bitf b i" | (outside) "nbits b < i" "\<not> v"
proof (cases "i < nbits b")
  case True
  with assms get_in have "v = bitf b i" by simp
  with True inside show thesis by blast
next
  case False
  with assms get_end have "i \<noteq> nbits b" by auto
  with False have "nbits b < i" by simp
  with assms(2) get_out [of b i] outside show thesis by auto
qed

lemma get_True: "invar b \<Longrightarrow> get b i = Inr True \<longleftrightarrow> bitf b i"
proof
  assume "invar b" "get b i = Inr True"
  then show "bitf b i" by (rule get_Inr_cases) auto
next
  assume "invar b" "bitf b i"
  then show "get b i = Inr True" using get_in [OF _ bit_dom] by simp
qed

lemma put_Inr_cases:
  assumes "invar b" "put b i v = Inr (r, b')"
  obtains (inside) "i < nbits b" "r" "invar b'" "nbits b' = nbits b" "bitf b' = (bitf b)(i := v)"
    | (outside) "nbits b < i" "\<not> r" "b' = b"
proof (cases "i < nbits b")
  case True
  from put_in [OF assms(1) True, of v] obtain c where
    c: "put b i v = Inr (True, c)" "invar c" "nbits c = nbits b" "bitf c = (bitf b)(i := v)" by blast
  with assms(2) have "r" "b' = c" by simp_all
  with True c(2-4) show thesis by (intro inside) simp_all
next
  case False
  have "i \<noteq> nbits b" using assms put_end [OF assms(1), of v] by auto
  with False have out: "nbits b < i" by simp
  with assms(2) put_out [of b i v] have "\<not> r" "b' = b" by simp_all
  with out show thesis by (rule outside)
qed

lemma ones_set:
  assumes "bitf b' = (bitf b)(i := True)" "\<not> bitf b i"
  shows "ones b' = Suc (ones b)"
proof -
  have "{j. bitf b' j} = insert i {j. bitf b j}" using assms(1) by auto
  with assms(2) show ?thesis by (simp add: ones_def)
qed

lemma ones_clear:
  assumes "bitf b' = (bitf b)(i := False)" "bitf b i"
  shows "Suc (ones b') = ones b"
proof -
  have "{j. bitf b j} = insert i {j. bitf b' j}" using assms by auto
  with assms(1) show ?thesis by (simp add: ones_def)
qed

end

section \<open>The class implements the interface\<close>

lemma bitIndexer_eq: "bitIndexer i = 2 ^ (7 - unat i mod 8)"
proof -
  have "unat i mod 8 < 8" by simp
  then have "unat i mod 8 \<in> {0, 1, 2, 3, 4, 5, 6, 7}" by auto
  moreover have "unat (i mod 8) = unat i mod 8" by (simp add: unat_mod_distrib)
  ultimately show ?thesis by (auto simp: bitIndexer_def)
qed

lemma and_bitIndexer: "(x AND bitIndexer i > 0) \<longleftrightarrow> bit x (7 - unat i mod 8)"
  by (simp add: bitIndexer_eq and_exp_eq_0_iff_not_bit word_greater_zero_iff)

lemma unat_nbits: "Bitmap_wf b \<Longrightarrow> unat (Bitmap_nbits b) = 8 * length (Buffer b)"
  by (simp add: Bitmap_wf_def Bitmap_nbits_def unat_word_ariths mult.commute)

lemma byte_index: "unat (i div (8 :: u64)) = unat i div 8"
  by (simp add: unat_div_distrib)

lemma byte_index_inside:
  "Bitmap_wf b \<Longrightarrow> i < Bitmap_nbits b \<Longrightarrow> unat i div 8 < length (Buffer b)"
  by (simp add: word_less_nat_alt unat_nbits less_mult_imp_div_less mult.commute)

lemma byte_index_end:
  "Bitmap_wf b \<Longrightarrow> unat (Bitmap_nbits b) div 8 = length (Buffer b)"
  by (simp add: unat_nbits)

lemma Bitmap_Get_inside:
  "Bitmap_wf b \<Longrightarrow> i < Bitmap_nbits b \<Longrightarrow> Bitmap_Get b i = Inr (Bitmap_bit b i)"
  using byte_index_inside [of b i] less_not_sym [of i "Size b * 8"]
  by (auto simp: Bitmap_Get_def Bitmap_bit_def and_bitIndexer byte_index Let_def
      Bitmap_nbits_def)

lemma bit_upd_byte:
  assumes "n < 8"
  shows "bit (if v then ((x :: u8) AND NOT (2 ^ n)) OR 2 ^ n else x AND NOT (2 ^ n)) m =
    (if m = n then v else bit x m)"
proof (cases "m < 8")
  case True
  with assms show ?thesis by (auto simp: bit_simps)
next
  case False
  with assms show ?thesis by (auto simp: bit_simps dest: bit_imp_le_length)
qed

lemma same_bit_iff:
  "(i div 8 = j div 8 \<and> 7 - i mod 8 = 7 - j mod (8 :: nat)) \<longleftrightarrow> i = j"
proof
  assume *: "i div 8 = j div 8 \<and> 7 - i mod 8 = 7 - j mod 8"
  have "i mod 8 < 8" "j mod 8 < 8" by simp_all
  with * have "i mod 8 = j mod 8" by arith
  with * show "i = j" by (metis div_mult_mod_eq)
qed simp

lemma Bitmap_Set_inside:
  assumes wf: "Bitmap_wf b" and i: "i < Bitmap_nbits b"
  shows "\<exists>b'. Bitmap_Set b i v = Inr (True, b') \<and> Bitmap_wf b' \<and>
    Bitmap_nbits b' = Bitmap_nbits b \<and> Bitmap_bit b' = (Bitmap_bit b)(i := v)"
proof -
  define n where "n = 7 - unat i mod 8"
  define k where "k = unat i div 8"
  define y where "y = (if v then (Buffer b ! k AND NOT (2 ^ n)) OR 2 ^ n else Buffer b ! k AND NOT (2 ^ n))"
  define b' where "b' = b\<lparr>Buffer := (Buffer b)[k := y]\<rparr>"
  have k: "k < length (Buffer b)" using byte_index_inside [OF wf i] by (simp add: k_def)
  have eq: "Bitmap_Set b i v = Inr (True, b')"
    using i k by (simp add: Bitmap_Set_def byte_index Let_def bitIndexer_eq Bitmap_nbits_def
        order_less_imp_not_less b'_def y_def n_def k_def)
  have buf: "Buffer b' = (Buffer b)[k := y]" by (simp add: b'_def)
  have nb: "Bitmap_nbits b' = Bitmap_nbits b" by (simp add: b'_def Bitmap_nbits_def)
  have "Bitmap_bit b' j = ((Bitmap_bit b)(i := v)) j" for j
  proof (cases "j < Bitmap_nbits b")
    case True
    then have kj: "unat j div 8 < length (Buffer b)" by (rule byte_index_inside [OF wf])
    have "n < 8" by (simp add: n_def)
    note upd = bit_upd_byte [OF this, of v "Buffer b ! k"]
    have same: "(unat j div 8 = k \<and> 7 - unat j mod 8 = n) \<longleftrightarrow> j = i"
      by (simp add: k_def n_def same_bit_iff word_unat_eq_iff)
    show ?thesis
    proof (cases "unat j div 8 = k")
      case eqk: True
      then have "(j = i) = (7 - unat j mod 8 = n)" using same by blast
      with eqk True k upd [of "7 - unat j mod 8"] show ?thesis
        by (simp add: Bitmap_bit_def nb buf y_def)
    next
      case False
      then have "j \<noteq> i" using same by blast
      with False True kj show ?thesis by (simp add: Bitmap_bit_def nb buf)
    qed
  next
    case False
    with i have "j \<noteq> i" by auto
    with False show ?thesis by (simp add: Bitmap_bit_def nb)
  qed
  moreover have "Bitmap_wf b'" using wf by (simp add: Bitmap_wf_def b'_def)
  ultimately show ?thesis using eq nb by blast
qed

lemma Bitmap_Get_end: "Bitmap_wf b \<Longrightarrow> Bitmap_Get b (Bitmap_nbits b) = Inl OutOfBounds"
  using byte_index_end [of b] by (simp add: Bitmap_Get_def Bitmap_nbits_def byte_index Let_def)

lemma Bitmap_Set_end: "Bitmap_wf b \<Longrightarrow> Bitmap_Set b (Bitmap_nbits b) v = Inl OutOfBounds"
  using byte_index_end [of b] by (simp add: Bitmap_Set_def Bitmap_nbits_def byte_index Let_def)

interpretation bm: bit_array Bitmap_Get Bitmap_Set Bitmap_nbits Bitmap_bit Bitmap_wf
proof unfold_locales
  fix b i v
  show "Bitmap_nbits b < i \<Longrightarrow> Bitmap_Get b i = Inr False"
    by (simp add: Bitmap_Get_def Bitmap_nbits_def)
  show "Bitmap_nbits b < i \<Longrightarrow> Bitmap_Set b i v = Inr (False, b)"
    by (simp add: Bitmap_Set_def Bitmap_nbits_def)
  show "Bitmap_bit b i \<Longrightarrow> i < Bitmap_nbits b"
    by (simp add: Bitmap_bit_def)
qed (auto intro: Bitmap_Get_inside Bitmap_Set_inside Bitmap_Get_end Bitmap_Set_end)

lemma Bitmap_Set_Size: "Bitmap_Set b i v = Inr (r, b') \<Longrightarrow> Size b' = Size b"
  by (auto simp: Bitmap_Set_def Let_def split: if_splits)

section \<open>Properties\<close>

text \<open>
  a bit that is set reads back as it was set, and every other bit reads as before: \<open>Bitmap::Set\<close>
  followed by \<open>Bitmap::Get\<close> is an update of one bit, inside the bounds of the bitmap.
\<close>

theorem bitmap_get_after_set:
  assumes "Bitmap_wf b" "i < Bitmap_nbits b" "j < Bitmap_nbits b"
  shows "\<exists>b'. Bitmap_Set b i v = Inr (True, b') \<and> Bitmap_wf b' \<and>
    Bitmap_Get b' j = (if j = i then Inr v else Bitmap_Get b j)"
proof -
  obtain b' where b': "Bitmap_Set b i v = Inr (True, b')" "Bitmap_wf b'"
    "Bitmap_nbits b' = Bitmap_nbits b" "Bitmap_bit b' = (Bitmap_bit b)(i := v)"
    using bm.put_in [OF assms(1,2), of v] by blast
  then show ?thesis using bm.get_in [of b' j] bm.get_in [OF assms(1,3)] assms(3) by auto
qed

theorem bitmap_get_after_set_witness:
  "\<exists>b'. Bitmap_Set \<lparr>Size = 2, Buffer = [0x80, 0]\<rparr> 9 True = Inr (True, b') \<and>
    Bitmap_Get b' 0 = Bitmap_Get \<lparr>Size = 2, Buffer = [0x80, 0]\<rparr> 0"
  using bitmap_get_after_set [of "\<lparr>Size = 2, Buffer = [0x80, 0]\<rparr>" 9 0 True]
  by (auto simp: Bitmap_wf_def Bitmap_nbits_def)

text \<open>
  C6: the bound test of \<open>Bitmap::Get\<close> and \<open>Bitmap::Set\<close> lets the index \<open>Size * 8\<close> through: both
  access the byte after the buffer.
\<close>

theorem bitmap_bound_is_off_by_one:
  "Bitmap_wf b \<Longrightarrow> Bitmap_Get b (Size b * 8) = Inl OutOfBounds \<and>
     Bitmap_Set b (Size b * 8) v = Inl OutOfBounds"
  using bm.get_end [of b] bm.put_end [of b v] by (simp add: Bitmap_nbits_def)

theorem bitmap_bound_is_off_by_one_witness:
  "Bitmap_Get \<lparr>Size = 1, Buffer = [0xFF]\<rparr> 8 = Inl OutOfBounds \<and>
   Bitmap_Set \<lparr>Size = 1, Buffer = [0xFF]\<rparr> 8 False = Inl OutOfBounds"
  using bitmap_bound_is_off_by_one [of "\<lparr>Size = 1, Buffer = [0xFF]\<rparr>" False]
  by (simp add: Bitmap_wf_def)

end
