(* ===== verification/Physical.thy ===== *)
theory Physical
  imports Bitmap
begin

section \<open>The physical page allocator\<close>

text \<open>
  Models \<open>class Memory::Physical\<close> (\<open>src/Kernel/core/memory/pmm.cpp\<close>,
  \<open>src/Kernel/include/memory/physical.hpp\<close>): one bit per page of physical memory, four byte counters,
  and a hint \<open>PageBitmapIndex\<close> from which the search for a free page starts. Every public operation
  takes the object's lock for its whole body, so an operation is one step of the state.

  An allocation that finds no page kills the current process and yields, or ends in \<open>CPU::Stop\<close> or
  \<open>CPU::Halt\<close>; it does not return to its caller, and is the fault \<open>OutOfMemory\<close>. The counters are \<open>fetch_add\<close> and \<open>fetch_sub\<close> on 64-bit
  atomics and wrap around.
\<close>

record physical =
  TotalMemory :: u64
  FreeMemory :: u64
  ReservedMemory :: u64
  UsedMemory :: u64
  PageBitmapIndex :: u64
  PageBitmap :: bitmap

subsection \<open>Counters and swapping\<close>

definition Physical_GetTotalMemory :: "physical \<Rightarrow> u64" where
  "Physical_GetTotalMemory p = TotalMemory p"

definition Physical_GetFreeMemory :: "physical \<Rightarrow> u64" where
  "Physical_GetFreeMemory p = FreeMemory p"

definition Physical_GetReservedMemory :: "physical \<Rightarrow> u64" where
  "Physical_GetReservedMemory p = ReservedMemory p"

definition Physical_GetUsedMemory :: "physical \<Rightarrow> u64" where
  "Physical_GetUsedMemory p = UsedMemory p"

text \<open>Swapping is not implemented: \<open>SwapPage\<close> and \<open>UnswapPage\<close> log and return false.\<close>

definition Physical_SwapPage :: "u64 \<Rightarrow> bool" where
  "Physical_SwapPage Address = False"

definition Physical_UnswapPage :: "u64 \<Rightarrow> bool" where
  "Physical_UnswapPage Address = False"

function SwapPages_loop :: "(u64 \<Rightarrow> bool) \<Rightarrow> u64 \<Rightarrow> u64 \<Rightarrow> u64 \<Rightarrow> bool" where
  "SwapPages_loop swap Address PageCount i =
     (if i < PageCount then
        if \<not> swap (Address + i * PAGE_SIZE) then False
        else SwapPages_loop swap Address PageCount (i + 1)
      else False)"
  by pat_completeness auto
termination
  by (relation "measure (\<lambda>(_, _, n, i). unat n - unat i)") (simp_all add: word_inc_measure)

definition Physical_SwapPages :: "u64 \<Rightarrow> u64 \<Rightarrow> bool" where
  "Physical_SwapPages Address PageCount = SwapPages_loop Physical_SwapPage Address PageCount 0"

definition Physical_UnswapPages :: "u64 \<Rightarrow> u64 \<Rightarrow> bool" where
  "Physical_UnswapPages Address PageCount = SwapPages_loop Physical_UnswapPage Address PageCount 0"

subsection \<open>Locking and freeing pages\<close>

definition Physical_LockPage :: "physical \<Rightarrow> u64 \<Rightarrow> physical res" where
  "Physical_LockPage p Address =
     (let Index = Address div PAGE_SIZE in
      rbind (Bitmap_Get (PageBitmap p) Index) (\<lambda>locked.
        if locked then Inr p
        else rbind (Bitmap_Set (PageBitmap p) Index True) (\<lambda>(ok, bm).
          let p' = p\<lparr>PageBitmap := bm\<rparr> in
          Inr (if ok then p'\<lparr>FreeMemory := FreeMemory p' - PAGE_SIZE,
                             UsedMemory := UsedMemory p' + PAGE_SIZE\<rparr> else p'))))"

definition Physical_LockPages :: "physical \<Rightarrow> u64 \<Rightarrow> u64 \<Rightarrow> physical res" where
  "Physical_LockPages p Address PageCount =
     for_range 0 PageCount (\<lambda>i q. Physical_LockPage q (Address + i * PAGE_SIZE)) p"

definition Physical_FreePage :: "physical \<Rightarrow> u64 \<Rightarrow> physical res" where
  "Physical_FreePage p Address =
     (if Address = 0 then Inr p
      else let Index = Address div PAGE_SIZE in
      rbind (Bitmap_Get (PageBitmap p) Index) (\<lambda>locked.
        if \<not> locked then Inr p
        else rbind (Bitmap_Set (PageBitmap p) Index False) (\<lambda>(ok, bm).
          let p' = p\<lparr>PageBitmap := bm\<rparr> in
          Inr (if ok then p'\<lparr>FreeMemory := FreeMemory p' + PAGE_SIZE,
                             UsedMemory := UsedMemory p' - PAGE_SIZE,
                             PageBitmapIndex :=
                               (if PageBitmapIndex p' > Index then Index else PageBitmapIndex p')\<rparr>
               else p'))))"

definition Physical_FreePages :: "physical \<Rightarrow> u64 \<Rightarrow> u64 \<Rightarrow> physical res" where
  "Physical_FreePages p Address Count =
     (if Address = 0 \<or> Count = 0 then Inr p
      else for_range 0 Count (\<lambda>t q. Physical_FreePage q (Address + t * PAGE_SIZE)) p)"

subsection \<open>Reserving pages\<close>

definition Physical_ReservePage :: "physical \<Rightarrow> u64 \<Rightarrow> physical res" where
  "Physical_ReservePage p Address =
     (let Index = (if Address = 0 then 0 else Address div PAGE_SIZE) in
      rbind (Bitmap_Get (PageBitmap p) Index) (\<lambda>locked.
        if locked then Inr p
        else rbind (Bitmap_Set (PageBitmap p) Index True) (\<lambda>(ok, bm).
          let p' = p\<lparr>PageBitmap := bm\<rparr> in
          Inr (if ok then p'\<lparr>FreeMemory := FreeMemory p' - PAGE_SIZE,
                             ReservedMemory := ReservedMemory p' + PAGE_SIZE\<rparr> else p'))))"

text \<open>The body of the loop of \<open>ReservePages\<close>; \<open>continue\<close> on a page that is already set.\<close>

definition ReservePages_body :: "u64 \<Rightarrow> u64 \<Rightarrow> physical \<Rightarrow> physical res" where
  "ReservePages_body Address t p =
     (let Index = (Address + t * PAGE_SIZE) div PAGE_SIZE in
      rbind (Bitmap_Get (PageBitmap p) Index) (\<lambda>locked.
        if locked then Inr p
        else rbind (Bitmap_Set (PageBitmap p) Index True) (\<lambda>(ok, bm).
          let p' = p\<lparr>PageBitmap := bm\<rparr> in
          Inr (if ok then p'\<lparr>FreeMemory := FreeMemory p' - PAGE_SIZE,
                             ReservedMemory := ReservedMemory p' + PAGE_SIZE\<rparr> else p'))))"

definition Physical_ReservePages :: "physical \<Rightarrow> u64 \<Rightarrow> u64 \<Rightarrow> physical res" where
  "Physical_ReservePages p Address PageCount =
     for_range 0 PageCount (ReservePages_body Address) p"

definition Physical_UnreservePage :: "physical \<Rightarrow> u64 \<Rightarrow> physical res" where
  "Physical_UnreservePage p Address =
     (let Index = (if Address = 0 then 0 else Address div PAGE_SIZE) in
      rbind (Bitmap_Get (PageBitmap p) Index) (\<lambda>locked.
        if \<not> locked then Inr p
        else rbind (Bitmap_Set (PageBitmap p) Index False) (\<lambda>(ok, bm).
          let p' = p\<lparr>PageBitmap := bm\<rparr> in
          Inr (if ok then p'\<lparr>FreeMemory := FreeMemory p' + PAGE_SIZE,
                             ReservedMemory := ReservedMemory p' - PAGE_SIZE,
                             PageBitmapIndex :=
                               (if PageBitmapIndex p' > Index then Index else PageBitmapIndex p')\<rparr>
               else p'))))"

text \<open>\<open>UnreservePages\<close> returns at the first page of the range that is not set.\<close>

function UnreservePages_loop :: "u64 \<Rightarrow> u64 \<Rightarrow> u64 \<Rightarrow> physical \<Rightarrow> physical res" where
  "UnreservePages_loop Address PageCount t p =
     (if t < PageCount then
        let Index = (Address + t * PAGE_SIZE) div PAGE_SIZE in
        rbind (Bitmap_Get (PageBitmap p) Index) (\<lambda>locked.
          if \<not> locked then Inr p
          else rbind (Bitmap_Set (PageBitmap p) Index False) (\<lambda>r.
            let p' = p\<lparr>PageBitmap := snd r\<rparr> in
            UnreservePages_loop Address PageCount (t + 1)
              (if fst r then p'\<lparr>FreeMemory := FreeMemory p' + PAGE_SIZE,
                                ReservedMemory := ReservedMemory p' - PAGE_SIZE,
                                PageBitmapIndex :=
                                  (if PageBitmapIndex p' > Index then Index else PageBitmapIndex p')\<rparr>
               else p')))
      else Inr p)"
  by pat_completeness auto
termination
  by (relation "measure (\<lambda>(_, n, t, _). unat n - unat t)") (simp_all add: word_inc_measure)

definition Physical_UnreservePages :: "physical \<Rightarrow> u64 \<Rightarrow> u64 \<Rightarrow> physical res" where
  "Physical_UnreservePages p Address PageCount = UnreservePages_loop Address PageCount 0 p"

subsection \<open>Requesting pages\<close>

text \<open>The loop of \<open>RequestPage\<close>: the index at which it stops, a clear bit or the end.\<close>

function RequestPage_scan :: "bitmap \<Rightarrow> u64 \<Rightarrow> u64 res" where
  "RequestPage_scan bm i =
     (if i < Size bm * 8 then
        rbind (Bitmap_Get bm i) (\<lambda>b. if b then RequestPage_scan bm (i + 1) else Inr i)
      else Inr i)"
  by pat_completeness auto
termination
  by (relation "measure (\<lambda>(bm, i). unat (Size bm * 8) - unat i)") (simp_all add: word_inc_measure)

definition Physical_RequestPage :: "physical \<Rightarrow> (u64 \<times> physical) res" where
  "Physical_RequestPage p =
     rbind (RequestPage_scan (PageBitmap p) (PageBitmapIndex p)) (\<lambda>i.
       let p = p\<lparr>PageBitmapIndex := i\<rparr> in
       if i < Size (PageBitmap p) * 8 then
         rbind (Physical_LockPage p (i * PAGE_SIZE)) (\<lambda>p'. Inr (i * PAGE_SIZE, p'))
       else if Physical_SwapPage (i * PAGE_SIZE) then
         rbind (Physical_LockPage p (i * PAGE_SIZE)) (\<lambda>p'. Inr (i * PAGE_SIZE, p'))
       else Inl OutOfMemory)"

text \<open>
  \<open>RequestPages\<close> is three nested loops. The innermost one tests \<open>Count\<close> consecutive pages and
  jumps to \<open>NextPage\<close> at the first set bit.
\<close>

function RequestPages_run :: "bitmap \<Rightarrow> u64 \<Rightarrow> u64 \<Rightarrow> u64 \<Rightarrow> bool res" where
  "RequestPages_run bm Index Count i =
     (if i < Count then
        rbind (Bitmap_Get bm (Index + i)) (\<lambda>b.
          if b then Inr False else RequestPages_run bm Index Count (i + 1))
      else Inr True)"
  by pat_completeness auto
termination
  by (relation "measure (\<lambda>(_, _, n, i). unat n - unat i)") (simp_all add: word_inc_measure)

text \<open>
  The middle loop advances \<open>Index\<close> by one past a set bit and by \<open>Count + 1\<close> past a run that is
  too short. The sum may wrap around, so the loop may not end; its only variable is the 64-bit
  \<open>Index\<close>, and a run of \<open>2 ^ 64\<close> iterations that has not ended repeats a value and never ends. With
  that much fuel, running out of it is exactly divergence.
\<close>

fun RequestPages_inner :: "nat \<Rightarrow> bitmap \<Rightarrow> u64 \<Rightarrow> u64 \<Rightarrow> u64 option res" where
  "RequestPages_inner fuel bm Count Index =
     (if fuel = 0 then Inl Diverges
      else if Index < Size bm * 8 then
        rbind (Bitmap_Get bm Index) (\<lambda>b.
          if b then RequestPages_inner (fuel - 1) bm Count (Index + 1)
          else rbind (RequestPages_run bm Index Count 0) (\<lambda>ok.
            if ok then Inr (Some Index)
            else RequestPages_inner (fuel - 1) bm Count (Index + Count + 1)))
      else Inr None)"

text \<open>The outer loop: the value of \<open>PageBitmapIndex\<close> it leaves and the page it found.\<close>

function RequestPages_outer :: "bitmap \<Rightarrow> u64 \<Rightarrow> u64 \<Rightarrow> (u64 \<times> u64 option) res" where
  "RequestPages_outer bm Count i =
     (if i < Size bm * 8 then
        rbind (Bitmap_Get bm i) (\<lambda>b.
          if b then RequestPages_outer bm Count (i + 1)
          else rbind (RequestPages_inner (2 ^ 64) bm Count i) (\<lambda>r.
            case r of Some Index \<Rightarrow> Inr (i, Some Index)
            | None \<Rightarrow> RequestPages_outer bm Count (i + 1)))
      else Inr (i, None))"
  by pat_completeness auto
termination
  by (relation "measure (\<lambda>(bm, _, i). unat (Size bm * 8) - unat i)") (simp_all add: word_inc_measure)

definition Physical_RequestPages :: "physical \<Rightarrow> u64 \<Rightarrow> (u64 \<times> physical) res" where
  "Physical_RequestPages p Count =
     rbind (RequestPages_outer (PageBitmap p) Count (PageBitmapIndex p)) (\<lambda>(i, r).
       let p = p\<lparr>PageBitmapIndex := i\<rparr> in
       case r of
         Some Index \<Rightarrow>
           rbind (Physical_LockPages p (Index * PAGE_SIZE) Count) (\<lambda>p'. Inr (Index * PAGE_SIZE, p'))
       | None \<Rightarrow>
           if Physical_SwapPages (i * PAGE_SIZE) Count then
             rbind (Physical_LockPages p (i * PAGE_SIZE) Count) (\<lambda>p'. Inr (i * PAGE_SIZE, p'))
           else Inl OutOfMemory)"

subsection \<open>Initialization\<close>

text \<open>
  \<open>Physical::Init\<close> up to its call of \<open>ReserveEssentials\<close>: the counters start at the values the class
  declares (zero), the bitmap has one bit per page and one byte more, all clear.
\<close>

definition Physical_Init_state :: "u64 \<Rightarrow> physical" where
  "Physical_Init_state MemorySize =
     (let BitmapSize = MemorySize div PAGE_SIZE div 8 + 1 in
      \<lparr>TotalMemory = MemorySize, FreeMemory = MemorySize, ReservedMemory = 0, UsedMemory = 0,
       PageBitmapIndex = 0,
       PageBitmap = \<lparr>Size = BitmapSize, Buffer = replicate (unat BitmapSize) 0\<rparr>\<rparr>)"

declare UnreservePages_loop.simps [simp del] RequestPage_scan.simps [simp del]
  RequestPages_run.simps [simp del] RequestPages_inner.simps [simp del]
  RequestPages_outer.simps [simp del] SwapPages_loop.simps [simp del]

section \<open>One page at a time\<close>

text \<open>
  The operations on one page share a shape: test the bit, set it to \<open>v\<close>, adjust the counters when
  it changed.
\<close>

abbreviation pbit :: "physical \<Rightarrow> u64 \<Rightarrow> bool" where
  "pbit p \<equiv> Bitmap_bit (PageBitmap p)"

abbreviation npages :: "physical \<Rightarrow> u64" where
  "npages p \<equiv> Bitmap_nbits (PageBitmap p)"

text \<open>
  Well-formedness: the bitmap is one allocation of \<open>Size\<close> bytes, and every page it describes has a
  64-bit address.
\<close>

definition phys_wf :: "physical \<Rightarrow> bool" where
  "phys_wf p \<longleftrightarrow> Bitmap_wf (PageBitmap p) \<and> unat (Size (PageBitmap p)) * 8 * 4096 < 2 ^ 64"

text \<open>
  The books: every byte of memory is free, used or reserved, and a page is used or reserved exactly
  when its bit is set.
\<close>

definition phys_acct :: "physical \<Rightarrow> bool" where
  "phys_acct p \<longleftrightarrow>
     FreeMemory p + UsedMemory p + ReservedMemory p = TotalMemory p \<and>
     UsedMemory p + ReservedMemory p = of_nat (bm.ones (PageBitmap p)) * PAGE_SIZE"

text \<open>The hint is sound when every page below it is taken.\<close>

definition hint_ok :: "physical \<Rightarrow> bool" where
  "hint_ok p \<longleftrightarrow> (\<forall>i. i < PageBitmapIndex p \<longrightarrow> i < npages p \<longrightarrow> pbit p i)"

definition free_pages :: "physical \<Rightarrow> u64 set" where
  "free_pages p = {i. i < npages p \<and> \<not> pbit p i}"

definition page_update :: "physical \<Rightarrow> u64 \<Rightarrow> bool \<Rightarrow> (physical \<Rightarrow> physical) \<Rightarrow> physical res" where
  "page_update p i v adj =
     rbind (Bitmap_Get (PageBitmap p) i) (\<lambda>b.
       if b = v then Inr p
       else rbind (Bitmap_Set (PageBitmap p) i v) (\<lambda>(ok, bm).
         let p' = p\<lparr>PageBitmap := bm\<rparr> in Inr (if ok then adj p' else p')))"

definition adj_lock :: "physical \<Rightarrow> physical" where
  "adj_lock p = p\<lparr>FreeMemory := FreeMemory p - PAGE_SIZE, UsedMemory := UsedMemory p + PAGE_SIZE\<rparr>"

definition adj_reserve :: "physical \<Rightarrow> physical" where
  "adj_reserve p =
     p\<lparr>FreeMemory := FreeMemory p - PAGE_SIZE, ReservedMemory := ReservedMemory p + PAGE_SIZE\<rparr>"

definition adj_free :: "u64 \<Rightarrow> physical \<Rightarrow> physical" where
  "adj_free i p =
     p\<lparr>FreeMemory := FreeMemory p + PAGE_SIZE, UsedMemory := UsedMemory p - PAGE_SIZE,
       PageBitmapIndex := (if PageBitmapIndex p > i then i else PageBitmapIndex p)\<rparr>"

definition adj_unreserve :: "u64 \<Rightarrow> physical \<Rightarrow> physical" where
  "adj_unreserve i p =
     p\<lparr>FreeMemory := FreeMemory p + PAGE_SIZE, ReservedMemory := ReservedMemory p - PAGE_SIZE,
       PageBitmapIndex := (if PageBitmapIndex p > i then i else PageBitmapIndex p)\<rparr>"

lemmas adj_defs = adj_lock_def adj_reserve_def adj_free_def adj_unreserve_def

lemma LockPage_eq: "Physical_LockPage p a = page_update p (a div PAGE_SIZE) True adj_lock"
  by (simp add: Physical_LockPage_def page_update_def adj_defs Let_def cong: if_cong)

lemma FreePage_eq:
  "Physical_FreePage p a =
     (if a = 0 then Inr p else page_update p (a div PAGE_SIZE) False (adj_free (a div PAGE_SIZE)))"
  by (simp add: Physical_FreePage_def page_update_def adj_defs Let_def cong: if_cong)

lemma ReservePage_eq: "Physical_ReservePage p a = page_update p (a div PAGE_SIZE) True adj_reserve"
  by (simp add: Physical_ReservePage_def page_update_def adj_defs Let_def cong: if_cong)

lemma ReservePages_body_eq:
  "ReservePages_body a t p = page_update p ((a + t * PAGE_SIZE) div PAGE_SIZE) True adj_reserve"
  by (simp add: ReservePages_body_def page_update_def adj_defs Let_def cong: if_cong)

lemma UnreservePage_eq:
  "Physical_UnreservePage p a =
     page_update p (a div PAGE_SIZE) False (adj_unreserve (a div PAGE_SIZE))"
  by (simp add: Physical_UnreservePage_def page_update_def adj_defs Let_def cong: if_cong)

lemma page_update_cases:
  assumes "phys_wf p" "page_update p i v adj = Inr p'"
  obtains (same) "p' = p" "pbit p i = v \<or> npages p < i"
    | (changed) bm where "i < npages p" "pbit p i \<noteq> v" "Bitmap_wf bm"
        "Bitmap_nbits bm = npages p" "Size bm = Size (PageBitmap p)"
        "Bitmap_bit bm = (pbit p)(i := v)" "p' = adj (p\<lparr>PageBitmap := bm\<rparr>)"
proof -
  have wf: "Bitmap_wf (PageBitmap p)" using assms(1) by (simp add: phys_wf_def)
  from assms(2) obtain b where b: "Bitmap_Get (PageBitmap p) i = Inr b"
    and k: "(if b = v then Inr p else rbind (Bitmap_Set (PageBitmap p) i v) (\<lambda>(ok, bm).
         let p' = p\<lparr>PageBitmap := bm\<rparr> in Inr (if ok then adj p' else p'))) = Inr p'"
    by (auto simp: page_update_def res_simps)
  show thesis
  proof (rule bm.get_Inr_cases [OF wf b])
    assume i: "i < npages p" "b = pbit p i"
    show thesis
    proof (cases "b = v")
      case True
      with i k show thesis by (intro same) auto
    next
      case False
      with k obtain ok bm where s: "Bitmap_Set (PageBitmap p) i v = Inr (ok, bm)"
        "p' = (if ok then adj (p\<lparr>PageBitmap := bm\<rparr>) else p\<lparr>PageBitmap := bm\<rparr>)"
        by (auto simp: res_simps Let_def)
      from bm.put_Inr_cases [OF wf s(1)] i have "ok" "Bitmap_wf bm" "Bitmap_nbits bm = npages p"
        "Bitmap_bit bm = (pbit p)(i := v)" by auto
      with False i s Bitmap_Set_Size [OF s(1)] show thesis by (intro changed) auto
    qed
  next
    assume i: "npages p < i" "\<not> b"
    with k bm.put_out [OF i(1)] have "p' = p" by (auto simp: Let_def split: if_splits)
    with i(1) show thesis by (intro same) auto
  qed
qed

text \<open>What one update keeps: the shape of the bitmap, the books and the hint.\<close>

definition phys_inv :: "physical \<Rightarrow> bool" where
  "phys_inv p \<longleftrightarrow> phys_wf p \<and> phys_acct p \<and> hint_ok p"

lemma adj_frame:
  assumes "adj \<in> {adj_lock, adj_reserve, adj_free i, adj_unreserve i}"
  shows "PageBitmap (adj p) = PageBitmap p" "TotalMemory (adj p) = TotalMemory p"
  using assms by (auto simp: adj_defs)

lemma page_update_wf:
  assumes "phys_wf p" "page_update p i v adj = Inr p'"
    and "adj \<in> {adj_lock, adj_reserve, adj_free i, adj_unreserve i}"
  shows "phys_wf p'" and "npages p' = npages p" and "TotalMemory p' = TotalMemory p"
    and "i < npages p \<Longrightarrow> pbit p' = (pbit p)(i := v)"
proof -
  have "phys_wf p' \<and> npages p' = npages p \<and> TotalMemory p' = TotalMemory p \<and>
    (i < npages p \<longrightarrow> pbit p' = (pbit p)(i := v))"
    using assms(1,2)
  proof (cases rule: page_update_cases)
    case same
    with assms(1) show ?thesis by (auto simp: fun_eq_iff)
  next
    case (changed bm)
    then show ?thesis using assms(1) by (simp add: adj_frame [OF assms(3)] phys_wf_def)
  qed
  then show "phys_wf p'" "npages p' = npages p" "TotalMemory p' = TotalMemory p"
    "i < npages p \<Longrightarrow> pbit p' = (pbit p)(i := v)" by simp_all
qed

lemma page_update_acct_set:
  assumes "phys_wf p" "page_update p i True adj = Inr p'" "phys_acct p"
    and "adj = adj_lock \<or> adj = adj_reserve"
  shows "phys_acct p'"
  using assms(1,2)
proof (cases rule: page_update_cases)
  case same
  with assms(3) show ?thesis by simp
next
  case (changed bm)
  have "bm.ones bm = Suc (bm.ones (PageBitmap p))"
    by (rule bm.ones_set) (use changed in auto)
  with changed assms(3,4) show ?thesis
    by (auto simp: phys_acct_def adj_defs algebra_simps)
qed

lemma page_update_acct_clear:
  assumes "phys_wf p" "page_update p i False adj = Inr p'" "phys_acct p"
    and "adj = adj_free j \<or> adj = adj_unreserve j"
  shows "phys_acct p'"
  using assms(1,2)
proof (cases rule: page_update_cases)
  case same
  with assms(3) show ?thesis by simp
next
  case (changed bm)
  have "Suc (bm.ones bm) = bm.ones (PageBitmap p)"
    by (rule bm.ones_clear) (use changed in auto)
  then have "of_nat (bm.ones (PageBitmap p)) = (of_nat (bm.ones bm) + 1 :: u64)"
    by (metis of_nat_Suc add.commute)
  with changed assms(3,4) show ?thesis
    by (auto simp: phys_acct_def adj_defs algebra_simps)
qed

lemma page_update_hint_set:
  assumes "phys_wf p" "page_update p i True adj = Inr p'" "hint_ok p"
    and "adj = adj_lock \<or> adj = adj_reserve"
  shows "hint_ok p'"
  using assms(1,2)
proof (cases rule: page_update_cases)
  case same
  with assms(3) show ?thesis by simp
next
  case (changed bm)
  then have "PageBitmapIndex p' = PageBitmapIndex p" "PageBitmap p' = bm"
    using assms(4) by (auto simp: adj_defs)
  with assms(3) changed(4,6) show ?thesis by (simp add: hint_ok_def)
qed

lemma page_update_hint_clear:
  assumes "phys_wf p" "page_update p i False adj = Inr p'" "hint_ok p"
    and "adj = adj_free i \<or> adj = adj_unreserve i"
  shows "hint_ok p'"
  using assms(1,2)
proof (cases rule: page_update_cases)
  case same
  with assms(3) show ?thesis by simp
next
  case (changed bm)
  then have p': "PageBitmapIndex p' = min i (PageBitmapIndex p)" "PageBitmap p' = bm"
    using assms(4) by (auto simp: adj_defs min_def)
  show ?thesis
    using assms(3) changed(4,6) by (auto simp: hint_ok_def p')
qed

text \<open>The single-page operations keep the whole invariant.\<close>

lemma page_update_inv_set:
  assumes "phys_inv p" "page_update p i True adj = Inr p'" "adj = adj_lock \<or> adj = adj_reserve"
  shows "phys_inv p'"
proof -
  have p: "phys_wf p" "phys_acct p" "hint_ok p" using assms(1) by (simp_all add: phys_inv_def)
  have "phys_wf p'" by (rule page_update_wf(1) [OF p(1) assms(2)]) (use assms(3) in auto)
  with page_update_acct_set [OF p(1) assms(2) p(2) assms(3)]
    page_update_hint_set [OF p(1) assms(2) p(3) assms(3)]
  show ?thesis by (simp add: phys_inv_def)
qed

lemma page_update_inv_clear:
  assumes "phys_inv p" "page_update p i False adj = Inr p'"
    and "adj = adj_free i \<or> adj = adj_unreserve i"
  shows "phys_inv p'"
proof -
  have p: "phys_wf p" "phys_acct p" "hint_ok p" using assms(1) by (simp_all add: phys_inv_def)
  have "phys_wf p'" by (rule page_update_wf(1) [OF p(1) assms(2)]) (use assms(3) in auto)
  with page_update_acct_clear [OF p(1) assms(2) p(2) assms(3)]
    page_update_hint_clear [OF p(1) assms(2) p(3) assms(3)]
  show ?thesis by (simp add: phys_inv_def)
qed

text \<open>
  An invariant of the page allocator: a predicate kept by setting and by clearing one bit with its
  counters. Every operation that works page by page keeps such a predicate.
\<close>

locale page_invariant =
  fixes I :: "physical \<Rightarrow> bool"
  assumes keep_set:
    "I p \<Longrightarrow> page_update p i True adj = Inr p' \<Longrightarrow> adj = adj_lock \<or> adj = adj_reserve \<Longrightarrow> I p'"
    and keep_clear:
    "I p \<Longrightarrow> page_update p i False adj = Inr p' \<Longrightarrow> adj = adj_free i \<or> adj = adj_unreserve i \<Longrightarrow> I p'"
begin

lemma LockPage_keeps: "I p \<Longrightarrow> Physical_LockPage p a = Inr p' \<Longrightarrow> I p'"
  by (auto simp: LockPage_eq intro: keep_set)

lemma FreePage_keeps: "I p \<Longrightarrow> Physical_FreePage p a = Inr p' \<Longrightarrow> I p'"
  by (auto simp: FreePage_eq split: if_splits intro: keep_clear)

lemma ReservePage_keeps: "I p \<Longrightarrow> Physical_ReservePage p a = Inr p' \<Longrightarrow> I p'"
  by (auto simp: ReservePage_eq intro: keep_set)

lemma ReservePages_body_keeps: "I p \<Longrightarrow> ReservePages_body a t p = Inr p' \<Longrightarrow> I p'"
  by (auto simp: ReservePages_body_eq intro: keep_set)

lemma UnreservePage_keeps: "I p \<Longrightarrow> Physical_UnreservePage p a = Inr p' \<Longrightarrow> I p'"
  by (auto simp: UnreservePage_eq intro: keep_clear)

lemma for_range_keeps:
  assumes "for_range 0 n body p = Inr p'" "I p"
    and "\<And>k u u'. I u \<Longrightarrow> body k u = Inr u' \<Longrightarrow> I u'"
  shows "I p'"
  by (rule for_range_invariant [OF assms(1), of "\<lambda>_. I"]) (use assms(2,3) in auto)

lemma LockPages_keeps: "I p \<Longrightarrow> Physical_LockPages p a n = Inr p' \<Longrightarrow> I p'"
  unfolding Physical_LockPages_def by (erule for_range_keeps) (auto intro: LockPage_keeps)

lemma FreePages_keeps: "I p \<Longrightarrow> Physical_FreePages p a n = Inr p' \<Longrightarrow> I p'"
  unfolding Physical_FreePages_def
  by (auto split: if_splits elim!: for_range_keeps intro: FreePage_keeps)

lemma ReservePages_keeps: "I p \<Longrightarrow> Physical_ReservePages p a n = Inr p' \<Longrightarrow> I p'"
  unfolding Physical_ReservePages_def
  by (erule for_range_keeps) (auto intro: ReservePages_body_keeps)

lemma UnreservePages_loop_keeps:
  "I p \<Longrightarrow> UnreservePages_loop a n t p = Inr p' \<Longrightarrow> I p'"
proof (induction a n t p rule: UnreservePages_loop.induct)
  case (1 a n t p)
  define i where "i = (a + t * PAGE_SIZE) div PAGE_SIZE"
  show ?case
  proof (cases "t < n")
    case True
    with "1.prems"(2) obtain locked where g: "Bitmap_Get (PageBitmap p) i = Inr locked"
      by (subst (asm) UnreservePages_loop.simps) (auto simp: res_simps Let_def i_def)
    show ?thesis
    proof (cases locked)
      case False
      with True g "1.prems" show ?thesis
        by (subst (asm) UnreservePages_loop.simps) (simp add: Let_def flip: i_def)
    next
      case locked: True
      with True g "1.prems"(2) obtain r where r: "Bitmap_Set (PageBitmap p) i False = Inr r"
        by (subst (asm) UnreservePages_loop.simps) (auto simp: res_simps Let_def simp flip: i_def)
      define q where "q = (let p' = p\<lparr>PageBitmap := snd r\<rparr> in if fst r then adj_unreserve i p' else p')"
      have q: "page_update p i False (adj_unreserve i) = Inr q"
        using g r locked by (simp add: page_update_def q_def Let_def split: prod.splits)
      have rec: "UnreservePages_loop a n (t + 1) q = Inr p'"
        using "1.prems"(2) True g r locked
        by (subst (asm) UnreservePages_loop.simps)
           (simp add: Let_def q_def adj_unreserve_def cong: if_cong flip: i_def)
      have "I q" by (rule keep_clear [OF "1.prems"(1) q]) simp
      then show ?thesis
        using "1.IH" [OF True i_def g _ r refl] rec locked
        by (simp add: q_def Let_def adj_unreserve_def cong: if_cong)
    qed
  next
    case False
    with "1.prems" show ?thesis by (subst (asm) UnreservePages_loop.simps) simp
  qed
qed

lemma UnreservePages_keeps: "I p \<Longrightarrow> Physical_UnreservePages p a n = Inr p' \<Longrightarrow> I p'"
  unfolding Physical_UnreservePages_def by (rule UnreservePages_loop_keeps)

end

definition phys_books :: "u64 \<Rightarrow> physical \<Rightarrow> bool" where
  "phys_books m p \<longleftrightarrow> phys_wf p \<and> phys_acct p \<and> TotalMemory p = m"

interpretation books: page_invariant "phys_books m" for m
proof unfold_locales
  fix p i adj p'
  assume p: "phys_books m p" and u: "page_update p i True adj = Inr p'"
    and adj: "adj = adj_lock \<or> adj = adj_reserve"
  then show "phys_books m p'"
    using page_update_wf(1,3) [of p i True adj p'] page_update_acct_set [of p i adj p'] adj
    unfolding phys_books_def by blast
next
  fix p i adj p'
  assume p: "phys_books m p" and u: "page_update p i False adj = Inr p'"
    and adj: "adj = adj_free i \<or> adj = adj_unreserve i"
  then show "phys_books m p'"
    using page_update_wf(1,3) [of p i False adj p'] page_update_acct_clear [of p i adj p' i] adj
    unfolding phys_books_def by blast
qed

interpretation full: page_invariant phys_inv
  by unfold_locales (rule page_update_inv_set page_update_inv_clear; assumption)+

end
