(* ===== verification/PageRequests.thy ===== *)
theory PageRequests
  imports Physical
begin

section \<open>What the page requests return\<close>

text \<open>
  Lemmas on \<open>Physical::RequestPage\<close> and \<open>Physical::RequestPages\<close> (src/Kernel/core/memory/pmm.cpp):
  which page a request returns, that the pages it returns were free and are now taken, and the
  life of the allocator as a step relation over all its operations.
\<close>

subsection \<open>Addresses and page numbers\<close>

lemma nbits_eq: "Size bm * 8 = Bitmap_nbits bm"
  by (simp add: Bitmap_nbits_def)

lemma unat_npages:
  assumes "phys_wf p"
  shows "unat (npages p) = unat (Size (PageBitmap p)) * 8"
    and "unat (npages p) * 4096 < 2 ^ 64"
proof -
  show *: "unat (npages p) = unat (Size (PageBitmap p)) * 8"
    using assms unat_nbits by (simp add: phys_wf_def Bitmap_wf_def)
  show "unat (npages p) * 4096 < 2 ^ 64"
    using assms by (simp add: phys_wf_def *)
qed

lemma page_div:
  assumes "phys_wf p" "i < npages p"
  shows "i * PAGE_SIZE div PAGE_SIZE = i"
proof -
  have "unat i < unat (npages p)" using assms(2) by (simp add: word_less_nat_alt)
  then have "unat i * 4096 < 2 ^ 64" using unat_npages(2) [OF assms(1)] by linarith
  then have "unat (i * PAGE_SIZE) = unat i * 4096"
    by (simp add: unat_mult_less PAGE_SIZE_def)
  then show ?thesis by (simp add: word_unat_eq_iff unat_div_distrib PAGE_SIZE_def)
qed

lemma page_update_inside:
  assumes "phys_wf p" "i < npages p"
  obtains bm where "Bitmap_wf bm" "Bitmap_nbits bm = npages p" "Size bm = Size (PageBitmap p)"
    "Bitmap_bit bm = (pbit p)(i := v)"
    "page_update p i v adj = Inr (if pbit p i = v then p else adj (p\<lparr>PageBitmap := bm\<rparr>))"
proof -
  have wf: "Bitmap_wf (PageBitmap p)" using assms(1) by (simp add: phys_wf_def)
  obtain bm where bm: "Bitmap_Set (PageBitmap p) i v = Inr (True, bm)" "Bitmap_wf bm"
    "Bitmap_nbits bm = npages p" "Bitmap_bit bm = (pbit p)(i := v)"
    using bm.put_in [OF wf assms(2), of v] by blast
  have "Bitmap_Get (PageBitmap p) i = Inr (pbit p i)" by (rule bm.get_in [OF wf assms(2)])
  then have "page_update p i v adj = Inr (if pbit p i = v then p else adj (p\<lparr>PageBitmap := bm\<rparr>))"
    by (simp add: page_update_def bm(1) Let_def)
  with bm Bitmap_Set_Size [OF bm(1)] show thesis by (intro that [of bm]) auto
qed

subsection \<open>One page\<close>

lemma RequestPage_scan_spec:
  assumes "Bitmap_wf bm"
  shows "\<exists>j. RequestPage_scan bm i = Inr j \<and> i \<le> j \<and>
    (\<forall>k. i \<le> k \<longrightarrow> k < j \<longrightarrow> Bitmap_bit bm k) \<and> (j < Bitmap_nbits bm \<longrightarrow> \<not> Bitmap_bit bm j)"
  using assms
proof (induction bm i rule: RequestPage_scan.induct)
  case (1 bm i)
  show ?case
  proof (cases "i < Bitmap_nbits bm")
    case False
    then show ?thesis by (subst RequestPage_scan.simps) (auto simp: nbits_eq)
  next
    case True
    have g: "Bitmap_Get bm i = Inr (Bitmap_bit bm i)" by (rule bm.get_in [OF "1.prems" True])
    show ?thesis
    proof (cases "Bitmap_bit bm i")
      case False
      with True g show ?thesis by (subst RequestPage_scan.simps) (auto simp: nbits_eq)
    next
      case set: True
      with "1.IH" [OF _ g] True "1.prems" obtain j where j: "RequestPage_scan bm (i + 1) = Inr j"
        "i + 1 \<le> j" "\<forall>k. i + 1 \<le> k \<longrightarrow> k < j \<longrightarrow> Bitmap_bit bm k"
        "j < Bitmap_nbits bm \<longrightarrow> \<not> Bitmap_bit bm j"
        by (auto simp: nbits_eq)
      have "i \<le> k \<Longrightarrow> k < j \<Longrightarrow> Bitmap_bit bm k" for k
        using j(3) set word_inc_le [of i k] by (cases "k = i") auto
      moreover have "i \<le> j" using j(2) True by (simp add: word_le_nat_alt unat_inc)
      moreover have "RequestPage_scan bm i = Inr j"
        using True g set j(1) by (subst RequestPage_scan.simps) (simp add: nbits_eq)
      ultimately show ?thesis using j(4) by auto
    qed
  qed
qed

text \<open>The state after a page \<open>i\<close> is taken.\<close>

definition page_taken :: "physical \<Rightarrow> u64 \<Rightarrow> physical \<Rightarrow> bool" where
  "page_taken p i p' \<longleftrightarrow> phys_wf p' \<and> npages p' = npages p \<and> pbit p' = (pbit p)(i := True) \<and>
     PageBitmapIndex p' = i \<and> TotalMemory p' = TotalMemory p \<and>
     FreeMemory p' = FreeMemory p - PAGE_SIZE \<and> UsedMemory p' = UsedMemory p + PAGE_SIZE \<and>
     ReservedMemory p' = ReservedMemory p"

lemma RequestPage_spec:
  assumes "phys_wf p"
  shows "(Physical_RequestPage p = Inl OutOfMemory \<and>
          (\<forall>i. PageBitmapIndex p \<le> i \<longrightarrow> i < npages p \<longrightarrow> pbit p i)) \<or>
    (\<exists>i p'. Physical_RequestPage p = Inr (i * PAGE_SIZE, p') \<and>
       PageBitmapIndex p \<le> i \<and> i < npages p \<and> \<not> pbit p i \<and>
       (\<forall>k. PageBitmapIndex p \<le> k \<longrightarrow> k < i \<longrightarrow> pbit p k) \<and> page_taken p i p')"
proof -
  have wf: "Bitmap_wf (PageBitmap p)" using assms by (simp add: phys_wf_def)
  obtain j where j: "RequestPage_scan (PageBitmap p) (PageBitmapIndex p) = Inr j"
    "PageBitmapIndex p \<le> j" "\<forall>k. PageBitmapIndex p \<le> k \<longrightarrow> k < j \<longrightarrow> pbit p k"
    "j < npages p \<longrightarrow> \<not> pbit p j"
    using RequestPage_scan_spec [OF wf, of "PageBitmapIndex p"] by blast
  show ?thesis
  proof (cases "j < npages p")
    case False
    then have "Physical_RequestPage p = Inl OutOfMemory"
      by (simp add: Physical_RequestPage_def j(1) nbits_eq Physical_SwapPage_def)
    moreover have "pbit p i" if "PageBitmapIndex p \<le> i" "i < npages p" for i
      using j(3) that False by auto
    ultimately show ?thesis by blast
  next
    case True
    define q where "q = p\<lparr>PageBitmapIndex := j\<rparr>"
    have q: "phys_wf q" "j < npages q" using assms True by (simp_all add: q_def phys_wf_def)
    obtain bm where bm: "Bitmap_wf bm" "Bitmap_nbits bm = npages q" "Size bm = Size (PageBitmap q)"
      "Bitmap_bit bm = (pbit q)(j := True)"
      "page_update q j True adj_lock = Inr (if pbit q j = True then q else adj_lock (q\<lparr>PageBitmap := bm\<rparr>))"
      by (rule page_update_inside [OF q])
    let ?p' = "adj_lock (q\<lparr>PageBitmap := bm\<rparr>)"
    have "Physical_LockPage q (j * PAGE_SIZE) = Inr ?p'"
      using bm(5) j(4) True by (simp add: LockPage_eq page_div [OF q] q_def)
    then have "Physical_RequestPage p = Inr (j * PAGE_SIZE, ?p')"
      using True by (simp add: Physical_RequestPage_def j(1) nbits_eq q_def)
    moreover have "page_taken p j ?p'"
      using bm(1-4) assms by (simp add: page_taken_def adj_defs phys_wf_def q_def)
    ultimately show ?thesis using j True by blast
  qed
qed

subsection \<open>A run of pages\<close>

text \<open>
  Let the bytes of the bitmap be the only ones that can be accessed. Then the scan, which reads the bits in
  order, faults at the first one behind the bitmap, and a run that is found lies inside. The code
  itself has no such bound.
\<close>

lemma RequestPages_run_sound:
  assumes "RequestPages_run bm Index Count i = Inr True" "Bitmap_wf bm"
    and "unat Index + unat i \<le> unat (Bitmap_nbits bm)"
  shows "\<forall>k. unat i \<le> k \<longrightarrow> k < unat Count \<longrightarrow>
    unat Index + k < unat (Bitmap_nbits bm) \<and> \<not> Bitmap_bit bm (Index + of_nat k)"
  using assms
proof (induction bm Index Count i rule: RequestPages_run.induct)
  case (1 bm Index Count i)
  show ?case
  proof (cases "i < Count")
    case False
    then show ?thesis by (auto simp: word_less_nat_alt)
  next
    case True
    have "Bitmap_Get bm (Index + i) = Inr False \<and> RequestPages_run bm Index Count (i + 1) = Inr True"
      using "1.prems"(1) True by (auto simp: RequestPages_run.simps [of bm Index Count i] res_simps split: if_splits)
    then have g: "Bitmap_Get bm (Index + i) = Inr False" and r: "RequestPages_run bm Index Count (i + 1) = Inr True" by simp_all
    have nb: "unat (Bitmap_nbits bm) < 2 ^ 64" by (rule unat_u64)
    then have u: "unat (Index + i) = unat Index + unat i"
      using "1.prems"(3) by (simp add: unat_add_less)
    have "\<not> Bitmap_nbits bm < Index + i" using "1.prems"(3) by (simp add: word_less_nat_alt u)
    with bm.get_Inr_cases [OF "1.prems"(2) g] have i: "Index + i < Bitmap_nbits bm"
      "\<not> Bitmap_bit bm (Index + i)" by auto
    then have lt: "unat Index + unat i < unat (Bitmap_nbits bm)" by (simp add: word_less_nat_alt u)
    have "unat (i + 1) = Suc (unat i)" using True by (rule unat_inc)
    with "1.IH" [OF True g _ r "1.prems"(2)] lt
    have "\<forall>k. Suc (unat i) \<le> k \<longrightarrow> k < unat Count \<longrightarrow>
      unat Index + k < unat (Bitmap_nbits bm) \<and> \<not> Bitmap_bit bm (Index + of_nat k)" by simp
    moreover have "Index + of_nat (unat i) = Index + i" by simp
    ultimately show ?thesis using lt i(2) by (metis Suc_leI le_neq_implies_less)
  qed
qed

lemma RequestPages_inner_sound:
  assumes "RequestPages_inner fuel bm Count i = Inr (Some Index)"
  shows "Index < Bitmap_nbits bm \<and> RequestPages_run bm Index Count 0 = Inr True"
  using assms
proof (induction fuel bm Count i rule: RequestPages_inner.induct)
  case (1 fuel bm Count i)
  then show ?case
    by (subst (asm) (3) RequestPages_inner.simps)
       (auto simp: res_simps nbits_eq split: if_splits)
qed

lemma RequestPages_outer_sound:
  assumes "RequestPages_outer bm Count i = Inr (j, Some Index)"
  shows "Index < Bitmap_nbits bm \<and> RequestPages_run bm Index Count 0 = Inr True"
  using assms
proof (induction bm Count i rule: RequestPages_outer.induct)
  case (1 bm Count i)
  from "1.prems" obtain b where i: "i < Size bm * 8" and b: "Bitmap_Get bm i = Inr b"
    by (subst (asm) RequestPages_outer.simps) (auto simp: res_simps split: if_splits)
  show ?case
  proof (cases b)
    case True
    with "1.prems" i b have "RequestPages_outer bm Count (i + 1) = Inr (j, Some Index)"
      by (subst (asm) RequestPages_outer.simps) simp
    with "1.IH"(1) [OF i b True] show ?thesis .
  next
    case False
    with "1.prems" i b obtain r where r: "RequestPages_inner (2 ^ 64) bm Count i = Inr r"
      and k: "(case r of Some Index \<Rightarrow> Inr (i, Some Index)
        | None \<Rightarrow> RequestPages_outer bm Count (i + 1)) = Inr (j, Some Index)"
      by (subst (asm) RequestPages_outer.simps) (auto simp: res_simps)
    show ?thesis
    proof (cases r)
      case None
      with k "1.IH"(2) [OF i b False r None] show ?thesis by simp
    next
      case (Some I)
      with k r show ?thesis by (auto dest: RequestPages_inner_sound)
    qed
  qed
qed

text \<open>The state after the \<open>n\<close> pages from \<open>i\<close> are taken.\<close>

definition run_taken :: "physical \<Rightarrow> u64 \<Rightarrow> u64 \<Rightarrow> physical \<Rightarrow> bool" where
  "run_taken p i n p' \<longleftrightarrow> phys_wf p' \<and> npages p' = npages p \<and>
     (\<forall>j. pbit p' j \<longleftrightarrow> pbit p j \<or> (unat i \<le> unat j \<and> unat j < unat i + unat n)) \<and>
     PageBitmapIndex p' = PageBitmapIndex p \<and> TotalMemory p' = TotalMemory p \<and>
     FreeMemory p' = FreeMemory p - n * PAGE_SIZE \<and> UsedMemory p' = UsedMemory p + n * PAGE_SIZE \<and>
     ReservedMemory p' = ReservedMemory p"

lemma run_taken_step:
  assumes "run_taken p i k q" "unat i + unat k < unat (npages p)" "\<not> pbit p (i + k)"
  shows "\<exists>q'. Physical_LockPage q (i * PAGE_SIZE + k * PAGE_SIZE) = Inr q' \<and> run_taken p i (k + 1) q'"
proof -
  have nb: "unat (npages p) < 2 ^ 64" by (rule unat_u64)
  then have u: "unat (i + k) = unat i + unat k" using assms(2) by (simp add: unat_add_less)
  have k1: "unat (k + 1) = Suc (unat k)"
    using nb assms(2) by (subst unat_add_less) simp_all
  have q: "phys_wf q" "i + k < npages q" "\<not> pbit q (i + k)"
    using assms u by (auto simp: run_taken_def word_less_nat_alt)
  obtain bm where bm: "Bitmap_wf bm" "Bitmap_nbits bm = npages q" "Size bm = Size (PageBitmap q)"
    "Bitmap_bit bm = (pbit q)(i + k := True)"
    "page_update q (i + k) True adj_lock =
       Inr (if pbit q (i + k) = True then q else adj_lock (q\<lparr>PageBitmap := bm\<rparr>))"
    by (rule page_update_inside [OF q(1,2)])
  let ?q' = "adj_lock (q\<lparr>PageBitmap := bm\<rparr>)"
  have "(i * PAGE_SIZE + k * PAGE_SIZE) div PAGE_SIZE = i + k"
    using page_div [OF q(1,2)] by (simp add: distrib_right)
  then have "Physical_LockPage q (i * PAGE_SIZE + k * PAGE_SIZE) = Inr ?q'"
    using bm(5) q(3) by (simp add: LockPage_eq)
  moreover have "j = i + k \<longleftrightarrow> unat j = unat i + unat k" for j
    by (simp add: word_unat_eq_iff u)
  then have "run_taken p i (k + 1) ?q'"
    using assms(1) bm(1-4) k1
    by (auto simp: run_taken_def adj_defs phys_wf_def algebra_simps)
  ultimately show ?thesis by blast
qed

lemma LockPages_run:
  assumes "phys_wf p" "unat i + unat n \<le> unat (npages p)"
    and "\<And>k. k < unat n \<Longrightarrow> \<not> pbit p (i + of_nat k)"
  shows "\<exists>p'. Physical_LockPages p (i * PAGE_SIZE) n = Inr p' \<and> run_taken p i n p'"
proof -
  have step: "\<exists>q'. Physical_LockPage q (i * PAGE_SIZE + m * PAGE_SIZE) = Inr q' \<and> run_taken p i (m + 1) q'"
    if "m < n" "run_taken p i m q" for m q
    using run_taken_step [OF that(2)] assms(2) assms(3) [of "unat m"] that(1)
    by (simp add: word_less_nat_alt)
  have base: "run_taken p i 0 p" using assms(1) by (auto simp: run_taken_def)
  show ?thesis unfolding Physical_LockPages_def
    by (rule for_range_total [where I = "run_taken p i"]) (use base step in auto)
qed

lemma SwapPages_False [simp]: "\<not> Physical_SwapPages a n" "\<not> Physical_UnswapPages a n"
  unfolding Physical_SwapPages_def Physical_UnswapPages_def
  by (subst SwapPages_loop.simps, simp add: Physical_SwapPage_def Physical_UnswapPage_def)+

lemma RequestPages_spec:
  assumes "phys_wf p" "Physical_RequestPages p n = Inr (a, p')"
  shows "\<exists>i h. a = i * PAGE_SIZE \<and> i < npages p \<and> unat i + unat n \<le> unat (npages p) \<and>
    (\<forall>k < unat n. \<not> pbit p (i + of_nat k)) \<and> run_taken (p\<lparr>PageBitmapIndex := h\<rparr>) i n p'"
proof -
  have wf: "Bitmap_wf (PageBitmap p)" using assms(1) by (simp add: phys_wf_def)
  from assms(2) obtain h r where o: "RequestPages_outer (PageBitmap p) n (PageBitmapIndex p) = Inr (h, r)"
    by (auto simp: Physical_RequestPages_def res_simps)
  with assms(2) obtain i where r: "r = Some i"
    by (cases r) (auto simp: Physical_RequestPages_def)
  let ?q = "p\<lparr>PageBitmapIndex := h\<rparr>"
  from assms(2) o r have a: "a = i * PAGE_SIZE" and l: "Physical_LockPages ?q (i * PAGE_SIZE) n = Inr p'"
    by (auto simp: Physical_RequestPages_def res_simps)
  from RequestPages_outer_sound [OF o [unfolded r]]
  have i: "i < npages p" and run: "RequestPages_run (PageBitmap p) i n 0 = Inr True" by auto
  have i': "unat i < unat (npages p)" using i by (simp add: word_less_nat_alt)
  from RequestPages_run_sound [OF run wf] i'
  have free: "\<forall>k < unat n. unat i + k < unat (npages p) \<and> \<not> pbit p (i + of_nat k)" by simp
  have le: "unat i + unat n \<le> unat (npages p)"
  proof (cases "unat n = 0")
    case False
    then have "unat n - 1 < unat n" by simp
    with free have "unat i + (unat n - 1) < unat (npages p)" by blast
    with False show ?thesis by linarith
  qed (use i' in simp)
  have "phys_wf ?q" using assms(1) by (simp add: phys_wf_def)
  from LockPages_run [OF this, of i n] le free l have "run_taken ?q i n p'" by auto
  with a i le free show ?thesis by blast
qed

text \<open>The state after the \<open>n\<close> pages from \<open>i\<close> are freed.\<close>

definition run_freed :: "physical \<Rightarrow> u64 \<Rightarrow> u64 \<Rightarrow> physical \<Rightarrow> bool" where
  "run_freed p i n p' \<longleftrightarrow> phys_wf p' \<and> npages p' = npages p \<and>
     (\<forall>j. pbit p' j \<longleftrightarrow> pbit p j \<and> \<not> (unat i \<le> unat j \<and> unat j < unat i + unat n)) \<and>
     TotalMemory p' = TotalMemory p \<and>
     FreeMemory p' = FreeMemory p + n * PAGE_SIZE \<and> UsedMemory p' = UsedMemory p - n * PAGE_SIZE \<and>
     ReservedMemory p' = ReservedMemory p"

lemma run_freed_step:
  assumes "run_freed p i k q" "unat i + unat k < unat (npages p)" "pbit p (i + k)" "i \<noteq> 0"
  shows "\<exists>q'. Physical_FreePage q (i * PAGE_SIZE + k * PAGE_SIZE) = Inr q' \<and> run_freed p i (k + 1) q'"
proof -
  have nb: "unat (npages p) < 2 ^ 64" by (rule unat_u64)
  then have u: "unat (i + k) = unat i + unat k" using assms(2) by (simp add: unat_add_less)
  have k1: "unat (k + 1) = Suc (unat k)"
    using nb assms(2) by (subst unat_add_less) simp_all
  have q: "phys_wf q" "i + k < npages q" "pbit q (i + k)"
    using assms u by (auto simp: run_freed_def word_less_nat_alt)
  obtain bm where bm: "Bitmap_wf bm" "Bitmap_nbits bm = npages q" "Size bm = Size (PageBitmap q)"
    "Bitmap_bit bm = (pbit q)(i + k := False)"
    "page_update q (i + k) False (adj_free (i + k)) =
       Inr (if pbit q (i + k) = False then q else adj_free (i + k) (q\<lparr>PageBitmap := bm\<rparr>))"
    by (rule page_update_inside [OF q(1,2)])
  let ?q' = "adj_free (i + k) (q\<lparr>PageBitmap := bm\<rparr>)"
  have d: "(i * PAGE_SIZE + k * PAGE_SIZE) div PAGE_SIZE = i + k"
    using page_div [OF q(1,2)] by (simp add: distrib_right)
  have "i * PAGE_SIZE + k * PAGE_SIZE \<noteq> 0"
  proof
    assume "i * PAGE_SIZE + k * PAGE_SIZE = 0"
    then have "i + k = 0" using d by simp
    with u assms(4) show False by (simp add: unat_eq_0 flip: unat_0)
  qed
  then have "Physical_FreePage q (i * PAGE_SIZE + k * PAGE_SIZE) = Inr ?q'"
    using bm(5) q(3) by (simp add: FreePage_eq d)
  moreover have "j = i + k \<longleftrightarrow> unat j = unat i + unat k" for j
    by (simp add: word_unat_eq_iff u)
  then have "run_freed p i (k + 1) ?q'"
    using assms(1) bm(1-4) k1
    by (auto simp: run_freed_def adj_defs phys_wf_def algebra_simps)
  ultimately show ?thesis by blast
qed

lemma FreePages_run:
  assumes "phys_wf p" "unat i + unat n \<le> unat (npages p)" "i \<noteq> 0"
    and "\<And>k. k < unat n \<Longrightarrow> pbit p (i + of_nat k)"
  shows "\<exists>p'. Physical_FreePages p (i * PAGE_SIZE) n = Inr p' \<and> run_freed p i n p'"
proof -
  have step: "\<exists>q'. Physical_FreePage q (i * PAGE_SIZE + m * PAGE_SIZE) = Inr q' \<and> run_freed p i (m + 1) q'"
    if "m < n" "run_freed p i m q" for m q
    using run_freed_step [OF that(2)] assms(2,3) assms(4) [of "unat m"] that(1)
    by (simp add: word_less_nat_alt)
  have base: "run_freed p i 0 p" using assms(1) by (auto simp: run_freed_def)
  have "\<exists>p'. for_range 0 n (\<lambda>k q. Physical_FreePage q (i * PAGE_SIZE + k * PAGE_SIZE)) p = Inr p' \<and>
      run_freed p i n p'"
    by (rule for_range_total [where I = "run_freed p i"]) (use base step in auto)
  moreover have "n = 0" if "i * PAGE_SIZE = 0"
  proof (rule ccontr)
    assume "n \<noteq> 0"
    then have "i < npages p" using assms(2) unat_gt_0 [of n] by (simp add: word_less_nat_alt)
    from page_div [OF assms(1) this] that assms(3) show False by simp
  qed
  ultimately show ?thesis using base by (auto simp: Physical_FreePages_def)
qed

subsection \<open>The loops end\<close>

text \<open>
  The middle loop ends when \<open>Index + Count + 1\<close> cannot wrap around: each iteration moves \<open>Index\<close>
  forward.
\<close>

lemma Bitmap_Get_not_Diverges [simp]: "Bitmap_Get bm i \<noteq> Inl Diverges"
  by (simp add: Bitmap_Get_def Let_def)

lemma Bitmap_Set_not_Diverges [simp]: "Bitmap_Set bm i v \<noteq> Inl Diverges"
  by (simp add: Bitmap_Set_def Let_def)

lemma page_update_not_Diverges [simp]: "page_update p i v adj \<noteq> Inl Diverges"
  by (auto simp: page_update_def res_simps Let_def split: if_splits prod.splits)

lemma RequestPages_run_not_Diverges [simp]: "RequestPages_run bm Index Count i \<noteq> Inl Diverges"
proof (induction bm Index Count i rule: RequestPages_run.induct)
  case (1 bm Index Count i)
  then show ?case
    by (subst RequestPages_run.simps) (auto simp: res_simps split: if_splits)
qed

lemma RequestPages_inner_ends:
  assumes "unat (Bitmap_nbits bm) + unat Count < 2 ^ 64"
    and "unat (Bitmap_nbits bm) - unat Index < fuel"
  shows "RequestPages_inner fuel bm Count Index \<noteq> Inl Diverges"
  using assms
proof (induction fuel bm Count Index rule: RequestPages_inner.induct)
  case (1 fuel bm Count Index)
  show ?case
  proof (cases "Index < Bitmap_nbits bm")
    case False
    with "1.prems" show ?thesis by (subst RequestPages_inner.simps) (simp add: nbits_eq)
  next
    case True
    then have lt: "unat Index < unat (Bitmap_nbits bm)" by (simp add: word_less_nat_alt)
    have f: "fuel \<noteq> 0" using "1.prems"(2) by simp
    have u1: "unat (Index + 1) = Suc (unat Index)" using True by (rule unat_inc)
    have "unat (Index + Count) = unat Index + unat Count"
      using lt "1.prems"(1) by (simp add: unat_add_less)
    then have u2: "unat (Index + Count + 1) = unat Index + unat Count + 1"
      using lt "1.prems"(1) by (subst unat_add_less) simp_all
    have i1: "RequestPages_inner (fuel - 1) bm Count (Index + 1) \<noteq> Inl Diverges"
      if "Bitmap_Get bm Index = Inr True"
      using "1.IH"(1) [OF f _ that] True "1.prems" lt u1 by (simp add: nbits_eq)
    have i2: "RequestPages_inner (fuel - 1) bm Count (Index + Count + 1) \<noteq> Inl Diverges"
      if "Bitmap_Get bm Index = Inr False" "RequestPages_run bm Index Count 0 = Inr False"
      using "1.IH"(2) [OF f _ that(1) _ that(2)] True "1.prems" lt u2 by (simp add: nbits_eq)
    show ?thesis
      using f i1 i2 by (subst RequestPages_inner.simps) (auto simp: res_simps split: if_splits)
  qed
qed

lemma RequestPages_outer_ends:
  assumes "unat (Bitmap_nbits bm) + unat Count < 2 ^ 64"
  shows "RequestPages_outer bm Count i \<noteq> Inl Diverges"
  using assms
proof (induction bm Count i rule: RequestPages_outer.induct)
  case (1 bm Count i)
  have n: "unat (Bitmap_nbits bm) - unat i < 2 ^ 64"
    using unat_u64 [of "Bitmap_nbits bm"] by linarith
  have inner: "RequestPages_inner (2 ^ 64) bm Count i \<noteq> Inl Diverges"
    by (rule RequestPages_inner_ends [OF "1.prems" n])
  have o1: "RequestPages_outer bm Count (i + 1) \<noteq> Inl Diverges"
    if "i < Size bm * 8" "Bitmap_Get bm i = Inr True"
    by (rule "1.IH"(1) [OF that]) (use "1.prems" in simp_all)
  have o2: "RequestPages_outer bm Count (i + 1) \<noteq> Inl Diverges"
    if "i < Size bm * 8" "Bitmap_Get bm i = Inr False" "RequestPages_inner (2 ^ 64) bm Count i = Inr None"
    by (rule "1.IH"(2) [OF that(1,2) _ that(3)]) (use "1.prems" in simp_all)
  show ?case
  proof (subst RequestPages_outer.simps, intro notI)
    assume "(if i < Size bm * 8 then
        rbind (Bitmap_Get bm i) (\<lambda>b.
          if b then RequestPages_outer bm Count (i + 1)
          else rbind (RequestPages_inner (2 ^ 64) bm Count i) (\<lambda>r.
            case r of Some Index \<Rightarrow> Inr (i, Some Index)
            | None \<Rightarrow> RequestPages_outer bm Count (i + 1)))
      else Inr (i, None)) = Inl Diverges"
    with inner o1 o2 show False
      by (auto simp: res_simps simp del: power_numeral split: if_splits option.splits)
  qed
qed

section \<open>The life of the allocator\<close>

text \<open>
  A step is one call of an operation that returns; a reachable state is what any sequence of calls
  leaves of the state that \<open>Physical::Init\<close> sets up before it reserves the essential pages (which
  are calls of the same operations).
\<close>

inductive phys_step :: "physical \<Rightarrow> physical \<Rightarrow> bool" where
  RequestPage: "Physical_RequestPage p = Inr (a, p') \<Longrightarrow> phys_step p p'"
| RequestPages: "Physical_RequestPages p n = Inr (a, p') \<Longrightarrow> phys_step p p'"
| FreePage: "Physical_FreePage p a = Inr p' \<Longrightarrow> phys_step p p'"
| FreePages: "Physical_FreePages p a n = Inr p' \<Longrightarrow> phys_step p p'"
| LockPage: "Physical_LockPage p a = Inr p' \<Longrightarrow> phys_step p p'"
| LockPages: "Physical_LockPages p a n = Inr p' \<Longrightarrow> phys_step p p'"
| ReservePage: "Physical_ReservePage p a = Inr p' \<Longrightarrow> phys_step p p'"
| ReservePages: "Physical_ReservePages p a n = Inr p' \<Longrightarrow> phys_step p p'"
| UnreservePage: "Physical_UnreservePage p a = Inr p' \<Longrightarrow> phys_step p p'"
| UnreservePages: "Physical_UnreservePages p a n = Inr p' \<Longrightarrow> phys_step p p'"

inductive_cases phys_stepE: "phys_step p p'"

inductive phys_reach :: "u64 \<Rightarrow> physical \<Rightarrow> bool" for m where
  init: "phys_reach m (Physical_Init_state m)"
| step: "phys_reach m p \<Longrightarrow> phys_step p p' \<Longrightarrow> phys_reach m p'"

lemma RequestPages_as_updates:
  assumes "Physical_RequestPages p n = Inr (a, p')"
  obtains h where "Physical_LockPages (p\<lparr>PageBitmapIndex := h\<rparr>) a n = Inr p'"
  using assms by (auto simp: Physical_RequestPages_def res_simps Let_def split: option.splits)

lemma RequestPage_as_updates:
  assumes "Physical_RequestPage p = Inr (a, p')"
  obtains h where "Physical_LockPage (p\<lparr>PageBitmapIndex := h\<rparr>) a = Inr p'"
  using assms
  by (auto simp: Physical_RequestPage_def res_simps Let_def Physical_SwapPage_def split: if_splits)

lemma books_index [simp]: "phys_books m (p\<lparr>PageBitmapIndex := h\<rparr>) = phys_books m p"
  by (simp add: phys_books_def phys_wf_def phys_acct_def)

lemma step_books: "phys_step p p' \<Longrightarrow> phys_books m p \<Longrightarrow> phys_books m p'"
  by (elim phys_stepE RequestPage_as_updates RequestPages_as_updates)
     (use books_index in \<open>blast intro: books.LockPage_keeps books.LockPages_keeps books.FreePage_keeps
       books.FreePages_keeps books.ReservePage_keeps books.ReservePages_keeps
       books.UnreservePage_keeps books.UnreservePages_keeps\<close>)+

lemma Bitmap_zero_bit: "\<not> Bitmap_bit \<lparr>Size = n, Buffer = replicate (unat n) 0\<rparr> i"
proof
  let ?b = "\<lparr>Size = n, Buffer = replicate (unat n) 0\<rparr>"
  assume b: "Bitmap_bit ?b i"
  then have "unat i < unat (n * 8)" by (simp add: Bitmap_bit_def Bitmap_nbits_def word_less_nat_alt)
  also have "\<dots> \<le> unat n * 8" by (simp add: unat_word_ariths)
  finally have "unat i div 8 < unat n" by linarith
  with b show False by (simp add: Bitmap_bit_def)
qed

lemma init_books:
  assumes "unat m < 2 ^ 63"
  shows "phys_books m (Physical_Init_state m)" "hint_ok (Physical_Init_state m)"
proof -
  let ?n = "m div PAGE_SIZE div 8 + 1"
  have n: "unat ?n = unat m div 4096 div 8 + 1"
    using assms by (subst unat_add_less) (simp_all add: PAGE_SIZE_def unat_div_distrib)
  have "bm.ones \<lparr>Size = ?n, Buffer = replicate (unat ?n) 0\<rparr> = 0"
    by (simp add: bm.ones_def Bitmap_zero_bit)
  moreover have "unat ?n * 8 * 4096 < 2 ^ 64" 
  proof -
    have "unat m div 32768 * 32768 \<le> unat m" by simp
    moreover have "unat m div 4096 div 8 = unat m div 32768" by (simp flip: div_mult2_eq)
    ultimately show ?thesis unfolding n using assms by simp
  qed
  moreover from this have "Bitmap_wf \<lparr>Size = ?n, Buffer = replicate (unat ?n) 0\<rparr>"
    by (simp add: Bitmap_wf_def)
  ultimately show "phys_books m (Physical_Init_state m)" "hint_ok (Physical_Init_state m)"
    by (simp_all add: phys_books_def phys_wf_def phys_acct_def Physical_Init_state_def Let_def hint_ok_def)
qed

lemma reach_books: "phys_reach m p \<Longrightarrow> unat m < 2 ^ 63 \<Longrightarrow> phys_books m p"
  by (induction rule: phys_reach.induct) (auto intro: init_books step_books)

subsection \<open>Two concrete states\<close>

definition hint_example :: physical where
  "hint_example =
     \<lparr>TotalMemory = 0x8000, FreeMemory = 0x3000, ReservedMemory = 0, UsedMemory = 0x5000,
      PageBitmapIndex = 0, PageBitmap = \<lparr>Size = 1, Buffer = [0x4F]\<rparr>\<rparr>"

lemmas phys_eval = Let_def hint_example_def Physical_Init_state_def Physical_RequestPages_def
  Physical_RequestPage_def RequestPages_outer.simps RequestPages_inner.simps RequestPages_run.simps
  RequestPage_scan.simps Bitmap_Get_def Bitmap_Set_def bitIndexer_def Physical_LockPages_def
  Physical_LockPage_def for_range.simps PAGE_SIZE_def Physical_SwapPage_def

lemma hint_example_wf: "phys_wf hint_example"
  by (simp add: hint_example_def phys_wf_def Bitmap_wf_def)

lemma hint_example_request: "\<exists>p'. Physical_RequestPages hint_example 2 = Inr (0x2000, p')"
  by (simp add: phys_eval)

lemma init_request: "\<exists>a p'. Physical_RequestPage (Physical_Init_state 0x8000) = Inr (a, p')"
  by (simp add: phys_eval)

section \<open>Properties\<close>

text \<open>
  C1: when the hint is sound, \<open>RequestPage\<close> returns the address of the lowest free page and takes
  exactly that page out of the free ones, keeping the invariant; it runs out of memory only when no
  page is free.
\<close>

theorem request_page_least_free:
  assumes "phys_inv p"
  shows "case Physical_RequestPage p of
      Inl f \<Rightarrow> f = OutOfMemory \<and> free_pages p = {}
    | Inr (a, p') \<Rightarrow> \<exists>i \<in> free_pages p. a = i * PAGE_SIZE \<and> (\<forall>j \<in> free_pages p. i \<le> j) \<and>
        free_pages p' = free_pages p - {i} \<and> phys_inv p'"
proof -
  have p: "phys_wf p" "hint_ok p" using assms by (simp_all add: phys_inv_def)
  from RequestPage_spec [OF p(1)] show ?thesis
  proof (elim disjE conjE exE)
    assume "Physical_RequestPage p = Inl OutOfMemory"
      "\<forall>i\<ge>PageBitmapIndex p. i < npages p \<longrightarrow> pbit p i"
    moreover from this(2) have "free_pages p = {}"
      using p(2) by (auto simp: free_pages_def hint_ok_def) (meson not_le)
    ultimately show ?thesis by simp
  next
    fix i p'
    assume r: "Physical_RequestPage p = Inr (i * PAGE_SIZE, p')" and i: "i < npages p" "\<not> pbit p i"
      and k: "\<forall>k\<ge>PageBitmapIndex p. k < i \<longrightarrow> pbit p k" and t: "page_taken p i p'"
    have low: "pbit p k" if "k < i" for k
      using k p(2) that i(1) by (cases "PageBitmapIndex p \<le> k") (auto simp: hint_ok_def)
    obtain h where "Physical_LockPage (p\<lparr>PageBitmapIndex := h\<rparr>) (i * PAGE_SIZE) = Inr p'"
      by (rule RequestPage_as_updates [OF r])
    moreover have "phys_books (TotalMemory p) p" using assms by (simp add: phys_inv_def phys_books_def)
    ultimately have "phys_books (TotalMemory p) p'" 
      using books.LockPage_keeps [of "TotalMemory p" "p\<lparr>PageBitmapIndex := h\<rparr>"] by simp
    with t low have "phys_inv p'" by (auto simp: phys_inv_def phys_books_def hint_ok_def page_taken_def)
    moreover have "free_pages p' = free_pages p - {i}" using t by (auto simp: free_pages_def page_taken_def)
    moreover have "\<forall>j \<in> free_pages p. i \<le> j" using low by (force simp: free_pages_def)
    ultimately show ?thesis using r i by (auto simp: free_pages_def)
  qed
qed

theorem request_page_least_free_witness:
  "phys_inv (Physical_Init_state 0x8000) \<and> (case Physical_RequestPage (Physical_Init_state 0x8000) of
      Inl f \<Rightarrow> f = OutOfMemory \<and> free_pages (Physical_Init_state 0x8000) = {}
    | Inr (a, p') \<Rightarrow> \<exists>i \<in> free_pages (Physical_Init_state 0x8000). a = i * PAGE_SIZE \<and>
        (\<forall>j \<in> free_pages (Physical_Init_state 0x8000). i \<le> j) \<and>
        free_pages p' = free_pages (Physical_Init_state 0x8000) - {i} \<and> phys_inv p')"
proof -
  have "phys_inv (Physical_Init_state 0x8000)"
    using init_books [of "0x8000"] by (simp add: phys_inv_def phys_books_def)
  with request_page_least_free [OF this] show ?thesis by blast
qed

text \<open>
  C3: in every state the allocator reaches, the free, used and reserved bytes add up to the memory
  of the machine, and the used and reserved ones are a page for each bit that is set.
\<close>

theorem memory_accounting:
  assumes "phys_reach m p" "unat m < 2 ^ 63"
  shows "FreeMemory p + UsedMemory p + ReservedMemory p = m \<and>
    UsedMemory p + ReservedMemory p = of_nat (card {i. pbit p i}) * PAGE_SIZE"
  using reach_books [OF assms] by (simp add: phys_books_def phys_acct_def bm.ones_def)

theorem memory_accounting_witness:
  "\<exists>p. phys_reach 0x8000 p \<and> (\<exists>i. pbit p i) \<and> FreeMemory p + UsedMemory p + ReservedMemory p = 0x8000 \<and>
    UsedMemory p + ReservedMemory p = of_nat (card {i. pbit p i}) * PAGE_SIZE"
proof -
  have wf: "phys_wf (Physical_Init_state 0x8000)"
    using init_books(1) [of "0x8000"] by (simp add: phys_books_def)
  obtain a p where p: "Physical_RequestPage (Physical_Init_state 0x8000) = Inr (a, p)"
    using init_request by blast
  then have r: "phys_reach 0x8000 p" 
    by (rule phys_reach.step [OF phys_reach.init phys_step.RequestPage])
  obtain i where "page_taken (Physical_Init_state 0x8000) i p"
    using RequestPage_spec [OF wf] unfolding p by (elim disjE exE conjE) simp_all
  then have "pbit p i" by (simp add: page_taken_def)
  with r memory_accounting [OF r] show ?thesis by (intro exI [of _ p]) auto
qed

text \<open>
  C4: \<open>FreePages\<close> undoes \<open>RequestPages\<close>: the same pages are free and the counters are back, for any
  run that does not start at the page of the null address.
\<close>

theorem free_pages_undoes_request_pages:
  assumes "phys_wf p" "Physical_RequestPages p n = Inr (a, p')" "a \<noteq> 0"
  shows "\<exists>p''. Physical_FreePages p' a n = Inr p'' \<and> free_pages p'' = free_pages p \<and>
    FreeMemory p'' = FreeMemory p \<and> UsedMemory p'' = UsedMemory p \<and>
    ReservedMemory p'' = ReservedMemory p \<and> phys_wf p''"
proof -
  obtain i h where i: "a = i * PAGE_SIZE" "unat i + unat n \<le> unat (npages p)"
    "\<forall>k < unat n. \<not> pbit p (i + of_nat k)" "run_taken (p\<lparr>PageBitmapIndex := h\<rparr>) i n p'"
    using RequestPages_spec [OF assms(1,2)] by blast
  have p': "phys_wf p'" "npages p' = npages p" using i(4) by (simp_all add: run_taken_def)
  have idx: "unat (i + of_nat k) = unat i + k" if "k < unat n" for k
  proof -
    have "unat (of_nat k :: u64) = k" using that unat_u64 [of n] by (simp add: unat_of_nat_less)
    then show ?thesis using that i(2) unat_u64 [of "npages p"] by (subst unat_add_less) simp_all
  qed
  have "pbit p' (i + of_nat k)" if "k < unat n" for k
    using i(4) that idx [OF that] by (simp add: run_taken_def)
  moreover have "i \<noteq> 0" using assms(3) i(1) by auto
  ultimately obtain p'' where p'': "Physical_FreePages p' (i * PAGE_SIZE) n = Inr p''" "run_freed p' i n p''"
    using FreePages_run [OF p'(1), of i n] i(2) p'(2) by auto
  have "j \<in> free_pages p" if "unat i \<le> unat j" "unat j < unat i + unat n" for j
  proof -
    have "unat j - unat i < unat n" using that by linarith
    with i(3) have "\<not> pbit p (i + of_nat (unat j - unat i))" by blast
    moreover have "i + of_nat (unat j - unat i) = j" using that(1) by (simp add: of_nat_diff)
    ultimately show ?thesis using i(2) that by (simp add: free_pages_def word_less_nat_alt)
  qed
  with i(4) p''(2) have "free_pages p'' = free_pages p"
    by (auto simp: free_pages_def run_taken_def run_freed_def)
  with i p'' show ?thesis by (auto simp: run_taken_def run_freed_def)
qed

theorem free_pages_undoes_request_pages_witness:
  "\<exists>p' p''. Physical_RequestPages hint_example 2 = Inr (0x2000, p') \<and>
    Physical_FreePages p' 0x2000 2 = Inr p'' \<and> free_pages p'' = free_pages hint_example"
proof -
  obtain p' where p': "Physical_RequestPages hint_example 2 = Inr (0x2000, p')"
    using hint_example_request by blast
  from free_pages_undoes_request_pages [OF hint_example_wf p'] p' show ?thesis by auto
qed

text \<open>
  C5: \<open>RequestPages\<close> comes to an end whenever the page count and the number of pages do not add up
  past 64 bits.
\<close>

theorem request_pages_ends:
  assumes "unat (npages p) + unat n < 2 ^ 64"
  shows "Physical_RequestPages p n \<noteq> Inl Diverges"
proof -
  have "Physical_LockPage q b \<noteq> Inl Diverges" for q b by (simp add: LockPage_eq)
  then have "Physical_LockPages q b n \<noteq> Inl Diverges" for q b
    by (simp add: Physical_LockPages_def for_range_no_fault)
  with RequestPages_outer_ends [OF assms] show ?thesis
    by (auto simp: Physical_RequestPages_def res_simps Let_def split: option.splits)
qed

theorem request_pages_ends_witness:
  "unat (npages hint_example) + unat (2 :: u64) < 2 ^ 64 \<and>
   Physical_RequestPages hint_example 2 \<noteq> Inl Diverges"
  using request_pages_ends [of hint_example 2] by (simp add: hint_example_def Bitmap_nbits_def)

text \<open>
  the search of \<open>RequestPages\<close> moves the hint past free pages. With page 0 and pages 2 and 3 of
  eight free, a request for two pages returns pages 2 and 3, and the next request for one page stops
  the machine although page 0 is free.
\<close>

theorem request_pages_hides_a_free_page:
  "case Physical_RequestPages hint_example 2 of
     Inl _ \<Rightarrow> False
   | Inr (a, p') \<Rightarrow> a = 0x2000 \<and> Bitmap_Get (PageBitmap p') 0 = Inr False \<and>
       Physical_RequestPage p' = Inl OutOfMemory"
  by (simp add: phys_eval)

end
