(* ===== verification/PageRuns.thy ===== *)
theory PageRuns
  imports PageRequests
begin

section \<open>Runs of pages at the end of the bitmap\<close>

text \<open>
  \<open>RequestPages\<close> tests the bits \<open>Index + i\<close> without a bound, and \<open>Bitmap::Get\<close> answers false behind the
  bitmap: at the index \<open>Size * 8\<close> it reads the byte behind the buffer, beyond it it reads nothing. So a
  request may find a run that begins in the bitmap and ends behind it. Here the list \<open>Buffer\<close> holds the
  bytes that can be accessed from the address of the bitmap, which may be more than \<open>Size\<close>, and the lemmas
  say what a request then does.
\<close>

definition mem_bit :: "bitmap \<Rightarrow> u64 \<Rightarrow> bool" where
  "mem_bit b i \<longleftrightarrow> bit (Buffer b ! (unat i div 8)) (7 - unat i mod 8)"

definition accessible :: "bitmap \<Rightarrow> u64 \<Rightarrow> bool" where
  "accessible b i \<longleftrightarrow> unat i div 8 < length (Buffer b)"

definition phys_mapped :: "physical \<Rightarrow> bool" where
  "phys_mapped p \<longleftrightarrow> unat (Size (PageBitmap p)) \<le> length (Buffer (PageBitmap p)) \<and>
     unat (Size (PageBitmap p)) * 8 * 4096 < 2 ^ 63"

lemma Bitmap_bit_mem: "Bitmap_bit b i \<longleftrightarrow> i < Bitmap_nbits b \<and> mem_bit b i"
  by (simp add: Bitmap_bit_def mem_bit_def)

lemma Get_mem:
  assumes "Bitmap_Get b i = Inr v"
  shows "v \<longleftrightarrow> i \<le> Bitmap_nbits b \<and> mem_bit b i" and "i \<le> Bitmap_nbits b \<longrightarrow> accessible b i"
  using assms
  by (auto simp: Bitmap_Get_def Bitmap_nbits_def mem_bit_def accessible_def and_bitIndexer byte_index Let_def
      split: if_splits)

lemma Set_mem:
  assumes "i \<le> Bitmap_nbits b" "accessible b i"
  shows "\<exists>b'. Bitmap_Set b i v = Inr (True, b') \<and> Size b' = Size b \<and> length (Buffer b') = length (Buffer b) \<and>
    (\<forall>j. accessible b j \<longrightarrow> mem_bit b' j = (if j = i then v else mem_bit b j))"
proof -
  define n where "n = 7 - unat i mod 8"
  define k where "k = unat i div 8"
  define y where "y = (if v then (Buffer b ! k AND NOT (2 ^ n)) OR 2 ^ n else Buffer b ! k AND NOT (2 ^ n))"
  define b' where "b' = b\<lparr>Buffer := (Buffer b)[k := y]\<rparr>"
  have k: "k < length (Buffer b)" using assms(2) by (simp add: accessible_def k_def)
  have "\<not> Size b * 8 < i" using assms(1) by (simp add: Bitmap_nbits_def not_less)
  then have eq: "Bitmap_Set b i v = Inr (True, b')"
    using k by (simp add: Bitmap_Set_def byte_index Let_def bitIndexer_eq b'_def y_def n_def k_def)
  have "mem_bit b' j = (if j = i then v else mem_bit b j)" if "accessible b j" for j
  proof -
    have "n < 8" by (simp add: n_def)
    note upd = bit_upd_byte [OF this, of v "Buffer b ! k" "7 - unat j mod 8"]
    have "(unat j div 8 = k \<and> 7 - unat j mod 8 = n) \<longleftrightarrow> j = i"
      by (simp add: k_def n_def same_bit_iff word_unat_eq_iff)
    then show ?thesis
      using that k upd by (cases "unat j div 8 = k") (auto simp: mem_bit_def accessible_def b'_def y_def)
  qed
  with eq show ?thesis by (auto simp: b'_def)
qed

lemma unat_mapped:
  assumes "phys_mapped p"
  shows "unat (npages p) = unat (Size (PageBitmap p)) * 8" "unat (npages p) * 4096 < 2 ^ 63"
proof -
  show *: "unat (npages p) = unat (Size (PageBitmap p)) * 8"
    using assms by (simp add: phys_mapped_def Bitmap_nbits_def unat_mult_less)
  show "unat (npages p) * 4096 < 2 ^ 63" using assms by (simp add: phys_mapped_def *)
qed

lemma mapped_accessible: "phys_mapped p \<Longrightarrow> i < npages p \<Longrightarrow> accessible (PageBitmap p) i"
  using unat_mapped(1) [of p] less_mult_imp_div_less [of "unat i" "unat (Size (PageBitmap p))" 8]
  by (simp add: accessible_def phys_mapped_def word_less_nat_alt)

subsection \<open>The test of a run\<close>

lemma run_mem:
  assumes "RequestPages_run bm Index Count i = Inr True" "unat Index + unat Count < 2 ^ 64"
  shows "\<forall>k. unat i \<le> k \<longrightarrow> k < unat Count \<longrightarrow> unat Index + k \<le> unat (Bitmap_nbits bm) \<longrightarrow>
    accessible bm (Index + of_nat k) \<and> \<not> mem_bit bm (Index + of_nat k)"
  using assms
proof (induction bm Index Count i rule: RequestPages_run.induct)
  case (1 bm Index Count i)
  show ?case
  proof (cases "i < Count")
    case False
    then show ?thesis by (auto simp: word_less_nat_alt)
  next
    case True
    have "Bitmap_Get bm (Index + i) = Inr False \<and> RequestPages_run bm Index Count (i + 1) = Inr True"
      using "1.prems"(1) True by (auto simp: RequestPages_run.simps [of bm Index Count i] res_simps split: if_splits)
    then have g: "Bitmap_Get bm (Index + i) = Inr False" and r: "RequestPages_run bm Index Count (i + 1) = Inr True" by simp_all
    have u: "unat (Index + i) = unat Index + unat i"
      using "1.prems"(2) True by (simp add: unat_add_less word_less_nat_alt)
    have here: "accessible bm (Index + i) \<and> \<not> mem_bit bm (Index + i)" if "unat Index + unat i \<le> unat (Bitmap_nbits bm)"
      using Get_mem [OF g] that by (simp add: word_le_nat_alt u)
    have "unat (i + 1) = Suc (unat i)" using True by (rule unat_inc)
    with "1.IH" [OF True g _ r "1.prems"(2)]
    have "\<forall>k. Suc (unat i) \<le> k \<longrightarrow> k < unat Count \<longrightarrow> unat Index + k \<le> unat (Bitmap_nbits bm) \<longrightarrow>
      accessible bm (Index + of_nat k) \<and> \<not> mem_bit bm (Index + of_nat k)" by simp
    moreover have "Index + of_nat (unat i) = Index + i" by simp
    ultimately show ?thesis using here by (metis Suc_leI le_neq_implies_less)
  qed
qed

subsection \<open>Locking a run\<close>

text \<open>
  The state after \<open>k\<close> pages from \<open>i\<close> are locked. The pages up to the index \<open>Size * 8\<close>, which \<open>Bitmap::Set\<close>
  accepts, are counted; the ones beyond it leave no trace.
\<close>

definition counted :: "physical \<Rightarrow> u64 \<Rightarrow> nat \<Rightarrow> nat" where
  "counted p i k = min k (Suc (unat (npages p)) - unat i)"

definition run_locked :: "physical \<Rightarrow> u64 \<Rightarrow> nat \<Rightarrow> physical \<Rightarrow> bool" where
  "run_locked p i k q \<longleftrightarrow> Size (PageBitmap q) = Size (PageBitmap p) \<and>
     length (Buffer (PageBitmap q)) = length (Buffer (PageBitmap p)) \<and>
     (\<forall>j. accessible (PageBitmap p) j \<longrightarrow> j \<le> npages p \<longrightarrow> mem_bit (PageBitmap q) j =
        (mem_bit (PageBitmap p) j \<or> unat i \<le> unat j \<and> unat j < unat i + k)) \<and>
     TotalMemory q = TotalMemory p \<and> ReservedMemory q = ReservedMemory p \<and>
     FreeMemory q = FreeMemory p - of_nat (counted p i k) * PAGE_SIZE \<and>
     UsedMemory q = UsedMemory p + of_nat (counted p i k) * PAGE_SIZE"

lemma run_address:
  assumes "unat i + unat k < 2 ^ 52"
  shows "(i * PAGE_SIZE + k * PAGE_SIZE) div PAGE_SIZE = i + k" "unat (i + k) = unat i + unat k"
proof -
  show u: "unat (i + k) = unat i + unat k" using assms by (simp add: unat_add_less)
  have "unat ((i + k) * PAGE_SIZE) = unat (i + k) * 4096"
    using assms unat_mult_less [of "i + k" PAGE_SIZE] by (simp add: u PAGE_SIZE_def)
  then have "(i + k) * PAGE_SIZE div PAGE_SIZE = i + k"
    by (simp add: word_unat_eq_iff unat_div_distrib PAGE_SIZE_def)
  then show "(i * PAGE_SIZE + k * PAGE_SIZE) div PAGE_SIZE = i + k" by (simp add: distrib_right)
qed

lemma run_locked_step:
  assumes r: "run_locked p i (unat k) q" and l: "Physical_LockPage q (i * PAGE_SIZE + k * PAGE_SIZE) = Inr q'"
    and small: "unat i + unat k < 2 ^ 52" and i: "i < npages p"
    and free: "unat i + unat k \<le> unat (npages p) \<Longrightarrow> accessible (PageBitmap p) (i + k) \<and> \<not> mem_bit (PageBitmap p) (i + k)"
  shows "run_locked p i (Suc (unat k)) q'"
proof -
  note u = run_address [OF small]
  have same: "npages q = npages p" "accessible (PageBitmap q) = accessible (PageBitmap p)"
    using r by (auto simp: run_locked_def Bitmap_nbits_def accessible_def)
  have up: "page_update q (i + k) True adj_lock = Inr q'" using l u(1) by (simp add: LockPage_eq)
  show ?thesis
  proof (cases "unat i + unat k \<le> unat (npages p)")
    case True
    then have le: "i + k \<le> npages p" by (simp add: word_le_nat_alt u(2))
    obtain v where v: "Bitmap_Get (PageBitmap q) (i + k) = Inr v" using up by (auto simp: page_update_def res_simps)
    have "\<not> v" using Get_mem(1) [OF v] r free [OF True] le by (auto simp: run_locked_def u(2))
    obtain b' where b: "Bitmap_Set (PageBitmap q) (i + k) True = Inr (True, b')" "Size b' = Size (PageBitmap q)"
      "length (Buffer b') = length (Buffer (PageBitmap q))"
      "\<forall>j. accessible (PageBitmap q) j \<longrightarrow> mem_bit b' j = (if j = i + k then True else mem_bit (PageBitmap q) j)"
      using Set_mem [of "i + k" "PageBitmap q" True] le free [OF True] same by auto
    have q': "q' = adj_lock (q\<lparr>PageBitmap := b'\<rparr>)" using up v \<open>\<not> v\<close> b(1) by (simp add: page_update_def Let_def)
    have "j = i + k \<longleftrightarrow> unat j = unat i + unat k" for j by (simp add: word_unat_eq_iff u(2))
    moreover have "counted p i (Suc (unat k)) = Suc (counted p i (unat k))" using True i by (simp add: counted_def word_less_nat_alt)
    ultimately show ?thesis using r b(2-4) same(2) by (auto simp: run_locked_def q' adj_lock_def algebra_simps)
  next
    case False
    then have gt: "npages p < i + k" by (simp add: word_less_nat_alt u(2))
    then have "q' = q" using up same(1) by (simp add: page_update_def bm.get_out bm.put_out)
    moreover have "counted p i (Suc (unat k)) = counted p i (unat k)" using False by (simp add: counted_def)
    moreover have "unat j < unat i + unat k \<longleftrightarrow> unat j < unat i + Suc (unat k)" if "j \<le> npages p" for j
      using that False by (simp add: word_le_nat_alt)
    ultimately show ?thesis using r by (auto simp: run_locked_def)
  qed
qed

lemma run_locked_all:
  assumes "Physical_LockPages p (i * PAGE_SIZE) n = Inr p'" "unat i + unat n < 2 ^ 52" "i < npages p"
    and "\<And>k. k < unat n \<Longrightarrow> unat i + k \<le> unat (npages p) \<Longrightarrow>
      accessible (PageBitmap p) (i + of_nat k) \<and> \<not> mem_bit (PageBitmap p) (i + of_nat k)"
  shows "run_locked p i (unat n) p'"
proof (rule for_range_invariant [where I = "\<lambda>k. run_locked p i (unat k)", OF assms(1) [unfolded Physical_LockPages_def]])
  show "run_locked p i (unat 0) p" by (auto simp: run_locked_def counted_def)
next
  fix k u u' assume k: "k < n" "run_locked p i (unat k) u" "Physical_LockPage u (i * PAGE_SIZE + k * PAGE_SIZE) = Inr u'"
  have "run_locked p i (Suc (unat k)) u'"
    using run_locked_step [OF k(2,3)] assms(2,3) assms(4) [of "unat k"] k(1) by (simp add: word_less_nat_alt)
  then show "run_locked p i (unat (k + 1)) u'" by (simp add: unat_inc [OF k(1)])
qed simp

lemma RequestPages_found:
  assumes "Physical_RequestPages p n = Inr (a, p')"
  obtains i h where "a = i * PAGE_SIZE" "i < npages p" "RequestPages_run (PageBitmap p) i n 0 = Inr True"
    "Physical_LockPages (p\<lparr>PageBitmapIndex := h\<rparr>) (i * PAGE_SIZE) n = Inr p'"
proof -
  obtain h r where s: "RequestPages_outer (PageBitmap p) n (PageBitmapIndex p) = Inr (h, r)"
    using assms by (auto simp: Physical_RequestPages_def res_simps)
  with assms obtain i where r: "r = Some i" by (cases r) (auto simp: Physical_RequestPages_def)
  show thesis
    using that [of i h] RequestPages_outer_sound [OF s [unfolded r]] assms s r
    by (auto simp: Physical_RequestPages_def res_simps)
qed

subsection \<open>A bitmap with one byte behind it\<close>

definition behind_example :: physical where
  "behind_example =
     \<lparr>TotalMemory = 0x8000, FreeMemory = 0x1000, ReservedMemory = 0, UsedMemory = 0x7000,
      PageBitmapIndex = 0, PageBitmap = \<lparr>Size = 1, Buffer = [0xFE, 0]\<rparr>\<rparr>"

text \<open>
  Three pages are requested and only the last page, 7, is free: the request returns it together with
  the pages 8 and 9, which do not exist, and sets a bit of the byte behind the bitmap.
\<close>

lemma request_leaves_the_bitmap:
  "\<exists>p'. Physical_RequestPages behind_example 3 = Inr (0x7000, p') \<and> Buffer (PageBitmap p') = [0xFF, 0x80] \<and>
     FreeMemory p' = - 0x1000"
  by (simp add: behind_example_def phys_eval)

section \<open>Properties\<close>

text \<open>
  C2: when \<open>RequestPages\<close> returns, the run it hands out begins in the bitmap; every page of the run that has
  a bit in the bitmap was free, and these pages are exactly the ones that are no longer free: no
  page is handed out twice and no other page changes hands. The bitmap does not bound the run: it may end
  behind the bitmap, when the byte there can be accessed and its bit is clear. The counters move by the pages of
  the run up to and including the one behind the last bit.
\<close>

theorem request_pages_exclusive:
  assumes "phys_mapped p" "unat (npages p) + unat n < 2 ^ 52" "Physical_RequestPages p n = Inr (a, p')"
  shows "\<exists>i. a = i * PAGE_SIZE \<and> i < npages p \<and> phys_mapped p' \<and> npages p' = npages p \<and>
    (let run = {j. unat i \<le> unat j \<and> unat j < unat i + unat n} in
     (\<forall>j. j \<in> run \<and> j < npages p \<longrightarrow> j \<in> free_pages p) \<and> free_pages p' = free_pages p - run) \<and>
    (let counted = of_nat (min (unat n) (Suc (unat (npages p)) - unat i)) * PAGE_SIZE in
     FreeMemory p' = FreeMemory p - counted \<and> UsedMemory p' = UsedMemory p + counted \<and>
     ReservedMemory p' = ReservedMemory p)"
proof -
  obtain i h where i: "a = i * PAGE_SIZE" "i < npages p" "RequestPages_run (PageBitmap p) i n 0 = Inr True"
    "Physical_LockPages (p\<lparr>PageBitmapIndex := h\<rparr>) (i * PAGE_SIZE) n = Inr p'"
    by (rule RequestPages_found [OF assms(3)])
  have small: "unat i + unat n < 2 ^ 52" using assms(2) i(2) by (simp add: word_less_nat_alt)
  then have run: "accessible (PageBitmap p) (i + of_nat k) \<and> \<not> mem_bit (PageBitmap p) (i + of_nat k)"
    if "k < unat n" "unat i + k \<le> unat (npages p)" for k using run_mem [OF i(3)] that by simp
  have r: "run_locked (p\<lparr>PageBitmapIndex := h\<rparr>) i (unat n) p'"
    by (rule run_locked_all [OF i(4) small]) (use i(2) run in simp_all)
  then have nb: "npages p' = npages p" and m: "phys_mapped p'"
    using assms(1) by (simp_all add: run_locked_def Bitmap_nbits_def phys_mapped_def)
  have bits: "pbit p' j \<longleftrightarrow> pbit p j \<or> unat i \<le> unat j \<and> unat j < unat i + unat n" if "j < npages p" for j
    using r mapped_accessible [OF assms(1) that] that by (simp add: run_locked_def Bitmap_bit_mem nb)
  have "\<not> pbit p j" if "unat i \<le> unat j" "unat j < unat i + unat n" "j < npages p" for j
  proof -
    have "unat j - unat i < unat n" "i + of_nat (unat j - unat i) = j" using that by (simp_all add: of_nat_diff)
    with run [of "unat j - unat i"] that show ?thesis by (simp add: Bitmap_bit_mem word_less_nat_alt)
  qed
  then show ?thesis using i(1,2) m nb bits r
    by (intro exI [of _ i]) (auto simp: free_pages_def run_locked_def counted_def Let_def)
qed

theorem request_pages_exclusive_witness:
  "\<exists>p' i. Physical_RequestPages behind_example 3 = Inr (i * PAGE_SIZE, p') \<and> i < 8 \<and>
    free_pages p' = free_pages behind_example - {j. unat i \<le> unat j \<and> unat j < unat i + 3}"
proof -
  obtain p' where p': "Physical_RequestPages behind_example 3 = Inr (0x7000, p')"
    using request_leaves_the_bitmap by blast
  have "phys_mapped behind_example" "unat (npages behind_example) + unat (3 :: u64) < 2 ^ 52" "npages behind_example = 8"
    by (simp_all add: behind_example_def phys_mapped_def Bitmap_nbits_def)
  from this(3) request_pages_exclusive [OF this(1,2) p'] obtain i where "0x7000 = i * PAGE_SIZE" "i < 8"
    "free_pages p' = free_pages behind_example - {j. unat i \<le> unat j \<and> unat j < unat i + 3}"
    unfolding Let_def by (elim exE conjE) simp
  then show ?thesis using p' by (intro exI [of _ p'] exI [of _ i]) simp
qed

end
