(* ===== verification/Paging.thy ===== *)
theory Paging
  imports PageRequests
begin

section \<open>Page tables: amd64 \<open>Memory::Virtual\<close>\<close>

text \<open>
  A model of src/Kernel/arch/amd64/memory/vmm.cpp, of the inline members of
  src/Kernel/include/memory/virtual.hpp, of the entry unions of src/Kernel/include/memory/table.hpp,
  of \<open>PageMapIndexer\<close> (src/Kernel/core/memory/pmi.cpp) and of \<open>PageTable\<close>
  (src/Kernel/core/memory/page_table.cpp), as the amd64 build compiles them.
  Physical memory is a function from the address of a page and the index of a 64-bit entry to the
  entry; the kernel reaches it through its identity mapping. The four entry unions have the same
  layout for the fields the code uses, so an entry is its \<open>raw\<close> 64-bit value. \<open>invlpg\<close> has no effect
  on this state.
\<close>

type_synonym memory = "u64 \<Rightarrow> u64 \<Rightarrow> u64"

record machine =
  Mem :: memory
  Alloc :: physical

datatype MapType = NoMapType | FourKiB | TwoMiB | FourMiB | OneGiB

subsection \<open>Entries\<close>

definition PTFlag_P :: u64 where "PTFlag_P = 1"
definition PTFlag_RW :: u64 where "PTFlag_RW = 2"
definition PTFlag_US :: u64 where "PTFlag_US = 4"
definition PTFlag_CoW :: u64 where "PTFlag_CoW = 0x200"
definition PTFlag_KRsv :: u64 where "PTFlag_KRsv = 0x400"
definition PTFlag_XD :: u64 where "PTFlag_XD = 0x8000000000000000"

definition Entry_Present :: "u64 \<Rightarrow> bool" where
  "Entry_Present raw = bit raw 0"

definition Entry_PageSize :: "u64 \<Rightarrow> bool" where
  "Entry_PageSize raw = bit raw 7"

definition Entry_SetAddress :: "u64 \<Rightarrow> u64 \<Rightarrow> u64" where
  "Entry_SetAddress raw Addr =
     (let Addr = Addr AND 0x000000FFFFFFFFFF;
          raw = raw AND 0xFFF0000000000FFF in
      raw OR push_bit 12 Addr)"

definition Entry_GetAddress :: "u64 \<Rightarrow> u64" where
  "Entry_GetAddress raw = drop_bit 12 (raw AND 0x000FFFFFFFFFF000)"

text \<open>The bit field \<open>Address : 40\<close> and the one-bit fields the code assigns.\<close>

definition Entry_Address :: "u64 \<Rightarrow> u64" where
  "Entry_Address raw = take_bit 40 (drop_bit 12 raw)"

definition Entry_setPresent :: "bool \<Rightarrow> u64 \<Rightarrow> u64" where
  "Entry_setPresent v raw = (if v then raw OR 1 else raw AND NOT 1)"

definition Entry_setPageSize :: "u64 \<Rightarrow> u64" where
  "Entry_setPageSize raw = raw OR 0x80"

text \<open>Reading and writing an entry of the table at an address; a null table is a null pointer.\<close>

definition load :: "machine \<Rightarrow> u64 \<Rightarrow> u64 \<Rightarrow> u64 res" where
  "load s t i = (if t = 0 then Inl NullPointer else Inr (Mem s t i))"

definition store :: "machine \<Rightarrow> u64 \<Rightarrow> u64 \<Rightarrow> u64 \<Rightarrow> machine res" where
  "store s t i e = (if t = 0 then Inl NullPointer else Inr (s\<lparr>Mem := (Mem s)(t := (Mem s t)(i := e))\<rparr>))"

definition memset_page :: "machine \<Rightarrow> u64 \<Rightarrow> machine res" where
  "memset_page s t = (if t = 0 then Inl NullPointer else Inr (s\<lparr>Mem := (Mem s)(t := (\<lambda>_. 0))\<rparr>))"

subsection \<open>Indices of an address\<close>

record PageMapIndexer =
  PMLIndex :: u64
  PDPTEIndex :: u64
  PDEIndex :: u64
  PTEIndex :: u64

definition PageMapIndexer_new :: "u64 \<Rightarrow> PageMapIndexer res" where
  "PageMapIndexer_new VirtualAddress =
     (let Address = drop_bit 12 VirtualAddress;
          pte = Address AND 0x1FF;
          Address = drop_bit 9 Address;
          pde = Address AND 0x1FF;
          Address = drop_bit 9 Address;
          pdpte = Address AND 0x1FF;
          Address = drop_bit 9 Address;
          pml = Address AND 0x1FF in
      rbind (if VirtualAddress > PAGE_SIZE
             then assert_res (pte \<noteq> 0 \<or> pde \<noteq> 0 \<or> pdpte \<noteq> 0 \<or> pml \<noteq> 0) else Inr ()) (\<lambda>_.
        Inr \<lparr>PMLIndex = pml, PDPTEIndex = pdpte, PDEIndex = pde, PTEIndex = pte\<rparr>))"

definition page_mask :: "u64 \<Rightarrow> u64" where
  "page_mask a = a AND 0xFFFFFFFFFFFFF000"

subsection \<open>Lookups\<close>

definition Virtual_Check :: "u64 \<Rightarrow> machine \<Rightarrow> u64 \<Rightarrow> u64 \<Rightarrow> bool res" where
  "Virtual_Check pTable s VirtualAddress Flag =
     rbind (PageMapIndexer_new (page_mask VirtualAddress)) (\<lambda>Index.
     rbind (load s pTable (PMLIndex Index)) (\<lambda>PML4.
     if \<not> Entry_Present PML4 then Inr False else
     let PDPTE = push_bit 12 (Entry_GetAddress PML4) in
     if PDPTE = 0 then Inr False else
     rbind (load s PDPTE (PDPTEIndex Index)) (\<lambda>e3.
     if Entry_PageSize e3 then Inr (e3 AND Flag \<noteq> 0) else
     let PDE = push_bit 12 (Entry_GetAddress e3) in
     if PDE = 0 then Inr False else
     rbind (load s PDE (PDEIndex Index)) (\<lambda>e2.
     if Entry_PageSize e2 then Inr (e2 AND Flag \<noteq> 0) else
     let PTE = push_bit 12 (Entry_GetAddress e2) in
     if PTE = 0 then Inr False else
     rbind (load s PTE (PTEIndex Index)) (\<lambda>e1. Inr (e1 AND Flag \<noteq> 0))))))"

definition Virtual_GetPhysical :: "u64 \<Rightarrow> machine \<Rightarrow> u64 \<Rightarrow> u64 res" where
  "Virtual_GetPhysical pTable s VirtualAddress =
     rbind (PageMapIndexer_new (page_mask VirtualAddress)) (\<lambda>Index.
     rbind (load s pTable (PMLIndex Index)) (\<lambda>PML4.
     if Entry_Present PML4 then
       let PDPTE = push_bit 12 (Entry_GetAddress PML4) in
       if PDPTE \<noteq> 0 then
         rbind (load s PDPTE (PDPTEIndex Index)) (\<lambda>e3.
         if Entry_Present e3 then
           if Entry_PageSize e3 then Inr (push_bit 12 (Entry_GetAddress e3)) else
           let PDE = push_bit 12 (Entry_GetAddress e3) in
           if PDE \<noteq> 0 then
             rbind (load s PDE (PDEIndex Index)) (\<lambda>e2.
             if Entry_Present e2 then
               if Entry_PageSize e2 then Inr (push_bit 12 (Entry_GetAddress e2)) else
               let PTE = push_bit 12 (Entry_GetAddress e2) in
               if PTE \<noteq> 0 then
                 rbind (load s PTE (PTEIndex Index)) (\<lambda>e1.
                 if Entry_Present e1 then Inr (push_bit 12 (Entry_GetAddress e1)) else Inr 0)
               else Inr 0
             else Inr 0)
           else Inr 0
         else Inr 0)
       else Inr 0
     else Inr 0))"

definition Virtual_GetMapType :: "u64 \<Rightarrow> machine \<Rightarrow> u64 \<Rightarrow> MapType res" where
  "Virtual_GetMapType pTable s VirtualAddress =
     rbind (PageMapIndexer_new (page_mask VirtualAddress)) (\<lambda>Index.
     rbind (load s pTable (PMLIndex Index)) (\<lambda>PML4.
     if \<not> Entry_Present PML4 then Inr NoMapType else
     let PDPTE = push_bit 12 (Entry_GetAddress PML4) in
     if PDPTE = 0 then Inr NoMapType else
     rbind (load s PDPTE (PDPTEIndex Index)) (\<lambda>e3.
     if \<not> Entry_Present e3 then Inr NoMapType else
     if Entry_PageSize e3 then Inr OneGiB else
     let PDE = push_bit 12 (Entry_GetAddress e3) in
     if PDE = 0 then Inr NoMapType else
     rbind (load s PDE (PDEIndex Index)) (\<lambda>e2.
     if \<not> Entry_Present e2 then Inr NoMapType else
     if Entry_PageSize e2 then Inr TwoMiB else
     let PTE = push_bit 12 (Entry_GetAddress e2) in
     if PTE = 0 then Inr NoMapType else
     rbind (load s PTE (PTEIndex Index)) (\<lambda>e1.
     Inr (if Entry_Present e1 then FourKiB else NoMapType))))))"

text \<open>A pointer to an entry is the address of its table and its index; \<open>nullptr\<close> is \<open>None\<close>.\<close>

definition Virtual_GetPML4 :: "u64 \<Rightarrow> machine \<Rightarrow> u64 \<Rightarrow> (u64 \<times> u64) option res" where
  "Virtual_GetPML4 pTable s VirtualAddress =
     rbind (PageMapIndexer_new (page_mask VirtualAddress)) (\<lambda>Index.
     rbind (load s pTable (PMLIndex Index)) (\<lambda>PML4.
     Inr (if Entry_Present PML4 then Some (pTable, PMLIndex Index) else None)))"

definition Virtual_GetPDPTE :: "u64 \<Rightarrow> machine \<Rightarrow> u64 \<Rightarrow> (u64 \<times> u64) option res" where
  "Virtual_GetPDPTE pTable s VirtualAddress =
     rbind (PageMapIndexer_new (page_mask VirtualAddress)) (\<lambda>Index.
     rbind (load s pTable (PMLIndex Index)) (\<lambda>PML4.
     if \<not> Entry_Present PML4 then Inr None else
     let PDPTEPtr = push_bit 12 (Entry_Address PML4) in
     rbind (load s PDPTEPtr (PDPTEIndex Index)) (\<lambda>PDPTE.
     Inr (if Entry_Present PDPTE then Some (PDPTEPtr, PDPTEIndex Index) else None))))"

definition Virtual_GetPDE :: "u64 \<Rightarrow> machine \<Rightarrow> u64 \<Rightarrow> (u64 \<times> u64) option res" where
  "Virtual_GetPDE pTable s VirtualAddress =
     rbind (PageMapIndexer_new (page_mask VirtualAddress)) (\<lambda>Index.
     rbind (load s pTable (PMLIndex Index)) (\<lambda>PML4.
     if \<not> Entry_Present PML4 then Inr None else
     let PDPTEPtr = push_bit 12 (Entry_Address PML4) in
     rbind (load s PDPTEPtr (PDPTEIndex Index)) (\<lambda>PDPTE.
     if \<not> Entry_Present PDPTE then Inr None else
     let PDEPtr = push_bit 12 (Entry_GetAddress PDPTE) in
     rbind (load s PDEPtr (PDEIndex Index)) (\<lambda>PDE.
     Inr (if Entry_Present PDE then Some (PDEPtr, PDEIndex Index) else None)))))"

definition Virtual_GetPTE :: "u64 \<Rightarrow> machine \<Rightarrow> u64 \<Rightarrow> (u64 \<times> u64) option res" where
  "Virtual_GetPTE pTable s VirtualAddress =
     rbind (PageMapIndexer_new (page_mask VirtualAddress)) (\<lambda>Index.
     rbind (load s pTable (PMLIndex Index)) (\<lambda>PML4.
     if \<not> Entry_Present PML4 then Inr None else
     let PDPTEPtr = push_bit 12 (Entry_Address PML4) in
     rbind (load s PDPTEPtr (PDPTEIndex Index)) (\<lambda>PDPTE.
     if \<not> Entry_Present PDPTE then Inr None else
     let PDEPtr = push_bit 12 (Entry_GetAddress PDPTE) in
     rbind (load s PDEPtr (PDEIndex Index)) (\<lambda>PDE.
     if \<not> Entry_Present PDE then Inr None else
     let PTEPtr = push_bit 12 (Entry_GetAddress PDE) in
     rbind (load s PTEPtr (PTEIndex Index)) (\<lambda>PTE.
     Inr (if Entry_Present PTE then Some (PTEPtr, PTEIndex Index) else None))))))"

subsection \<open>Mapping\<close>

definition alloc_pages :: "machine \<Rightarrow> u64 \<Rightarrow> (u64 \<times> machine) res" where
  "alloc_pages s n =
     rbind (Physical_RequestPages (Alloc s) n) (\<lambda>(a, p). Inr (a, s\<lparr>Alloc := p\<rparr>))"

definition alloc_page :: "machine \<Rightarrow> (u64 \<times> machine) res" where
  "alloc_page s = rbind (Physical_RequestPage (Alloc s)) (\<lambda>(a, p). Inr (a, s\<lparr>Alloc := p\<rparr>))"

text \<open>
  The step \<open>Map\<close> and \<open>Remap\<close> take at each directory level: the table an entry points to, allocated
  and cleared when the entry is not present, with the directory flags added to the entry.
\<close>

definition Map_table :: "machine \<Rightarrow> u64 \<Rightarrow> u64 \<Rightarrow> u64 \<Rightarrow> (u64 \<times> machine) res" where
  "Map_table s t i DirectoryFlags =
     rbind (load s t i) (\<lambda>e.
     rbind (if \<not> Entry_Present e then
              rbind (alloc_pages s (TO_PAGES (4096 + 1))) (\<lambda>(a, s).
              rbind (memset_page s a) (\<lambda>s.
              rbind (load s t i) (\<lambda>e.
              rbind (store s t i (Entry_SetAddress (Entry_setPresent True e) (drop_bit 12 a))) (\<lambda>s.
              Inr (a, s)))))
            else Inr (push_bit 12 (Entry_GetAddress e), s)) (\<lambda>(a, s).
     rbind (load s t i) (\<lambda>e.
     rbind (store s t i (e OR DirectoryFlags)) (\<lambda>s. Inr (a, s)))))"

definition Virtual_Map :: "u64 \<Rightarrow> machine \<Rightarrow> u64 \<Rightarrow> u64 \<Rightarrow> u64 \<Rightarrow> MapType \<Rightarrow> machine res" where
  "Virtual_Map pTable s VirtualAddress PhysicalAddress Flags Type =
     (if pTable = 0 then Inr s
      else let Flags = Flags OR PTFlag_P in
     rbind (PageMapIndexer_new VirtualAddress) (\<lambda>Index.
     let DirectoryFlags = Flags AND 0x3F in
     rbind (Map_table s pTable (PMLIndex Index) DirectoryFlags) (\<lambda>(PDPTEPtr, s).
     if Type = OneGiB then
       rbind (load s PDPTEPtr (PDPTEIndex Index)) (\<lambda>e.
       store s PDPTEPtr (PDPTEIndex Index)
         (Entry_SetAddress (Entry_setPageSize (e OR Flags)) (drop_bit 12 PhysicalAddress)))
     else
     rbind (Map_table s PDPTEPtr (PDPTEIndex Index) DirectoryFlags) (\<lambda>(PDEPtr, s).
     if Type = TwoMiB then
       rbind (load s PDEPtr (PDEIndex Index)) (\<lambda>e.
       store s PDEPtr (PDEIndex Index)
         (Entry_SetAddress (Entry_setPageSize (e OR Flags)) (drop_bit 12 PhysicalAddress)))
     else
     rbind (Map_table s PDEPtr (PDEIndex Index) DirectoryFlags) (\<lambda>(PTEPtr, s).
     rbind (load s PTEPtr (PTEIndex Index)) (\<lambda>e.
     store s PTEPtr (PTEIndex Index)
       (Entry_SetAddress (Entry_setPresent True e OR Flags) (drop_bit 12 PhysicalAddress))))))))"

definition Virtual_Unmap :: "u64 \<Rightarrow> machine \<Rightarrow> u64 \<Rightarrow> MapType \<Rightarrow> machine res" where
  "Virtual_Unmap pTable s VirtualAddress Type =
     (if pTable = 0 then Inr s else
     rbind (PageMapIndexer_new VirtualAddress) (\<lambda>Index.
     rbind (load s pTable (PMLIndex Index)) (\<lambda>PML4.
     if \<not> Entry_Present PML4 then Inr s else
     let PDPTEPtr = push_bit 12 (Entry_Address PML4) in
     rbind (load s PDPTEPtr (PDPTEIndex Index)) (\<lambda>PDPTE.
     if \<not> Entry_Present PDPTE then Inr s else
     if Type = OneGiB \<and> Entry_PageSize PDPTE then
       store s PDPTEPtr (PDPTEIndex Index) (Entry_setPresent False PDPTE)
     else
     let PDEPtr = push_bit 12 (Entry_Address PDPTE) in
     rbind (load s PDEPtr (PDEIndex Index)) (\<lambda>PDE.
     if \<not> Entry_Present PDE then Inr s else
     if Type = TwoMiB \<and> Entry_PageSize PDE then
       store s PDEPtr (PDEIndex Index) (Entry_setPresent False PDE)
     else
     let PTEPtr = push_bit 12 (Entry_Address PDE) in
     rbind (load s PTEPtr (PTEIndex Index)) (\<lambda>PTE.
     if \<not> Entry_Present PTE then Inr s else
     store s PTEPtr (PTEIndex Index) (Entry_setPresent False PTE)))))))"

definition Virtual_Remap :: "u64 \<Rightarrow> machine \<Rightarrow> u64 \<Rightarrow> u64 \<Rightarrow> u64 \<Rightarrow> MapType \<Rightarrow> machine res" where
  "Virtual_Remap pTable s VirtualAddress PhysicalAddress Flags Type =
     (if pTable = 0 then Inr s
      else let Flags = Flags OR PTFlag_P in
     rbind (PageMapIndexer_new VirtualAddress) (\<lambda>Index.
     let DirectoryFlags = Flags AND 0x3F in
     rbind (Map_table s pTable (PMLIndex Index) DirectoryFlags) (\<lambda>(PDPTEPtr, s).
     if Type = OneGiB then
       rbind (load s PDPTEPtr (PDPTEIndex Index)) (\<lambda>e.
       store s PDPTEPtr (PDPTEIndex Index)
         (Entry_SetAddress (Entry_setPageSize ((e AND 0xFFF) OR Flags)) (drop_bit 12 PhysicalAddress)))
     else
     rbind (Map_table s PDPTEPtr (PDPTEIndex Index) DirectoryFlags) (\<lambda>(PDEPtr, s).
     if Type = TwoMiB then
       rbind (load s PDEPtr (PDEIndex Index)) (\<lambda>e.
       store s PDEPtr (PDEIndex Index)
         (Entry_SetAddress (Entry_setPageSize ((e AND 0xFFF) OR Flags)) (drop_bit 12 PhysicalAddress)))
     else
     rbind (Map_table s PDEPtr (PDEIndex Index) DirectoryFlags) (\<lambda>(PTEPtr, s).
     rbind (load s PTEPtr (PTEIndex Index)) (\<lambda>e.
     store s PTEPtr (PTEIndex Index)
       (Entry_SetAddress (Entry_setPresent True ((e AND 0xFFF) OR Flags))
         (drop_bit 12 PhysicalAddress))))))))"

subsection \<open>Ranges\<close>

definition MapType_PageSize :: "MapType \<Rightarrow> u64" where
  "MapType_PageSize Type =
     (if Type = TwoMiB then 0x200000
      else if Type = FourMiB then 0x400000
      else if Type = OneGiB then 0x40000000
      else 0x1000)"

fun CheckRegion_loop :: "nat \<Rightarrow> u64 \<Rightarrow> machine \<Rightarrow> u64 \<Rightarrow> u64 \<Rightarrow> u64 \<Rightarrow> u64 \<Rightarrow> bool res" where
  "CheckRegion_loop fuel pTable s VirtualAddress Length Flag i =
     (if fuel = 0 then Inl Diverges
      else if i < Length then
        rbind (Virtual_Check pTable s (VirtualAddress + i) Flag) (\<lambda>ok.
        if \<not> ok then Inr False
        else CheckRegion_loop (fuel - 1) pTable s VirtualAddress Length Flag (i + 0x1000))
      else Inr True)"

declare CheckRegion_loop.simps [simp del]

definition Virtual_CheckRegion :: "u64 \<Rightarrow> machine \<Rightarrow> u64 \<Rightarrow> u64 \<Rightarrow> u64 \<Rightarrow> bool res" where
  "Virtual_CheckRegion pTable s VirtualAddress Length Flag =
     CheckRegion_loop (2 ^ 64) pTable s VirtualAddress Length Flag 0"

definition Virtual_MapRange ::
    "u64 \<Rightarrow> machine \<Rightarrow> u64 \<Rightarrow> u64 \<Rightarrow> u64 \<Rightarrow> u64 \<Rightarrow> MapType \<Rightarrow> machine res" where
  "Virtual_MapRange pTable s VirtualAddress PhysicalAddress Length Flags Type =
     for_step Length (MapType_PageSize Type)
       (\<lambda>i s. Virtual_Map pTable s (VirtualAddress + i) (PhysicalAddress + i) Flags Type) s"

definition Virtual_UnmapRange :: "u64 \<Rightarrow> machine \<Rightarrow> u64 \<Rightarrow> u64 \<Rightarrow> MapType \<Rightarrow> machine res" where
  "Virtual_UnmapRange pTable s VirtualAddress Length Type =
     for_step Length (MapType_PageSize Type)
       (\<lambda>i s. Virtual_Unmap pTable s (VirtualAddress + i) Type) s"

text \<open>
  \<open>OptimizedMap\<close> with \<open>Fit\<close>: one loop per page size, each mapping the whole remaining length and then
  moving on by one page of that size.
\<close>

function OptimizedMap_fit ::
    "MapType \<Rightarrow> u64 \<Rightarrow> u64 \<Rightarrow> u64 \<Rightarrow> u64 \<Rightarrow> u64 \<Rightarrow> machine \<Rightarrow> (u64 \<times> u64 \<times> u64 \<times> machine) res" where
  "OptimizedMap_fit Type pTable Flags VirtualAddress PhysicalAddress Length s =
     (if Length \<ge> MapType_PageSize Type then
        rbind (Virtual_MapRange pTable s VirtualAddress PhysicalAddress Length Flags Type) (\<lambda>s.
        OptimizedMap_fit Type pTable Flags (VirtualAddress + MapType_PageSize Type)
          (PhysicalAddress + MapType_PageSize Type) (Length - MapType_PageSize Type) s)
      else Inr (VirtualAddress, PhysicalAddress, Length, s))"
  by pat_completeness auto
termination
proof (relation "measure (\<lambda>(_, _, _, _, _, n, _). unat n)")
  fix Type :: MapType and n :: u64
  assume "MapType_PageSize Type \<le> n"
  moreover have "0 < unat (MapType_PageSize Type)" by (simp add: MapType_PageSize_def)
  ultimately have "unat (n - MapType_PageSize Type) < unat n"
    by (simp add: unat_sub_if' word_le_nat_alt)
  then show "((Type, p, f, v + MapType_PageSize Type, a + MapType_PageSize Type,
      n - MapType_PageSize Type, s'), (Type, p, f, v, a, n, s))
      \<in> measure (\<lambda>(_, _, _, _, _, n, _). unat n)" for p f v a s s'
    by simp
qed simp

declare OptimizedMap_fit.simps [simp del]

definition Virtual_OptimizedMap ::
    "u64 \<Rightarrow> machine \<Rightarrow> u64 \<Rightarrow> u64 \<Rightarrow> u64 \<Rightarrow> u64 \<Rightarrow> bool \<Rightarrow> bool \<Rightarrow> (MapType \<times> machine) res" where
  "Virtual_OptimizedMap pTable s VirtualAddress PhysicalAddress Length Flags Fit FailOnModulo =
     (if Fit then
        rbind (OptimizedMap_fit OneGiB pTable Flags VirtualAddress PhysicalAddress Length s) (\<lambda>(v, p, n, s).
        rbind (OptimizedMap_fit FourMiB pTable Flags v p n s) (\<lambda>(v, p, n, s).
        rbind (OptimizedMap_fit TwoMiB pTable Flags v p n s) (\<lambda>(v, p, n, s).
        rbind (OptimizedMap_fit FourKiB pTable Flags v p n s) (\<lambda>(v, p, n, s). Inr (FourKiB, s)))))
      else
        let Type = (if Length \<ge> 0x40000000 then OneGiB
                    else if Length \<ge> 0x400000 then FourMiB
                    else if Length \<ge> 0x200000 then TwoMiB
                    else FourKiB) in
        if Type \<noteq> FourKiB \<and> Length mod MapType_PageSize Type \<noteq> 0 \<and> FailOnModulo then Inr (NoMapType, s)
        else rbind (Virtual_MapRange pTable s VirtualAddress PhysicalAddress Length Flags Type) (\<lambda>s.
          Inr (Type, s)))"

subsection \<open>\<open>PageTable\<close>\<close>

text \<open>\<open>Fork\<close> copies the tree level by level; each copied entry keeps its flags.\<close>

definition Fork_PT :: "u64 \<Rightarrow> u64 \<Rightarrow> machine \<Rightarrow> machine res" where
  "Fork_PT ptrPTE ptrNewPTE s =
     for_range 0 512 (\<lambda>l s. rbind (load s ptrPTE l) (\<lambda>e. store s ptrNewPTE l e)) s"

definition Fork_PD :: "u64 \<Rightarrow> u64 \<Rightarrow> machine \<Rightarrow> machine res" where
  "Fork_PD ptrPDE ptrNewPDE s =
     for_range 0 512 (\<lambda>k s.
       rbind (load s ptrPDE k) (\<lambda>PDE.
       rbind (store s ptrNewPDE k PDE) (\<lambda>s.
       if \<not> Entry_Present PDE then Inr s else
       if Entry_PageSize PDE then Inr s else
       let ptrPTE = push_bit 12 (Entry_GetAddress PDE) in
       rbind (alloc_page s) (\<lambda>(ptrNewPTE, s).
       rbind (load s ptrNewPDE k) (\<lambda>e.
       rbind (store s ptrNewPDE k (Entry_SetAddress e (drop_bit 12 ptrNewPTE))) (\<lambda>s.
       Fork_PT ptrPTE ptrNewPTE s)))))) s"

definition Fork_PDPT :: "u64 \<Rightarrow> u64 \<Rightarrow> machine \<Rightarrow> machine res" where
  "Fork_PDPT ptrPDPT ptrNewPDPT s =
     for_range 0 512 (\<lambda>j s.
       rbind (load s ptrPDPT j) (\<lambda>PDPT.
       rbind (store s ptrNewPDPT j PDPT) (\<lambda>s.
       if \<not> Entry_Present PDPT then Inr s else
       if Entry_PageSize PDPT then Inr s else
       let ptrPDE = push_bit 12 (Entry_GetAddress PDPT) in
       rbind (alloc_page s) (\<lambda>(ptrNewPDE, s).
       rbind (load s ptrNewPDPT j) (\<lambda>e.
       rbind (store s ptrNewPDPT j (Entry_SetAddress e (drop_bit 12 ptrNewPDE))) (\<lambda>s.
       Fork_PD ptrPDE ptrNewPDE s)))))) s"

definition memcpy_page :: "machine \<Rightarrow> u64 \<Rightarrow> u64 \<Rightarrow> machine res" where
  "memcpy_page s dst src =
     (if dst = 0 \<or> src = 0 then Inl NullPointer else Inr (s\<lparr>Mem := (Mem s)(dst := Mem s src)\<rparr>))"

definition PageTable_Fork :: "u64 \<Rightarrow> machine \<Rightarrow> (u64 \<times> machine) res" where
  "PageTable_Fork this s =
     rbind (alloc_pages s (TO_PAGES 4096)) (\<lambda>(NewTable, s).
     rbind (memcpy_page s NewTable this) (\<lambda>s.
     rbind (for_range 0 512 (\<lambda>i s.
       rbind (load s this i) (\<lambda>PML4.
       if \<not> Entry_Present PML4 then Inr s else
       let ptrPDPT = push_bit 12 (Entry_GetAddress PML4) in
       rbind (alloc_page s) (\<lambda>(ptrNewPDPT, s).
       rbind (load s NewTable i) (\<lambda>e.
       rbind (store s NewTable i (Entry_SetAddress e (drop_bit 12 ptrNewPDPT))) (\<lambda>s.
       Fork_PDPT ptrPDPT ptrNewPDPT s))))) s) (\<lambda>s.
     Inr (NewTable, s))))"

text \<open>The template \<open>PageTable::Get\<close>: the physical address of a byte, null when it is not mapped.\<close>

definition PageTable_Get :: "u64 \<Rightarrow> machine \<Rightarrow> u64 \<Rightarrow> u64 res" where
  "PageTable_Get this s Address =
     rbind (Virtual_GetPhysical this s Address) (\<lambda>PhysAddr.
     Inr (if PhysAddr = 0 then 0 else PhysAddr + (Address AND 0xFFF)))"

end
