(* ===== verification/Translation.thy ===== *)
theory Translation
  imports Paging "HOL-Library.Sublist"
begin

section \<open>Translation by page tables\<close>

text \<open>
  What the tables mean: \<open>table_at\<close> is the table at a path of indices, \<open>xlate\<close> the translation of a
  path of four. The invariant \<open>pt_inv\<close> says that the tables form a tree whose pages are taken in the
  physical allocator. The lemmas give the effect of one directory step of \<open>Map\<close> and of a store to a
  leaf on every translation.
\<close>

subsection \<open>Fields of an entry\<close>

lemma mask40: "(0x000000FFFFFFFFFF :: u64) = mask 40"
  by (simp add: mask_eq_exp_minus_1)

lemma mask_addr: "(0x000FFFFFFFFFF000 :: u64) = push_bit 12 (mask 40)"
  by (simp add: mask_eq_exp_minus_1 push_bit_eq_mult)

lemma mask_flags: "(0xFFF0000000000FFF :: u64) = NOT (push_bit 12 (mask 40))"
  by (simp add: mask_eq_exp_minus_1 push_bit_eq_mult)

lemma bit_SetAddress:
  "bit (Entry_SetAddress raw a) n = (if 12 \<le> n \<and> n < 52 then bit a (n - 12) else bit raw n)"
  unfolding Entry_SetAddress_def Let_def mask40 mask_flags
  by (auto simp: bit_simps dest: bit_imp_le_length)

lemma bit_GetAddress: "bit (Entry_GetAddress raw) n = (n < 40 \<and> bit raw (n + 12))"
  unfolding Entry_GetAddress_def mask_addr by (auto simp: bit_simps add.commute)

lemma Entry_Address_eq: "Entry_Address raw = Entry_GetAddress raw"
  by (rule bit_word_eqI) (auto simp: Entry_Address_def bit_GetAddress bit_simps add.commute)

lemma GetAddress_SetAddress: "Entry_GetAddress (Entry_SetAddress raw a) = take_bit 40 a"
  by (rule bit_word_eqI) (auto simp: bit_GetAddress bit_SetAddress bit_simps)

text \<open>The table or page an entry points to.\<close>

definition etable :: "u64 \<Rightarrow> u64" where
  "etable e = push_bit 12 (Entry_GetAddress e)"

definition is_dir :: "u64 \<Rightarrow> bool" where
  "is_dir e \<longleftrightarrow> Entry_Present e \<and> \<not> Entry_PageSize e"

lemmas entry_defs = Entry_Present_def Entry_PageSize_def Entry_setPresent_def Entry_setPageSize_def

lemma etable_SetAddress: "etable (Entry_SetAddress e (drop_bit 12 a)) = a AND 0x000FFFFFFFFFF000"
  unfolding etable_def GetAddress_SetAddress mask_addr
  by (rule bit_word_eqI) (auto simp: bit_simps)

lemma entry_or_low:
  assumes "\<And>n. bit f n \<Longrightarrow> n < 6"
  shows "Entry_GetAddress (e OR f) = Entry_GetAddress e" "Entry_PageSize (e OR f) = Entry_PageSize e"
    "Entry_Present (e OR f) = (Entry_Present e \<or> bit f 0)"
  using assms [of 7] assms by (auto intro!: bit_word_eqI simp: bit_GetAddress entry_defs bit_simps) fastforce+

lemma entry_SetAddress_flags:
  "Entry_Present (Entry_SetAddress e a) = Entry_Present e"
  "Entry_PageSize (Entry_SetAddress e a) = Entry_PageSize e"
  by (simp_all add: entry_defs bit_SetAddress)

lemma entry_setPresent:
  "Entry_Present (Entry_setPresent v e) = v" "Entry_PageSize (Entry_setPresent v e) = Entry_PageSize e"
  by (auto simp: entry_defs bit_simps)

lemma zero_entry [simp]: "\<not> Entry_Present 0" "\<not> is_dir 0"
  by (simp_all add: Entry_Present_def is_dir_def)

subsection \<open>Paths\<close>

fun table_at :: "memory \<Rightarrow> u64 \<Rightarrow> u64 list \<Rightarrow> u64 option" where
  "table_at m t [] = Some t"
| "table_at m t (i # is) = (if is_dir (m t i) then table_at m (etable (m t i)) is else None)"

fun xlate :: "memory \<Rightarrow> u64 \<Rightarrow> u64 list \<Rightarrow> u64 option" where
  "xlate m t [] = None"
| "xlate m t [i] = (if Entry_Present (m t i) then Some (etable (m t i)) else None)"
| "xlate m t (i # j # is) =
     (if \<not> Entry_Present (m t i) then None
      else if Entry_PageSize (m t i) then Some (etable (m t i))
      else xlate m (etable (m t i)) (j # is))"

lemma table_at_append:
  "table_at m t (p @ q) = (case table_at m t p of None \<Rightarrow> None | Some u \<Rightarrow> table_at m u q)"
  by (induction p arbitrary: t) auto

lemma xlate_append:
  "table_at m t p = Some u \<Longrightarrow> r \<noteq> [] \<Longrightarrow> xlate m t (p @ r) = xlate m u r"
proof (induction p arbitrary: t)
  case (Cons i p)
  moreover obtain j q where "p @ r = j # q" using Cons.prems(2) by (cases "p @ r") auto
  ultimately show ?case by (auto simp: is_dir_def split: if_splits)
qed simp

text \<open>Two memories that agree on the entries a path reads give the path the same meaning.\<close>

definition agree :: "memory \<Rightarrow> memory \<Rightarrow> u64 \<Rightarrow> u64 list \<Rightarrow> bool" where
  "agree m m' t q \<longleftrightarrow> (\<forall>r j u. prefix (r @ [j]) q \<longrightarrow> table_at m t r = Some u \<longrightarrow> m' u j = m u j)"

lemma agree_Cons:
  assumes "agree m m' t (i # q)"
  shows "m' t i = m t i" and "is_dir (m t i) \<Longrightarrow> agree m m' (etable (m t i)) q"
proof -
  show "m' t i = m t i"
    using assms [unfolded agree_def, rule_format, of "[]" i t] by simp
  show "agree m m' (etable (m t i)) q" if "is_dir (m t i)"
    unfolding agree_def
  proof (intro allI impI)
    fix r j u
    assume "prefix (r @ [j]) q" "table_at m (etable (m t i)) r = Some u"
    with that assms [unfolded agree_def, rule_format, of "i # r" j u] show "m' u j = m u j" by simp
  qed
qed

lemma agree_table_at: "agree m m' t q \<Longrightarrow> table_at m' t q = table_at m t q"
proof (induction q arbitrary: t)
  case (Cons i q)
  with agree_Cons(1) [OF Cons.prems] agree_Cons(2) [OF Cons.prems] show ?case by simp
qed simp

lemma agree_xlate: "agree m m' t q \<Longrightarrow> xlate m' t q = xlate m t q"
proof (induction m t q rule: xlate.induct)
  case (2 m t i)
  from agree_Cons(1) [OF "2.prems"] show ?case by simp
next
  case (3 m t i j q)
  from agree_Cons(1) [OF "3.prems"] have e: "m' t i = m t i" .
  show ?case
  proof (cases "is_dir (m t i)")
    case True
    with "3.IH" agree_Cons(2) [OF "3.prems" True] e show ?thesis by (simp add: is_dir_def)
  qed (auto simp: e is_dir_def)
qed simp

lemma agree_prefix: "agree m m' t q \<Longrightarrow> prefix q' q \<Longrightarrow> agree m m' t q'"
  unfolding agree_def by (meson prefix_order.trans)

text \<open>A change of flags that keeps the kind and the address of an entry changes no path.\<close>

definition upd :: "memory \<Rightarrow> u64 \<Rightarrow> u64 \<Rightarrow> u64 \<Rightarrow> memory" where
  "upd m t i e = m(t := (m t)(i := e))"

lemma upd_apply: "upd m t i e u j = (if u = t \<and> j = i then e else m u j)"
  by (simp add: upd_def)

lemma upd_same_table_at:
  assumes "Entry_Present e = Entry_Present (m t i)" "Entry_PageSize e = Entry_PageSize (m t i)"
    "Entry_GetAddress e = Entry_GetAddress (m t i)"
  shows "table_at (upd m t i e) u q = table_at m u q"
  using assms by (induction q arbitrary: u) (auto simp: upd_apply is_dir_def etable_def)

lemma upd_same_xlate:
  assumes "Entry_Present e = Entry_Present (m t i)" "Entry_PageSize e = Entry_PageSize (m t i)"
    "Entry_GetAddress e = Entry_GetAddress (m t i)"
  shows "xlate (upd m t i e) u q = xlate m u q"
  using assms
  by (induction m u q rule: xlate.induct) (auto simp: upd_apply etable_def)

subsection \<open>The tree of tables\<close>

definition is_path :: "u64 list \<Rightarrow> bool" where
  "is_path p \<longleftrightarrow> length p \<le> 3"

text \<open>
  The tables of a page table form a tree: no table is reached by two paths, none is at the null
  address, and the pages of all of them are taken. A top-level entry never has the page-size bit,
  which the code does not look at there.
\<close>

definition pt_tree :: "memory \<Rightarrow> u64 \<Rightarrow> bool" where
  "pt_tree m pt \<longleftrightarrow>
     (\<forall>p q a. is_path p \<longrightarrow> is_path q \<longrightarrow> table_at m pt p = Some a \<longrightarrow> table_at m pt q = Some a \<longrightarrow> p = q) \<and>
     (\<forall>p. is_path p \<longrightarrow> table_at m pt p \<noteq> Some 0) \<and> (\<forall>i. \<not> Entry_PageSize (m pt i))"

definition pt_taken :: "machine \<Rightarrow> u64 \<Rightarrow> bool" where
  "pt_taken s pt \<longleftrightarrow>
     (\<forall>p a. is_path p \<longrightarrow> table_at (Mem s) pt p = Some a \<longrightarrow> pbit (Alloc s) (a div PAGE_SIZE))"

definition pt_inv :: "u64 \<Rightarrow> machine \<Rightarrow> bool" where
  "pt_inv pt s \<longleftrightarrow> pt_tree (Mem s) pt \<and> pt_taken s pt \<and>
     phys_wf (Alloc s) \<and> unat (npages (Alloc s)) \<le> 2 ^ 40"

lemma is_path_prefix: "is_path q \<Longrightarrow> prefix p q \<Longrightarrow> is_path p"
  using prefix_length_le by (fastforce simp: is_path_def)

lemma pt_tree_inj:
  "pt_tree m pt \<Longrightarrow> is_path p \<Longrightarrow> is_path q \<Longrightarrow> table_at m pt p = Some a \<Longrightarrow> table_at m pt q = Some a \<Longrightarrow> p = q"
  unfolding pt_tree_def by blast

lemma prefix_snoc_path: "prefix (r @ [j]) q \<Longrightarrow> length q \<le> 4 \<Longrightarrow> is_path r"
  using prefix_length_le [of "r @ [j]" q] by (simp add: is_path_def)

text \<open>A store to one entry touches only the paths through it.\<close>

lemma upd_agree:
  assumes "pt_tree m pt" "is_path p" "table_at m pt p = Some t" "length q \<le> 4" "\<not> prefix (p @ [i]) q"
  shows "agree m (upd m t i e) pt q"
  unfolding agree_def
proof (intro allI impI)
  fix r j u
  assume r: "prefix (r @ [j]) q" "table_at m pt r = Some u"
  have "\<not> (u = t \<and> j = i)"
  proof
    assume "u = t \<and> j = i"
    with pt_tree_inj [OF assms(1,2) prefix_snoc_path [OF r(1) assms(4)] assms(3)] r assms(5)
    show False by simp
  qed
  then show "upd m t i e u j = m u j" by (auto simp: upd_apply)
qed

text \<open>Clearing a page that is not a table touches no path.\<close>

lemma clear_agree:
  assumes "\<And>r. is_path r \<Longrightarrow> table_at m pt r \<noteq> Some a" "length q \<le> 4"
  shows "agree m (m(a := (\<lambda>_. 0))) pt q"
  unfolding agree_def using assms prefix_snoc_path by fastforce

text \<open>
  A new, empty table under an entry that was not present: \<open>new_dir m t i e a\<close> is the memory after
  clearing the page \<open>a\<close> and storing an entry for it.
\<close>

definition new_dir :: "memory \<Rightarrow> u64 \<Rightarrow> u64 \<Rightarrow> u64 \<Rightarrow> u64 \<Rightarrow> memory" where
  "new_dir m t i e a = upd (m(a := (\<lambda>_. 0))) t i e"

definition can_add :: "memory \<Rightarrow> u64 \<Rightarrow> u64 list \<Rightarrow> u64 \<Rightarrow> u64 \<Rightarrow> u64 \<Rightarrow> u64 \<Rightarrow> bool" where
  "can_add m pt p t i e a \<longleftrightarrow> pt_tree m pt \<and> length p \<le> 2 \<and> table_at m pt p = Some t \<and>
     (\<forall>r. is_path r \<longrightarrow> table_at m pt r \<noteq> Some a) \<and> a \<noteq> 0 \<and> \<not> Entry_Present (m t i) \<and> is_dir e \<and> etable e = a"

lemma new_dir_agree:
  assumes "can_add m pt p t i e a" "length q \<le> 4" "\<not> prefix (p @ [i]) q"
  shows "table_at (new_dir m t i e a) pt q = table_at m pt q"
    and "xlate (new_dir m t i e a) pt q = xlate m pt q"
proof -
  let ?m1 = "m(a := (\<lambda>_. 0))"
  have fresh: "\<And>r. is_path r \<Longrightarrow> table_at m pt r \<noteq> Some a" using assms(1) by (simp add: can_add_def)
  have m1: "agree m ?m1 pt r" if "length r \<le> 4" for r by (rule clear_agree [OF fresh that])
  have t1: "table_at ?m1 pt r = table_at m pt r" if "length r \<le> 4" for r
    by (rule agree_table_at [OF m1 [OF that]])
  have "pt_tree ?m1 pt" using assms(1) fresh [of "[]"] by (auto simp: can_add_def pt_tree_def is_path_def t1)
  then have m2: "agree ?m1 (new_dir m t i e a) pt q"
    unfolding new_dir_def using assms by (intro upd_agree) (auto simp: t1 is_path_def can_add_def)
  show "table_at (new_dir m t i e a) pt q = table_at m pt q"
    using agree_table_at [OF m2] t1 assms(2) by simp
  show "xlate (new_dir m t i e a) pt q = xlate m pt q"
    using agree_xlate [OF m2] agree_xlate [OF m1 [OF assms(2)]] by simp
qed

lemma new_dir_entries:
  assumes "can_add m pt p t i e a"
  shows "new_dir m t i e a t i = e" "new_dir m t i e a a j = 0"
    "table_at (new_dir m t i e a) pt (p @ [i]) = Some a"
proof -
  have "is_path p" using assms by (simp add: can_add_def is_path_def)
  then have "t \<noteq> a" using assms by (auto simp: can_add_def)
  then show e: "new_dir m t i e a t i = e" "new_dir m t i e a a j = 0"
    by (simp_all add: new_dir_def upd_apply)
  have "table_at (new_dir m t i e a) pt p = Some t"
    using assms new_dir_agree(1) [OF assms, of p] by (auto simp: can_add_def dest: prefix_length_le)
  then show "table_at (new_dir m t i e a) pt (p @ [i]) = Some a"
    using assms by (simp add: table_at_append e can_add_def)
qed

lemma new_dir_table_at:
  assumes "can_add m pt p t i e a" "length q \<le> 4"
  shows "table_at (new_dir m t i e a) pt q = (if q = p @ [i] then Some a else table_at m pt q)"
proof (cases "prefix (p @ [i]) q")
  case False
  then show ?thesis using new_dir_agree(1) [OF assms] by auto
next
  case True
  then obtain r where r: "q = (p @ [i]) @ r" by (auto simp: prefix_def)
  have "table_at m pt q = None"
    using assms(1) by (simp add: r table_at_append can_add_def is_dir_def)
  moreover have "table_at (new_dir m t i e a) pt q = None" if "r \<noteq> []"
    unfolding r table_at_append [of _ _ "p @ [i]"] new_dir_entries(3) [OF assms(1)]
    using that by (cases r) (simp_all add: new_dir_entries(2) [OF assms(1)])
  ultimately show ?thesis using new_dir_entries(3) [OF assms(1)] r by auto
qed

lemma new_dir_xlate:
  assumes "can_add m pt p t i e a" "length q = 4"
  shows "xlate (new_dir m t i e a) pt q = xlate m pt q"
proof (cases "prefix (p @ [i]) q")
  case False
  then show ?thesis using new_dir_agree(2) [OF assms(1)] assms(2) by simp
next
  case True
  have p: "table_at m pt p = Some t" "\<not> Entry_Present (m t i)" "length p \<le> 2"
    using assms(1) by (simp_all add: can_add_def)
  from True obtain r where r: "q = p @ i # r" by (auto simp: prefix_def)
  obtain j r' where r': "r = j # r'" using assms(2) p(3) r by (cases r) auto
  have "xlate m pt q = None" using xlate_append [OF p(1), of "i # r"] p(2) by (simp add: r r')
  moreover have "xlate (new_dir m t i e a) pt q = xlate (new_dir m t i e a) a r"
    using xlate_append [OF new_dir_entries(3) [OF assms(1)], of r] by (simp add: r r')
  moreover have "xlate (new_dir m t i e a) a r = None"
    using new_dir_entries(2) [OF assms(1)] by (cases r') (simp_all add: r')
  ultimately show ?thesis by simp
qed

lemma new_dir_tree:
  assumes "can_add m pt p t i e a"
  shows "pt_tree (new_dir m t i e a) pt"
proof -
  have tree: "pt_tree m pt" and fresh: "\<And>r. is_path r \<Longrightarrow> table_at m pt r \<noteq> Some a"
    and a: "a \<noteq> 0" and e: "is_dir e" using assms by (simp_all add: can_add_def)
  have at: "table_at (new_dir m t i e a) pt q = (if q = p @ [i] then Some a else table_at m pt q)"
    if "is_path q" for q using that new_dir_table_at [OF assms] by (simp add: is_path_def)
  have "\<not> Entry_PageSize (new_dir m t i e a pt j)" for j
    using tree e fresh [of "[]"] by (auto simp: new_dir_def upd_apply pt_tree_def is_dir_def is_path_def)
  moreover have "q1 = q2" if "is_path q1" "is_path q2" "table_at (new_dir m t i e a) pt q1 = Some b"
    "table_at (new_dir m t i e a) pt q2 = Some b" for q1 q2 b
    using that fresh pt_tree_inj [OF tree that(1,2)] by (auto simp: at split: if_splits)
  ultimately show ?thesis
    using tree a unfolding pt_tree_def by (auto simp: at)
qed

subsection \<open>One directory step\<close>

text \<open>No entry along a path has the page-size bit.\<close>

definition small_path :: "memory \<Rightarrow> u64 \<Rightarrow> u64 list \<Rightarrow> bool" where
  "small_path m pt q \<longleftrightarrow>
     (\<forall>r j u. prefix (r @ [j]) q \<longrightarrow> table_at m pt r = Some u \<longrightarrow> \<not> Entry_PageSize (m u j))"

lemma new_dir_small:
  assumes "can_add m pt p t i e a" "length q \<le> 4" "small_path m pt q"
  shows "small_path (new_dir m t i e a) pt q"
  unfolding small_path_def
proof (intro allI impI)
  fix r j u
  assume r: "prefix (r @ [j]) q" "table_at (new_dir m t i e a) pt r = Some u"
  have path: "is_path r" "length r \<le> 4" using prefix_snoc_path [OF r(1) assms(2)] by (simp_all add: is_path_def)
  have e: "\<not> Entry_PageSize e" using assms(1) by (simp add: can_add_def is_dir_def)
  show "\<not> Entry_PageSize (new_dir m t i e a u j)"
  proof (cases "r = p @ [i]")
    case True
    with r(2) new_dir_entries [OF assms(1)] show ?thesis by (simp add: Entry_PageSize_def)
  next
    case False
    with r(2) new_dir_table_at [OF assms(1) path(2)] have u: "table_at m pt r = Some u" by simp
    with assms(1) path have "u \<noteq> a" by (auto simp: can_add_def)
    with u r(1) assms(3) e show ?thesis by (auto simp: new_dir_def upd_apply small_path_def)
  qed
qed

lemma upd_same_small:
  assumes "Entry_Present e = Entry_Present (m t i)" "Entry_PageSize e = Entry_PageSize (m t i)"
    "Entry_GetAddress e = Entry_GetAddress (m t i)" "small_path m pt q"
  shows "small_path (upd m t i e) pt q"
  using assms(4) unfolding small_path_def upd_same_table_at [of e m t i, OF assms(1-3)]
  by (auto simp: upd_apply assms(2))

lemma page_number_mask:
  assumes "unat (i :: u64) < 2 ^ 40"
  shows "i * PAGE_SIZE AND 0x000FFFFFFFFFF000 = i * PAGE_SIZE"
proof -
  have i: "take_bit 40 i = i"
    using assms by (simp add: word_unat_eq_iff unsigned_take_bit_eq take_bit_nat_eq_self)
  have "i * PAGE_SIZE = push_bit 12 i" by (simp add: PAGE_SIZE_def push_bit_eq_mult)
  moreover have "push_bit 12 (take_bit 40 i) AND push_bit 12 (mask 40) = push_bit 12 (take_bit 40 i)"
    by (rule bit_word_eqI) (auto simp: bit_simps)
  ultimately show ?thesis by (simp add: mask_addr i)
qed

text \<open>The pages that a directory step obtains.\<close>

lemma alloc_pages_spec:
  assumes "phys_wf (Alloc s)" "alloc_pages s n = Inr (a, s')" "n \<noteq> 0"
  obtains i where "a = i * PAGE_SIZE" "i < npages (Alloc s)" "\<not> pbit (Alloc s) i" "Mem s' = Mem s"
    "phys_wf (Alloc s')" "npages (Alloc s') = npages (Alloc s)" "pbit (Alloc s') i"
    "\<And>j. pbit (Alloc s) j \<Longrightarrow> pbit (Alloc s') j" "a div PAGE_SIZE = i"
proof -
  from assms(2) obtain p where r: "Physical_RequestPages (Alloc s) n = Inr (a, p)" "s' = s\<lparr>Alloc := p\<rparr>"
    by (auto simp: alloc_pages_def res_simps)
  from RequestPages_spec [OF assms(1) r(1)] obtain i h where i: "a = i * PAGE_SIZE" "i < npages (Alloc s)"
    "\<forall>k < unat n. \<not> pbit (Alloc s) (i + of_nat k)"
    "run_taken ((Alloc s)\<lparr>PageBitmapIndex := h\<rparr>) i n p" by blast
  have n: "0 < unat n" using assms(3) by (simp add: unat_gt_0)
  have "\<not> pbit (Alloc s) i" using i(3) n by force
  moreover have "a div PAGE_SIZE = i" using page_div [OF assms(1) i(2)] i(1) by simp
  ultimately show thesis using i r(2) n by (intro that [of i]) (auto simp: run_taken_def)
qed

text \<open>What \<open>Map_table\<close> gives: a table below the entry, and no translation changed.\<close>

definition dir_step :: "machine \<Rightarrow> u64 \<Rightarrow> u64 list \<Rightarrow> u64 \<Rightarrow> machine \<Rightarrow> bool" where
  "dir_step s pt p a s' \<longleftrightarrow> pt_inv pt s' \<and> table_at (Mem s') pt p = Some a \<and>
     (\<forall>q. length q = 4 \<longrightarrow> xlate (Mem s') pt q = xlate (Mem s) pt q) \<and>
     (\<forall>q. length q \<le> 4 \<longrightarrow> small_path (Mem s) pt q \<longrightarrow> small_path (Mem s') pt q)"

lemma store_eq: "t \<noteq> 0 \<Longrightarrow> store s t i e = Inr (s\<lparr>Mem := upd (Mem s) t i e\<rparr>)"
  by (simp add: store_def upd_def)

lemma Map_table_old:
  assumes inv: "pt_inv pt s" and p: "length p \<le> 2" "table_at (Mem s) pt p = Some t"
    and e: "is_dir (Mem s t i)" and df: "\<And>n. bit df n \<Longrightarrow> n < 6"
    and r: "Map_table s t i df = Inr (a, s')"
  shows "dir_step s pt (p @ [i]) a s'"
proof -
  have t: "t \<noteq> 0" using inv p by (auto simp: pt_inv_def pt_tree_def is_path_def)
  let ?e = "Mem s t i OR df"
  have a: "a = etable (Mem s t i)" and s': "s' = s\<lparr>Mem := upd (Mem s) t i ?e\<rparr>"
    using r t e by (auto simp: Map_table_def load_def store_eq is_dir_def etable_def)
  have same: "Entry_Present ?e = Entry_Present (Mem s t i)" "Entry_PageSize ?e = Entry_PageSize (Mem s t i)"
    "Entry_GetAddress ?e = Entry_GetAddress (Mem s t i)"
    using entry_or_low [OF df] e by (simp_all add: is_dir_def)
  have "\<not> Entry_PageSize (upd (Mem s) t i ?e pt j)" for j
    using inv same(2) by (auto simp: pt_inv_def pt_tree_def upd_apply)
  then have "pt_inv pt s'"
    using inv unfolding pt_inv_def pt_tree_def pt_taken_def
    by (simp add: s' upd_same_table_at [of ?e "Mem s" t i, OF same])
  moreover have "table_at (Mem s') pt (p @ [i]) = table_at (Mem s) pt (p @ [i])"
    by (simp add: s' upd_same_table_at [of ?e "Mem s" t i, OF same])
  moreover have "table_at (Mem s) pt (p @ [i]) = Some a" using p e by (simp add: table_at_append a)
  ultimately show ?thesis
    unfolding dir_step_def by (simp add: s' upd_same_xlate [of ?e "Mem s" t i, OF same] upd_same_small [of ?e "Mem s" t i, OF same])
qed

lemma Map_table_new:
  assumes inv: "pt_inv pt s" and p: "length p \<le> 2" "table_at (Mem s) pt p = Some t"
    and e: "\<not> Entry_Present (Mem s t i)" "\<not> Entry_PageSize (Mem s t i)"
    and df: "\<And>n. bit df n \<Longrightarrow> n < 6" and r: "Map_table s t i df = Inr (a, s')"
  shows "dir_step s pt (p @ [i]) a s'"
proof -
  have t: "t \<noteq> 0" using inv p by (auto simp: pt_inv_def pt_tree_def is_path_def)
  have two: "TO_PAGES 4097 = 2" by (simp add: TO_PAGES_def PAGE_SIZE_def)
  from r t e(1) obtain s1 where al: "alloc_pages s 2 = Inr (a, s1)"
    by (auto simp: Map_table_def load_def two res_simps)
  obtain k where k: "a = k * PAGE_SIZE" "k < npages (Alloc s)" "\<not> pbit (Alloc s) k" "Mem s1 = Mem s"
    "phys_wf (Alloc s1)" "npages (Alloc s1) = npages (Alloc s)" "pbit (Alloc s1) k"
    "\<And>j. pbit (Alloc s) j \<Longrightarrow> pbit (Alloc s1) j" "a div PAGE_SIZE = k"
    using alloc_pages_spec [of s 2 a s1] inv al by (auto simp: pt_inv_def)
  have fresh: "table_at (Mem s) pt q \<noteq> Some a" if "is_path q" for q
    using inv k(3,9) that by (auto simp: pt_inv_def pt_taken_def)
  have ta: "t \<noteq> a" using fresh [of p] p by (auto simp: is_path_def)
  have a0: "a \<noteq> 0" using r t e(1) by (auto simp: Map_table_def load_def two al memset_page_def)
  define e1 where "e1 = Entry_SetAddress (Entry_setPresent True (Mem s t i)) (drop_bit 12 a)"
  have s': "s' = s1\<lparr>Mem := new_dir (Mem s) t i (e1 OR df) a\<rparr>"
    using r t e(1) a0 ta k(4)
    by (auto simp: Map_table_def load_def two al memset_page_def store_eq upd_apply e1_def new_dir_def upd_def)
  have "unat k < 2 ^ 40" using k(2) inv by (auto simp: pt_inv_def word_less_nat_alt)
  then have "etable e1 = a" unfolding e1_def etable_SetAddress k(1) by (rule page_number_mask)
  then have "is_dir (e1 OR df)" "etable (e1 OR df) = a"
    using entry_or_low [where f = df and e = e1, OF df] e(2)
    by (simp_all add: is_dir_def etable_def e1_def entry_SetAddress_flags entry_setPresent)
  then have add: "can_add (Mem s) pt p t i (e1 OR df) a"
    using inv p fresh a0 e(1) by (simp add: can_add_def pt_inv_def)
  have "pt_taken s' pt"
    unfolding pt_taken_def
  proof (intro allI impI)
    fix q b assume q: "is_path q" "table_at (Mem s') pt q = Some b"
    with inv k(7,8,9) new_dir_table_at [OF add, of q] show "pbit (Alloc s') (b div PAGE_SIZE)"
      by (auto simp: s' is_path_def pt_inv_def pt_taken_def split: if_splits)
  qed
  then have "pt_inv pt s'" using inv new_dir_tree [OF add] k by (simp add: pt_inv_def s')
  then show ?thesis
    unfolding dir_step_def
    using new_dir_entries(3) [OF add] new_dir_xlate [OF add] new_dir_small [OF add] by (simp add: s')
qed

lemma Map_table_step:
  assumes "pt_inv pt s" "length p \<le> 2" "table_at (Mem s) pt p = Some t" "\<not> Entry_PageSize (Mem s t i)"
    and "\<And>n. bit df n \<Longrightarrow> n < 6" "Map_table s t i df = Inr (a, s')"
  shows "dir_step s pt (p @ [i]) a s'"
  using Map_table_old [OF assms(1-3) _ assms(5,6)] Map_table_new [OF assms(1-3) _ assms(4,5,6)] assms(4)
  by (cases "Entry_Present (Mem s t i)") (auto simp: is_dir_def)

subsection \<open>A store to a leaf\<close>

lemma leaf_store:
  assumes inv: "pt_inv pt s" and p: "length p = 3" "table_at (Mem s) pt p = Some t"
    and s': "s' = s\<lparr>Mem := upd (Mem s) t i e\<rparr>"
  shows "pt_inv pt s'" and "xlate (Mem s') pt (p @ [i]) = (if Entry_Present e then Some (etable e) else None)"
    and "\<And>q. length q = 4 \<Longrightarrow> q \<noteq> p @ [i] \<Longrightarrow> xlate (Mem s') pt q = xlate (Mem s) pt q"
    and "\<And>q. is_path q \<Longrightarrow> small_path (Mem s) pt q \<Longrightarrow> small_path (Mem s') pt q"
proof -
  have tree: "pt_tree (Mem s) pt" and pp: "is_path p" using inv p by (simp_all add: pt_inv_def is_path_def)
  have agree: "agree (Mem s) (Mem s') pt q" if "length q \<le> 4" "\<not> prefix (p @ [i]) q" for q
    using upd_agree [OF tree pp p(2) that] by (simp add: s')
  have short: "\<not> prefix (p @ [i]) q" if "is_path q" for q
    using that prefix_length_le [of "p @ [i]" q] p(1) by (auto simp: is_path_def)
  have at: "table_at (Mem s') pt q = table_at (Mem s) pt q" if "is_path q" for q
    by (rule agree_table_at [OF agree]) (use that short in \<open>auto simp: is_path_def\<close>)
  have "pt \<noteq> t" using pt_tree_inj [OF tree _ pp, of "[]" pt] p by (auto simp: is_path_def)
  then have "\<not> Entry_PageSize (Mem s' pt j)" for j
    using tree by (auto simp: s' upd_apply pt_tree_def)
  then show "pt_inv pt s'"
    using inv unfolding pt_inv_def pt_tree_def pt_taken_def by (simp add: at) (simp add: s')
  show "xlate (Mem s') pt (p @ [i]) = (if Entry_Present e then Some (etable e) else None)"
    using xlate_append [of "Mem s'" pt p t "[i]"] at [OF pp] p(2) by (simp add: s' upd_apply)
  show "xlate (Mem s') pt q = xlate (Mem s) pt q" if "length q = 4" "q \<noteq> p @ [i]" for q
  proof -
    have "\<not> prefix (p @ [i]) q" using that p(1) by (auto simp: prefix_def)
    then show ?thesis by (intro agree_xlate agree) (use that in auto)
  qed
  show "small_path (Mem s') pt q" if q: "is_path q" "small_path (Mem s) pt q" for q
    unfolding small_path_def
  proof (intro allI impI)
    fix r j u
    assume r: "prefix (r @ [j]) q" "table_at (Mem s') pt r = Some u"
    have "is_path r" using is_path_prefix [OF q(1) append_prefixD [OF r(1)]] .
    with r(2) have u: "table_at (Mem s) pt r = Some u" by (simp add: at)
    have "agree (Mem s) (Mem s') pt q" using agree [of q] short [OF q(1)] q(1) by (simp add: is_path_def)
    with r(1) u q(2) show "\<not> Entry_PageSize (Mem s' u j)" by (auto simp: agree_def small_path_def)
  qed
qed

subsection \<open>Addresses and paths\<close>

definition va_path :: "u64 \<Rightarrow> u64 list" where
  "va_path va = [take_bit 9 (drop_bit 39 va), take_bit 9 (drop_bit 30 va),
     take_bit 9 (drop_bit 21 va), take_bit 9 (drop_bit 12 va)]"

text \<open>The assertion of \<open>PageMapIndexer\<close>.\<close>

definition va_ok :: "u64 \<Rightarrow> bool" where
  "va_ok va \<longleftrightarrow> (va > PAGE_SIZE \<longrightarrow> (\<exists>i \<in> set (va_path va). i \<noteq> 0))"

text \<open>The virtual page number that the four indices encode.\<close>

definition va_page :: "u64 \<Rightarrow> u64" where
  "va_page va = take_bit 36 (drop_bit 12 va)"

lemma mask9: "(0x1FF :: u64) = mask 9"
  by (simp add: mask_eq_exp_minus_1)

lemma indexer_eq:
  "PageMapIndexer_new va = (if va_ok va then
     Inr \<lparr>PMLIndex = va_path va ! 0, PDPTEIndex = va_path va ! 1, PDEIndex = va_path va ! 2,
          PTEIndex = va_path va ! 3\<rparr> else Inl AssertFailed)"
  unfolding PageMapIndexer_new_def Let_def mask9 va_ok_def va_path_def take_bit_eq_mask [symmetric]
  by (auto simp: assert_res_def)

lemma page_mask_le: "page_mask va \<le> va"
  by (simp add: page_mask_def word_and_le2)

lemma page_mask_path: "va_path (page_mask va) = va_path va"
proof -
  have m: "(0xFFFFFFFFFFFFF000 :: u64) = NOT (mask 12)" by (simp add: mask_eq_exp_minus_1)
  have "take_bit 9 (drop_bit k (page_mask va)) = take_bit 9 (drop_bit k va)" if "12 \<le> k" for k
    unfolding page_mask_def m using that
    by (intro bit_word_eqI) (auto simp: bit_simps dest: bit_imp_le_length)
  then show ?thesis by (simp add: va_path_def)
qed

lemma page_mask_ok: "va_ok va \<Longrightarrow> va_ok (page_mask va)"
  using page_mask_le [of va] by (auto simp: va_ok_def page_mask_path)

lemma take_drop_eq:
  assumes "take_bit 9 (drop_bit k x) = take_bit 9 (drop_bit k y)" "k \<le> n" "n < k + 9"
  shows "bit (x :: u64) n = bit y n"
proof -
  have "bit (take_bit 9 (drop_bit k x)) (n - k) = bit (take_bit 9 (drop_bit k y)) (n - k)"
    using assms(1) by simp
  moreover have "n - k < 9" using assms(2,3) by linarith
  ultimately show ?thesis using assms(2) by (simp add: bit_simps)
qed

lemma va_path_page: "va_path va = va_path va' \<longleftrightarrow> va_page va = va_page va'"
proof
  assume p: "va_path va = va_path va'"
  have "bit va (12 + n) = bit va' (12 + n)" if "n < 36" for n
  proof -
    consider "n < 9" | "9 \<le> n" "n < 18" | "18 \<le> n" "n < 27" | "27 \<le> n" using that by linarith
    then show ?thesis
      using p that take_drop_eq [of 12 va va' "12 + n"] take_drop_eq [of 21 va va' "12 + n"]
        take_drop_eq [of 30 va va' "12 + n"] take_drop_eq [of 39 va va' "12 + n"]
      by cases (simp_all add: va_path_def)
  qed
  then show "va_page va = va_page va'"
    by (intro bit_word_eqI) (auto simp: va_page_def bit_simps)
next
  assume p: "va_page va = va_page va'"
  have b: "bit va (12 + n) = bit va' (12 + n)" if "n < 36" for n
  proof -
    have "bit (va_page va) n = bit (va_page va') n" using p by simp
    then show ?thesis using that by (simp add: va_page_def bit_simps)
  qed
  have "take_bit 9 (drop_bit k va) = take_bit 9 (drop_bit k va')" if "12 \<le> k" "k \<le> 39" for k
  proof (rule bit_word_eqI)
    fix n
    show "bit (take_bit 9 (drop_bit k va)) n = bit (take_bit 9 (drop_bit k va')) n"
      using b [of "k + n - 12"] that by (auto simp: bit_simps)
  qed
  then show "va_path va = va_path va'" by (simp add: va_path_def)
qed

text \<open>\<open>GetPhysical\<close> computes the translation of the tables.\<close>

lemma GetPhysical_xlate:
  assumes "pt_inv pt s"
  shows "Virtual_GetPhysical pt s va = (if va_ok (page_mask va) then
    Inr (case xlate (Mem s) pt (va_path va) of None \<Rightarrow> 0 | Some a \<Rightarrow> a) else Inl AssertFailed)"
proof -
  obtain i4 i3 i2 i1 where p: "va_path va = [i4, i3, i2, i1]" by (simp add: va_path_def)
  have nz: "table_at (Mem s) pt q \<noteq> Some 0" if "length q \<le> 3" for q
    using assms that by (auto simp: pt_inv_def pt_tree_def is_path_def)
  have ps: "\<not> Entry_PageSize (Mem s pt i4)" using assms by (simp add: pt_inv_def pt_tree_def)
  define e4 where "e4 = Mem s pt i4"
  define e3 where "e3 = Mem s (etable e4) i3"
  define e2 where "e2 = Mem s (etable e3) i2"
  define e1 where "e1 = Mem s (etable e2) i1"
  note defs = e4_def [symmetric] e3_def [symmetric] e2_def [symmetric] e1_def [symmetric]
  note nzs = nz [of "[]"] nz [of "[i4]"] nz [of "[i4, i3]"] nz [of "[i4, i3, i2]"]
  have load: "load s pt i4 = Inr e4" using nzs by (simp add: load_def e4_def)
  show ?thesis
    using nzs ps
    by (cases "Entry_Present e4"; cases "Entry_Present e3"; cases "Entry_PageSize e3";
        cases "Entry_Present e2"; cases "Entry_PageSize e2"; cases "Entry_Present e1")
      (simp_all add: Virtual_GetPhysical_def indexer_eq page_mask_path p load load_def Let_def
        is_dir_def defs flip: etable_def)
qed

subsection \<open>\<open>Map\<close>, \<open>Remap\<close> and \<open>Unmap\<close> of a 4 KiB page\<close>

text \<open>The three directory steps that \<open>Map\<close> and \<open>Remap\<close> share.\<close>

definition map_dirs :: "machine \<Rightarrow> u64 \<Rightarrow> u64 list \<Rightarrow> u64 \<Rightarrow> (u64 \<times> machine) res" where
  "map_dirs s pt p df =
     rbind (Map_table s pt (p ! 0) df) (\<lambda>(t3, s).
     rbind (Map_table s t3 (p ! 1) df) (\<lambda>(t2, s).
     Map_table s t2 (p ! 2) df))"

definition leaf_write :: "machine \<Rightarrow> u64 \<Rightarrow> u64 \<Rightarrow> (u64 \<Rightarrow> u64) \<Rightarrow> machine res" where
  "leaf_write s t i f = rbind (load s t i) (\<lambda>e. store s t i (f e))"

lemma rbind_assoc: "rbind (rbind m f) g = rbind m (\<lambda>x. rbind (f x) g)"
  by (cases m) simp_all

lemma Map_small:
  assumes "Type \<noteq> OneGiB" "Type \<noteq> TwoMiB" "pt \<noteq> 0" "va_ok va"
  shows "Virtual_Map pt s va pa fl Type =
    rbind (map_dirs s pt (va_path va) ((fl OR 1) AND 0x3F)) (\<lambda>(t, s).
      leaf_write s t (va_path va ! 3) (\<lambda>e. Entry_SetAddress (Entry_setPresent True e OR (fl OR 1)) (drop_bit 12 pa)))"
    and "Virtual_Remap pt s va pa fl Type =
    rbind (map_dirs s pt (va_path va) ((fl OR 1) AND 0x3F)) (\<lambda>(t, s).
      leaf_write s t (va_path va ! 3)
        (\<lambda>e. Entry_SetAddress (Entry_setPresent True ((e AND 0xFFF) OR (fl OR 1))) (drop_bit 12 pa)))"
  using assms
  by (simp_all add: Virtual_Map_def Virtual_Remap_def map_dirs_def leaf_write_def indexer_eq PTFlag_P_def
      rbind_assoc split_def Let_def)

lemma Map_no_table: "Virtual_Map pt s va pa fl Type = Inr s' \<Longrightarrow> pt \<noteq> 0 \<Longrightarrow> va_ok va"
  "Virtual_Remap pt s va pa fl Type = Inr s' \<Longrightarrow> pt \<noteq> 0 \<Longrightarrow> va_ok va"
  by (auto simp: Virtual_Map_def Virtual_Remap_def indexer_eq split: if_splits)

lemma dir_flags: "bit ((f :: u64) AND 0x3F) n \<Longrightarrow> n < 6"
proof -
  have "(0x3F :: u64) = mask 6" by (simp add: mask_eq_exp_minus_1)
  then show "bit (f AND 0x3F) n \<Longrightarrow> n < 6" by (simp add: bit_simps)
qed

lemma map_dirs_spec:
  assumes "pt_inv pt s" "small_path (Mem s) pt [i4, i3, i2]"
    and "map_dirs s pt [i4, i3, i2, i1] df = Inr (t, s')" "\<And>n. bit df n \<Longrightarrow> n < 6"
  shows "dir_step s pt [i4, i3, i2] t s'"
proof -
  from assms(3) obtain t3 s1 t2 s2 where r: "Map_table s pt i4 df = Inr (t3, s1)"
    "Map_table s1 t3 i3 df = Inr (t2, s2)" "Map_table s2 t2 i2 df = Inr (t, s')"
    by (auto simp: map_dirs_def res_simps)
  have small: "\<not> Entry_PageSize (m u j)" if "small_path m pt [i4, i3, i2]" "table_at m pt q = Some u"
    "prefix (q @ [j]) [i4, i3, i2]" for m q j u using that by (auto simp: small_path_def)
  have d1: "dir_step s pt [i4] t3 s1"
    using Map_table_step [OF assms(1), of "[]" pt i4 df t3 s1] small [OF assms(2), of "[]" pt i4] assms(4) r(1)
    by simp
  then have s1: "pt_inv pt s1" "small_path (Mem s1) pt [i4, i3, i2]" "table_at (Mem s1) pt [i4] = Some t3"
    using assms(2) by (auto simp: dir_step_def)
  have d2: "dir_step s1 pt [i4, i3] t2 s2"
    using Map_table_step [OF s1(1), of "[i4]" t3 i3 df t2 s2] small [OF s1(2,3), of i3] s1(3) assms(4) r(2)
    by simp
  then have s2: "pt_inv pt s2" "small_path (Mem s2) pt [i4, i3, i2]" "table_at (Mem s2) pt [i4, i3] = Some t2"
    using s1(2) by (auto simp: dir_step_def)
  have d3: "dir_step s2 pt [i4, i3, i2] t s'"
    using Map_table_step [OF s2(1), of "[i4, i3]" t2 i2 df t s'] small [OF s2(2,3), of i2] s2(3) assms(4) r(3)
    by simp
  show ?thesis using d1 d2 d3 by (simp add: dir_step_def)
qed

text \<open>A write to the leaf of a path after the directory steps.\<close>

lemma map_leaf_spec:
  assumes "pt_inv pt s" "small_path (Mem s) pt (take 3 (va_path va))"
    and "rbind (map_dirs s pt (va_path va) (f AND 0x3F)) (\<lambda>(t, s). leaf_write s t (va_path va ! 3) g) = Inr s'"
    and "\<And>e. Entry_Present (g e)" "\<And>e. etable (g e) = a"
  shows "pt_inv pt s'" and "xlate (Mem s') pt (va_path va) = Some a"
    and "\<And>q. length q = 4 \<Longrightarrow> q \<noteq> va_path va \<Longrightarrow> xlate (Mem s') pt q = xlate (Mem s) pt q"
    and "small_path (Mem s') pt (take 3 (va_path va))"
proof -
  obtain i4 i3 i2 i1 where p: "va_path va = [i4, i3, i2, i1]" by (simp add: va_path_def)
  from assms(3) obtain t s1 where d: "map_dirs s pt [i4, i3, i2, i1] (f AND 0x3F) = Inr (t, s1)"
    and w: "leaf_write s1 t i1 g = Inr s'" by (auto simp: p res_simps)
  have st: "dir_step s pt [i4, i3, i2] t s1"
    by (rule map_dirs_spec [OF assms(1) _ d dir_flags]) (use assms(2) in \<open>simp_all add: p\<close>)
  then have s1: "pt_inv pt s1" "table_at (Mem s1) pt [i4, i3, i2] = Some t" by (simp_all add: dir_step_def)
  have s': "s' = s1\<lparr>Mem := upd (Mem s1) t i1 (g (Mem s1 t i1))\<rparr>"
    using w by (auto simp: leaf_write_def load_def store_eq split: if_splits)
  from st assms(2) have "small_path (Mem s1) pt [i4, i3, i2]" by (simp add: dir_step_def p)
  with leaf_store(4) [OF s1(1) _ s1(2) s'] show "small_path (Mem s') pt (take 3 (va_path va))"
    by (simp add: p is_path_def)
  from leaf_store(1-3) [OF s1(1) _ s1(2) s'] st assms(4,5) p
  show "pt_inv pt s'" "xlate (Mem s') pt (va_path va) = Some a"
    "\<And>q. length q = 4 \<Longrightarrow> q \<noteq> va_path va \<Longrightarrow> xlate (Mem s') pt q = xlate (Mem s) pt q"
    by (simp_all add: dir_step_def)
qed

lemma Map_leaf_entry:
  "Entry_Present (Entry_SetAddress (Entry_setPresent True e OR f) a)"
  "Entry_Present (Entry_SetAddress (Entry_setPresent True e) a)"
  by (simp_all add: entry_SetAddress_flags entry_setPresent) (simp add: entry_defs bit_simps)

lemma Unmap_spec:
  assumes inv: "pt_inv pt s" and small: "small_path (Mem s) pt (take 3 (va_path va))"
    and r: "Virtual_Unmap pt s va FourKiB = Inr s'"
  shows "pt_inv pt s' \<and> xlate (Mem s') pt (va_path va) = None \<and>
    (\<forall>q. length q = 4 \<longrightarrow> q \<noteq> va_path va \<longrightarrow> xlate (Mem s') pt q = xlate (Mem s) pt q)"
proof -
  obtain i4 i3 i2 i1 where p: "va_path va = [i4, i3, i2, i1]" by (simp add: va_path_def)
  have nz: "table_at (Mem s) pt q \<noteq> Some 0" if "length q \<le> 3" for q
    using inv that by (auto simp: pt_inv_def pt_tree_def is_path_def)
  have pt0: "pt \<noteq> 0" using nz [of "[]"] by simp
  have ok: "va_ok va" using r pt0 by (auto simp: Virtual_Unmap_def indexer_eq split: if_splits)
  have ps: "\<not> Entry_PageSize (Mem s u j)" if "prefix (q @ [j]) [i4, i3, i2]" "table_at (Mem s) pt q = Some u"
    for q j u using small that by (auto simp: small_path_def p)
  show ?thesis
  proof (cases "table_at (Mem s) pt [i4, i3, i2]")
    case None
    then have "s' = s"
      using r pt0 ok ps [of "[]" i4 pt] ps [of "[i4]" i3] ps [of "[i4, i3]" i2] nz [of "[i4]"] nz [of "[i4, i3]"]
      by (auto simp: Virtual_Unmap_def indexer_eq p load_def Entry_Address_eq Let_def is_dir_def
          simp flip: etable_def split: if_splits)
    moreover have "xlate (Mem s) pt [i4, i3, i2, i1] = None"
      using None ps [of "[]" i4 pt] ps [of "[i4]" i3] ps [of "[i4, i3]" i2]
      by (auto simp: is_dir_def split: if_splits)
    ultimately show ?thesis using inv by (simp add: p)
  next
    case (Some t)
    let ?e = "Mem s t i1"
    have "s' = (if Entry_Present ?e then s\<lparr>Mem := upd (Mem s) t i1 (Entry_setPresent False ?e)\<rparr> else s)"
      using r pt0 ok Some nz [of "[i4]"] nz [of "[i4, i3]"] nz [of "[i4, i3, i2]"]
      by (auto simp: Virtual_Unmap_def indexer_eq p load_def Entry_Address_eq Let_def is_dir_def store_eq
          simp flip: etable_def split: if_splits)
    then have "s' = s\<lparr>Mem := upd (Mem s) t i1 (if Entry_Present ?e then Entry_setPresent False ?e else ?e)\<rparr>"
      by (auto simp: upd_def)
    from leaf_store [OF inv _ Some this] show ?thesis by (simp add: p entry_setPresent)
  qed
qed

subsection \<open>A concrete machine\<close>

text \<open>Sixteen pages, the first two taken; an empty page table on page 1.\<close>

definition tiny :: machine where
  "tiny = \<lparr>Mem = (\<lambda>_ _. 0),
     Alloc = \<lparr>TotalMemory = 0x10000, FreeMemory = 0xE000, ReservedMemory = 0, UsedMemory = 0x2000,
       PageBitmapIndex = 0, PageBitmap = \<lparr>Size = 2, Buffer = [0xC0, 0]\<rparr>\<rparr>\<rparr>"

lemmas paging_eval = phys_eval tiny_def Virtual_Map_def Virtual_Unmap_def Virtual_Check_def Map_table_def
  PageMapIndexer_new_def alloc_pages_def memset_page_def load_def store_def TO_PAGES_def PTFlag_P_def
  Entry_SetAddress_def Entry_setPresent_def Entry_Present_def Entry_GetAddress_def Entry_Address_def
  Entry_PageSize_def Entry_setPageSize_def page_mask_def assert_res_def

lemma table_at_empty: "table_at (\<lambda>_ _. 0) t p = (if p = [] then Some t else None)"
  by (cases p) simp_all

lemma tiny_inv: "pt_inv 0x1000 tiny"
proof -
  have "pbit (Alloc tiny) 1"
    by (simp add: tiny_def Bitmap_bit_def Bitmap_nbits_def bit_numeral_rec)
  then show ?thesis
    unfolding pt_inv_def pt_tree_def pt_taken_def
    by (simp add: tiny_def table_at_empty phys_wf_def Bitmap_wf_def Bitmap_nbits_def Entry_PageSize_def
        PAGE_SIZE_def split: if_splits)
qed

lemma tiny_small: "small_path (Mem tiny) 0x1000 q"
  by (simp add: small_path_def tiny_def Entry_PageSize_def)

lemma tiny_map:
  obtains s' where "Virtual_Map 0x1000 tiny 0x400000 0x9000 PTFlag_RW FourKiB = Inr s'"
    "pt_inv 0x1000 s'" "small_path (Mem s') 0x1000 (take 3 (va_path 0x400000))"
proof -
  have "\<exists>s'. Virtual_Map 0x1000 tiny 0x400000 0x9000 PTFlag_RW FourKiB = Inr s'"
    by (simp add: paging_eval PTFlag_RW_def)
  then obtain s' where s': "Virtual_Map 0x1000 tiny 0x400000 0x9000 PTFlag_RW FourKiB = Inr s'" by blast
  have ok: "va_ok 0x400000" by (rule Map_no_table(1) [OF s']) simp
  have "rbind (map_dirs tiny 0x1000 (va_path 0x400000) ((PTFlag_RW OR 1) AND 0x3F)) (\<lambda>(t, s).
      leaf_write s t (va_path 0x400000 ! 3)
        (\<lambda>e. Entry_SetAddress (Entry_setPresent True e OR (PTFlag_RW OR 1)) (drop_bit 12 0x9000))) = Inr s'"
    using s' Map_small(1) [OF _ _ _ ok, of FourKiB "0x1000" tiny "0x9000" PTFlag_RW] by simp
  note spec = map_leaf_spec [OF tiny_inv tiny_small this Map_leaf_entry(1) etable_SetAddress]
  show thesis by (rule that [OF s' spec(1,4)])
qed

section \<open>Properties\<close>

text \<open>The tables after an operation translate one page to \<open>a\<close> and every other page as before.\<close>

definition remapped :: "u64 \<Rightarrow> machine \<Rightarrow> u64 \<Rightarrow> u64 \<Rightarrow> machine \<Rightarrow> bool" where
  "remapped pt s va a s' \<longleftrightarrow> pt_inv pt s' \<and> Virtual_GetPhysical pt s' va = Inr a \<and>
     (\<forall>va'. va_page va' \<noteq> va_page va \<longrightarrow> Virtual_GetPhysical pt s' va' = Virtual_GetPhysical pt s va')"

lemma remappedI:
  assumes "pt_inv pt s" "pt_inv pt s'" "va_ok va" "xlate (Mem s') pt (va_path va) = r"
    "a = (case r of None \<Rightarrow> 0 | Some a \<Rightarrow> a)"
    "\<And>q. length q = 4 \<Longrightarrow> q \<noteq> va_path va \<Longrightarrow> xlate (Mem s') pt q = xlate (Mem s) pt q"
  shows "remapped pt s va a s'"
proof -
  have "xlate (Mem s') pt (va_path va') = xlate (Mem s) pt (va_path va')" if "va_page va' \<noteq> va_page va" for va'
    using assms(6) [of "va_path va'"] va_path_page [of va' va] that by (simp add: va_path_def)
  then show ?thesis
    using assms(2-5) page_mask_ok
    by (simp add: remapped_def GetPhysical_xlate [OF assms(1)] GetPhysical_xlate [OF assms(2)])
qed

text \<open>
  C7: after \<open>Map\<close> of a 4 KiB page \<open>GetPhysical\<close> returns the page it was mapped to, for every other
  page it returns what it returned before, and the tables stay a tree of taken pages. No entry on the
  way may carry the page-size bit.
\<close>

theorem map_translates:
  assumes "pt_inv pt s" "small_path (Mem s) pt (take 3 (va_path va))"
    and "Virtual_Map pt s va pa fl FourKiB = Inr s'"
  shows "remapped pt s va (pa AND 0x000FFFFFFFFFF000) s'"
proof -
  have pt: "pt \<noteq> 0" using assms(1) by (auto simp: pt_inv_def pt_tree_def is_path_def dest: spec [of _ "[]"])
  have ok: "va_ok va" by (rule Map_no_table(1) [OF assms(3) pt])
  have r: "rbind (map_dirs s pt (va_path va) ((fl OR 1) AND 0x3F)) (\<lambda>(t, s). leaf_write s t (va_path va ! 3)
      (\<lambda>e. Entry_SetAddress (Entry_setPresent True e OR (fl OR 1)) (drop_bit 12 pa))) = Inr s'"
    using assms(3) Map_small(1) [OF _ _ pt ok, of FourKiB] by simp
  show ?thesis
    using map_leaf_spec [OF assms(1,2) r Map_leaf_entry(1) etable_SetAddress]
    by (intro remappedI [OF assms(1) _ ok, where r = "Some (pa AND 0x000FFFFFFFFFF000)"]) simp_all
qed

theorem map_translates_witness:
  "\<exists>s'. Virtual_Map 0x1000 tiny 0x400000 0x9000 PTFlag_RW FourKiB = Inr s' \<and>
     remapped 0x1000 tiny 0x400000 0x9000 s'"
proof -
  obtain s' where s': "Virtual_Map 0x1000 tiny 0x400000 0x9000 PTFlag_RW FourKiB = Inr s'" by (rule tiny_map)
  from map_translates [OF tiny_inv tiny_small s'] s' show ?thesis by auto
qed

text \<open>
  C8: after \<open>Remap\<close> of a 4 KiB page \<open>GetPhysical\<close> returns the new page, and every other page is
  translated as before.
\<close>

theorem remap_translates:
  assumes "pt_inv pt s" "small_path (Mem s) pt (take 3 (va_path va))"
    and "Virtual_Remap pt s va pa fl FourKiB = Inr s'"
  shows "remapped pt s va (pa AND 0x000FFFFFFFFFF000) s'"
proof -
  have pt: "pt \<noteq> 0" using assms(1) by (auto simp: pt_inv_def pt_tree_def is_path_def dest: spec [of _ "[]"])
  have ok: "va_ok va" by (rule Map_no_table(2) [OF assms(3) pt])
  have r: "rbind (map_dirs s pt (va_path va) ((fl OR 1) AND 0x3F)) (\<lambda>(t, s). leaf_write s t (va_path va ! 3)
      (\<lambda>e. Entry_SetAddress (Entry_setPresent True ((e AND 0xFFF) OR (fl OR 1))) (drop_bit 12 pa))) = Inr s'"
    using assms(3) Map_small(2) [OF _ _ pt ok, of FourKiB] by simp
  show ?thesis
    using map_leaf_spec [OF assms(1,2) r Map_leaf_entry(2) etable_SetAddress]
    by (intro remappedI [OF assms(1) _ ok, where r = "Some (pa AND 0x000FFFFFFFFFF000)"]) simp_all
qed

theorem remap_translates_witness:
  "\<exists>s'. Virtual_Remap 0x1000 tiny 0x400000 0xA000 PTFlag_RW FourKiB = Inr s' \<and>
     remapped 0x1000 tiny 0x400000 0xA000 s'"
proof -
  have "\<exists>s'. Virtual_Remap 0x1000 tiny 0x400000 0xA000 PTFlag_RW FourKiB = Inr s'"
    by (simp add: paging_eval Virtual_Remap_def PTFlag_RW_def)
  then obtain s' where s': "Virtual_Remap 0x1000 tiny 0x400000 0xA000 PTFlag_RW FourKiB = Inr s'" by blast
  from remap_translates [OF tiny_inv tiny_small s'] s' show ?thesis by auto
qed

text \<open>
  C9: after \<open>Unmap\<close> of a 4 KiB page \<open>GetPhysical\<close> returns null for it, and every other page is
  translated as before.
\<close>

theorem unmap_translates:
  assumes "pt_inv pt s" "small_path (Mem s) pt (take 3 (va_path va))"
    and "Virtual_Unmap pt s va FourKiB = Inr s'"
  shows "remapped pt s va 0 s'"
proof -
  have "pt \<noteq> 0" using assms(1) by (auto simp: pt_inv_def pt_tree_def is_path_def dest: spec [of _ "[]"])
  then have ok: "va_ok va" using assms(3) by (auto simp: Virtual_Unmap_def indexer_eq split: if_splits)
  show ?thesis
    using Unmap_spec [OF assms] by (intro remappedI [OF assms(1) _ ok, of _ None]) simp_all
qed

theorem unmap_translates_witness:
  "\<exists>s s'. Virtual_Map 0x1000 tiny 0x400000 0x9000 PTFlag_RW FourKiB = Inr s \<and>
     Virtual_Unmap 0x1000 s 0x400000 FourKiB = Inr s' \<and> remapped 0x1000 s 0x400000 0 s'"
proof -
  obtain s where s: "Virtual_Map 0x1000 tiny 0x400000 0x9000 PTFlag_RW FourKiB = Inr s"
    "pt_inv 0x1000 s" "small_path (Mem s) 0x1000 (take 3 (va_path 0x400000))" by (rule tiny_map)
  have "\<exists>s'. Virtual_Unmap 0x1000 s 0x400000 FourKiB = Inr s'"
    using s(1) by (auto simp: paging_eval PTFlag_RW_def)
  then obtain s' where s': "Virtual_Unmap 0x1000 s 0x400000 FourKiB = Inr s'" by blast
  from unmap_translates [OF s(2,3) s'] s(1) s' show ?thesis by auto
qed

end
