(* ===== verification/PagingFindings.thy ===== *)
theory PagingFindings
  imports Translation
begin

section \<open>Limits of the page-table code\<close>

text \<open>
  Four behaviours of \<open>Memory::Virtual\<close> and \<open>PageTable\<close> on the concrete machine \<open>tiny\<close> that the
  hypotheses of the translation theorems exclude or that their conclusions do not cover.
\<close>

text \<open>
  \<open>Check\<close> tests the flags of the entry without its present bit: a page that was mapped writable
  and then unmapped still passes a check for the writable flag.
\<close>

theorem check_passes_after_unmap:
  "rbind (Virtual_Map 0x1000 tiny 0x400000 0x9000 PTFlag_RW FourKiB) (\<lambda>s.
   rbind (Virtual_Unmap 0x1000 s 0x400000 FourKiB) (\<lambda>s.
   rbind (Virtual_Check 0x1000 s 0x400000 PTFlag_P) (\<lambda>p.
   rbind (Virtual_Check 0x1000 s 0x400000 PTFlag_RW) (\<lambda>rw. Inr (p, rw))))) = Inr (False, True)"
  by (simp add: paging_eval PTFlag_RW_def)

text \<open>
  \<open>Map\<close> adds flags to what an entry holds and \<open>Unmap\<close> clears the present bit alone: a page that
  is mapped for users, unmapped and mapped again without that flag is open to users again.
\<close>

theorem map_revives_old_permissions:
  "rbind (Virtual_Map 0x1000 tiny 0x400000 0x9000 (PTFlag_RW OR PTFlag_US) FourKiB) (\<lambda>s.
   rbind (Virtual_Unmap 0x1000 s 0x400000 FourKiB) (\<lambda>s.
   rbind (Virtual_Map 0x1000 s 0x400000 0xA000 0 FourKiB) (\<lambda>s.
   Virtual_Check 0x1000 s 0x400000 PTFlag_US))) = Inr True"
  by (simp add: paging_eval PTFlag_RW_def PTFlag_US_def)

text \<open>
  after a 2 MiB page is unmapped its entry keeps the page-size bit; mapping a 4 KiB page in that
  range makes the entry of the new page table present with the bit set, and \<open>GetPhysical\<close> returns the
  address of the page table instead of the page that was mapped.
\<close>

theorem small_page_after_large_page:
  "rbind (Virtual_Map 0x1000 tiny 0x400000 0x200000 PTFlag_RW TwoMiB) (\<lambda>s.
   rbind (Virtual_Unmap 0x1000 s 0x400000 TwoMiB) (\<lambda>s.
   rbind (Virtual_Map 0x1000 s 0x401000 0x9000 PTFlag_RW FourKiB) (\<lambda>s.
   Virtual_GetPhysical 0x1000 s 0x401000))) = Inr 0x6000"
  by (simp add: paging_eval Virtual_GetPhysical_def PTFlag_RW_def)

text \<open>
  \<open>PageTable::Get\<close> adds the low twelve bits of the address to what \<open>GetPhysical\<close> returns, which
  for a large page is its first byte: an address past the first 4 KiB of a 2 MiB page is translated
  to the first 4 KiB.
\<close>

theorem get_loses_large_page_offset:
  "rbind (Virtual_Map 0x1000 tiny 0x400000 0x200000 PTFlag_RW TwoMiB) (\<lambda>s.
   PageTable_Get 0x1000 s 0x405123) = Inr 0x200123"
  by (simp add: paging_eval Virtual_GetPhysical_def PageTable_Get_def PTFlag_RW_def)

end
