(* ===== verification/Vma.thy ===== *)
theory Vma
  imports Translation
begin

section \<open>Memory of a process: \<open>VirtualMemoryArea\<close> and \<open>ProgramBreak\<close>\<close>

text \<open>
  A model of src/Kernel/core/memory/vma.cpp and src/Kernel/core/memory/brk.cpp on the machine of the
  page-table theory. The two \<open>std::list\<close> members are lists in their order. The lock \<open>MgrLock\<close> makes
  each operation atomic and has no state of its own. An address returned as an error is the
  two's complement of the error number.
\<close>

record AllocatedPages =
  ap_Address :: u64
  ap_PageCount :: u64
  ap_Protected :: bool

record SharedRegion =
  sr_Address :: u64
  sr_Read :: bool
  sr_Write :: bool
  sr_Exec :: bool
  sr_Fixed :: bool
  sr_Shared :: bool
  sr_Length :: u64
  sr_ReferenceCount :: u64

record vma =
  Table :: u64
  AllocatedPagesList :: "AllocatedPages list"
  SharedRegions :: "SharedRegion list"

definition errptr :: "int \<Rightarrow> u64" where
  "errptr e = word_of_int (- e)"

subsection \<open>Allocating and freeing\<close>

fun count_pages :: "AllocatedPages list \<Rightarrow> u64 \<Rightarrow> u64" where
  "count_pages [] Sz = Sz"
| "count_pages (ap # aps) Sz = count_pages aps (Sz + ap_PageCount ap)"

definition VMA_GetAllocatedMemorySize :: "vma \<Rightarrow> u64" where
  "VMA_GetAllocatedMemorySize v = FROM_PAGES (count_pages (AllocatedPagesList v) 0)"

definition memset_pages :: "machine \<Rightarrow> u64 \<Rightarrow> u64 \<Rightarrow> machine res" where
  "memset_pages s a n = for_range 0 n (\<lambda>i s. memset_page s (a + i * PAGE_SIZE)) s"

definition VMA_RequestPages :: "vma \<Rightarrow> machine \<Rightarrow> u64 \<Rightarrow> bool \<Rightarrow> bool \<Rightarrow> (u64 \<times> vma \<times> machine) res" where
  "VMA_RequestPages v s Count User Protect =
     rbind (alloc_pages s Count) (\<lambda>(Address, s).
     rbind (memset_pages s Address Count) (\<lambda>s.
     let Flags = PTFlag_RW;
         Flags = (if User then Flags OR PTFlag_US else Flags);
         Flags = (if Protect then Flags OR PTFlag_KRsv else Flags) in
     rbind (Virtual_MapRange (Table v) s Address Address (FROM_PAGES Count) Flags FourKiB) (\<lambda>s.
     Inr (Address,
          v\<lparr>AllocatedPagesList := AllocatedPagesList v @
              [\<lparr>ap_Address = Address, ap_PageCount = Count, ap_Protected = Protect\<rparr>]\<rparr>, s))))"

definition remap_pages :: "u64 \<Rightarrow> machine \<Rightarrow> u64 \<Rightarrow> u64 \<Rightarrow> machine res" where
  "remap_pages pt s Address Count =
     for_range 0 Count (\<lambda>i s.
       let AddressToMap = Address + i * PAGE_SIZE in
       Virtual_Remap pt s AddressToMap AddressToMap PTFlag_RW FourKiB) s"

definition free_pages_op :: "machine \<Rightarrow> u64 \<Rightarrow> u64 \<Rightarrow> machine res" where
  "free_pages_op s Address Count =
     rbind (Physical_FreePages (Alloc s) Address Count) (\<lambda>p. Inr (s\<lparr>Alloc := p\<rparr>))"

text \<open>The loop over the list; the entries already passed are kept to rebuild it after \<open>erase\<close>.\<close>

fun FreePages_loop ::
    "vma \<Rightarrow> machine \<Rightarrow> u64 \<Rightarrow> u64 \<Rightarrow> AllocatedPages list \<Rightarrow> AllocatedPages list \<Rightarrow> (vma \<times> machine) res" where
  "FreePages_loop v s Address Count passed [] = Inr (v, s)"
| "FreePages_loop v s Address Count passed (ap # aps) =
     (if ap_Address ap \<noteq> Address then FreePages_loop v s Address Count (passed @ [ap]) aps
      else if ap_Protected ap then Inr (v, s)
      else if ap_PageCount ap \<noteq> Count then Inr (v, s)
      else
        rbind (remap_pages (Table v) s Address Count) (\<lambda>s.
        rbind (free_pages_op s Address Count) (\<lambda>s.
        Inr (v\<lparr>AllocatedPagesList := passed @ aps\<rparr>, s))))"

definition VMA_FreePages :: "vma \<Rightarrow> machine \<Rightarrow> u64 \<Rightarrow> u64 \<Rightarrow> (vma \<times> machine) res" where
  "VMA_FreePages v s Address Count = FreePages_loop v s Address Count [] (AllocatedPagesList v)"

fun DetachAddress_loop :: "u64 \<Rightarrow> AllocatedPages list \<Rightarrow> AllocatedPages list" where
  "DetachAddress_loop Address [] = []"
| "DetachAddress_loop Address (ap # aps) =
     (if ap_Address ap = Address then (if ap_Protected ap then ap # aps else aps)
      else ap # DetachAddress_loop Address aps)"

definition VMA_DetachAddress :: "vma \<Rightarrow> u64 \<Rightarrow> vma" where
  "VMA_DetachAddress v Address =
     v\<lparr>AllocatedPagesList := DetachAddress_loop Address (AllocatedPagesList v)\<rparr>"

fun FreeAllPages_loop :: "u64 \<Rightarrow> machine \<Rightarrow> AllocatedPages list \<Rightarrow> machine res" where
  "FreeAllPages_loop pt s [] = Inr s"
| "FreeAllPages_loop pt s (ap # aps) =
     rbind (free_pages_op s (ap_Address ap) (ap_PageCount ap)) (\<lambda>s.
     rbind (remap_pages pt s (ap_Address ap) (ap_PageCount ap)) (\<lambda>s.
     FreeAllPages_loop pt s aps))"

definition VMA_FreeAllPages :: "vma \<Rightarrow> machine \<Rightarrow> (vma \<times> machine) res" where
  "VMA_FreeAllPages v s =
     rbind (FreeAllPages_loop (Table v) s (AllocatedPagesList v)) (\<lambda>s.
     Inr (v\<lparr>AllocatedPagesList := []\<rparr>, s))"

text \<open>The destructor.\<close>

fun VMA_destroy :: "machine \<Rightarrow> AllocatedPages list \<Rightarrow> machine res" where
  "VMA_destroy s [] = Inr s"
| "VMA_destroy s (ap # aps) =
     rbind (free_pages_op s (ap_Address ap) (ap_PageCount ap)) (\<lambda>s. VMA_destroy s aps)"

subsection \<open>Checked mapping\<close>

text \<open>\<open>for (va = from; va < to; va += PAGE_SIZE)\<close> with an early return when the test holds.\<close>

fun any_page :: "nat \<Rightarrow> u64 \<Rightarrow> u64 \<Rightarrow> (u64 \<Rightarrow> bool res) \<Rightarrow> bool res" where
  "any_page fuel va end test =
     (if fuel = 0 then Inl Diverges
      else if va < end then
        rbind (test va) (\<lambda>b. if b then Inr True else any_page (fuel - 1) (va + PAGE_SIZE) end test)
      else Inr False)"

declare any_page.simps [simp del]

definition VMA_Map :: "vma \<Rightarrow> machine \<Rightarrow> u64 \<Rightarrow> u64 \<Rightarrow> u64 \<Rightarrow> u64 \<Rightarrow> (int \<times> machine) res" where
  "VMA_Map v s VirtualAddress PhysicalAddress Length Flags =
     rbind (any_page (2 ^ 64) VirtualAddress (VirtualAddress + Length)
       (\<lambda>_. Virtual_Check (Table v) s VirtualAddress PTFlag_KRsv)) (\<lambda>r.
     if r then Inr (- EPERM, s) else
     rbind (any_page (2 ^ 64) PhysicalAddress (PhysicalAddress + Length)
       (\<lambda>_. Virtual_Check (Table v) s PhysicalAddress PTFlag_KRsv)) (\<lambda>r.
     if r then Inr (- EPERM, s) else
     rbind (Virtual_MapRange (Table v) s VirtualAddress PhysicalAddress Length Flags FourKiB) (\<lambda>s.
     Inr (0, s))))"

definition VMA_Remap :: "vma \<Rightarrow> machine \<Rightarrow> u64 \<Rightarrow> u64 \<Rightarrow> u64 \<Rightarrow> (int \<times> machine) res" where
  "VMA_Remap v s VirtualAddress PhysicalAddress Flags =
     rbind (Virtual_Check (Table v) s VirtualAddress PTFlag_KRsv) (\<lambda>r.
     if r then Inr (- EPERM, s) else
     rbind (Virtual_Check (Table v) s PhysicalAddress PTFlag_KRsv) (\<lambda>r.
     if r then Inr (- EPERM, s) else
     rbind (Virtual_Remap (Table v) s VirtualAddress PhysicalAddress Flags FourKiB) (\<lambda>s.
     Inr (0, s))))"

definition VMA_Unmap :: "vma \<Rightarrow> machine \<Rightarrow> u64 \<Rightarrow> u64 \<Rightarrow> (int \<times> machine) res" where
  "VMA_Unmap v s VirtualAddress Length =
     rbind (any_page (2 ^ 64) VirtualAddress (VirtualAddress + Length)
       (\<lambda>_. Virtual_Check (Table v) s VirtualAddress PTFlag_KRsv)) (\<lambda>r.
     if r then Inr (- EPERM, s) else
     rbind (Virtual_UnmapRange (Table v) s VirtualAddress Length FourKiB) (\<lambda>s.
     Inr (0, s)))"

definition VMA_UserCheckAndGetAddress :: "vma \<Rightarrow> machine \<Rightarrow> u64 \<Rightarrow> u64 \<Rightarrow> u64 res" where
  "VMA_UserCheckAndGetAddress v s Address Length =
     rbind (PageTable_Get (Table v) s Address) (\<lambda>pAddress.
     if pAddress = 0 then Inr 0 else
     let intAddress = Address AND NOT 0xFFF in
     rbind (any_page (2 ^ 64) intAddress (intAddress + Length)
       (\<lambda>va. rbind (Virtual_Check (Table v) s va PTFlag_US) (\<lambda>ok. Inr (\<not> ok)))) (\<lambda>bad.
     Inr (if bad then 0 else pAddress)))"

definition VMA_UserCheck :: "vma \<Rightarrow> machine \<Rightarrow> u64 \<Rightarrow> u64 \<Rightarrow> int res" where
  "VMA_UserCheck v s Address Length =
     rbind (Virtual_Check (Table v) s Address PTFlag_US) (\<lambda>ok.
     Inr (if ok then 0 else - EFAULT))"

subsection \<open>Copy on write\<close>

definition VMA_CreateCoWRegion ::
    "vma \<Rightarrow> machine \<Rightarrow> u64 \<Rightarrow> u64 \<Rightarrow> bool \<Rightarrow> bool \<Rightarrow> bool \<Rightarrow> bool \<Rightarrow> bool \<Rightarrow> (u64 \<times> vma \<times> machine) res" where
  "VMA_CreateCoWRegion v s Address Length Rd Wr Exc Fixed Shared =
     (if Address = 0 then VMA_RequestPages v s (TO_PAGES Length) True False
      else
     rbind (Virtual_Check (Table v) s Address PTFlag_KRsv) (\<lambda>r.
     if r then Inr (errptr EPERM, v, s) else
     rbind (Virtual_UnmapRange (Table v) s Address Length FourKiB) (\<lambda>s.
     rbind (Virtual_MapRange (Table v) s Address 0 Length PTFlag_CoW FourKiB) (\<lambda>s.
     Inr (Address,
          v\<lparr>SharedRegions := SharedRegions v @
              [\<lparr>sr_Address = Address, sr_Read = Rd, sr_Write = Wr, sr_Exec = Exc, sr_Fixed = Fixed,
                sr_Shared = Shared, sr_Length = Length, sr_ReferenceCount = 0\<rparr>]\<rparr>, s)))))"

definition Entry_CopyOnWrite :: "u64 \<Rightarrow> bool" where
  "Entry_CopyOnWrite raw = bit raw 9"

definition set_field :: "nat \<Rightarrow> bool \<Rightarrow> u64 \<Rightarrow> u64" where
  "set_field n b raw = (if b then set_bit n raw else unset_bit n raw)"

definition VMA_HandleCoW :: "vma \<Rightarrow> machine \<Rightarrow> u64 \<Rightarrow> (bool \<times> vma \<times> machine) res" where
  "VMA_HandleCoW v s PFA =
     rbind (Virtual_GetPTE (Table v) s PFA) (\<lambda>pte.
     case pte of
       None \<Rightarrow> Inr (False, v, s)
     | Some (t, i) \<Rightarrow>
         rbind (load s t i) (\<lambda>e.
         if \<not> Entry_CopyOnWrite e then Inr (False, v, s) else
         case find (\<lambda>sr. sr_Address sr \<le> PFA \<and> PFA < sr_Address sr + sr_Length sr) (SharedRegions v) of
           None \<Rightarrow> Inr (False, v, s)
         | Some sr \<Rightarrow>
             if sr_Shared sr then Inr (False, v, s) else
             rbind (VMA_RequestPages v s 1 False False) (\<lambda>(pAddr, v, s).
             if pAddr = 0 then Inr (False, v, s) else
             rbind (memset_page s pAddr) (\<lambda>s.
             rbind (load s t i) (\<lambda>e.
             rbind (assert_res (Entry_Present e)) (\<lambda>_.
             rbind (store s t i
               (set_field 9 False (set_field 63 (sr_Exec sr) (set_field 2 (sr_Read sr)
                 (set_field 1 (sr_Write sr) e))))) (\<lambda>s.
             Inr (True, v, s))))))))"

subsection \<open>Fork\<close>

definition memcpy_pages :: "machine \<Rightarrow> u64 \<Rightarrow> u64 \<Rightarrow> u64 \<Rightarrow> machine res" where
  "memcpy_pages s dst src n =
     for_range 0 n (\<lambda>i s. memcpy_page s (dst + i * PAGE_SIZE) (src + i * PAGE_SIZE)) s"

definition Fork_flags :: "u64 \<Rightarrow> u64" where
  "Fork_flags e =
     (if bit e 0 then PTFlag_P else 0) OR (if bit e 1 then PTFlag_RW else 0) OR
     (if bit e 2 then PTFlag_US else 0) OR (if bit e 9 then PTFlag_CoW else 0) OR
     (if bit e 10 then PTFlag_KRsv else 0)"

definition Fork_page :: "vma \<Rightarrow> u64 \<Rightarrow> u64 \<Rightarrow> u64 \<Rightarrow> machine \<Rightarrow> machine res" where
  "Fork_page v from Address i s =
     (let AddressToMap = from + i * PAGE_SIZE;
          RealAddress = Address + i * PAGE_SIZE in
      rbind (Virtual_GetPTE (Table v) s AddressToMap) (\<lambda>pte.
      case pte of
        None \<Rightarrow> Inl NullPointer
      | Some (t, j) \<Rightarrow>
          rbind (load s t j) (\<lambda>e.
          rbind (VMA_Map v s AddressToMap RealAddress PAGE_SIZE (Fork_flags e)) (\<lambda>(_, s). Inr s))))"

text \<open>The loop over the parent's pages; \<open>False\<close> when \<open>Fork\<close> returns early.\<close>

fun Fork_pages :: "vma \<Rightarrow> machine \<Rightarrow> AllocatedPages list \<Rightarrow> (bool \<times> vma \<times> machine) res" where
  "Fork_pages v s [] = Inr (True, v, s)"
| "Fork_pages v s (ap # aps) =
     (if ap_Protected ap then Fork_pages v s aps
      else
     rbind (VMA_RequestPages v s (ap_PageCount ap) False False) (\<lambda>r.
     let Address = fst r; v = fst (snd r); s = snd (snd r) in
     if Address = 0 then Inr (False, v, s) else
     rbind (memcpy_pages s Address (ap_Address ap) (ap_PageCount ap)) (\<lambda>s.
     rbind (for_range 0 (ap_PageCount ap) (Fork_page v (ap_Address ap) Address) s) (\<lambda>s.
     Fork_pages v s aps))))"

text \<open>
  The loop over the parent's shared regions. The copy is from the region to the address that was
  returned, which is the same address or, as an error, no address at all.
\<close>

fun Fork_regions :: "vma \<Rightarrow> machine \<Rightarrow> SharedRegion list \<Rightarrow> (vma \<times> machine) res" where
  "Fork_regions v s [] = Inr (v, s)"
| "Fork_regions v s (sr # srs) =
     rbind (VMA_CreateCoWRegion v s (sr_Address sr) (sr_Length sr) (sr_Read sr) (sr_Write sr) (sr_Exec sr)
       (sr_Fixed sr) (sr_Shared sr)) (\<lambda>r.
     if fst r = 0 then Inr (snd r)
     else if fst r \<noteq> sr_Address sr then Inl DanglingPointer
     else Fork_regions (fst (snd r)) (snd (snd r)) srs)"

definition VMA_Fork :: "vma \<Rightarrow> machine \<Rightarrow> vma option \<Rightarrow> (vma \<times> machine) res" where
  "VMA_Fork v s Parent =
     (case Parent of
       None \<Rightarrow> Inl AssertFailed
     | Some parent \<Rightarrow>
         rbind (Fork_pages v s (AllocatedPagesList parent)) (\<lambda>(go, v, s).
         if go then Fork_regions v s (SharedRegions parent) else Inr (v, s)))"

subsection \<open>\<open>ProgramBreak\<close>\<close>

record program_break =
  HeapStart :: u64
  Break :: u64

definition ROUND_UP :: "u64 \<Rightarrow> u64 \<Rightarrow> u64" where
  "ROUND_UP x y = (x + y - 1) AND NOT (y - 1)"

definition InitBrk :: "u64 \<Rightarrow> program_break" where
  "InitBrk Address = \<lparr>HeapStart = Address, Break = Address\<rparr>"

definition brk ::
    "program_break \<Rightarrow> vma \<Rightarrow> machine \<Rightarrow> u64 \<Rightarrow> (u64 \<times> program_break \<times> vma \<times> machine) res" where
  "brk b v s Address =
     (if HeapStart b = 0 \<or> Break b = 0 then Inr (errptr EAGAIN, b, v, s)
      else if Address = 0 then Inr (Break b, b, v, s)
      else if Address < HeapStart b then Inr (errptr ENOMEM, b, v, s)
      else if Address > Break b then
        let Pages = TO_PAGES (Address - Break b) in
        rbind (VMA_RequestPages v s Pages False False) (\<lambda>(Allocated, v, s).
        if Allocated = 0 then Inr (errptr ENOMEM, b, v, s) else
        rbind (for_range 0 Pages (\<lambda>i s.
          Virtual_Map (Table v) s (Break b + i * PAGE_SIZE) (Allocated + i * PAGE_SIZE)
            (PTFlag_RW OR PTFlag_US) FourKiB) s) (\<lambda>s.
        Inr (Address, b\<lparr>Break := ROUND_UP Address PAGE_SIZE\<rparr>, v, s)))
      else
        let Pages = TO_PAGES (Break b - Address) in
        rbind (VMA_FreePages v s (Break b) Pages) (\<lambda>(v, s).
        rbind (for_range 0 Pages (\<lambda>i s.
          let Page = Break b - i * 0x1000 in Virtual_Remap (Table v) s Page Page PTFlag_RW FourKiB) s) (\<lambda>s.
        Inr (Address, b\<lparr>Break := Address\<rparr>, v, s))))"

end
