(* ===== verification/VmaProofs.thy ===== *)
theory VmaProofs
  imports Vma
begin

section \<open>The pages of a process\<close>

text \<open>
  Lemmas on \<open>VirtualMemoryArea\<close>: the pages its list names are distinct and taken in the physical
  allocator, an allocation adds pages that were free, and a release gives back exactly the pages of
  one entry.
\<close>

subsection \<open>Page-table operations only take pages\<close>

definition takes :: "physical \<Rightarrow> physical \<Rightarrow> bool" where
  "takes p p' \<longleftrightarrow> phys_wf p' \<and> npages p' = npages p \<and> (\<forall>j. pbit p j \<longrightarrow> pbit p' j)"

lemma takes_refl: "phys_wf p \<Longrightarrow> takes p p"
  by (simp add: takes_def)

lemma takes_trans: "takes p q \<Longrightarrow> takes q r \<Longrightarrow> takes p r"
  by (simp add: takes_def)

lemma takes_wf: "takes p q \<Longrightarrow> phys_wf q"
  by (simp add: takes_def)

lemma alloc_pages_takes:
  assumes "phys_wf (Alloc s)" "alloc_pages s n = Inr (a, s')"
  shows "takes (Alloc s) (Alloc s')"
proof -
  from assms(2) obtain p where r: "Physical_RequestPages (Alloc s) n = Inr (a, p)" "s' = s\<lparr>Alloc := p\<rparr>"
    by (auto simp: alloc_pages_def res_simps)
  from RequestPages_spec [OF assms(1) r(1)] r(2) show ?thesis
    by (auto simp: takes_def run_taken_def)
qed

lemma store_Alloc: "store s t i e = Inr s' \<Longrightarrow> Alloc s' = Alloc s"
  by (auto simp: store_def split: if_splits)

lemma memset_page_Alloc: "memset_page s a = Inr s' \<Longrightarrow> Alloc s' = Alloc s"
  by (auto simp: memset_page_def split: if_splits)

lemma Map_table_takes:
  assumes "phys_wf (Alloc s)" "Map_table s t i df = Inr (a, s')"
  shows "takes (Alloc s) (Alloc s')"
proof -
  obtain e where e: "load s t i = Inr e" using assms(2) by (auto simp: Map_table_def res_simps)
  show ?thesis
  proof (cases "Entry_Present e")
    case True
    with e assms show ?thesis
      by (auto simp: Map_table_def res_simps dest!: store_Alloc intro: takes_refl)
  next
    case False
    with e assms(2) obtain s1 where "alloc_pages s (TO_PAGES (4096 + 1)) = Inr (a, s1)" "Alloc s' = Alloc s1"
      by (auto simp: Map_table_def res_simps dest!: store_Alloc memset_page_Alloc)
    then show ?thesis using alloc_pages_takes [OF assms(1)] by simp
  qed
qed

lemma map_dirs_takes:
  assumes "phys_wf (Alloc s)" "map_dirs s pt p df = Inr (t, s')"
  shows "takes (Alloc s) (Alloc s')"
proof -
  from assms(2) obtain t3 s1 t2 s2 where r: "Map_table s pt (p ! 0) df = Inr (t3, s1)"
    "Map_table s1 t3 (p ! 1) df = Inr (t2, s2)" "Map_table s2 t2 (p ! 2) df = Inr (t, s')"
    by (auto simp: map_dirs_def res_simps)
  have "takes (Alloc s) (Alloc s1)" by (rule Map_table_takes [OF assms(1) r(1)])
  moreover from this have "takes (Alloc s1) (Alloc s2)" by (intro Map_table_takes [OF takes_wf r(2)])
  moreover from this have "takes (Alloc s2) (Alloc s')" by (intro Map_table_takes [OF takes_wf r(3)])
  ultimately show ?thesis by (blast intro: takes_trans)
qed

lemma map_leaf_takes:
  assumes "phys_wf (Alloc s)"
    and "rbind (map_dirs s pt p df) (\<lambda>(t, s). leaf_write s t i g) = Inr s'"
  shows "takes (Alloc s) (Alloc s')"
proof -
  from assms(2) obtain t s1 where "map_dirs s pt p df = Inr (t, s1)" "leaf_write s1 t i g = Inr s'"
    by (auto simp: res_simps)
  moreover from this(2) have "Alloc s' = Alloc s1" by (auto simp: leaf_write_def res_simps dest!: store_Alloc)
  ultimately show ?thesis using map_dirs_takes [OF assms(1)] by simp
qed

lemma Virtual_Map_takes:
  assumes "phys_wf (Alloc s)" "Virtual_Map pt s va pa fl FourKiB = Inr s'"
  shows "takes (Alloc s) (Alloc s')"
proof (cases "pt = 0")
  case True
  with assms show ?thesis by (simp add: Virtual_Map_def takes_refl)
next
  case False
  have ok: "va_ok va" by (rule Map_no_table(1) [OF assms(2) False])
  have ne: "FourKiB \<noteq> OneGiB" "FourKiB \<noteq> TwoMiB" by simp_all
  show ?thesis
    using assms(2) map_leaf_takes [OF assms(1)] unfolding Map_small(1) [OF ne False ok] by blast
qed

lemma Virtual_Remap_takes:
  assumes "phys_wf (Alloc s)" "Virtual_Remap pt s va pa fl FourKiB = Inr s'"
  shows "takes (Alloc s) (Alloc s')"
proof (cases "pt = 0")
  case True
  with assms show ?thesis by (simp add: Virtual_Remap_def takes_refl)
next
  case False
  have ok: "va_ok va" by (rule Map_no_table(2) [OF assms(2) False])
  have ne: "FourKiB \<noteq> OneGiB" "FourKiB \<noteq> TwoMiB" by simp_all
  show ?thesis
    using assms(2) map_leaf_takes [OF assms(1)] unfolding Map_small(2) [OF ne False ok] by blast
qed

lemma takes_step:
  assumes "takes p (Alloc u)" "phys_wf (Alloc u) \<Longrightarrow> takes (Alloc u) (Alloc u')"
  shows "takes p (Alloc u')"
  using takes_trans [OF assms(1) assms(2) [OF takes_wf [OF assms(1)]]] .

lemma MapRange_takes:
  assumes "phys_wf (Alloc s)" "Virtual_MapRange pt s va pa n fl FourKiB = Inr s'"
  shows "takes (Alloc s) (Alloc s')"
proof (rule for_step_invariant [OF assms(2) [unfolded Virtual_MapRange_def]])
  show "takes (Alloc s) (Alloc s)" using assms(1) by (rule takes_refl)
  fix k u u'
  assume t: "takes (Alloc s) (Alloc u)" and m: "Virtual_Map pt u (va + k) (pa + k) fl FourKiB = Inr u'"
  show "takes (Alloc s) (Alloc u')" by (rule takes_step [OF t Virtual_Map_takes [OF _ m]])
qed

lemma for_Remap_takes:
  assumes "phys_wf (Alloc s)" "for_range 0 n (\<lambda>i s. Virtual_Remap pt s (f i) (g i) fl FourKiB) s = Inr s'"
  shows "takes (Alloc s) (Alloc s')"
proof (rule for_range_keep [OF assms(2)])
  show "takes (Alloc s) (Alloc s)" using assms(1) by (rule takes_refl)
  fix k u u'
  assume t: "takes (Alloc s) (Alloc u)" and m: "Virtual_Remap pt u (f k) (g k) fl FourKiB = Inr u'"
  show "takes (Alloc s) (Alloc u')" by (rule takes_step [OF t Virtual_Remap_takes [OF _ m]])
qed

lemma remap_pages_takes:
  assumes "phys_wf (Alloc s)" "remap_pages pt s a n = Inr s'"
  shows "takes (Alloc s) (Alloc s')"
  by (rule for_Remap_takes [OF assms(1) assms(2) [unfolded remap_pages_def Let_def]])

lemma memset_pages_Alloc: "memset_pages s a n = Inr s' \<Longrightarrow> Alloc s' = Alloc s"
  unfolding memset_pages_def
  by (drule for_range_keep [of _ _ _ _ "\<lambda>u. Alloc u = Alloc s"]) (auto dest: memset_page_Alloc)

lemma memset_pages_null: "memset_pages s 0 n = Inr s' \<Longrightarrow> n = 0"
proof (rule ccontr)
  assume m: "memset_pages s 0 n = Inr s'" and n: "n \<noteq> 0"
  then have "0 < n" by (simp add: word_greater_zero_iff)
  with m show False by (simp add: memset_pages_def for_range_step memset_page_def)
qed

subsection \<open>The pages of the list\<close>

text \<open>An entry names the run of \<open>PageCount\<close> pages from its address.\<close>

definition in_run :: "AllocatedPages \<Rightarrow> u64 \<Rightarrow> bool" where
  "in_run ap j \<longleftrightarrow> (let i = ap_Address ap div PAGE_SIZE in
     unat i \<le> unat j \<and> unat j < unat i + unat (ap_PageCount ap))"

text \<open>An entry is sound: aligned, not null, and its pages are inside the bitmap and taken.\<close>

definition ap_ok :: "physical \<Rightarrow> AllocatedPages \<Rightarrow> bool" where
  "ap_ok p ap \<longleftrightarrow> ap_PageCount ap \<noteq> 0 \<and> ap_Address ap \<noteq> 0 \<and>
     ap_Address ap mod PAGE_SIZE = 0 \<and>
     unat (ap_Address ap div PAGE_SIZE) + unat (ap_PageCount ap) \<le> unat (npages p) \<and>
     (\<forall>j. in_run ap j \<longrightarrow> pbit p j)"

definition disjoint_runs :: "AllocatedPages list \<Rightarrow> bool" where
  "disjoint_runs aps \<longleftrightarrow>
     (\<forall>m n j. m < length aps \<longrightarrow> n < length aps \<longrightarrow> in_run (aps ! m) j \<longrightarrow> in_run (aps ! n) j \<longrightarrow> m = n)"

definition vma_inv :: "AllocatedPages list \<Rightarrow> physical \<Rightarrow> bool" where
  "vma_inv aps p \<longleftrightarrow> phys_wf p \<and> (\<forall>ap \<in> set aps. ap_ok p ap) \<and> disjoint_runs aps"

definition owned :: "AllocatedPages list \<Rightarrow> u64 set" where
  "owned aps = {j. \<exists>ap \<in> set aps. in_run ap j}"

lemma vma_inv_takes: "vma_inv aps p \<Longrightarrow> takes p p' \<Longrightarrow> vma_inv aps p'"
  by (auto simp: vma_inv_def ap_ok_def takes_def)

lemma in_run_self: "ap_ok p ap \<Longrightarrow> in_run ap (ap_Address ap div PAGE_SIZE)"
  by (auto simp: ap_ok_def in_run_def Let_def unat_gt_0)

lemma disjoint_runs_Cons:
  "disjoint_runs (ap # aps) \<longleftrightarrow> disjoint_runs aps \<and> (\<forall>j. in_run ap j \<longrightarrow> j \<notin> owned aps)"
proof
  assume d: "disjoint_runs (ap # aps)"
  have "disjoint_runs aps"
    unfolding disjoint_runs_def
  proof (intro allI impI)
    fix m n j
    assume "m < length aps" "n < length aps" "in_run (aps ! m) j" "in_run (aps ! n) j"
    with d [unfolded disjoint_runs_def, rule_format, of "Suc m" "Suc n" j] show "m = n" by simp
  qed
  moreover have "j \<notin> owned aps" if j: "in_run ap j" for j
  proof
    assume "j \<in> owned aps"
    then obtain n where "n < length aps" "in_run (aps ! n) j" by (auto simp: owned_def in_set_conv_nth)
    with d [unfolded disjoint_runs_def, rule_format, of 0 "Suc n" j] j show False by simp
  qed
  ultimately show "disjoint_runs aps \<and> (\<forall>j. in_run ap j \<longrightarrow> j \<notin> owned aps)" by blast
next
  assume a: "disjoint_runs aps \<and> (\<forall>j. in_run ap j \<longrightarrow> j \<notin> owned aps)"
  then have o: "\<not> in_run (aps ! k) j" if "in_run ap j" "k < length aps" for j k
    using that by (auto simp: owned_def)
  show "disjoint_runs (ap # aps)"
    unfolding disjoint_runs_def
  proof (intro allI impI)
    fix m n j
    assume *: "m < length (ap # aps)" "n < length (ap # aps)" "in_run ((ap # aps) ! m) j"
      "in_run ((ap # aps) ! n) j"
    show "m = n"
      using * o a [THEN conjunct1, unfolded disjoint_runs_def, rule_format, of "m - 1" "n - 1" j]
      by (cases m; cases n) auto
  qed
qed

lemma owned_simps [simp]:
  "owned [] = {}" "owned (ap # aps) = {j. in_run ap j} \<union> owned aps"
  "owned (aps @ bps) = owned aps \<union> owned bps"
  by (auto simp: owned_def)

lemma disjoint_runs_append:
  "disjoint_runs (aps @ bps) \<longleftrightarrow> disjoint_runs aps \<and> disjoint_runs bps \<and> owned aps \<inter> owned bps = {}"
  by (induction aps) (auto simp: disjoint_runs_Cons disjoint_runs_def [of "[]"])

lemma vma_inv_middle: "vma_inv (bs @ ap # cs) p \<longleftrightarrow> vma_inv (ap # bs @ cs) p"
  by (auto simp: vma_inv_def disjoint_runs_append disjoint_runs_Cons)

subsection \<open>Allocation\<close>

lemma run_index:
  assumes "unat i + unat n \<le> unat (m :: u64)" "unat (i :: u64) \<le> unat j" "unat j < unat i + unat n"
  shows "j = i + of_nat (unat j - unat i)" "unat j - unat i < unat n"
proof -
  show "j = i + of_nat (unat j - unat i)" using assms(2) by (simp add: of_nat_diff)
  show "unat j - unat i < unat n" using assms(2,3) by linarith
qed

lemma alloc_pages_run:
  assumes "phys_wf (Alloc s)" "alloc_pages s n = Inr (a, s')"
  obtains i where "a = i * PAGE_SIZE" "a div PAGE_SIZE = i" "unat i + unat n \<le> unat (npages (Alloc s))"
    "\<And>j. unat i \<le> unat j \<Longrightarrow> unat j < unat i + unat n \<Longrightarrow> j \<in> free_pages (Alloc s) \<and> pbit (Alloc s') j"
proof -
  from assms(2) obtain p where r: "Physical_RequestPages (Alloc s) n = Inr (a, p)" "s' = s\<lparr>Alloc := p\<rparr>"
    by (auto simp: alloc_pages_def res_simps)
  from RequestPages_spec [OF assms(1) r(1)] obtain i h where i: "a = i * PAGE_SIZE" "i < npages (Alloc s)"
    "unat i + unat n \<le> unat (npages (Alloc s))" "\<forall>k < unat n. \<not> pbit (Alloc s) (i + of_nat k)"
    "run_taken ((Alloc s)\<lparr>PageBitmapIndex := h\<rparr>) i n p" by blast
  have "j \<in> free_pages (Alloc s) \<and> pbit (Alloc s') j"
    if j: "unat i \<le> unat j" "unat j < unat i + unat n" for j
  proof -
    have "\<not> pbit (Alloc s) j" using i(4) run_index [OF i(3) j] by metis
    moreover have "j < npages (Alloc s)" using i(3) j by (simp add: word_less_nat_alt)
    ultimately show ?thesis using i(5) j by (simp add: r(2) run_taken_def free_pages_def)
  qed
  then show thesis using i page_div [OF assms(1) i(2)] by (intro that [of i]) simp_all
qed

lemma page_mod: "(i * PAGE_SIZE) mod PAGE_SIZE = (0 :: u64)"
proof -
  have "(i * PAGE_SIZE) mod PAGE_SIZE = take_bit 12 (push_bit 12 i)"
    unfolding take_bit_eq_mod push_bit_eq_mult by (simp add: PAGE_SIZE_def)
  then show ?thesis by (simp add: take_bit_push_bit)
qed

lemma VMA_RequestPages_spec:
  assumes inv: "vma_inv (AllocatedPagesList v) (Alloc s)" and n: "n \<noteq> 0"
    and r: "VMA_RequestPages v s n user prot = Inr (a, v', s')"
  defines "ap \<equiv> \<lparr>ap_Address = a, ap_PageCount = n, ap_Protected = prot\<rparr>"
  shows "AllocatedPagesList v' = AllocatedPagesList v @ [ap]" "Table v' = Table v"
    "vma_inv (AllocatedPagesList v') (Alloc s')" "\<And>j. in_run ap j \<Longrightarrow> j \<in> free_pages (Alloc s)"
    "takes (Alloc s) (Alloc s')"
proof -
  obtain s1 s2 fl where al: "alloc_pages s n = Inr (a, s1)" and ms: "memset_pages s1 a n = Inr s2"
    and mp: "Virtual_MapRange (Table v) s2 a a (FROM_PAGES n) fl FourKiB = Inr s'"
    and v': "v' = v\<lparr>AllocatedPagesList := AllocatedPagesList v @ [ap]\<rparr>"
    using r by (auto simp: VMA_RequestPages_def res_simps Let_def ap_def)
  show l: "AllocatedPagesList v' = AllocatedPagesList v @ [ap]" and "Table v' = Table v"
    by (simp_all add: v')
  have wf: "phys_wf (Alloc s)" using inv by (simp add: vma_inv_def)
  have t1: "takes (Alloc s) (Alloc s1)" by (rule alloc_pages_takes [OF wf al])
  have s2: "Alloc s2 = Alloc s1" by (rule memset_pages_Alloc [OF ms])
  have t2: "takes (Alloc s1) (Alloc s')"
    using MapRange_takes [OF _ mp] takes_wf [OF t1] by (simp add: s2)
  show "takes (Alloc s) (Alloc s')" by (rule takes_trans [OF t1 t2])
  obtain i where i: "a = i * PAGE_SIZE" "a div PAGE_SIZE = i" "unat i + unat n \<le> unat (npages (Alloc s))"
    "\<And>j. unat i \<le> unat j \<Longrightarrow> unat j < unat i + unat n \<Longrightarrow> j \<in> free_pages (Alloc s) \<and> pbit (Alloc s1) j"
    by (rule alloc_pages_run [OF wf al]) blast
  then show free: "\<And>j. in_run ap j \<Longrightarrow> j \<in> free_pages (Alloc s)"
    by (simp add: in_run_def Let_def ap_def)
  have "a \<noteq> 0" using memset_pages_null [of s1 n s2] ms n by auto
  then have "ap_ok (Alloc s1) ap"
    using i n t1 page_mod [of i] by (simp add: ap_ok_def ap_def in_run_def takes_def)
  moreover have "vma_inv (AllocatedPagesList v) (Alloc s1)" by (rule vma_inv_takes [OF inv t1])
  moreover have "owned (AllocatedPagesList v) \<inter> {j. in_run ap j} = {}"
    using free inv by (auto simp: owned_def vma_inv_def ap_ok_def free_pages_def)
  ultimately have "vma_inv (AllocatedPagesList v @ [ap]) (Alloc s1)"
    by (auto simp: vma_inv_def disjoint_runs_append disjoint_runs_Cons disjoint_runs_def [of "[]"])
  then show "vma_inv (AllocatedPagesList v') (Alloc s')" using vma_inv_takes [OF _ t2] by (simp add: l)
qed

subsection \<open>Release\<close>

lemma FreePages_entry:
  assumes inv: "vma_inv (ap # aps) p"
  shows "\<exists>p'. Physical_FreePages p (ap_Address ap) (ap_PageCount ap) = Inr p' \<and> vma_inv aps p' \<and>
    npages p' = npages p \<and> (\<forall>j. pbit p' j \<longleftrightarrow> pbit p j \<and> \<not> in_run ap j)"
proof -
  let ?i = "ap_Address ap div PAGE_SIZE"
  have wf: "phys_wf p" and ok: "ap_ok p ap" using inv by (simp_all add: vma_inv_def)
  have m: "ap_Address ap mod PAGE_SIZE = 0" "ap_Address ap \<noteq> 0" using ok by (simp_all add: ap_ok_def)
  have a: "ap_Address ap = ?i * PAGE_SIZE" using div_mult_mod_eq [of "ap_Address ap" PAGE_SIZE] m(1) by simp
  have i: "?i \<noteq> 0" using a m(2) by (metis mult_zero_left)
  have le: "unat ?i + unat (ap_PageCount ap) \<le> unat (npages p)" using ok by (simp add: ap_ok_def)
  have "pbit p (?i + of_nat k)" if k: "k < unat (ap_PageCount ap)" for k
  proof -
    have "unat (of_nat k :: u64) = k" using k unat_u64 [of "ap_PageCount ap"] by (simp add: unat_of_nat_less)
    then have "unat (?i + of_nat k) = unat ?i + k"
      using k le unat_u64 [of "npages p"] by (subst unat_add_less) simp_all
    then show ?thesis using ok k by (simp add: ap_ok_def in_run_def)
  qed
  from FreePages_run [OF wf le i this, folded a] obtain p' where
    p': "Physical_FreePages p (ap_Address ap) (ap_PageCount ap) = Inr p'" "run_freed p ?i (ap_PageCount ap) p'"
    by blast
  from p'(2) have bits: "npages p' = npages p" "phys_wf p'" "\<And>j. pbit p' j \<longleftrightarrow> pbit p j \<and> \<not> in_run ap j"
    unfolding run_freed_def in_run_def Let_def by simp_all
  have "ap_ok p' x" if x: "x \<in> set aps" for x
  proof -
    have "\<not> in_run ap j" if "in_run x j" for j
      using inv x that by (auto simp: vma_inv_def disjoint_runs_Cons owned_def)
    moreover have "ap_ok p x" using inv x by (simp add: vma_inv_def)
    ultimately show ?thesis by (simp add: ap_ok_def bits)
  qed
  then have "vma_inv aps p'" using inv bits by (simp add: vma_inv_def disjoint_runs_Cons)
  with p'(1) bits show ?thesis by (intro exI [of _ p']) simp
qed

lemma free_pages_op_entry:
  assumes "vma_inv (ap # aps) (Alloc s)"
  obtains s' where "free_pages_op s (ap_Address ap) (ap_PageCount ap) = Inr s'" "vma_inv aps (Alloc s')"
    "npages (Alloc s') = npages (Alloc s)" "\<And>j. pbit (Alloc s') j \<longleftrightarrow> pbit (Alloc s) j \<and> \<not> in_run ap j"
    "Mem s' = Mem s"
proof -
  from FreePages_entry [OF assms] obtain p' where
    "Physical_FreePages (Alloc s) (ap_Address ap) (ap_PageCount ap) = Inr p'" "vma_inv aps p'"
    "npages p' = npages (Alloc s)" "\<forall>j. pbit p' j \<longleftrightarrow> pbit (Alloc s) j \<and> \<not> in_run ap j" by blast
  then show thesis by (intro that [of "s\<lparr>Alloc := p'\<rparr>"]) (simp_all add: free_pages_op_def)
qed

text \<open>What one call of \<open>FreePages\<close> does to the list \<open>aps\<close>.\<close>

definition released ::
    "AllocatedPages list \<Rightarrow> physical \<Rightarrow> u64 \<Rightarrow> u64 \<Rightarrow> AllocatedPages list \<Rightarrow> physical \<Rightarrow> bool" where
  "released aps p a n aps' p' \<longleftrightarrow> (\<exists>bs ap cs. aps = bs @ ap # cs \<and> aps' = bs @ cs \<and>
     ap = \<lparr>ap_Address = a, ap_PageCount = n, ap_Protected = False\<rparr> \<and>
     (\<forall>j. in_run ap j \<longrightarrow> j \<in> free_pages p') \<and> (\<forall>j. pbit p j \<longrightarrow> \<not> in_run ap j \<longrightarrow> pbit p' j))"

lemma vma_inv_address:
  assumes "vma_inv (ap # aps) p" "x \<in> set aps"
  shows "ap_Address x \<noteq> ap_Address ap"
proof
  assume e: "ap_Address x = ap_Address ap"
  have "in_run x (ap_Address x div PAGE_SIZE)" "in_run ap (ap_Address ap div PAGE_SIZE)"
    using assms in_run_self by (auto simp: vma_inv_def)
  with assms e show False by (auto simp: vma_inv_def disjoint_runs_Cons owned_def)
qed

lemma FreePages_loop_spec:
  assumes "FreePages_loop v s a n bs cs = Inr (v', s')" "AllocatedPagesList v = bs @ cs"
    "vma_inv (bs @ cs) (Alloc s)"
  shows "vma_inv (AllocatedPagesList v') (Alloc s') \<and> Table v' = Table v \<and>
    (v' = v \<and> s' = s \<and> \<lparr>ap_Address = a, ap_PageCount = n, ap_Protected = False\<rparr> \<notin> set cs \<or>
     released (bs @ cs) (Alloc s) a n (AllocatedPagesList v') (Alloc s'))"
  using assms
proof (induction v s a n bs cs rule: FreePages_loop.induct)
  case (2 v s a n bs ap cs)
  show ?case
  proof (cases "ap_Address ap = a \<and> \<not> ap_Protected ap \<and> ap_PageCount ap = n")
    case False
    have "\<lparr>ap_Address = a, ap_PageCount = n, ap_Protected = False\<rparr> \<notin> set cs" if "ap_Address ap = a"
      using vma_inv_address [of ap "bs @ cs" "Alloc s"
          "\<lparr>ap_Address = a, ap_PageCount = n, ap_Protected = False\<rparr>"] "2.prems"(3) that
      by (auto simp: vma_inv_middle)
    moreover have "\<lparr>ap_Address = a, ap_PageCount = n, ap_Protected = False\<rparr> \<noteq> ap" using False by auto
    ultimately show ?thesis using False 2 by (auto split: if_splits)
  next
    case True
    with "2.prems"(1) obtain s1 s2 where r: "remap_pages (Table v) s a n = Inr s1"
      "free_pages_op s1 a n = Inr s2" "v' = v\<lparr>AllocatedPagesList := bs @ cs\<rparr>" "s' = s2"
      by (auto simp: res_simps)
    have ap: "ap = \<lparr>ap_Address = a, ap_PageCount = n, ap_Protected = False\<rparr>" using True by simp
    have wf: "phys_wf (Alloc s)" using "2.prems"(3) by (simp add: vma_inv_def)
    have t: "takes (Alloc s) (Alloc s1)" by (rule remap_pages_takes [OF wf r(1)])
    have inv: "vma_inv (ap # bs @ cs) (Alloc s1)"
      using vma_inv_takes [OF "2.prems"(3) t] by (simp add: vma_inv_middle)
    obtain s3 where s3: "free_pages_op s1 a n = Inr s3" "vma_inv (bs @ cs) (Alloc s3)"
      "npages (Alloc s3) = npages (Alloc s1)" "\<And>j. pbit (Alloc s3) j \<longleftrightarrow> pbit (Alloc s1) j \<and> \<not> in_run ap j"
      using free_pages_op_entry [OF inv] True by auto
    have e: "s' = s3" using s3(1) r(2,4) by simp
    have bound: "j < npages (Alloc s1)" if "in_run ap j" for j
      using inv that by (auto simp: vma_inv_def ap_ok_def Bitmap_bit_def)
    have "released (bs @ ap # cs) (Alloc s) a n (bs @ cs) (Alloc s')"
      unfolding released_def
      by (intro exI [of _ bs] exI [of _ ap] exI [of _ cs])
         (use ap t bound s3 in \<open>simp add: e free_pages_def takes_def\<close>)
    then show ?thesis using s3(2) by (simp add: r(3) e)
  qed
qed simp

subsection \<open>Destruction\<close>

lemma VMA_destroy_spec:
  assumes "vma_inv aps (Alloc s)"
  shows "\<exists>s'. VMA_destroy s aps = Inr s' \<and> phys_wf (Alloc s') \<and> npages (Alloc s') = npages (Alloc s) \<and>
    (\<forall>j. pbit (Alloc s') j \<longleftrightarrow> pbit (Alloc s) j \<and> j \<notin> owned aps)"
  using assms
proof (induction aps arbitrary: s)
  case Nil
  then show ?case by (simp add: vma_inv_def)
next
  case (Cons ap aps)
  obtain s1 where s1: "free_pages_op s (ap_Address ap) (ap_PageCount ap) = Inr s1" "vma_inv aps (Alloc s1)"
    "npages (Alloc s1) = npages (Alloc s)" "\<And>j. pbit (Alloc s1) j \<longleftrightarrow> pbit (Alloc s) j \<and> \<not> in_run ap j"
    by (rule free_pages_op_entry [OF Cons.prems]) blast
  from Cons.IH [OF s1(2)] obtain s2 where "VMA_destroy s1 aps = Inr s2" "phys_wf (Alloc s2)"
    "npages (Alloc s2) = npages (Alloc s1)" "\<forall>j. pbit (Alloc s2) j \<longleftrightarrow> pbit (Alloc s1) j \<and> j \<notin> owned aps" by blast
  then show ?case using s1 by (intro exI [of _ s2]) auto
qed

subsection \<open>Checks over a range\<close>

lemma any_page_False:
  assumes "any_page fuel va e test = Inr False"
  shows "\<forall>k. unat va + k * 4096 < unat e \<longrightarrow> test (va + of_nat k * PAGE_SIZE) = Inr False"
  using assms
proof (induction fuel va e test rule: any_page.induct)
  case (1 fuel va e test)
  from "1.prems" have f: "fuel \<noteq> 0" by (subst (asm) any_page.simps) (auto split: if_splits)
  show ?case
  proof (cases "va < e")
    case False
    then show ?thesis by (auto simp: word_less_nat_alt)
  next
    case True
    with "1.prems" f have t: "test va = Inr False"
      and rec: "any_page (fuel - 1) (va + PAGE_SIZE) e test = Inr False"
      by (subst (asm) any_page.simps, auto simp: res_simps split: if_splits)+
    note IH = "1.IH" [OF f True t _ rec]
    show ?thesis
    proof (intro allI impI)
      fix k
      assume k: "unat va + k * 4096 < unat e"
      show "test (va + of_nat k * PAGE_SIZE) = Inr False"
      proof (cases k)
        case 0
        with t show ?thesis by simp
      next
        case (Suc m)
        have "unat (va + PAGE_SIZE) = unat va + 4096"
          using k Suc unat_u64 [of e] by (subst unat_add_less) (simp_all add: PAGE_SIZE_def)
        with IH k Suc have "test (va + PAGE_SIZE + of_nat m * PAGE_SIZE) = Inr False" by simp
        moreover have "va + PAGE_SIZE + of_nat m * PAGE_SIZE = va + of_nat k * PAGE_SIZE"
          by (simp add: Suc algebra_simps)
        ultimately show ?thesis by simp
      qed
    qed
  qed
qed

subsection \<open>A concrete process\<close>

definition proc :: vma where
  "proc = \<lparr>Table = 0x1000, AllocatedPagesList = [], SharedRegions = []\<rparr>"

lemmas vma_eval = paging_eval proc_def VMA_RequestPages_def memset_pages_def Virtual_MapRange_def
  for_step_def for_step_fuel.simps FROM_PAGES_def MapType_PageSize_def PTFlag_RW_def PTFlag_US_def PTFlag_KRsv_def

lemma proc_inv: "vma_inv (AllocatedPagesList proc) (Alloc tiny)"
  using tiny_inv by (simp add: vma_inv_def proc_def pt_inv_def disjoint_runs_def)

lemma proc_request: "\<exists>v s. VMA_RequestPages proc tiny 1 True False = Inr (0x2000, v, s)"
  by (simp add: vma_eval)

section \<open>Properties\<close>



text \<open>
  C11: \<open>FreePages\<close> of an entry of the list that is not protected, with its page count, makes exactly its
  pages free, removes it from the list, and keeps the pages of every other entry.
\<close>

theorem vma_free_releases:
  assumes "vma_inv (AllocatedPagesList v) (Alloc s)"
    and "\<lparr>ap_Address = a, ap_PageCount = n, ap_Protected = False\<rparr> \<in> set (AllocatedPagesList v)"
    and "VMA_FreePages v s a n = Inr (v', s')"
  shows "released (AllocatedPagesList v) (Alloc s) a n (AllocatedPagesList v') (Alloc s') \<and>
    vma_inv (AllocatedPagesList v') (Alloc s')"
proof -
  have r: "FreePages_loop v s a n [] (AllocatedPagesList v) = Inr (v', s')"
    using assms(3) by (simp add: VMA_FreePages_def)
  show ?thesis using FreePages_loop_spec [OF r] assms(1,2) by auto
qed

theorem vma_free_releases_witness:
  "\<exists>v s v' s'. VMA_RequestPages proc tiny 1 True False = Inr (0x2000, v, s) \<and>
    VMA_FreePages v s 0x2000 1 = Inr (v', s') \<and> AllocatedPagesList v' = [] \<and> 2 \<in> free_pages (Alloc s')"
proof -
  let ?ap = "\<lparr>ap_Address = 0x2000, ap_PageCount = 1, ap_Protected = False\<rparr>"
  have "\<exists>v s v' s'. VMA_RequestPages proc tiny 1 True False = Inr (0x2000, v, s) \<and>
    VMA_FreePages v s 0x2000 1 = Inr (v', s')"
    by (simp add: vma_eval VMA_FreePages_def remap_pages_def Virtual_Remap_def free_pages_op_def
        Physical_FreePages_def Physical_FreePage_def)
  then obtain v s v' s' where r: "VMA_RequestPages proc tiny 1 True False = Inr (0x2000, v, s)"
    and f: "VMA_FreePages v s 0x2000 1 = Inr (v', s')" by blast
  have l: "AllocatedPagesList v = [?ap]" and inv: "vma_inv (AllocatedPagesList v) (Alloc s)"
    using VMA_RequestPages_spec(1,3) [OF proc_inv _ r] by (simp_all add: proc_def)
  have "released [?ap] (Alloc s) 0x2000 1 (AllocatedPagesList v') (Alloc s')"
    using vma_free_releases [OF inv _ f] by (simp add: l)
  then have "AllocatedPagesList v' = []" "\<And>j. in_run ?ap j \<Longrightarrow> j \<in> free_pages (Alloc s')"
    by (auto simp: released_def Cons_eq_append_conv)
  moreover have "in_run ?ap 2" by (simp add: in_run_def PAGE_SIZE_def)
  ultimately show ?thesis using r f by blast
qed

text \<open>
  C12: destroying the memory area of a process succeeds, makes every page of its list free, and leaves
  every other page as it was.
\<close>

theorem vma_destroy_frees_all:
  assumes "vma_inv aps (Alloc s)"
  shows "\<exists>s'. VMA_destroy s aps = Inr s' \<and> phys_wf (Alloc s') \<and>
    free_pages (Alloc s') = free_pages (Alloc s) \<union> owned aps"
proof -
  obtain s' where s': "VMA_destroy s aps = Inr s'" "phys_wf (Alloc s')" "npages (Alloc s') = npages (Alloc s)"
    "\<forall>j. pbit (Alloc s') j \<longleftrightarrow> pbit (Alloc s) j \<and> j \<notin> owned aps" using VMA_destroy_spec [OF assms] by blast
  have "j < npages (Alloc s)" if "j \<in> owned aps" for j
    using assms that by (auto simp: vma_inv_def ap_ok_def owned_def Bitmap_bit_def)
  with s' show ?thesis by (intro exI [of _ s']) (auto simp: free_pages_def)
qed

theorem vma_destroy_frees_all_witness:
  "\<exists>v s s'. VMA_RequestPages proc tiny 1 True False = Inr (0x2000, v, s) \<and>
    VMA_destroy s (AllocatedPagesList v) = Inr s' \<and>
    free_pages (Alloc s') = free_pages (Alloc s) \<union> owned (AllocatedPagesList v)"
proof -
  obtain v s where r: "VMA_RequestPages proc tiny 1 True False = Inr (0x2000, v, s)"
    using proc_request by blast
  have inv: "vma_inv (AllocatedPagesList v) (Alloc s)" using VMA_RequestPages_spec(3) [OF proc_inv _ r] by simp
  from vma_destroy_frees_all [OF inv] r show ?thesis by blast
qed

text \<open>
  when \<open>__UserCheckAndGetAddress\<close> returns an address, that address is the translation of the user
  address, and every page from the start of its page for \<open>Length\<close> bytes passed the user check.
\<close>

theorem user_range_checked:
  assumes "VMA_UserCheckAndGetAddress v s a n = Inr q" "q \<noteq> 0"
  shows "PageTable_Get (Table v) s a = Inr q \<and>
    (\<forall>k. unat (a AND NOT 0xFFF) + k * 4096 < unat ((a AND NOT 0xFFF) + n) \<longrightarrow>
      Virtual_Check (Table v) s ((a AND NOT 0xFFF) + of_nat k * PAGE_SIZE) PTFlag_US = Inr True)"
proof -
  let ?a = "a AND NOT 0xFFF" and ?t = "\<lambda>va. rbind (Virtual_Check (Table v) s va PTFlag_US) (\<lambda>ok. Inr (\<not> ok))"
  have g: "PageTable_Get (Table v) s a = Inr q" and l: "any_page (2 ^ 64) ?a (?a + n) ?t = Inr False"
    using assms by (auto simp: VMA_UserCheckAndGetAddress_def res_simps Let_def split: if_splits)
  have "?t va = Inr False \<Longrightarrow> Virtual_Check (Table v) s va PTFlag_US = Inr True" for va
    by (auto simp: res_simps)
  with any_page_False [OF l] g show ?thesis by blast
qed

theorem user_range_checked_witness:
  "\<exists>v s. VMA_RequestPages proc tiny 1 True False = Inr (0x2000, v, s) \<and>
    VMA_UserCheckAndGetAddress v s 0x2008 4 = Inr 0x2008 \<and> Virtual_Check (Table v) s 0x2000 PTFlag_US = Inr True"
proof -
  have "\<exists>v s. VMA_RequestPages proc tiny 1 True False = Inr (0x2000, v, s) \<and>
    VMA_UserCheckAndGetAddress v s 0x2008 4 = Inr 0x2008"
    by (simp add: vma_eval VMA_UserCheckAndGetAddress_def PageTable_Get_def Virtual_GetPhysical_def any_page.simps)
  then obtain v s where r: "VMA_RequestPages proc tiny 1 True False = Inr (0x2000, v, s)"
    and u: "VMA_UserCheckAndGetAddress v s 0x2008 4 = Inr 0x2008" by blast
  from user_range_checked [OF u] have "unat (0x2008 AND NOT 0xFFF :: u64) + 0 * 4096 < unat ((0x2008 AND NOT 0xFFF) + 4 :: u64) \<longrightarrow>
      Virtual_Check (Table v) s ((0x2008 AND NOT 0xFFF) + of_nat 0 * PAGE_SIZE) PTFlag_US = Inr True" by simp
  then have "Virtual_Check (Table v) s 0x2000 PTFlag_US = Inr True" by simp
  with r u show ?thesis by blast
qed

text \<open>
  lowering the program break gives no page back: \<open>brk\<close> asks \<open>FreePages\<close> for an allocation that
  starts at the old break, and when there is none the list of the process stays as it is and every
  taken page stays taken.
\<close>

theorem brk_shrink_returns_no_page:
  assumes "brk b v s a = Inr (r, b', v', s')" "phys_wf (Alloc s)" "a \<noteq> 0" "HeapStart b \<le> a" "a \<le> Break b"
    and "HeapStart b \<noteq> 0" "\<forall>ap \<in> set (AllocatedPagesList v). ap_Address ap \<noteq> Break b"
  shows "r = a \<and> Break b' = a \<and> AllocatedPagesList v' = AllocatedPagesList v \<and>
    free_pages (Alloc s') \<subseteq> free_pages (Alloc s)"
proof -
  have "FreePages_loop v s (Break b) n bs aps = Inr (v, s)"
    if "\<forall>ap \<in> set aps. ap_Address ap \<noteq> Break b" for n bs aps
    using that by (induction aps arbitrary: bs) auto
  then have f: "VMA_FreePages v s (Break b) n = Inr (v, s)" for n
    using assms(7) by (simp add: VMA_FreePages_def)
  have "Break b \<noteq> 0" "\<not> a < HeapStart b" "\<not> Break b < a" using assms(3,5,4) by auto
  then have e: "r = a" "v' = v" "b' = b\<lparr>Break := a\<rparr>" "for_range 0 (TO_PAGES (Break b - a)) (\<lambda>i s.
      Virtual_Remap (Table v) s (Break b - i * 0x1000) (Break b - i * 0x1000) PTFlag_RW FourKiB) s = Inr s'"
    using assms(1,3,6) by (auto simp: brk_def f res_simps Let_def)
  have "takes (Alloc s) (Alloc s')" by (rule for_Remap_takes [OF assms(2) e(4)])
  then show ?thesis using e by (auto simp: takes_def free_pages_def)
qed

theorem brk_shrink_returns_no_page_witness:
  "\<exists>b' v' s'. brk \<lparr>HeapStart = 0x400000, Break = 0x402000\<rparr> proc tiny 0x401000 = Inr (0x401000, b', v', s') \<and>
    AllocatedPagesList v' = AllocatedPagesList proc \<and> free_pages (Alloc s') \<subseteq> free_pages (Alloc tiny)"
proof -
  have "\<exists>r b' v' s'. brk \<lparr>HeapStart = 0x400000, Break = 0x402000\<rparr> proc tiny 0x401000 = Inr (r, b', v', s')"
    by (simp add: vma_eval brk_def VMA_FreePages_def Virtual_Remap_def)
  then obtain r b' v' s' where
    b: "brk \<lparr>HeapStart = 0x400000, Break = 0x402000\<rparr> proc tiny 0x401000 = Inr (r, b', v', s')" by blast
  have "phys_wf (Alloc tiny)" using tiny_inv by (simp add: pt_inv_def)
  from brk_shrink_returns_no_page [OF b this] b show ?thesis by (simp add: proc_def)
qed

text \<open>
  the check adds \<open>Length\<close> to the start of the first page instead of to the address: two bytes at the
  end of a user page pass, although the second one is on a page that users may not access.
\<close>

theorem user_check_misses_the_last_page:
  "rbind (VMA_RequestPages proc tiny 1 True False) (\<lambda>(a, v, s).
   rbind (VMA_UserCheckAndGetAddress v s 0x2FFF 2) (\<lambda>q.
   rbind (Virtual_Check (Table v) s 0x3000 PTFlag_US) (\<lambda>b. Inr (q, b)))) = Inr (0x2FFF, False)"
  by (simp add: vma_eval VMA_UserCheckAndGetAddress_def PageTable_Get_def Virtual_GetPhysical_def any_page.simps)

end
