(* ===== verification/Tasks.thy ===== *)
theory Tasks
  imports Prelude
begin

section \<open>Processes and threads\<close>

text \<open>
  The control blocks of src/Kernel/include/task.hpp with the members the modelled code uses, the
  signal state of src/Kernel/include/signal.hpp, and the members of \<open>PCB\<close> and \<open>TCB\<close> that set states
  and exit codes (src/Kernel/tasking/process.cpp and thread.cpp). A thread belongs to the list of
  its process. Pointers to processes and threads are their identifiers.
\<close>

datatype TaskState =
    UnknownStatus | Ready | Running | Sleeping | Blocked | Stopped | Waiting | Zombie | CoreDump
  | Terminated | Frozen

datatype TaskExecutionMode = UnknownExecutionMode | Kernel | System | User

datatype TaskCompatibility = UnknownPlatform | Native | Linux | Windows

text \<open>
  The table \<open>Affinity\<close> has 256 entries, one for each value of a byte; the identifiers of CPUs are below
  \<open>MAX_CPU\<close>, 255.
\<close>

record TaskInfo =
  SleepUntil :: u64
  KernelTime :: u64
  UserTime :: u64
  LastUpdateTime :: u64
  Affinity :: "u8 \<Rightarrow> bool"
  Priority :: int

subsection \<open>Signal state\<close>

text \<open>
  The handler union of \<open>SignalAction\<close> is one 64-bit value: an address, or \<open>SIG_DFL\<close> (0) or \<open>SIG_IGN\<close> (1).
\<close>

record SignalAction =
  sa_handler :: u64
  sa_Mask :: u64
  sa_Flags :: u64
  sa_Restorer :: u64

record SignalInfo =
  si_sig :: int
  si_val :: u64
  si_tid :: int

text \<open>A watcher names the process whose \<open>Signal\<close> object its pointer refers to; \<open>None\<close> is \<open>nullptr\<close>.\<close>

record Watcher =
  w_sig :: int
  w_who :: "int option"

record signal =
  LastSignal :: int
  TrampAddr :: u64
  Queue :: "SignalInfo list"
  sa :: "SignalAction list"
  Watchers :: "Watcher list"
  Disposition :: "int \<Rightarrow> int option"

subsection \<open>Frames\<close>

text \<open>The registers an interrupt saves, \<open>CPU::x64::SchedulerFrame\<close>, in the order of the structure.\<close>

record SchedulerFrame =
  f_ppt :: u64
  f_opt :: u64
  f_r15 :: u64
  f_r14 :: u64
  f_r13 :: u64
  f_r12 :: u64
  f_r11 :: u64
  f_r10 :: u64
  f_r9 :: u64
  f_r8 :: u64
  f_rbp :: u64
  f_rdi :: u64
  f_rsi :: u64
  f_rdx :: u64
  f_rcx :: u64
  f_rbx :: u64
  f_rax :: u64
  f_InterruptNumber :: u64
  f_ErrorCode :: u64
  f_rip :: u64
  f_cs :: u64
  f_rflags :: u64
  f_rsp :: u64
  f_ss :: u64

text \<open>
  What the scheduler saves beside the frame: \<open>FXState\<close> (416 bytes, as 52 words) and three base
  registers. The CPU has the same four.
\<close>

record cpu_context =
  c_FPU :: "u64 list"
  c_ShadowGSBase :: u64
  c_GSBase :: u64
  c_FSBase :: u64

subsection \<open>Control blocks\<close>

record TCB =
  t_ID :: int
  t_State :: TaskState
  t_ExitCode :: int
  t_Mask :: u64
  t_Mode :: TaskExecutionMode
  t_Info :: TaskInfo
  t_Registers :: SchedulerFrame
  t_Context :: cpu_context

record PCB =
  p_ID :: int
  p_State :: TaskState
  p_ExitCode :: int
  p_Mode :: TaskExecutionMode
  p_Compatibility :: TaskCompatibility
  p_Info :: TaskInfo
  p_Parent :: "int option"
  p_Children :: "int list"
  p_Threads :: "TCB list"
  p_PageTable :: u64
  p_Signals :: signal

definition PCB_GetThread :: "PCB \<Rightarrow> int \<Rightarrow> TCB option" where
  "PCB_GetThread p ID = find (\<lambda>t. t_ID t = ID) (p_Threads p)"

definition PCB_SetState :: "TaskState \<Rightarrow> PCB \<Rightarrow> PCB" where
  "PCB_SetState state p =
     (let p = p\<lparr>p_State := state\<rparr> in
      case p_Threads p of
        [t] \<Rightarrow> p\<lparr>p_Threads := [t\<lparr>t_State := state\<rparr>]\<rparr>
      | _ \<Rightarrow> p)"

definition PCB_SetExitCode :: "int \<Rightarrow> PCB \<Rightarrow> PCB" where
  "PCB_SetExitCode code p =
     (let p = p\<lparr>p_ExitCode := code\<rparr> in
      case p_Threads p of
        [t] \<Rightarrow> p\<lparr>p_Threads := [t\<lparr>t_ExitCode := code\<rparr>]\<rparr>
      | _ \<Rightarrow> p)"

text \<open>The members of \<open>TCB\<close>: they act on the thread with the given identifier in its parent.\<close>

definition upd_thread :: "int \<Rightarrow> (TCB \<Rightarrow> TCB) \<Rightarrow> PCB \<Rightarrow> PCB" where
  "upd_thread ID f p = p\<lparr>p_Threads := map (\<lambda>t. if t_ID t = ID then f t else t) (p_Threads p)\<rparr>"

definition TCB_SetState :: "int \<Rightarrow> TaskState \<Rightarrow> PCB \<Rightarrow> PCB" where
  "TCB_SetState ID state p =
     (let p = upd_thread ID (\<lambda>t. t\<lparr>t_State := state\<rparr>) p in
      if length (p_Threads p) = 1 then p\<lparr>p_State := state\<rparr> else p)"

definition TCB_SetExitCode :: "int \<Rightarrow> int \<Rightarrow> PCB \<Rightarrow> PCB" where
  "TCB_SetExitCode ID code p =
     (let p = upd_thread ID (\<lambda>t. t\<lparr>t_ExitCode := code\<rparr>) p in
      if length (p_Threads p) = 1 then p\<lparr>p_ExitCode := code\<rparr> else p)"

text \<open>\<open>Task::Sleep\<close> of the current thread, without the switch that follows it; \<open>now\<close> is the clock.\<close>

definition Task_Sleep :: "int \<Rightarrow> u64 \<Rightarrow> u64 \<Rightarrow> PCB \<Rightarrow> PCB" where
  "Task_Sleep ID now Nanoseconds p =
     (let p = TCB_SetState ID Sleeping p;
          p = (if length (p_Threads p) = 1 then PCB_SetState Sleeping p else p) in
      upd_thread ID (\<lambda>t. t\<lparr>t_Info := (t_Info t)\<lparr>SleepUntil := now + Nanoseconds\<rparr>\<rparr>) p)"

lemma GetThread_upd:
  "(\<And>t. t_ID (f t) = t_ID t) \<Longrightarrow>
     PCB_GetThread (upd_thread ID f p) i = (if i = ID then map_option f (PCB_GetThread p i) else PCB_GetThread p i)"
proof -
  assume f: "\<And>t. t_ID (f t) = t_ID t"
  have "find (\<lambda>t. t_ID t = i) (map (\<lambda>t. if t_ID t = ID then f t else t) ts) =
      (if i = ID then map_option f (find (\<lambda>t. t_ID t = i) ts) else find (\<lambda>t. t_ID t = i) ts)" for ts
    by (induction ts) (auto simp: f)
  then show ?thesis by (simp add: PCB_GetThread_def upd_thread_def)
qed

lemma PCB_SetState_simps [simp]:
  "p_State (PCB_SetState st p) = st" "p_ID (PCB_SetState st p) = p_ID p"
  "p_Signals (PCB_SetState st p) = p_Signals p" "p_ExitCode (PCB_SetState st p) = p_ExitCode p"
  "p_Mode (PCB_SetState st p) = p_Mode p"
  by (simp_all add: PCB_SetState_def Let_def split: list.splits)

lemma PCB_SetExitCode_simps [simp]:
  "p_State (PCB_SetExitCode c p) = p_State p" "p_ID (PCB_SetExitCode c p) = p_ID p"
  "p_Signals (PCB_SetExitCode c p) = p_Signals p" "p_ExitCode (PCB_SetExitCode c p) = c"
  "p_Mode (PCB_SetExitCode c p) = p_Mode p"
  by (simp_all add: PCB_SetExitCode_def Let_def split: list.splits)

end
