(* ===== verification/LinuxSignals.thy ===== *)
theory LinuxSignals
  imports Tasks
begin

unbundle bit_operations_syntax

section \<open>Signal numbers of the Linux subsystem\<close>

text \<open>
  The signal numbers of src/Kernel/include/interface/syscalls.h, and the conversions of signals, signal
  masks, signal actions and error numbers between the kernel and Linux programs of
  src/Kernel/subsystem/linux/syscall.cpp. The interface of the two signal conversions is the locale
  \<open>signal_conv\<close>; its interpretations in both directions give the round trips of the masks.
\<close>

abbreviation (input) SIGABRT :: int where "SIGABRT \<equiv> 1"
abbreviation (input) SIGALRM :: int where "SIGALRM \<equiv> 2"
abbreviation (input) SIGBUS :: int where "SIGBUS \<equiv> 3"
abbreviation (input) SIGCHLD :: int where "SIGCHLD \<equiv> 4"
abbreviation (input) SIGCONT :: int where "SIGCONT \<equiv> 5"
abbreviation (input) SIGFPE :: int where "SIGFPE \<equiv> 6"
abbreviation (input) SIGHUP :: int where "SIGHUP \<equiv> 7"
abbreviation (input) SIGILL :: int where "SIGILL \<equiv> 8"
abbreviation (input) SIGINT :: int where "SIGINT \<equiv> 9"
abbreviation (input) SIGKILL :: int where "SIGKILL \<equiv> 10"
abbreviation (input) SIGPIPE :: int where "SIGPIPE \<equiv> 11"
abbreviation (input) SIGQUIT :: int where "SIGQUIT \<equiv> 12"
abbreviation (input) SIGSEGV :: int where "SIGSEGV \<equiv> 13"
abbreviation (input) SIGSTOP :: int where "SIGSTOP \<equiv> 14"
abbreviation (input) SIGTERM :: int where "SIGTERM \<equiv> 15"
abbreviation (input) SIGTSTP :: int where "SIGTSTP \<equiv> 16"
abbreviation (input) SIGTTIN :: int where "SIGTTIN \<equiv> 17"
abbreviation (input) SIGTTOU :: int where "SIGTTOU \<equiv> 18"
abbreviation (input) SIGUSR1 :: int where "SIGUSR1 \<equiv> 19"
abbreviation (input) SIGUSR2 :: int where "SIGUSR2 \<equiv> 20"
abbreviation (input) SIGPOLL :: int where "SIGPOLL \<equiv> 21"
abbreviation (input) SIGPROF :: int where "SIGPROF \<equiv> 22"
abbreviation (input) SIGSYS :: int where "SIGSYS \<equiv> 23"
abbreviation (input) SIGTRAP :: int where "SIGTRAP \<equiv> 24"
abbreviation (input) SIGURG :: int where "SIGURG \<equiv> 25"
abbreviation (input) SIGVTALRM :: int where "SIGVTALRM \<equiv> 26"
abbreviation (input) SIGXCPU :: int where "SIGXCPU \<equiv> 27"
abbreviation (input) SIGXFSZ :: int where "SIGXFSZ \<equiv> 28"
abbreviation (input) SIGCOMP1 :: int where "SIGCOMP1 \<equiv> 29"
abbreviation (input) SIGCOMP2 :: int where "SIGCOMP2 \<equiv> 30"
abbreviation (input) SIGCOMP3 :: int where "SIGCOMP3 \<equiv> 31"
abbreviation (input) SIGRTMIN :: int where "SIGRTMIN \<equiv> 32"
abbreviation (input) SIGRTMAX :: int where "SIGRTMAX \<equiv> 64"


abbreviation (input) linux_SIGHUP :: int where "linux_SIGHUP \<equiv> 1"
abbreviation (input) linux_SIGINT :: int where "linux_SIGINT \<equiv> 2"
abbreviation (input) linux_SIGQUIT :: int where "linux_SIGQUIT \<equiv> 3"
abbreviation (input) linux_SIGILL :: int where "linux_SIGILL \<equiv> 4"
abbreviation (input) linux_SIGTRAP :: int where "linux_SIGTRAP \<equiv> 5"
abbreviation (input) linux_SIGABRT :: int where "linux_SIGABRT \<equiv> 6"
abbreviation (input) linux_SIGBUS :: int where "linux_SIGBUS \<equiv> 7"
abbreviation (input) linux_SIGFPE :: int where "linux_SIGFPE \<equiv> 8"
abbreviation (input) linux_SIGKILL :: int where "linux_SIGKILL \<equiv> 9"
abbreviation (input) linux_SIGUSR1 :: int where "linux_SIGUSR1 \<equiv> 10"
abbreviation (input) linux_SIGSEGV :: int where "linux_SIGSEGV \<equiv> 11"
abbreviation (input) linux_SIGUSR2 :: int where "linux_SIGUSR2 \<equiv> 12"
abbreviation (input) linux_SIGPIPE :: int where "linux_SIGPIPE \<equiv> 13"
abbreviation (input) linux_SIGALRM :: int where "linux_SIGALRM \<equiv> 14"
abbreviation (input) linux_SIGTERM :: int where "linux_SIGTERM \<equiv> 15"
abbreviation (input) linux_SIGSTKFLT :: int where "linux_SIGSTKFLT \<equiv> 16"
abbreviation (input) linux_SIGCHLD :: int where "linux_SIGCHLD \<equiv> 17"
abbreviation (input) linux_SIGCONT :: int where "linux_SIGCONT \<equiv> 18"
abbreviation (input) linux_SIGSTOP :: int where "linux_SIGSTOP \<equiv> 19"
abbreviation (input) linux_SIGTSTP :: int where "linux_SIGTSTP \<equiv> 20"
abbreviation (input) linux_SIGTTIN :: int where "linux_SIGTTIN \<equiv> 21"
abbreviation (input) linux_SIGTTOU :: int where "linux_SIGTTOU \<equiv> 22"
abbreviation (input) linux_SIGURG :: int where "linux_SIGURG \<equiv> 23"
abbreviation (input) linux_SIGXCPU :: int where "linux_SIGXCPU \<equiv> 24"
abbreviation (input) linux_SIGXFSZ :: int where "linux_SIGXFSZ \<equiv> 25"
abbreviation (input) linux_SIGVTALRM :: int where "linux_SIGVTALRM \<equiv> 26"
abbreviation (input) linux_SIGPROF :: int where "linux_SIGPROF \<equiv> 27"
abbreviation (input) linux_SIGWINCH :: int where "linux_SIGWINCH \<equiv> 28"
abbreviation (input) linux_SIGPOLL :: int where "linux_SIGPOLL \<equiv> 29"
abbreviation (input) linux_SIGPWR :: int where "linux_SIGPWR \<equiv> 30"
abbreviation (input) linux_SIGSYS :: int where "linux_SIGSYS \<equiv> 31"
abbreviation (input) linux_SIGRTMIN :: int where "linux_SIGRTMIN \<equiv> 32"
abbreviation (input) linux_SIGRTMAX :: int where "linux_SIGRTMAX \<equiv> 64"

abbreviation (input) SIGNULL :: int where "SIGNULL \<equiv> 0"

subsection \<open>Signals and masks\<close>

text \<open>
  The rows of \<open>signalMapping\<close>: the Linux number and the number of the kernel. The real-time signals
  keep their number. The column of dispositions is not read by the code.
\<close>

definition signalMapping :: "(int \<times> int) list" where
  "signalMapping =
    [(linux_SIGHUP, SIGHUP), (linux_SIGINT, SIGINT), (linux_SIGQUIT, SIGQUIT),
     (linux_SIGILL, SIGILL), (linux_SIGTRAP, SIGTRAP), (linux_SIGABRT, SIGABRT),
     (linux_SIGBUS, SIGBUS), (linux_SIGFPE, SIGFPE), (linux_SIGKILL, SIGKILL),
     (linux_SIGUSR1, SIGUSR1), (linux_SIGSEGV, SIGSEGV), (linux_SIGUSR2, SIGUSR2),
     (linux_SIGPIPE, SIGPIPE), (linux_SIGALRM, SIGALRM), (linux_SIGTERM, SIGTERM),
     (linux_SIGSTKFLT, SIGCOMP1), (linux_SIGCHLD, SIGCHLD), (linux_SIGCONT, SIGCONT),
     (linux_SIGSTOP, SIGSTOP), (linux_SIGTSTP, SIGTSTP), (linux_SIGTTIN, SIGTTIN),
     (linux_SIGTTOU, SIGTTOU), (linux_SIGURG, SIGURG), (linux_SIGXCPU, SIGXCPU),
     (linux_SIGXFSZ, SIGXFSZ), (linux_SIGVTALRM, SIGVTALRM), (linux_SIGPROF, SIGPROF),
     (linux_SIGWINCH, SIGCOMP2), (linux_SIGPOLL, SIGPOLL), (linux_SIGPWR, SIGCOMP3),
     (linux_SIGSYS, SIGSYS)] @
    map (\<lambda>n. (n, n)) [linux_SIGRTMIN..linux_SIGRTMAX]"

definition ConvertSignalToLinux :: "int \<Rightarrow> int" where
  "ConvertSignalToLinux sig =
     (if SIGRTMIN \<le> sig \<and> sig \<le> SIGRTMAX then sig
      else case find (\<lambda>(_, nativeSignal). nativeSignal = sig) signalMapping of
             Some (linuxSignal, _) \<Rightarrow> linuxSignal
           | None \<Rightarrow> SIGNULL)"

definition ConvertSignalToNative :: "int \<Rightarrow> int" where
  "ConvertSignalToNative sig =
     (if linux_SIGRTMIN \<le> sig \<and> sig \<le> linux_SIGRTMAX then sig
      else case find (\<lambda>(linuxSignal, _). linuxSignal = sig) signalMapping of
             Some (_, nativeSignal) \<Rightarrow> nativeSignal
           | None \<Rightarrow> SIGNULL)"

text \<open>The body of the loops over the 64 bits of a mask.\<close>

definition ConvertMask_body :: "(int \<Rightarrow> int) \<Rightarrow> u64 \<Rightarrow> nat \<Rightarrow> u64 \<Rightarrow> u64" where
  "ConvertMask_body convert m i ret =
     (if m AND push_bit i 1 \<noteq> 0 then
        let sig = convert (int i + 1) in
        if sig = SIGNULL then ret else ret OR push_bit (nat (sig - 1)) 1
      else ret)"

definition ConvertMaskToNative :: "u64 \<Rightarrow> u64" where
  "ConvertMaskToNative m = fold (ConvertMask_body ConvertSignalToNative m) [0..<64] 0"

definition ConvertMaskToLinux :: "u64 \<Rightarrow> u64" where
  "ConvertMaskToLinux m = fold (ConvertMask_body ConvertSignalToLinux m) [0..<64] 0"

record k_sigaction =
  k_handler :: u64
  k_flags :: u64
  k_restorer :: u64
  k_mask0 :: u32
  k_mask1 :: u32

definition SetSigActToNative :: "k_sigaction \<Rightarrow> SignalAction" where
  "SetSigActToNative l =
     \<lparr>sa_handler = k_handler l,
      sa_Mask = ConvertMaskToNative (push_bit 32 (ucast (k_mask1 l)) OR ucast (k_mask0 l)),
      sa_Flags = k_flags l, sa_Restorer = k_restorer l\<rparr>"

definition SetSigActToLinux :: "SignalAction \<Rightarrow> k_sigaction" where
  "SetSigActToLinux n =
     (let m = ConvertMaskToLinux (sa_Mask n) in
      \<lparr>k_handler = sa_handler n, k_flags = sa_Flags n, k_restorer = sa_Restorer n,
       k_mask0 = ucast (m AND 0xFFFFFFFF), k_mask1 = ucast (drop_bit 32 m AND 0xFFFFFFFF)\<rparr>)"

subsection \<open>Error numbers\<close>

definition errnoMap :: "int list" where
  "errnoMap =
    [0, 7, 13, 98, 99, 97, 11, 114, 9, 74, 16, 125, 10, 103, 111, 104, 35, 89, 33, 122, 17, 14, 27,
     113, 43, 84, 115, 4, 22, 5, 106, 21, 40, 24, 31, 90, 72, 36, 100, 102, 101, 23, 105, 61, 19, 2,
     8, 37, 67, 12, 42, 92, 28, 63, 60, 38, 107, 20, 39, 131, 88, 95, 25, 6, 95, 75, 130, 1, 32, 71,
     93, 91, 34, 30, 29, 3, 116, 62, 110, 26, 11, 18]"

definition ConvertErrnoToLinux :: "int \<Rightarrow> int res" where
  "ConvertErrnoToLinux errc =
     (if errc \<ge> 0 then Inr errc
      else if nat (- errc) < length errnoMap then Inr (- (errnoMap ! nat (- errc)))
      else Inl OutOfBounds)"

subsection \<open>The interface of a signal conversion\<close>

text \<open>
  Two conversions between the numbers 1 to 64, the second undoing the first. The bit of a signal in a
  converted mask is then the bit of its image, and converting back restores the mask.
\<close>

lemma ConvertMask_bit:
  assumes "distinct is" "set is \<subseteq> {0..<64}" "\<forall>i \<in> {0..<64}. 1 \<le> f (int i + 1) \<and> f (int i + 1) \<le> 64"
  shows "bit (fold (ConvertMask_body f m) is r) n \<longleftrightarrow>
           bit r n \<or> (\<exists>i \<in> set is. bit m i \<and> n = nat (f (int i + 1) - 1))"
  using assms(1,2)
proof (induction "is" arbitrary: r)
  case (Cons i "is")
  have i: "i < 64" and f: "1 \<le> f (int i + 1)" "f (int i + 1) \<le> 64"
    using Cons.prems assms(3) by auto
  then have *: "bit (ConvertMask_body f m i r) n \<longleftrightarrow> bit r n \<or> bit m i \<and> n = nat (f (int i + 1) - 1)"
    by (auto simp: ConvertMask_body_def bit_simps and_exp_eq_0_iff_not_bit Let_def)
  show ?case using Cons by (auto simp: *)
qed simp

locale signal_conv =
  fixes conv :: "int \<Rightarrow> int" and unconv :: "int \<Rightarrow> int"
  assumes conv_range: "1 \<le> s \<Longrightarrow> s \<le> 64 \<Longrightarrow> 1 \<le> conv s \<and> conv s \<le> 64"
    and unconv_range: "1 \<le> s \<Longrightarrow> s \<le> 64 \<Longrightarrow> 1 \<le> unconv s \<and> unconv s \<le> 64"
    and unconv_conv: "1 \<le> s \<Longrightarrow> s \<le> 64 \<Longrightarrow> unconv (conv s) = s"
begin

lemma conv_mask_bit:
  "bit (fold (ConvertMask_body conv m) [0..<64] 0) n \<longleftrightarrow>
     (\<exists>i < 64. bit m i \<and> n = nat (conv (int i + 1) - 1))"
  using ConvertMask_bit [of "[0..<64]" conv m 0 n] conv_range by auto

lemma unconv_mask_bit:
  "bit (fold (ConvertMask_body unconv m) [0..<64] 0) n \<longleftrightarrow>
     (\<exists>i < 64. bit m i \<and> n = nat (unconv (int i + 1) - 1))"
  using ConvertMask_bit [of "[0..<64]" unconv m 0 n] unconv_range by auto

lemma mask_round_trip:
  "fold (ConvertMask_body unconv (fold (ConvertMask_body conv m) [0..<64] 0)) [0..<64] 0 = (m :: u64)"
proof (rule bit_word_eqI)
  fix n assume "n < LENGTH(64)"
  then have n: "n < 64" by simp
  have *: "nat (unconv (int (nat (conv (int i + 1) - 1)) + 1) - 1) = i" "nat (conv (int i + 1) - 1) < 64"
    if "i < 64" for i
    using conv_range [of "int i + 1"] unconv_conv [of "int i + 1"] that by auto
  show "bit (fold (ConvertMask_body unconv (fold (ConvertMask_body conv m) [0..<64] 0)) [0..<64] 0) n = bit m n"
    unfolding unconv_mask_bit conv_mask_bit using * n by metis
qed

end

lemmas table_eval = ConvertSignalToLinux_def ConvertSignalToNative_def signalMapping_def

lemma table_rows:
  "list_all (\<lambda>s. ConvertSignalToLinux s \<in> set [1..31] \<and> ConvertSignalToNative (ConvertSignalToLinux s) = s) [1..31]"
  "list_all (\<lambda>s. ConvertSignalToNative s \<in> set [1..31] \<and> ConvertSignalToLinux (ConvertSignalToNative s) = s) [1..31]"
  by code_simp+

lemma table_spec:
  assumes "1 \<le> s" "s \<le> 64"
  shows "1 \<le> ConvertSignalToLinux s \<and> ConvertSignalToLinux s \<le> 64"
    "1 \<le> ConvertSignalToNative s \<and> ConvertSignalToNative s \<le> 64"
    "ConvertSignalToNative (ConvertSignalToLinux s) = s"
    "ConvertSignalToLinux (ConvertSignalToNative s) = s"
proof -
  have rt: "ConvertSignalToLinux s = s" "ConvertSignalToNative s = s" if "32 \<le> s"
    using that assms by (simp_all add: table_eval)
  have low: "s \<in> set [1..31]" if "\<not> 32 \<le> s" using that assms by simp
  show "1 \<le> ConvertSignalToLinux s \<and> ConvertSignalToLinux s \<le> 64"
    "1 \<le> ConvertSignalToNative s \<and> ConvertSignalToNative s \<le> 64"
    "ConvertSignalToNative (ConvertSignalToLinux s) = s"
    "ConvertSignalToLinux (ConvertSignalToNative s) = s"
    using rt assms low table_rows [unfolded list_all_iff] by (cases "32 \<le> s"; force)+
qed

interpretation to_linux: signal_conv ConvertSignalToLinux ConvertSignalToNative
  by unfold_locales (simp_all add: table_spec)

interpretation to_native: signal_conv ConvertSignalToNative ConvertSignalToLinux
  by unfold_locales (simp_all add: table_spec)

lemma ConvertMaskToLinux_bit:
  "bit (ConvertMaskToLinux m) n \<longleftrightarrow> (\<exists>i < 64. bit m i \<and> n = nat (ConvertSignalToLinux (int i + 1) - 1))"
  unfolding ConvertMaskToLinux_def by (rule to_linux.conv_mask_bit)

subsection \<open>Properties\<close>

text \<open>
  C18. Masks convert without loss in both directions: a mask converted for a Linux program and back is
  the mask, and so is a Linux mask converted for the kernel and back.
\<close>

theorem mask_conversion_round_trip:
  "ConvertMaskToNative (ConvertMaskToLinux m) = m \<and> ConvertMaskToLinux (ConvertMaskToNative m) = m"
  unfolding ConvertMaskToNative_def ConvertMaskToLinux_def
  by (simp only: to_linux.mask_round_trip to_native.mask_round_trip)

lemma mask_halves:
  "push_bit 32 (ucast (ucast (drop_bit 32 m AND 0xFFFFFFFF) :: u32)) OR ucast (ucast (m AND 0xFFFFFFFF) :: u32)
     = (m :: u64)"
proof (rule bit_word_eqI)
  fix n assume "n < LENGTH(64)"
  then have n: "n < 64" by simp
  have F: "(0xFFFFFFFF :: u64) = mask 32" by (simp add: mask_eq_exp_minus_1)
  show "bit (push_bit 32 (ucast (ucast (drop_bit 32 m AND 0xFFFFFFFF) :: u32)) OR
          ucast (ucast (m AND 0xFFFFFFFF) :: u32) :: u64) n = bit m n"
    using n unfolding F by (auto simp: bit_simps)
qed

text \<open>
  A signal action handed to a Linux program and taken back is unchanged: handler, flags, restorer
  and the mask, which the Linux structure holds as two 32-bit halves.
\<close>

theorem sigaction_round_trip: "SetSigActToNative (SetSigActToLinux act) = act"
proof -
  have "ConvertMaskToNative (ConvertMaskToLinux m) = m" for m
    unfolding ConvertMaskToNative_def ConvertMaskToLinux_def by (rule to_linux.mask_round_trip)
  then show ?thesis by (simp add: SetSigActToNative_def SetSigActToLinux_def Let_def mask_halves)
qed

lemma errnoMap_range: "list_all (\<lambda>v. 1 \<le> v \<and> v \<le> 131) (tl errnoMap)"
  by (simp add: errnoMap_def)

lemma errnoMap_length [simp]: "length errnoMap = 82"
  by (simp add: errnoMap_def)

text \<open>The first index of the table with the value at index \<open>i\<close> is \<open>i\<close>, but for the two aliases.\<close>

definition errno_class :: "nat \<Rightarrow> nat" where
  "errno_class i = (if i = 64 then 61 else if i = 80 then 6 else i)"

lemma errnoMap_first:
  "map (map_of (zip errnoMap [0..<82])) errnoMap = map (\<lambda>i. Some (errno_class i)) [0..<82]"
  by code_simp

lemma errnoMap_inj:
  assumes "i < 82" "j < 82" "errnoMap ! i = errnoMap ! j"
  shows "errno_class i = errno_class j"
proof -
  have "map_of (zip errnoMap [0..<82]) (errnoMap ! k) = Some (errno_class k)" if "k < 82" for k
    using arg_cong [OF errnoMap_first, of "\<lambda>xs. xs ! k"] that by simp
  then show ?thesis using assms by (metis option.inject)
qed

lemma ConvertErrnoToLinux_neg:
  assumes "i \<in> set [1..<82]"
  shows "ConvertErrnoToLinux (- int i) = Inr (- (errnoMap ! i))"
  using assms by (simp add: ConvertErrnoToLinux_def)

text \<open>
  C19. Every error of the kernel becomes an error of Linux, between -131 and -1, and two errors become
  the same one only when Linux has one number for both: \<open>ENOTSUP\<close> and \<open>EOPNOTSUPP\<close> (61 and 64), \<open>EAGAIN\<close>
  and \<open>EWOULDBLOCK\<close> (6 and 80). Results that are not errors are passed on, and a negative value that
  is no error number reads outside the table.
\<close>

theorem errno_conversion:
  "(0 \<le> e \<longrightarrow> ConvertErrnoToLinux e = Inr e) \<and>
   (e < - 81 \<longrightarrow> ConvertErrnoToLinux e = Inl OutOfBounds) \<and>
   (- 81 \<le> e \<and> e < 0 \<longrightarrow>
     (\<exists>v. ConvertErrnoToLinux e = Inr v \<and> - 131 \<le> v \<and> v < 0 \<and>
        (\<forall>e'. - 81 \<le> e' \<and> e' < 0 \<and> ConvertErrnoToLinux e' = Inr v \<longrightarrow>
           e' = e \<or> {e, e'} = {- 61, - 64} \<or> {e, e'} = {- 6, - 80})))"
proof (intro conjI impI)
  assume e: "- 81 \<le> e \<and> e < 0"
  then have i: "nat (- e) \<in> set [1..<82]" and e': "- int (nat (- e)) = e" by auto
  note c = ConvertErrnoToLinux_neg [OF i, unfolded e']
  show "\<exists>v. ConvertErrnoToLinux e = Inr v \<and> - 131 \<le> v \<and> v < 0 \<and>
        (\<forall>e'. - 81 \<le> e' \<and> e' < 0 \<and> ConvertErrnoToLinux e' = Inr v \<longrightarrow>
           e' = e \<or> {e, e'} = {- 61, - 64} \<or> {e, e'} = {- 6, - 80})"
  proof (intro exI conjI allI impI)
    show "ConvertErrnoToLinux e = Inr (- (errnoMap ! nat (- e)))" by (rule c)
    show "- 131 \<le> - (errnoMap ! nat (- e))" "- (errnoMap ! nat (- e)) < 0"
      using errnoMap_range i nth_tl [of "nat (- e) - 1" errnoMap]
      by (auto simp: list_all_length Suc_diff_Suc dest: spec [of _ "nat (- e) - 1"])
  next
    fix d assume d: "- 81 \<le> d \<and> d < 0 \<and> ConvertErrnoToLinux d = Inr (- (errnoMap ! nat (- e)))"
    then have j: "nat (- d) \<in> set [1..<82]" and d': "- int (nat (- d)) = d" by auto
    have "errnoMap ! nat (- e) = errnoMap ! nat (- d)"
      using d ConvertErrnoToLinux_neg [OF j, unfolded d'] by simp
    then have "errno_class (nat (- e)) = errno_class (nat (- d))"
      using i j by (intro errnoMap_inj) auto
    then show "d = e \<or> {e, d} = {- 61, - 64} \<or> {e, d} = {- 6, - 80}"
      using e d by (auto simp: nat_eq_iff errno_class_def split: if_splits)
  qed
qed (auto simp: ConvertErrnoToLinux_def errnoMap_def)

theorem errno_conversion_witness: "ConvertErrnoToLinux (- EPERM) = Inr (- 1)"
  using errno_conversion [of "- EPERM"] by (auto simp: EPERM_def ConvertErrnoToLinux_def errnoMap_def)

end
