(* ===== verification/Signals.thy ===== *)
theory Signals
  imports LinuxSignals
begin

unbundle bit_operations_syntax

section \<open>Signals\<close>

text \<open>
  A model of src/Kernel/tasking/signal.cpp. A system is the list of its processes; a \<open>Signal\<close> object is
  the member \<open>p_Signals\<close> of one of them. Sending a signal takes the lock of the receiver, and the
  \<open>SIGCHLD\<close> that its watchers get takes theirs while the first is held: a receiver that is already
  locked waits forever.
  \<^item> \<open>mask\<close> stands for the signal mask of the current thread, \<open>tramp\<close> for what the request of
    pages for the trampoline gives: their address, or a fault when there is no memory.
  \<^item> \<open>freed\<close> stands for what reading a list node gives after the node is deleted
    (\<open>GetAvailableSignal\<close> reads one).
\<close>

subsection \<open>Dispositions\<close>

abbreviation (input) SIG_TERM :: int where "SIG_TERM \<equiv> 0"
abbreviation (input) SIG_IGN :: int where "SIG_IGN \<equiv> 1"
abbreviation (input) SIG_CONT :: int where "SIG_CONT \<equiv> 2"
abbreviation (input) SIG_STOP :: int where "SIG_STOP \<equiv> 3"
abbreviation (input) SIG_CORE :: int where "SIG_CORE \<equiv> 4"

definition SignalDisposition :: "(int \<times> int) list" where
  "SignalDisposition =
    [(SIGHUP, SIG_TERM), (SIGINT, SIG_TERM), (SIGQUIT, SIG_TERM), (SIGILL, SIG_CORE),
     (SIGTRAP, SIG_CORE), (SIGABRT, SIG_CORE), (SIGBUS, SIG_CORE), (SIGFPE, SIG_CORE),
     (SIGKILL, SIG_TERM), (SIGUSR1, SIG_TERM), (SIGSEGV, SIG_CORE), (SIGUSR2, SIG_TERM),
     (SIGPIPE, SIG_TERM), (SIGALRM, SIG_TERM), (SIGTERM, SIG_TERM), (SIGCOMP1, SIG_IGN),
     (SIGCHLD, SIG_IGN), (SIGCONT, SIG_CONT), (SIGSTOP, SIG_STOP), (SIGTSTP, SIG_STOP),
     (SIGTTIN, SIG_STOP), (SIGTTOU, SIG_STOP), (SIGURG, SIG_IGN), (SIGXCPU, SIG_CORE),
     (SIGXFSZ, SIG_CORE), (SIGVTALRM, SIG_TERM), (SIGPROF, SIG_TERM), (SIGCOMP2, SIG_IGN),
     (SIGPOLL, SIG_TERM), (SIGCOMP3, SIG_IGN), (SIGSYS, SIG_CORE)] @
    map (\<lambda>n. (n, SIG_IGN)) [SIGRTMIN..SIGRTMAX]"

definition GetDefaultSignalDisposition :: "int \<Rightarrow> int" where
  "GetDefaultSignalDisposition sig =
     (case map_of SignalDisposition sig of Some d \<Rightarrow> d | None \<Rightarrow> SIG_TERM)"

text \<open>A new \<open>Signal\<close>: its own table of dispositions has the same rows.\<close>

definition Signal_new :: signal where
  "Signal_new =
     \<lparr>LastSignal = 0, TrampAddr = 0, Queue = [],
      sa = replicate 65 \<lparr>sa_handler = 0, sa_Mask = 0, sa_Flags = 0, sa_Restorer = 0\<rparr>,
      Watchers = [], Disposition = map_of SignalDisposition\<rparr>"

text \<open>\<open>operator[]\<close> of the map of dispositions inserts zero for a missing key.\<close>

definition disp_at :: "signal \<Rightarrow> int \<Rightarrow> int" where
  "disp_at s sig = (case Disposition s sig of Some d \<Rightarrow> d | None \<Rightarrow> 0)"

definition disp_touch :: "int \<Rightarrow> signal \<Rightarrow> signal" where
  "disp_touch sig s = s\<lparr>Disposition := (Disposition s)(sig \<mapsto> disp_at s sig)\<rparr>"

definition sa_at :: "signal \<Rightarrow> int \<Rightarrow> SignalAction res" where
  "sa_at s sig = (if 0 \<le> sig \<and> sig < 65 then Inr (sa s ! nat sig) else Inl OutOfBounds)"

text \<open>\<open>bitset<64>::test\<close>: a shift by the position, which has to be below 64.\<close>

definition mask_test :: "u64 \<Rightarrow> int \<Rightarrow> bool res" where
  "mask_test m pos = (if 0 \<le> pos \<and> pos < 64 then Inr (bit m (nat pos)) else Inl OutOfBounds)"

subsection \<open>Watchers and the queue\<close>

definition Signal_AddWatcher :: "int option \<Rightarrow> int \<Rightarrow> signal \<Rightarrow> int \<times> signal" where
  "Signal_AddWatcher who sig s = (0, s\<lparr>Watchers := Watchers s @ [\<lparr>w_sig = sig, w_who = who\<rparr>]\<rparr>)"

fun RemoveWatcher_loop :: "int option \<Rightarrow> int \<Rightarrow> Watcher list \<Rightarrow> Watcher list option" where
  "RemoveWatcher_loop who sig [] = None"
| "RemoveWatcher_loop who sig (w # ws) =
     (if w_sig w = sig \<and> w_who w = who then Some ws
      else map_option ((#) w) (RemoveWatcher_loop who sig ws))"

definition Signal_RemoveWatcher :: "int option \<Rightarrow> int \<Rightarrow> signal \<Rightarrow> int \<times> signal" where
  "Signal_RemoveWatcher who sig s =
     (case RemoveWatcher_loop who sig (Watchers s) of
       Some ws \<Rightarrow> (0, s\<lparr>Watchers := ws\<rparr>)
     | None \<Rightarrow> (- ENOENT, s))"

definition Signal_AddSignal :: "int \<Rightarrow> u64 \<Rightarrow> int \<Rightarrow> signal \<Rightarrow> int \<times> signal" where
  "Signal_AddSignal sig val tid s =
     (0, s\<lparr>Queue := Queue s @ [\<lparr>si_sig = sig, si_val = val, si_tid = tid\<rparr>]\<rparr>)"

text \<open>
  \<open>RemoveSignal\<close> calls \<open>std::list::remove_if\<close> (src/Kernel/include_std/list), which reads the link of each
  node it has just deleted: \<open>link\<close> says whether that read still finds the next node.
\<close>

definition Signal_RemoveSignal :: "bool \<Rightarrow> int \<Rightarrow> signal \<Rightarrow> (int \<times> signal) res" where
  "Signal_RemoveSignal link sig s =
     (if \<exists>i \<in> set (Queue s). si_sig i = sig then
        if link then Inr (0, s\<lparr>Queue := filter (\<lambda>i. si_sig i \<noteq> sig) (Queue s)\<rparr>) else Inl DanglingPointer
      else Inr (- ENOENT, s))"

definition SignalInfo_none :: SignalInfo where
  "SignalInfo_none = \<lparr>si_sig = 0, si_val = 0, si_tid = - 1\<rparr>"

text \<open>The loop of \<open>GetAvailableSignal\<close>: the information it returns and the queue it leaves.\<close>

fun GetAvailable_loop ::
    "(SignalInfo \<Rightarrow> SignalInfo) \<Rightarrow> signal \<Rightarrow> u64 \<Rightarrow> int \<Rightarrow> SignalInfo list \<Rightarrow> (SignalInfo \<times> SignalInfo list) res" where
  "GetAvailable_loop freed s msk tid [] = Inr (SignalInfo_none, [])"
| "GetAvailable_loop freed s msk tid (i # is) =
     rbind (mask_test msk (si_sig i - 1)) (\<lambda>blocked.
     if blocked \<or> (tid \<noteq> si_tid i \<and> si_tid i \<noteq> - 1) then
       rbind (GetAvailable_loop freed s msk tid is) (\<lambda>(r, q). Inr (r, i # q))
     else
       rbind (sa_at s (si_sig i)) (\<lambda>act.
       rbind (assert_res (sa_handler act \<noteq> 1)) (\<lambda>_.
       rbind (assert_res (sa_handler act \<noteq> 0)) (\<lambda>_.
       Inr (freed i, is)))))"

definition Signal_GetAvailableSignal ::
    "(SignalInfo \<Rightarrow> SignalInfo) \<Rightarrow> u64 \<Rightarrow> int \<Rightarrow> signal \<Rightarrow> (SignalInfo \<times> signal) res" where
  "Signal_GetAvailableSignal freed msk tid s =
     rbind (GetAvailable_loop freed s msk tid (Queue s)) (\<lambda>(r, q). Inr (r, s\<lparr>Queue := q\<rparr>))"

subsection \<open>Actions\<close>

fun erase_first :: "int \<Rightarrow> SignalInfo list \<Rightarrow> SignalInfo list" where
  "erase_first sig [] = []"
| "erase_first sig (i # is) = (if si_sig i = sig then is else i # erase_first sig is)"

definition Signal_SetAction :: "int \<Rightarrow> SignalAction \<Rightarrow> signal \<Rightarrow> (int \<times> signal) res" where
  "Signal_SetAction sig act s =
     (if sig < 0 \<or> sig > 65 then Inr (- EINVAL, s) else
      let s = (if sa_handler act = 1
               then s\<lparr>Disposition := (Disposition s)(sig \<mapsto> SIG_IGN), Queue := erase_first sig (Queue s)\<rparr>
               else s);
          s = (if sa_handler act = 0
               then s\<lparr>Disposition := (Disposition s)(sig \<mapsto> GetDefaultSignalDisposition sig)\<rparr> else s) in
      rbind (sa_at s sig) (\<lambda>_.
      Inr (0, s\<lparr>sa := (sa s)[nat sig := act]\<rparr>)))"

definition Signal_GetAction :: "int \<Rightarrow> signal \<Rightarrow> (int \<times> SignalAction option) res" where
  "Signal_GetAction sig s =
     (if sig < 0 \<or> sig > 65 then Inr (- EINVAL, None) else
      rbind (sa_at s sig) (\<lambda>act. Inr (0, Some act)))"

subsection \<open>Sending a signal\<close>

definition Signal_LinuxSig :: "PCB \<Rightarrow> bool" where
  "Signal_LinuxSig p \<longleftrightarrow> p_Compatibility p = Linux"

definition Signal_MakeExitCode :: "int \<Rightarrow> PCB \<Rightarrow> int" where
  "Signal_MakeExitCode sig p =
     (if Signal_LinuxSig p then 128 + ConvertSignalToLinux sig else 100 + sig)"

text \<open>The pages of the trampoline are allocated once, in the process that gets the signal.\<close>

definition Signal_InitTrampoline :: "(int \<Rightarrow> u64 res) \<Rightarrow> PCB \<Rightarrow> PCB res" where
  "Signal_InitTrampoline tramp p =
     (if TrampAddr (p_Signals p) \<noteq> 0 then Inr p else
      case p_Compatibility p of
        Native \<Rightarrow> rbind (tramp (p_ID p)) (\<lambda>addr. Inr (p\<lparr>p_Signals := (p_Signals p)\<lparr>TrampAddr := addr\<rparr>\<rparr>))
      | Linux \<Rightarrow> rbind (tramp (p_ID p)) (\<lambda>addr. Inr (p\<lparr>p_Signals := (p_Signals p)\<lparr>TrampAddr := addr\<rparr>\<rparr>))
      | Windows \<Rightarrow> Inl AssertFailed
      | UnknownPlatform \<Rightarrow> Inr p)"

abbreviation (input) KILL_CRASH :: int where "KILL_CRASH \<equiv> - 0xDEAD"

definition crash_result :: "u64 \<Rightarrow> int" where
  "crash_result val = (if sint (ucast val :: u32) = KILL_CRASH then - EFAULT else 0)"

text \<open>The switch over the disposition of a signal without a handler.\<close>

definition SendSignal_default :: "int \<Rightarrow> u64 \<Rightarrow> PCB \<Rightarrow> (int \<times> PCB) res" where
  "SendSignal_default sig val p =
     (let watched = Watchers (p_Signals p) \<noteq> [];
          d = disp_at (p_Signals p) sig;
          p = p\<lparr>p_Signals := disp_touch sig (p_Signals p)\<rparr> in
      if d = SIG_TERM then
        Inr (crash_result val,
             PCB_SetState (if watched then Zombie else Terminated)
               (PCB_SetExitCode (Signal_MakeExitCode sig p) p))
      else if d = SIG_IGN then Inr (0, p)
      else if d = SIG_CORE then
        Inr (crash_result val,
             PCB_SetState (if watched then CoreDump else Terminated)
               (PCB_SetExitCode (Signal_MakeExitCode sig p) p))
      else if d = SIG_STOP then Inr (0, PCB_SetState Stopped p)
      else if d = SIG_CONT then Inr (0, PCB_SetState Ready p)
      else Inl AssertFailed)"

definition get_proc :: "int \<Rightarrow> PCB list \<Rightarrow> PCB option" where
  "get_proc pid sys = find (\<lambda>p. p_ID p = pid) sys"

definition upd_proc :: "int \<Rightarrow> (PCB \<Rightarrow> PCB) \<Rightarrow> PCB list \<Rightarrow> PCB list" where
  "upd_proc pid f sys = map (\<lambda>p. if p_ID p = pid then f p else p) sys"

text \<open>
  \<open>SendSignal\<close> up to the choice between ignoring the signal, its default action and queueing it. The
  first two are the end of the call.
\<close>

datatype sending = Sent "int \<times> PCB" | Queueing PCB

definition SendSignal_begin :: "u64 \<Rightarrow> int \<Rightarrow> u64 \<Rightarrow> PCB \<Rightarrow> sending res" where
  "SendSignal_begin cur sig val p =
     (let p = p\<lparr>p_Signals := (p_Signals p)\<lparr>LastSignal := sig\<rparr>\<rparr> in
      rbind (sa_at (p_Signals p) sig) (\<lambda>act.
      if sa_handler act \<noteq> 0 then
        if p_Mode p = Kernel then Inr (Sent (- EINVAL, p))
        else if sa_handler act = 1 then Inr (Sent (0, p))
        else Inr (Queueing p)
      else
        rbind (mask_test cur (sig - 1)) (\<lambda>blocked.
        if blocked then Inr (Sent (0, p))
        else rbind (SendSignal_default sig val p) (\<lambda>rp. Inr (Sent rp)))))"

definition SendSignal_watcher ::
    "(int \<Rightarrow> PCB list \<Rightarrow> (int \<times> PCB list) res) \<Rightarrow> Watcher \<Rightarrow> PCB list \<Rightarrow> PCB list res" where
  "SendSignal_watcher send info sys =
     (case w_who info of
       None \<Rightarrow> Inl AssertFailed
     | Some who \<Rightarrow> rbind (send who sys) (\<lambda>(_, sys). Inr sys))"

text \<open>
  The whole call: \<open>held\<close> are the processes whose signal lock is held by the calls this one is nested
  in. The label \<open>CompleteSignal\<close> is only reached by processes that are not in kernel mode, so the test
  for the mode at the label never returns.
\<close>

fun SendSignal_fuel ::
    "nat \<Rightarrow> u64 \<Rightarrow> (int \<Rightarrow> u64 res) \<Rightarrow> int list \<Rightarrow> int \<Rightarrow> int \<Rightarrow> u64 \<Rightarrow> int \<Rightarrow> PCB list \<Rightarrow> (int \<times> PCB list) res" where
  "SendSignal_fuel 0 cur tramp held pid sig val tid sys = Inl Diverges"
| "SendSignal_fuel (Suc n) cur tramp held pid sig val tid sys =
     (if pid \<in> set held then Inl Diverges else
      case get_proc pid sys of
        None \<Rightarrow> Inl DanglingPointer
      | Some p \<Rightarrow>
          rbind (SendSignal_begin cur sig val p) (\<lambda>b.
          case b of
            Sent (r, p) \<Rightarrow> Inr (r, upd_proc pid (\<lambda>_. p) sys)
          | Queueing p \<Rightarrow>
              if p_Mode p = Kernel then Inr (0, upd_proc pid (\<lambda>_. p) sys) else
              rbind (Signal_InitTrampoline tramp p) (\<lambda>p.
              let d = disp_at (p_Signals p) sig;
                  p = p\<lparr>p_Signals := disp_touch sig (p_Signals p)\<rparr>;
                  sys = upd_proc pid (\<lambda>_. p) sys in
              rbind (if d \<noteq> SIG_IGN then
                       each_res
                         (SendSignal_watcher (\<lambda>who. SendSignal_fuel n cur tramp (pid # held) who SIGCHLD val (- 1)))
                         (Watchers (p_Signals p)) sys
                     else Inr sys) (\<lambda>sys.
              Inr (0, upd_proc pid (\<lambda>p. p\<lparr>p_Signals := snd (Signal_AddSignal sig val tid (p_Signals p))\<rparr>) sys)))))"

definition Signal_SendSignal ::
    "u64 \<Rightarrow> (int \<Rightarrow> u64 res) \<Rightarrow> int \<Rightarrow> int \<Rightarrow> u64 \<Rightarrow> int \<Rightarrow> PCB list \<Rightarrow> (int \<times> PCB list) res" where
  "Signal_SendSignal cur tramp pid sig val tid sys =
     SendSignal_fuel (Suc (length sys)) cur tramp [] pid sig val tid sys"

definition PCB_SendSignal ::
    "u64 \<Rightarrow> (int \<Rightarrow> u64 res) \<Rightarrow> int \<Rightarrow> int \<Rightarrow> PCB list \<Rightarrow> (int \<times> PCB list) res" where
  "PCB_SendSignal cur tramp pid sig sys = Signal_SendSignal cur tramp pid sig 0 (- 1) sys"

definition TCB_SendSignal ::
    "u64 \<Rightarrow> (int \<Rightarrow> u64 res) \<Rightarrow> int \<Rightarrow> int \<Rightarrow> int \<Rightarrow> PCB list \<Rightarrow> (int \<times> PCB list) res" where
  "TCB_SendSignal cur tramp pid tid sig sys = Signal_SendSignal cur tramp pid sig 0 tid sys"

subsection \<open>The mask of a thread\<close>

definition ThreadSignal_Block :: "u64 \<Rightarrow> u64 \<Rightarrow> u64 \<times> u64" where
  "ThreadSignal_Block sig m = (m, m OR sig)"

definition ThreadSignal_Unblock :: "u64 \<Rightarrow> u64 \<Rightarrow> u64 \<times> u64" where
  "ThreadSignal_Unblock sig m = (m, m AND NOT sig)"

definition ThreadSignal_SetMask :: "u64 \<Rightarrow> u64 \<Rightarrow> u64 \<times> u64" where
  "ThreadSignal_SetMask sig m = (m, sig)"

definition ThreadSignal_GetMask :: "u64 \<Rightarrow> u64" where
  "ThreadSignal_GetMask m = m"

end
