(* ===== verification/SignalProofs.thy ===== *)
theory SignalProofs
  imports Signals
begin

section \<open>Properties of the signals\<close>

text \<open>
  What sending a signal leaves alone (\<open>sig_frame\<close>, and every process whose lock is held), when it
  returns (\<open>watch_ok\<close>), the invariant under which \<open>GetAvailableSignal\<close> meets its own assertions
  (\<open>sig_ok\<close>) and the operations that keep it, and the ways \<open>SetAction\<close> breaks it.
\<close>

subsection \<open>Systems of processes\<close>

lemma get_proc_upd [simp]:
  "(\<And>p. p_ID (f p) = p_ID p) \<Longrightarrow>
     get_proc q (upd_proc pid f sys) = (if q = pid then map_option f (get_proc q sys) else get_proc q sys)"
  unfolding get_proc_def upd_proc_def by (induction sys) auto

lemma get_proc_put:
  "p_ID p = pid \<Longrightarrow>
     get_proc q (upd_proc pid (\<lambda>_. p) sys) = (if q = pid then map_option (\<lambda>_. p) (get_proc q sys) else get_proc q sys)"
  unfolding get_proc_def upd_proc_def by (induction sys) auto

lemma get_proc_ID: "get_proc pid sys = Some p \<Longrightarrow> p_ID p = pid \<and> p \<in> set sys"
  unfolding get_proc_def by (auto simp: find_Some_iff)

lemma get_proc_iff: "(\<exists>p. get_proc pid sys = Some p) \<longleftrightarrow> pid \<in> p_ID ` set sys"
  unfolding get_proc_def by (induction sys) auto

lemma each_res_keeps:
  assumes "each_res f xs s = Inr s'" "P s"
    and "\<And>x s s'. x \<in> set xs \<Longrightarrow> P s \<Longrightarrow> f x s = Inr s' \<Longrightarrow> P s'"
  shows "P s'"
  using assms
proof (induction xs arbitrary: s)
  case (Cons x xs)
  then obtain t where t: "f x s = Inr t" "each_res f xs t = Inr s'" by (auto simp: rbind_def split: sum.splits)
  show ?case using Cons.IH [OF t(2)] Cons.prems(2,3) t(1) by (meson list.set_intros)
qed simp

lemma each_res_returns:
  assumes "P s" "\<And>x s. x \<in> set xs \<Longrightarrow> P s \<Longrightarrow> \<exists>s'. f x s = Inr s' \<and> P s'"
  shows "\<exists>s'. each_res f xs s = Inr s' \<and> P s'"
  using assms
proof (induction xs arbitrary: s)
  case (Cons x xs)
  obtain t where t: "f x s = Inr t" "P t" using Cons.prems by (meson list.set_intros(1))
  show ?case using Cons.IH [OF t(2)] Cons.prems(2) t(1) by (auto simp: rbind_def)
qed simp

subsection \<open>What sending leaves alone\<close>

definition sig_frame :: "PCB \<Rightarrow> int \<times> TaskExecutionMode \<times> TaskCompatibility \<times> SignalAction list \<times>
    Watcher list \<times> (int \<Rightarrow> int)" where
  "sig_frame p =
     (p_ID p, p_Mode p, p_Compatibility p, sa (p_Signals p), Watchers (p_Signals p), disp_at (p_Signals p))"

lemma disp_touch_simps [simp]:
  "disp_at (disp_touch sig s) = disp_at s" "sa (disp_touch sig s) = sa s" "Queue (disp_touch sig s) = Queue s"
  "Watchers (disp_touch sig s) = Watchers s" "TrampAddr (disp_touch sig s) = TrampAddr s"
  by (auto simp: disp_touch_def disp_at_def fun_eq_iff)

lemma disp_at_upd [simp]:
  "disp_at (s\<lparr>LastSignal := l\<rparr>) = disp_at s" "disp_at (s\<lparr>TrampAddr := t\<rparr>) = disp_at s"
  "disp_at (s\<lparr>Queue := q\<rparr>) = disp_at s"
  by (auto simp: disp_at_def fun_eq_iff)

lemma sig_frame_upd [simp]:
  "sig_frame (PCB_SetState st p) = sig_frame p" "sig_frame (PCB_SetExitCode c p) = sig_frame p"
  "sig_frame (p\<lparr>p_Signals := disp_touch sig (p_Signals p)\<rparr>) = sig_frame p"
  "sig_frame (p\<lparr>p_Signals := (p_Signals p)\<lparr>LastSignal := l\<rparr>\<rparr>) = sig_frame p"
  "sig_frame (p\<lparr>p_Signals := (p_Signals p)\<lparr>TrampAddr := t\<rparr>\<rparr>) = sig_frame p"
  "sig_frame (p\<lparr>p_Signals := snd (Signal_AddSignal sig val tid (p_Signals p))\<rparr>) = sig_frame p"
  by (simp_all add: sig_frame_def PCB_SetState_def PCB_SetExitCode_def Signal_AddSignal_def Let_def
      split: list.splits)

lemma sig_frame_ID: "sig_frame p = sig_frame q \<Longrightarrow> p_ID p = p_ID q"
  by (simp add: sig_frame_def)

lemma default_frame:
  "SendSignal_default sig val p = Inr (r, p') \<Longrightarrow> sig_frame p' = sig_frame p \<and> Queue (p_Signals p') = Queue (p_Signals p)"
  by (auto simp: SendSignal_default_def Let_def split: if_splits)

lemma begin_frame:
  assumes "SendSignal_begin cur sig val p = Inr b"
  shows "case b of Sent (r, p') \<Rightarrow> sig_frame p' = sig_frame p \<and> Queue (p_Signals p') = Queue (p_Signals p)
    | Queueing p' \<Rightarrow> p' = p\<lparr>p_Signals := (p_Signals p)\<lparr>LastSignal := sig\<rparr>\<rparr> \<and> p_Mode p \<noteq> Kernel \<and>
        0 \<le> sig \<and> sig < 65 \<and> sa_handler (sa (p_Signals p) ! nat sig) \<notin> {0, 1}"
  using assms default_frame [of sig val "p\<lparr>p_Signals := (p_Signals p)\<lparr>LastSignal := sig\<rparr>\<rparr>"]
  by (auto simp: SendSignal_begin_def rbind_def sa_at_def Let_def split: sum.splits if_splits)

lemma tramp_frame:
  "Signal_InitTrampoline tramp p = Inr p' \<Longrightarrow> sig_frame p' = sig_frame p \<and>
     Queue (p_Signals p') = Queue (p_Signals p) \<and> p_State p' = p_State p"
  by (auto simp: Signal_InitTrampoline_def rbind_def split: if_splits sum.splits TaskCompatibility.splits)

text \<open>Two systems with the same frames: the processes, in order, differ only outside the frame.\<close>

definition same_frame :: "PCB list \<Rightarrow> PCB list \<Rightarrow> bool" where
  "same_frame sys sys' \<longleftrightarrow> map sig_frame sys' = map sig_frame sys"

lemma same_frame_refl [simp]: "same_frame sys sys"
  by (simp add: same_frame_def)

lemma same_frame_trans: "same_frame a b \<Longrightarrow> same_frame b c \<Longrightarrow> same_frame a c"
  by (simp add: same_frame_def)

lemma map_find_eq:
  "map f xs = map f ys \<Longrightarrow> (\<And>x y. f x = f y \<Longrightarrow> P x = P y) \<Longrightarrow>
     rel_option (\<lambda>x y. f x = f y) (find P xs) (find P ys)"
proof (induction xs arbitrary: ys)
  case (Cons x xs)
  from Cons.prems(1) obtain y ys' where ys: "ys = y # ys'" "f x = f y" "map f xs = map f ys'"
    by (cases ys) auto
  have "P x = P y" by (rule Cons.prems(2) [OF ys(2)])
  moreover have "rel_option (\<lambda>x y. f x = f y) (find P xs) (find P ys')"
    by (rule Cons.IH [OF ys(3)]) (rule Cons.prems(2))
  ultimately show ?case using ys(1,2) by simp
qed simp

lemma same_frame_get:
  assumes "same_frame sys sys'" "get_proc q sys = Some p"
  shows "\<exists>p'. get_proc q sys' = Some p' \<and> sig_frame p' = sig_frame p"
  using map_find_eq [of sig_frame sys sys' "\<lambda>p. p_ID p = q"] assms
  by (auto simp: same_frame_def get_proc_def sig_frame_def option_rel_Some1)

lemma same_frame_upd:
  "(\<And>p. p \<in> set sys \<Longrightarrow> p_ID p = pid \<Longrightarrow> sig_frame (f p) = sig_frame p) \<Longrightarrow> same_frame sys (upd_proc pid f sys)"
  by (simp add: same_frame_def upd_proc_def)

lemma same_frame_put:
  assumes "distinct (map p_ID sys)" "get_proc pid sys = Some p" "sig_frame p' = sig_frame p"
  shows "same_frame sys (upd_proc pid (\<lambda>_. p') sys)"
proof (rule same_frame_upd)
  fix q assume q: "q \<in> set sys" "p_ID q = pid"
  have "p \<in> set sys" "p_ID p = pid" using get_proc_ID [OF assms(2)] by auto
  then have "q = p" using assms(1) q by (auto simp: distinct_map inj_on_def)
  then show "sig_frame p' = sig_frame q" using assms(3) by simp
qed

lemma same_frame_IDs: "same_frame sys sys' \<Longrightarrow> map p_ID sys' = map p_ID sys"
  unfolding same_frame_def
  by (drule arg_cong [where f = "map fst"]) (simp add: sig_frame_def comp_def)

text \<open>The two ways a call returns.\<close>

lemma SendSignal_E:
  assumes "SendSignal_fuel (Suc n) cur tramp held pid sig val tid sys = Inr (r, sys')"
  obtains (sent) p p' where "pid \<notin> set held" "get_proc pid sys = Some p"
      "SendSignal_begin cur sig val p = Inr (Sent (r, p'))" "sys' = upd_proc pid (\<lambda>_. p') sys"
  | (queued) p p' s where "pid \<notin> set held" "get_proc pid sys = Some p" "p_Mode p \<noteq> Kernel" "r = 0"
      "0 \<le> sig" "sig < 65" "sa_handler (sa (p_Signals p) ! nat sig) \<notin> {0, 1}"
      "sig_frame p' = sig_frame p" "Queue (p_Signals p') = Queue (p_Signals p)" "p_State p' = p_State p"
      "(if disp_at (p_Signals p') sig \<noteq> SIG_IGN
        then each_res (SendSignal_watcher (\<lambda>who. SendSignal_fuel n cur tramp (pid # held) who SIGCHLD val (- 1)))
          (Watchers (p_Signals p')) (upd_proc pid (\<lambda>_. p') sys)
        else Inr (upd_proc pid (\<lambda>_. p') sys)) = Inr s"
      "sys' = upd_proc pid (\<lambda>p. p\<lparr>p_Signals := snd (Signal_AddSignal sig val tid (p_Signals p))\<rparr>) s"
proof -
  have nh: "pid \<notin> set held" using assms by (auto split: if_splits)
  obtain p b where p: "get_proc pid sys = Some p" and b: "SendSignal_begin cur sig val p = Inr b"
    using assms nh by (auto simp: rbind_def split: option.splits sum.splits)
  show thesis
  proof (cases b)
    case (Sent rp)
    then show thesis using sent nh p b assms by (cases rp) (auto simp: rbind_def)
  next
    case (Queueing p1)
    note B = begin_frame [OF b, unfolded Queueing, simplified]
    obtain p2 where p2: "Signal_InitTrampoline tramp p1 = Inr p2"
      using assms nh p b Queueing B by (auto simp: rbind_def split: sum.splits)
    define p3 where "p3 = p2\<lparr>p_Signals := disp_touch sig (p_Signals p2)\<rparr>"
    have p3: "sig_frame p3 = sig_frame p" "Queue (p_Signals p3) = Queue (p_Signals p)" "p_State p3 = p_State p"
      using B tramp_frame [OF p2] by (simp_all add: p3_def)
    let ?w = "if disp_at (p_Signals p3) sig \<noteq> SIG_IGN
      then each_res (SendSignal_watcher (\<lambda>who. SendSignal_fuel n cur tramp (pid # held) who SIGCHLD val (- 1)))
        (Watchers (p_Signals p3)) (upd_proc pid (\<lambda>_. p3) sys)
      else Inr (upd_proc pid (\<lambda>_. p3) sys)"
    have *: "rbind ?w (\<lambda>s. Inr (0, upd_proc pid (\<lambda>p. p\<lparr>p_Signals := snd (Signal_AddSignal sig val tid (p_Signals p))\<rparr>) s))
        = Inr (r, sys')"
      using assms nh p b Queueing B p2 by (simp add: rbind_def [of "Inr _"] Let_def p3_def cong: if_cong)
    then obtain s where "?w = Inr s" by (auto simp: rbind_def split: sum.splits)
    with * show thesis using queued [OF nh p] B p3 by (auto simp: rbind_def)
  qed
qed

lemma SendSignal_watcher_E:
  assumes "SendSignal_watcher send w sys = Inr sys'"
  obtains who r where "w_who w = Some who" "send who sys = Inr (r, sys')"
  using assms by (auto simp: SendSignal_watcher_def rbind_def split: option.splits sum.splits)

text \<open>A call that returns keeps the frames and does not touch a process whose lock is held.\<close>

definition keeps :: "int list \<Rightarrow> PCB list \<Rightarrow> PCB list \<Rightarrow> bool" where
  "keeps held sys sys' \<longleftrightarrow> same_frame sys sys' \<and> (\<forall>h \<in> set held. get_proc h sys' = get_proc h sys)"

lemma keeps_trans: "keeps held a b \<Longrightarrow> keeps held b c \<Longrightarrow> keeps held a c"
  by (auto simp: keeps_def intro: same_frame_trans)

lemma keeps_distinct: "keeps held a b \<Longrightarrow> distinct (map p_ID a) \<Longrightarrow> distinct (map p_ID b)"
  by (metis keeps_def same_frame_IDs)

lemma keeps_put:
  assumes "distinct (map p_ID sys)" "get_proc pid sys = Some p" "sig_frame p' = sig_frame p" "pid \<notin> set held"
  shows "keeps held sys (upd_proc pid (\<lambda>_. p') sys)"
  using same_frame_put [OF assms(1-3)] assms(4) get_proc_ID [OF assms(2)] sig_frame_ID [OF assms(3)]
  by (auto simp: keeps_def get_proc_put)

lemma SendSignal_keeps:
  assumes "SendSignal_fuel n cur tramp held pid sig val tid sys = Inr (r, sys')" "distinct (map p_ID sys)"
  shows "keeps held sys sys'"
  using assms
proof (induction n arbitrary: held pid sig val tid sys r sys')
  case (Suc n)
  from Suc.prems(1) show ?case
  proof (cases rule: SendSignal_E)
    case (sent p p')
    then show ?thesis using begin_frame [OF sent(3)] keeps_put [OF Suc.prems(2) sent(2) _ sent(1)] by auto
  next
    case (queued p p' s)
    have put: "keeps held sys (upd_proc pid (\<lambda>_. p') sys)"
      by (rule keeps_put [OF Suc.prems(2) queued(2) queued(8) queued(1)])
    have "keeps held sys s"
    proof (cases "disp_at (p_Signals p') sig \<noteq> SIG_IGN")
      case True
      with queued(11) have "each_res (SendSignal_watcher (\<lambda>who. SendSignal_fuel n cur tramp (pid # held) who SIGCHLD val (- 1)))
          (Watchers (p_Signals p')) (upd_proc pid (\<lambda>_. p') sys) = Inr s" by simp
      then show ?thesis
      proof (rule each_res_keeps [where P = "keeps held sys"])
        fix w t t' assume t: "keeps held sys t"
          and "SendSignal_watcher (\<lambda>who. SendSignal_fuel n cur tramp (pid # held) who SIGCHLD val (- 1)) w t = Inr t'"
        then obtain who r' where "SendSignal_fuel n cur tramp (pid # held) who SIGCHLD val (- 1) t = Inr (r', t')"
          by (auto elim: SendSignal_watcher_E)
        from Suc.IH [OF this keeps_distinct [OF t Suc.prems(2)]] have "keeps held t t'" by (auto simp: keeps_def)
        with t show "keeps held sys t'" by (rule keeps_trans)
      qed (rule put)
    qed (use queued(11) put in simp)
    moreover have "keeps held s sys'"
      unfolding queued(12) keeps_def using queued(1)
      by (auto intro!: same_frame_upd)
    ultimately show ?thesis by (rule keeps_trans)
  qed
qed simp

subsection \<open>When sending returns\<close>

text \<open>
  The watchers of every process exist, and watching goes down a rank: no process watches itself, directly
  or through others. Dispositions are the five the switch knows.
\<close>

definition watch_ok :: "(int \<Rightarrow> nat) \<Rightarrow> PCB list \<Rightarrow> bool" where
  "watch_ok rank sys \<longleftrightarrow>
     (\<forall>p \<in> set sys. p_Compatibility p \<noteq> Windows \<and> (\<forall>k. disp_at (p_Signals p) k \<in> {0..4}) \<and>
        (\<forall>w \<in> set (Watchers (p_Signals p)).
           \<exists>q. w_who w = Some q \<and> q \<in> p_ID ` set sys \<and> rank q < rank (p_ID p)))"

lemma watch_ok_frame:
  assumes "same_frame sys sys'" "watch_ok rank sys"
  shows "watch_ok rank sys'"
  unfolding watch_ok_def
proof
  fix p' assume p': "p' \<in> set sys'"
  have "sig_frame ` set sys' = sig_frame ` set sys"
    using arg_cong [OF assms(1) [unfolded same_frame_def], of set] by simp
  then have "sig_frame p' \<in> sig_frame ` set sys" using p' by blast
  then obtain p where p: "p \<in> set sys" "sig_frame p' = sig_frame p" by blast
  have "p_ID ` set sys' = p_ID ` set sys"
    using arg_cong [OF same_frame_IDs [OF assms(1)], of set] by simp
  then show "p_Compatibility p' \<noteq> Windows \<and> (\<forall>k. disp_at (p_Signals p') k \<in> {0..4}) \<and>
      (\<forall>w \<in> set (Watchers (p_Signals p')). \<exists>q. w_who w = Some q \<and> q \<in> p_ID ` set sys' \<and> rank q < rank (p_ID p'))"
    using assms(2) p unfolding watch_ok_def sig_frame_def by simp
qed

lemma begin_returns:
  assumes "1 \<le> sig" "sig \<le> 64" "\<forall>k. disp_at (p_Signals p) k \<in> {0..4}"
  shows "\<exists>b. SendSignal_begin cur sig val p = Inr b"
proof -
  have "\<exists>rp. SendSignal_default sig val p = Inr rp" if "disp_at (p_Signals p) sig \<in> {0..4}" for p
    using that unfolding SendSignal_default_def Let_def by auto
  then obtain rp where "SendSignal_default sig val (p\<lparr>p_Signals := (p_Signals p)\<lparr>LastSignal := sig\<rparr>\<rparr>) = Inr rp"
    using assms(3) by fastforce
  then show ?thesis using assms(1,2)
    by (simp add: SendSignal_begin_def sa_at_def mask_test_def rbind_def Let_def)
qed

lemma tramp_returns: "p_Compatibility p \<noteq> Windows \<Longrightarrow> \<forall>q. \<exists>addr. tramp q = Inr addr \<Longrightarrow> \<exists>p'. Signal_InitTrampoline tramp p = Inr p'"
  by (drule spec [of _ "p_ID p"]) (auto simp: Signal_InitTrampoline_def rbind_def split: TaskCompatibility.splits)

lemma SendSignal_returns:
  assumes "distinct (map p_ID sys)" "watch_ok rank sys" "pid \<in> p_ID ` set sys" "1 \<le> sig" "sig \<le> 64"
    and "distinct held" "set held \<subseteq> p_ID ` set sys" "\<forall>h \<in> set held. rank pid < rank h"
    and "length sys < n + length held" and mem: "\<forall>q. \<exists>addr. tramp q = Inr addr"
  shows "\<exists>r sys'. SendSignal_fuel n cur tramp held pid sig val tid sys = Inr (r, sys')"
  using assms(1-9)
proof (induction n arbitrary: held pid sig val tid sys)
  case 0
  have "length held \<le> card (p_ID ` set sys)"
    using 0 card_mono [of "p_ID ` set sys" "set held"] by (simp add: distinct_card)
  also have "\<dots> \<le> length sys" using card_image_le [of "set sys" p_ID] card_length [of sys] by simp
  finally show ?case using 0 by simp
next
  case (Suc n)
  have nh: "pid \<notin> set held" using Suc.prems(8) by auto
  obtain p where p: "get_proc pid sys = Some p" using Suc.prems(3) get_proc_iff by metis
  have pm: "p \<in> set sys" "p_ID p = pid" using get_proc_ID [OF p] by auto
  then have ok: "p_Compatibility p \<noteq> Windows" "\<forall>k. disp_at (p_Signals p) k \<in> {0..4}"
    "\<forall>w \<in> set (Watchers (p_Signals p)). \<exists>q. w_who w = Some q \<and> q \<in> p_ID ` set sys \<and> rank q < rank pid"
    using Suc.prems(2) unfolding watch_ok_def by auto
  obtain b where b: "SendSignal_begin cur sig val p = Inr b"
    using begin_returns Suc.prems(4,5) ok(2) by blast
  show ?case
  proof (cases b)
    case (Queueing p1)
    note B = begin_frame [OF b, unfolded Queueing, simplified]
    obtain p2 where p2: "Signal_InitTrampoline tramp p1 = Inr p2"
      using tramp_returns [of p1 tramp] ok(1) B mem by fastforce
    define p3 where "p3 = p2\<lparr>p_Signals := disp_touch sig (p_Signals p2)\<rparr>"
    have p3: "sig_frame p3 = sig_frame p" using B tramp_frame [OF p2] by (simp add: p3_def)
    let ?send = "SendSignal_watcher (\<lambda>who. SendSignal_fuel n cur tramp (pid # held) who SIGCHLD val (- 1))"
    have "\<exists>s. each_res ?send (Watchers (p_Signals p3)) (upd_proc pid (\<lambda>_. p3) sys) = Inr s \<and> same_frame sys s"
    proof (rule each_res_returns)
      show "same_frame sys (upd_proc pid (\<lambda>_. p3) sys)" by (rule same_frame_put [OF Suc.prems(1) p p3])
      fix w t assume w: "w \<in> set (Watchers (p_Signals p3))" and t: "same_frame sys t"
      have IDs: "map p_ID t = map p_ID sys" by (rule same_frame_IDs [OF t])
      have IDs': "p_ID ` set t = p_ID ` set sys" "length t = length sys"
        using arg_cong [OF IDs, of set] arg_cong [OF IDs, of length] by simp_all
      obtain q where q: "w_who w = Some q" "q \<in> p_ID ` set sys" "rank q < rank pid"
        using ok(3) w p3 by (auto simp: sig_frame_def)
      have "\<exists>r t'. SendSignal_fuel n cur tramp (pid # held) q SIGCHLD val (- 1) t = Inr (r, t')"
        using Suc.prems q nh by (intro Suc.IH watch_ok_frame [OF t]) (auto simp: IDs IDs')
      then obtain r t' where r: "SendSignal_fuel n cur tramp (pid # held) q SIGCHLD val (- 1) t = Inr (r, t')" by blast
      then have "same_frame t t'" using SendSignal_keeps Suc.prems(1) IDs by (metis keeps_def)
      then show "\<exists>t'. ?send w t = Inr t' \<and> same_frame sys t'"
        using q(1) r same_frame_trans [OF t] by (auto simp: SendSignal_watcher_def rbind_def)
    qed
    then obtain s where "each_res ?send (Watchers (p_Signals p3)) (upd_proc pid (\<lambda>_. p3) sys) = Inr s" by blast
    then show ?thesis using nh p b Queueing B p2
      by (simp add: rbind_def Let_def p3_def)
  qed (use nh p b in \<open>auto simp: rbind_def\<close>)
qed

subsection \<open>The queue\<close>

text \<open>Every pending signal is a signal the process has a handler for.\<close>

definition sig_ok :: "signal \<Rightarrow> bool" where
  "sig_ok s \<longleftrightarrow> length (sa s) = 65 \<and>
     list_all (\<lambda>i. 1 \<le> si_sig i \<and> si_sig i \<le> 64 \<and> sa_handler (sa s ! nat (si_sig i)) \<notin> {0, 1}) (Queue s)"

definition deliverable :: "u64 \<Rightarrow> int \<Rightarrow> SignalInfo \<Rightarrow> bool" where
  "deliverable m tid i \<longleftrightarrow> \<not> bit m (nat (si_sig i - 1)) \<and> (si_tid i = tid \<or> si_tid i = - 1)"

lemma GetAvailable_skip:
  assumes "list_all (\<lambda>i. 1 \<le> si_sig i \<and> si_sig i \<le> 64 \<and> \<not> deliverable m tid i) xs"
  shows "GetAvailable_loop freed s m tid (xs @ ys) =
    rbind (GetAvailable_loop freed s m tid ys) (\<lambda>(r, q). Inr (r, xs @ q))"
  using assms
  by (induction xs) (auto simp: rbind_def mask_test_def deliverable_def split: sum.splits prod.splits)

lemma GetAvailable_hit:
  assumes "1 \<le> si_sig i" "si_sig i \<le> 64" "deliverable m tid i"
  shows "GetAvailable_loop freed s m tid (i # is) =
    (if sa_handler (sa s ! nat (si_sig i)) \<in> {0, 1} then Inl AssertFailed else Inr (freed i, is))"
  using assms by (auto simp: rbind_def mask_test_def deliverable_def sa_at_def assert_res_def)

lemma sig_ok_AddSignal:
  "sig_ok s \<Longrightarrow> 1 \<le> sig \<Longrightarrow> sig \<le> 64 \<Longrightarrow> sa_handler (sa s ! nat sig) \<notin> {0, 1} \<Longrightarrow>
     sig_ok (snd (Signal_AddSignal sig val tid s))"
  by (simp add: sig_ok_def Signal_AddSignal_def)

lemma sig_ok_frame:
  "sig_frame p' = sig_frame p \<Longrightarrow> Queue (p_Signals p') = Queue (p_Signals p) \<Longrightarrow>
     sig_ok (p_Signals p') = sig_ok (p_Signals p)"
  by (simp add: sig_ok_def sig_frame_def)

definition sys_ok :: "PCB list \<Rightarrow> bool" where
  "sys_ok sys \<longleftrightarrow> distinct (map p_ID sys) \<and> list_all (\<lambda>p. sig_ok (p_Signals p)) sys"

lemma sys_ok_get: "sys_ok sys \<Longrightarrow> get_proc pid sys = Some p \<Longrightarrow> sig_ok (p_Signals p)"
  by (auto simp: sys_ok_def list_all_iff dest: get_proc_ID)

lemma sys_ok_upd:
  assumes "sys_ok sys" "\<And>p. p_ID (f p) = p_ID p"
    and "\<And>p. get_proc pid sys = Some p \<Longrightarrow> sig_ok (p_Signals (f p))"
  shows "sys_ok (upd_proc pid f sys)"
proof -
  have get: "get_proc pid sys = Some p" if p: "p \<in> set sys" "p_ID p = pid" for p
  proof -
    have "pid \<in> p_ID ` set sys" using p by blast
    then obtain q where q: "get_proc pid sys = Some q" unfolding get_proc_iff [symmetric] by blast
    have "inj_on p_ID (set sys)" using assms(1) by (simp add: sys_ok_def distinct_map)
    then have "q = p" using get_proc_ID [OF q] p by (auto dest: inj_onD)
    then show ?thesis using q by simp
  qed
  have "map p_ID (upd_proc pid f sys) = map p_ID sys" using assms(2) by (simp add: upd_proc_def)
  moreover have "\<forall>p \<in> set (upd_proc pid f sys). sig_ok (p_Signals p)"
    using assms(1) assms(3) [OF get] by (auto simp: sys_ok_def list_all_iff upd_proc_def)
  ultimately show ?thesis using assms(1) unfolding sys_ok_def list_all_iff by simp
qed

lemma sys_ok_put:
  assumes "sys_ok sys" "p_ID p = pid" "sig_ok (p_Signals p)"
  shows "sys_ok (upd_proc pid (\<lambda>_. p) sys)"
proof -
  have "map p_ID (upd_proc pid (\<lambda>_. p) sys) = map p_ID sys" using assms(2) by (simp add: upd_proc_def)
  moreover have "list_all (\<lambda>p. sig_ok (p_Signals p)) (upd_proc pid (\<lambda>_. p) sys)"
    using assms by (auto simp: sys_ok_def list_all_iff upd_proc_def)
  ultimately show ?thesis using assms(1) unfolding sys_ok_def by simp
qed

lemma SendSignal_sys_ok:
  assumes "SendSignal_fuel n cur tramp held pid sig val tid sys = Inr (r, sys')" "sys_ok sys" "1 \<le> sig"
  shows "sys_ok sys'"
  using assms
proof (induction n arbitrary: held pid sig val tid sys r sys')
  case (Suc n)
  from Suc.prems(1) show ?case
  proof (cases rule: SendSignal_E)
    case (sent p p')
    have f: "sig_frame p' = sig_frame p" "Queue (p_Signals p') = Queue (p_Signals p)"
      using begin_frame [OF sent(3)] by auto
    show ?thesis unfolding sent(4)
    proof (rule sys_ok_put [OF Suc.prems(2)])
      show "p_ID p' = pid" using sig_frame_ID [OF f(1)] get_proc_ID [OF sent(2)] by simp
      show "sig_ok (p_Signals p')" using sig_ok_frame [OF f] sys_ok_get [OF Suc.prems(2) sent(2)] by simp
    qed
  next
    case (queued p p' s)
    have put: "sys_ok (upd_proc pid (\<lambda>_. p') sys)"
      using sys_ok_put [OF Suc.prems(2), of p' pid] sys_ok_get [OF Suc.prems(2) queued(2)]
        sig_ok_frame [OF queued(8,9)] sig_frame_ID [OF queued(8)] get_proc_ID [OF queued(2)] by auto
    have d: "distinct (map p_ID sys)" using Suc.prems(2) by (simp add: sys_ok_def)
    have s: "sys_ok s \<and> same_frame sys s"
    proof (cases "disp_at (p_Signals p') sig \<noteq> SIG_IGN")
      case True
      with queued(11) have "each_res (SendSignal_watcher (\<lambda>who. SendSignal_fuel n cur tramp (pid # held) who SIGCHLD val (- 1)))
          (Watchers (p_Signals p')) (upd_proc pid (\<lambda>_. p') sys) = Inr s" by simp
      then show ?thesis
      proof (rule each_res_keeps [where P = "\<lambda>s. sys_ok s \<and> same_frame sys s"])
        fix w t t' assume t: "sys_ok t \<and> same_frame sys t"
          and "SendSignal_watcher (\<lambda>who. SendSignal_fuel n cur tramp (pid # held) who SIGCHLD val (- 1)) w t = Inr t'"
        then obtain who r' where r: "SendSignal_fuel n cur tramp (pid # held) who SIGCHLD val (- 1) t = Inr (r', t')"
          by (auto elim: SendSignal_watcher_E)
        have "same_frame t t'" using SendSignal_keeps [OF r] t by (auto simp: sys_ok_def keeps_def)
        then show "sys_ok t' \<and> same_frame sys t'" using Suc.IH [OF r] t same_frame_trans by auto
      qed (use put same_frame_put [OF d queued(2,8)] in simp)
    qed (use queued(11) put same_frame_put [OF d queued(2,8)] in simp)
    obtain q where q: "get_proc pid s = Some q" "sig_frame q = sig_frame p"
      using same_frame_get [OF conjunct2 [OF s] queued(2)] by blast
    show ?thesis unfolding queued(12)
    proof (rule sys_ok_upd)
      fix p1 assume "get_proc pid s = Some p1"
      then show "sig_ok (p_Signals (p1\<lparr>p_Signals := snd (Signal_AddSignal sig val tid (p_Signals p1))\<rparr>))"
        using q queued(6,7) Suc.prems(3) sys_ok_get [OF conjunct1 [OF s]]
        by (auto intro!: sig_ok_AddSignal simp: sig_frame_def)
    qed (use s in simp_all)
  qed
qed simp

subsection \<open>Actions\<close>

definition pending :: "int \<Rightarrow> signal \<Rightarrow> nat" where
  "pending sig s = length (filter (\<lambda>i. si_sig i = sig) (Queue s))"

lemma pending_none: "length (filter (\<lambda>i. si_sig i = sig) q) = 0 \<longleftrightarrow> (\<forall>i \<in> set q. si_sig i \<noteq> sig)"
  by (auto simp: filter_empty_conv)

lemma erase_first_set:
  assumes "length (filter (\<lambda>i. si_sig i = sig) q) \<le> 1"
  shows "set (erase_first sig q) = {i \<in> set q. si_sig i \<noteq> sig}"
  using assms by (induction q) (auto simp: filter_empty_conv)

lemma SetAction_spec:
  assumes "length (sa s) = 65" "0 \<le> sig" "sig \<le> 64"
  shows "\<exists>s'. Signal_SetAction sig act s = Inr (0, s') \<and> sa s' = (sa s)[nat sig := act] \<and>
    Queue s' = (if sa_handler act = 1 then erase_first sig (Queue s) else Queue s) \<and> Watchers s' = Watchers s"
  using assms by (simp add: Signal_SetAction_def sa_at_def rbind_def Let_def)

lemma sig_ok_SetAction:
  assumes "sig_ok s" "Signal_SetAction sig act s = Inr (r, s')"
    and "sa_handler act = 1 \<Longrightarrow> pending sig s \<le> 1" "sa_handler act = 0 \<Longrightarrow> pending sig s = 0"
  shows "sig_ok s'"
proof (cases "0 \<le> sig \<and> sig \<le> 64")
  case True
  have len: "length (sa s) = 65" using assms(1) by (simp add: sig_ok_def)
  have s': "sa s' = (sa s)[nat sig := act]"
    "Queue s' = (if sa_handler act = 1 then erase_first sig (Queue s) else Queue s)"
    using SetAction_spec [OF len, of sig act] True assms(2) by auto
  have "1 \<le> si_sig i \<and> si_sig i \<le> 64 \<and> sa_handler (sa s' ! nat (si_sig i)) \<notin> {0, 1}" if i: "i \<in> set (Queue s')" for i
  proof -
    have "i \<in> set (Queue s)" "sa_handler act \<in> {0, 1} \<Longrightarrow> si_sig i \<noteq> sig"
      using i assms(3,4) erase_first_set [of sig "Queue s"] pending_none [of sig "Queue s"]
      unfolding s' pending_def by (auto split: if_splits)
    moreover from this have "1 \<le> si_sig i \<and> si_sig i \<le> 64 \<and> sa_handler (sa s ! nat (si_sig i)) \<notin> {0, 1}"
      using assms(1) by (auto simp: sig_ok_def list_all_iff)
    ultimately show ?thesis unfolding s' using True len
      by (cases "si_sig i = sig") (auto simp: nth_list_update nat_eq_iff)
  qed
  then show ?thesis using len s' by (simp add: sig_ok_def list_all_iff)
next
  case False
  then show ?thesis using assms(1,2) by (auto simp: Signal_SetAction_def sa_at_def rbind_def Let_def split: if_splits)
qed

lemma sig_ok_GetAvailable:
  assumes "sig_ok s"
  shows "\<exists>r s'. Signal_GetAvailableSignal freed m tid s = Inr (r, s') \<and> sig_ok s'"
proof -
  have "\<exists>r q. GetAvailable_loop freed s m tid xs = Inr (r, q) \<and> set q \<subseteq> set xs"
    if "list_all (\<lambda>i. 1 \<le> si_sig i \<and> si_sig i \<le> 64 \<and> sa_handler (sa s ! nat (si_sig i)) \<notin> {0, 1}) xs" for xs
    using that
    by (induction xs) (auto simp: rbind_def mask_test_def sa_at_def assert_res_def)
  then show ?thesis using assms
    by (fastforce simp: sig_ok_def Signal_GetAvailableSignal_def rbind_def list_all_iff)
qed

inductive sig_step :: "PCB list \<Rightarrow> PCB list \<Rightarrow> bool" where
  send: "1 \<le> sig \<Longrightarrow> Signal_SendSignal cur tramp pid sig val tid sys = Inr (r, sys') \<Longrightarrow> sig_step sys sys'"
| action: "get_proc pid sys = Some p \<Longrightarrow> Signal_SetAction sig act (p_Signals p) = Inr (r, s') \<Longrightarrow>
    (sa_handler act = 1 \<Longrightarrow> pending sig (p_Signals p) \<le> 1) \<Longrightarrow>
    (sa_handler act = 0 \<Longrightarrow> pending sig (p_Signals p) = 0) \<Longrightarrow>
    sig_step sys (upd_proc pid (\<lambda>p. p\<lparr>p_Signals := s'\<rparr>) sys)"
| available: "get_proc pid sys = Some p \<Longrightarrow> Signal_GetAvailableSignal freed m tid (p_Signals p) = Inr (i, s') \<Longrightarrow>
    sig_step sys (upd_proc pid (\<lambda>p. p\<lparr>p_Signals := s'\<rparr>) sys)"

lemma sig_step_ok: "sig_step sys sys' \<Longrightarrow> sys_ok sys \<Longrightarrow> sys_ok sys'"
proof (induction rule: sig_step.induct)
  case (send sig cur tramp pid val tid sys r sys')
  then show ?case using SendSignal_sys_ok unfolding Signal_SendSignal_def by blast
next
  case (action pid sys p sig act r s')
  have "sig_ok s'" using sig_ok_SetAction [OF sys_ok_get] action by blast
  then show ?case using action.prems by (intro sys_ok_upd) simp_all
next
  case (available pid sys p freed m tid i s')
  have "sig_ok s'" using sig_ok_GetAvailable [OF sys_ok_get [OF available(3,1)], of freed m tid] available(2) by auto
  then show ?case using available.prems by (intro sys_ok_upd) simp_all
qed

lemma sig_reach_ok: "sig_step\<^sup>*\<^sup>* sys sys' \<Longrightarrow> sys_ok sys \<Longrightarrow> sys_ok sys'"
  by (induction rule: rtranclp_induct) (auto intro: sig_step_ok)

subsection \<open>Properties\<close>

text \<open>
  The example of the witnesses: process 1 catches \<open>SIGUSR1\<close> and is watched by process 2.
\<close>

definition TaskInfo_new :: TaskInfo where
  "TaskInfo_new = \<lparr>SleepUntil = 0, KernelTime = 0, UserTime = 0, LastUpdateTime = 0,
     Affinity = (\<lambda>cpu. cpu = 0), Priority = 5\<rparr>"

definition frame_zero :: SchedulerFrame where
  "frame_zero = \<lparr>f_ppt = 0, f_opt = 0, f_r15 = 0, f_r14 = 0, f_r13 = 0, f_r12 = 0, f_r11 = 0, f_r10 = 0, f_r9 = 0,
     f_r8 = 0, f_rbp = 0, f_rdi = 0, f_rsi = 0, f_rdx = 0, f_rcx = 0, f_rbx = 0, f_rax = 0, f_InterruptNumber = 0,
     f_ErrorCode = 0, f_rip = 0, f_cs = 0, f_rflags = 0, f_rsp = 0, f_ss = 0\<rparr>"

definition context_zero :: cpu_context where
  "context_zero = \<lparr>c_FPU = replicate 52 0, c_ShadowGSBase = 0, c_GSBase = 0, c_FSBase = 0\<rparr>"

definition thread_example :: "int \<Rightarrow> TCB" where
  "thread_example tid = \<lparr>t_ID = tid, t_State = Ready, t_ExitCode = 0, t_Mask = 0, t_Mode = User, t_Info = TaskInfo_new,
     t_Registers = frame_zero, t_Context = context_zero\<rparr>"

definition catching :: SignalAction where
  "catching = \<lparr>sa_handler = 0x1000, sa_Mask = 0, sa_Flags = 0, sa_Restorer = 0\<rparr>"

definition proc_example :: "int \<Rightarrow> signal \<Rightarrow> PCB" where
  "proc_example pid s =
     \<lparr>p_ID = pid, p_State = Ready, p_ExitCode = 0, p_Mode = User, p_Compatibility = Native,
      p_Info = TaskInfo_new, p_Parent = None, p_Children = [],
      p_Threads = [thread_example (pid + 10)], p_PageTable = 0x1000, p_Signals = s\<rparr>"

definition sys_example :: "PCB list" where
  "sys_example =
     [proc_example 1 (Signal_new\<lparr>sa := (sa Signal_new)[19 := catching], Watchers := [\<lparr>w_sig = SIGCHLD, w_who = Some 2\<rparr>]\<rparr>),
      proc_example 2 Signal_new]"

lemma SignalDisposition_range: "map_of SignalDisposition k = Some d \<Longrightarrow> d \<in> {0..4}"
proof -
  have "list_all (\<lambda>(_, d). d \<in> {0..4}) SignalDisposition"
    by (simp add: SignalDisposition_def list_all_iff)
  then show "map_of SignalDisposition k = Some d \<Longrightarrow> d \<in> {0..4}"
    by (auto simp: list_all_iff dest!: map_of_SomeD)
qed

lemma disp_at_new: "disp_at (Signal_new\<lparr>sa := a, Watchers := w\<rparr>) k \<in> {0..4}" "disp_at Signal_new k \<in> {0..4}"
  using SignalDisposition_range [of k]
  by (simp_all add: disp_at_def Signal_new_def split: option.splits)

lemma sys_example_ok:
  "distinct (map p_ID sys_example)" "watch_ok (\<lambda>q. if q = 1 then 1 else 0) sys_example" "1 \<in> p_ID ` set sys_example"
  "sys_ok sys_example"
  using disp_at_new
  by (simp_all add: sys_example_def proc_example_def watch_ok_def sys_ok_def sig_ok_def Signal_new_def)

lemma SendSignal_result:
  assumes "SendSignal_fuel n cur tramp held pid sig val tid sys = Inr (r, sys')"
  shows "r \<in> {0, - EINVAL, - EFAULT}"
proof (cases n)
  case (Suc m)
  have "r \<in> {0, - EINVAL, - EFAULT}" if "SendSignal_begin cur sig val p = Inr (Sent (r, p'))" for p p'
    using that by (auto simp: SendSignal_begin_def SendSignal_default_def crash_result_def rbind_def Let_def
        split: sum.splits if_splits)
  with assms [unfolded Suc] show ?thesis by (cases rule: SendSignal_E) auto
qed (use assms in simp)

text \<open>
  C13. Sending a signal to a process of the system returns. Let the watchers of every process exist and no process watch itself, directly
  or through other processes; let no process be a Windows process (for these the code asserts), let every
  disposition be one of the five the switch knows, and let the pages for a trampoline be available. Then a
  call never waits for a lock it already holds, meets no failing assertion and leaves no loop running:
  for every signal from 1 to 64 it returns, with 0, \<open>- EINVAL\<close> or \<open>- EFAULT\<close>, and the processes of the
  system are the same ones.
\<close>

theorem send_signal_returns:
  assumes "distinct (map p_ID sys)" "watch_ok rank sys" "pid \<in> p_ID ` set sys" "1 \<le> sig" "sig \<le> 64"
    and "\<forall>q. \<exists>addr. tramp q = Inr addr"
  shows "\<exists>r sys'. Signal_SendSignal cur tramp pid sig val tid sys = Inr (r, sys') \<and>
    r \<in> {0, - EINVAL, - EFAULT} \<and> map p_ID sys' = map p_ID sys"
proof -
  obtain r sys' where r: "SendSignal_fuel (Suc (length sys)) cur tramp [] pid sig val tid sys = Inr (r, sys')"
    using SendSignal_returns [OF assms(1-5), of "[]" "Suc (length sys)" tramp cur val tid] assms(6) by auto
  show ?thesis
    using r SendSignal_result [OF r] SendSignal_keeps [OF r assms(1)]
    unfolding Signal_SendSignal_def keeps_def by (metis same_frame_IDs)
qed

theorem send_signal_returns_witness:
  "\<exists>r sys'. Signal_SendSignal 0 (\<lambda>_. Inr 0x5000) 1 SIGUSR1 0 (- 1) sys_example = Inr (r, sys') \<and> r \<in> {0, - EINVAL, - EFAULT}"
  using send_signal_returns [OF sys_example_ok(1-3), of 19 "\<lambda>_. Inr 0x5000" 0 0 "- 1"] by auto

text \<open>
  C14. A caught signal is queued. If the process is not a kernel process and has a handler for the signal,
  a call that returns gives 0, puts the signal with its value and thread behind the signals already
  pending, and leaves the state of the process and its actions alone.
\<close>

theorem send_signal_queues:
  assumes "Signal_SendSignal cur tramp pid sig val tid sys = Inr (r, sys')" "distinct (map p_ID sys)"
    and "get_proc pid sys = Some p" "p_Mode p \<noteq> Kernel" "0 \<le> sig" "sig \<le> 64"
    and "sa_handler (sa (p_Signals p) ! nat sig) \<notin> {0, 1}"
  shows "r = 0 \<and> (\<exists>p'. get_proc pid sys' = Some p' \<and> p_State p' = p_State p \<and> sa (p_Signals p') = sa (p_Signals p) \<and>
    Queue (p_Signals p') = Queue (p_Signals p) @ [\<lparr>si_sig = sig, si_val = val, si_tid = tid\<rparr>])"
  using assms(1) unfolding Signal_SendSignal_def
proof (cases rule: SendSignal_E)
  case (sent q q')
  then show ?thesis using assms(3-7) by (auto simp: SendSignal_begin_def sa_at_def rbind_def Let_def)
next
  case (queued q q' s)
  have q: "q = p" using queued(2) assms(3) by simp
  have ID: "p_ID q' = pid" using sig_frame_ID [OF queued(8)] get_proc_ID [OF queued(2)] by simp
  have put: "get_proc pid (upd_proc pid (\<lambda>_. q') sys) = Some q'"
    using get_proc_put [OF ID] assms(3) by simp
  have d: "distinct (map p_ID (upd_proc pid (\<lambda>_. q') sys))"
    using keeps_distinct [OF keeps_put [OF assms(2) queued(2,8,1)] assms(2)] .
  let ?keep = "\<lambda>t. get_proc pid t = Some q' \<and> distinct (map p_ID t)"
  have "?keep s"
  proof (cases "disp_at (p_Signals q') sig \<noteq> SIG_IGN")
    case True
    with queued(11) have "each_res (SendSignal_watcher (\<lambda>who. SendSignal_fuel (length sys) cur tramp [pid] who SIGCHLD val (- 1)))
        (Watchers (p_Signals q')) (upd_proc pid (\<lambda>_. q') sys) = Inr s" by simp
    then show ?thesis
    proof (rule each_res_keeps [where P = ?keep])
      fix w t t' assume t: "?keep t"
        and "SendSignal_watcher (\<lambda>who. SendSignal_fuel (length sys) cur tramp [pid] who SIGCHLD val (- 1)) w t = Inr t'"
      then obtain who r' where r: "SendSignal_fuel (length sys) cur tramp [pid] who SIGCHLD val (- 1) t = Inr (r', t')"
        by (auto elim: SendSignal_watcher_E)
      have k: "keeps [pid] t t'" by (rule SendSignal_keeps [OF r conjunct2 [OF t]])
      then show "?keep t'" using t keeps_distinct [OF k] by (simp add: keeps_def)
    qed (use put d in simp)
  qed (use queued(11) put d in simp)
  then show ?thesis unfolding queued(12) using queued(4,8,9,10) q
    by (simp add: Signal_AddSignal_def sig_frame_def)
qed

lemma get_example [simp]:
  "get_proc 1 sys_example = Some (proc_example 1
     (Signal_new\<lparr>sa := (sa Signal_new)[19 := catching], Watchers := [\<lparr>w_sig = SIGCHLD, w_who = Some 2\<rparr>]\<rparr>))"
  "get_proc 2 sys_example = Some (proc_example 2 Signal_new)"
  by (simp_all add: sys_example_def get_proc_def proc_example_def)

theorem send_signal_queues_witness:
  "\<exists>sys' p'. Signal_SendSignal 0 (\<lambda>_. Inr 0x5000) 1 SIGUSR1 7 (- 1) sys_example = Inr (0, sys') \<and>
     get_proc 1 sys' = Some p' \<and> Queue (p_Signals p') = [\<lparr>si_sig = SIGUSR1, si_val = 7, si_tid = - 1\<rparr>]"
proof -
  obtain r sys' where r: "Signal_SendSignal 0 (\<lambda>_. Inr 0x5000) 1 SIGUSR1 7 (- 1) sys_example = Inr (r, sys')"
    unfolding Signal_SendSignal_def
    using SendSignal_returns [OF sys_example_ok(1-3), of 19 "[]" "Suc (length sys_example)" "\<lambda>_. Inr 0x5000" 0 7 "- 1"]
    by auto
  show ?thesis
    using send_signal_queues [OF r sys_example_ok(1) get_example(1)] r
    by (auto simp: proc_example_def Signal_new_def catching_def)
qed

text \<open>
  C15. The default action of a signal that terminates: a process without a handler, for a signal the current
  thread does not block, gets the exit code (100 plus the signal, or 128 plus the Linux number of it) and
  becomes \<open>Terminated\<close>, or \<open>Zombie\<close> (\<open>CoreDump\<close> for the signals that dump core) when it is watched. No other process
  changes: the watchers get no \<open>SIGCHLD\<close> for it.
\<close>

theorem default_action_terminates:
  assumes "get_proc pid sys = Some p" "1 \<le> sig" "sig \<le> 64" "sa_handler (sa (p_Signals p) ! nat sig) = 0"
    and "\<not> bit cur (nat (sig - 1))" "disp_at (p_Signals p) sig \<in> {SIG_TERM, SIG_CORE}"
  shows "\<exists>r sys' p'. Signal_SendSignal cur tramp pid sig val tid sys = Inr (r, sys') \<and>
    (r = - EFAULT \<longleftrightarrow> sint (ucast val :: u32) = KILL_CRASH) \<and>
    get_proc pid sys' = Some p' \<and>
    p_ExitCode p' = (if p_Compatibility p = Linux then 128 + ConvertSignalToLinux sig else 100 + sig) \<and>
    p_State p' = (if Watchers (p_Signals p) = [] then Terminated
                  else if disp_at (p_Signals p) sig = SIG_TERM then Zombie else CoreDump) \<and>
    (\<forall>q. q \<noteq> pid \<longrightarrow> get_proc q sys' = get_proc q sys)"
proof -
  define p0 where "p0 = p\<lparr>p_Signals := (p_Signals p)\<lparr>LastSignal := sig\<rparr>\<rparr>"
  define st where "st = (if Watchers (p_Signals p) = [] then Terminated
                  else if disp_at (p_Signals p) sig = SIG_TERM then Zombie else CoreDump)"
  define code where "code = (if p_Compatibility p = Linux then 128 + ConvertSignalToLinux sig else 100 + sig)"
  define p' where "p' = PCB_SetState st (PCB_SetExitCode code (p0\<lparr>p_Signals := disp_touch sig (p_Signals p0)\<rparr>))"
  have d: "SendSignal_default sig val p0 = Inr (crash_result val, p')"
    using assms(6) unfolding SendSignal_default_def p'_def st_def code_def p0_def Let_def
    by (auto simp: Signal_MakeExitCode_def Signal_LinuxSig_def)
  have p': "p_ExitCode p' = code" "p_State p' = st" by (simp_all add: p'_def)
  have ID: "p_ID p' = pid"
    using sig_frame_ID [OF conjunct1 [OF default_frame [OF d]]] get_proc_ID [OF assms(1)] by (simp add: p0_def)
  have "SendSignal_begin cur sig val p = Inr (Sent (crash_result val, p'))"
    using assms(2-5) d by (simp add: SendSignal_begin_def sa_at_def mask_test_def rbind_def p0_def)
  then have "Signal_SendSignal cur tramp pid sig val tid sys = Inr (crash_result val, upd_proc pid (\<lambda>_. p') sys)"
    using assms(1) by (simp add: Signal_SendSignal_def rbind_def)
  moreover have "crash_result val = - EFAULT \<longleftrightarrow> sint (ucast val :: u32) = KILL_CRASH"
    by (simp add: crash_result_def EFAULT_def)
  moreover have "get_proc pid (upd_proc pid (\<lambda>_. p') sys) = Some p'"
    "\<forall>q. q \<noteq> pid \<longrightarrow> get_proc q (upd_proc pid (\<lambda>_. p') sys) = get_proc q sys"
    using get_proc_put [OF ID] assms(1) by simp_all
  ultimately show ?thesis using p' unfolding st_def code_def by blast
qed

theorem default_action_terminates_witness:
  "\<exists>r sys' p'. Signal_SendSignal 0 (\<lambda>_. Inr 0) 1 SIGSEGV 0 (- 1) sys_example = Inr (r, sys') \<and>
     get_proc 1 sys' = Some p' \<and> p_State p' = CoreDump \<and> p_ExitCode p' = 113 \<and>
     get_proc 2 sys' = Some (proc_example 2 Signal_new)"
  using default_action_terminates [OF get_example(1), of 13 0 "\<lambda>_. Inr 0" 0 "- 1"]
  by (auto simp: proc_example_def Signal_new_def catching_def disp_at_def SignalDisposition_def)

text \<open>
  C16. \<open>GetAvailableSignal\<close> takes the first signal of the queue that the thread does not block and that is for
  it, or for any thread, and leaves the other signals pending in their order; without such a signal it
  gives the empty information and leaves the queue alone.
\<close>

theorem available_signal_is_first:
  assumes "sig_ok s" "Queue s = xs @ rest" "\<forall>i \<in> set xs. \<not> deliverable m tid i"
  shows "(rest = [] \<longrightarrow> Signal_GetAvailableSignal freed m tid s = Inr (SignalInfo_none, s)) \<and>
    (\<forall>i ys. rest = i # ys \<and> deliverable m tid i \<longrightarrow>
       Signal_GetAvailableSignal freed m tid s = Inr (freed i, s\<lparr>Queue := xs @ ys\<rparr>))"
proof -
  have "list_all (\<lambda>i. 1 \<le> si_sig i \<and> si_sig i \<le> 64 \<and> \<not> deliverable m tid i) xs"
    using assms by (simp add: sig_ok_def list_all_iff)
  note skip = GetAvailable_skip [OF this, of freed s]
  show ?thesis
  proof (intro conjI impI allI)
    assume "rest = []"
    then have "GetAvailable_loop freed s m tid (Queue s) = Inr (SignalInfo_none, Queue s)"
      using skip [of "[]"] assms(2) by (simp add: rbind_def)
    then show "Signal_GetAvailableSignal freed m tid s = Inr (SignalInfo_none, s)"
      by (simp add: Signal_GetAvailableSignal_def rbind_def)
  next
    fix i ys assume i: "rest = i # ys \<and> deliverable m tid i"
    then have "GetAvailable_loop freed s m tid (i # ys) = Inr (freed i, ys)"
      using assms(1,2) GetAvailable_hit [of i m tid] by (simp add: sig_ok_def)
    then show "Signal_GetAvailableSignal freed m tid s = Inr (freed i, s\<lparr>Queue := xs @ ys\<rparr>)"
      using skip [of "i # ys"] assms(2) i by (simp add: Signal_GetAvailableSignal_def rbind_def del: GetAvailable_loop.simps)
  qed
qed

definition queue_example :: signal where
  "queue_example = Signal_new\<lparr>sa := (sa Signal_new)[19 := catching, 20 := catching],
     Queue := [\<lparr>si_sig = SIGUSR2, si_val = 1, si_tid = - 1\<rparr>, \<lparr>si_sig = SIGUSR1, si_val = 2, si_tid = 11\<rparr>]\<rparr>"

theorem available_signal_is_first_witness:
  "Signal_GetAvailableSignal (\<lambda>i. i) (push_bit 19 1) 11 queue_example =
     Inr (\<lparr>si_sig = SIGUSR1, si_val = 2, si_tid = 11\<rparr>,
          queue_example\<lparr>Queue := [\<lparr>si_sig = SIGUSR2, si_val = 1, si_tid = - 1\<rparr>]\<rparr>)"
  using available_signal_is_first [of queue_example "[\<lparr>si_sig = SIGUSR2, si_val = 1, si_tid = - 1\<rparr>]"
      "[\<lparr>si_sig = SIGUSR1, si_val = 2, si_tid = 11\<rparr>]" "push_bit 19 1" 11 "\<lambda>i. i"]
  by (simp add: queue_example_def sig_ok_def deliverable_def Signal_new_def catching_def bit_simps)

text \<open>
  C17. Pending signals stay deliverable. Along every sequence of calls that send signals, change actions
  and take available signals, where an action becomes \<open>SIG_DFL\<close> only with no such signal pending and
  \<open>SIG_IGN\<close> only with at most one, \<open>GetAvailableSignal\<close> meets neither of its assertions and stays inside the
  table of actions.
\<close>

theorem pending_signals_stay_deliverable:
  assumes "sys_ok sys" "sig_step\<^sup>*\<^sup>* sys sys'" "get_proc pid sys' = Some p"
  shows "\<exists>r. Signal_GetAvailableSignal freed m tid (p_Signals p) = Inr r"
  using sig_ok_GetAvailable [OF sys_ok_get [OF sig_reach_ok [OF assms(2,1)] assms(3)], of freed m tid] by auto

theorem pending_signals_stay_deliverable_witness:
  "\<exists>sys' p r. sig_step\<^sup>*\<^sup>* sys_example sys' \<and> get_proc 1 sys' = Some p \<and> sys' \<noteq> sys_example \<and>
     Signal_GetAvailableSignal (\<lambda>i. i) 0 11 (p_Signals p) = Inr r"
proof -
  let ?p = "proc_example 1 (Signal_new\<lparr>sa := (sa Signal_new)[19 := catching], Watchers := [\<lparr>w_sig = SIGCHLD, w_who = Some 2\<rparr>]\<rparr>)"
  have len: "length (sa (p_Signals ?p)) = 65" by (simp add: proc_example_def Signal_new_def)
  obtain s' where s': "Signal_SetAction SIGUSR2 catching (p_Signals ?p) = Inr (0, s')"
      "sa s' = (sa (p_Signals ?p))[20 := catching]"
    using SetAction_spec [OF len, of 20 catching] by auto
  define sys' where "sys' = upd_proc 1 (\<lambda>p. p\<lparr>p_Signals := s'\<rparr>) sys_example"
  have "sig_step sys_example sys'" unfolding sys'_def
    by (rule sig_step.action [OF get_example(1) s'(1)]) (simp_all add: catching_def)
  moreover have g: "get_proc 1 sys' = Some (?p\<lparr>p_Signals := s'\<rparr>)" by (simp add: sys'_def)
  moreover have "sys' \<noteq> sys_example"
  proof
    assume "sys' = sys_example"
    then have "Some (?p\<lparr>p_Signals := s'\<rparr>) = Some ?p" unfolding g [symmetric] by (simp only: get_example)
    then have "p_Signals (?p\<lparr>p_Signals := s'\<rparr>) = p_Signals ?p" by (simp only: option.inject)
    then have "sa s' ! 20 = sa (p_Signals ?p) ! 20" by simp
    then show False using s'(2) by (simp add: proc_example_def Signal_new_def catching_def)
  qed
  ultimately show ?thesis
    using pending_signals_stay_deliverable [OF sys_example_ok(4) r_into_rtranclp g, of "\<lambda>i. i" 0 11] by blast
qed

text \<open>
  What \<open>SetAction\<close> stores for a signal from 0 to 64, \<open>GetAction\<close> gives back, and the actions of the other
  signals stay. The check of the number lets 65 through, one past the table of 65 actions: both calls
  then leave the table.
\<close>

theorem action_round_trip:
  assumes "length (sa s) = 65"
  shows "(0 \<le> sig \<and> sig \<le> 64 \<longrightarrow>
      (\<exists>s'. Signal_SetAction sig act s = Inr (0, s') \<and> Signal_GetAction sig s' = Inr (0, Some act) \<and>
         (\<forall>k. k \<noteq> sig \<longrightarrow> Signal_GetAction k s' = Signal_GetAction k s))) \<and>
    Signal_SetAction 65 act s = Inl OutOfBounds \<and> Signal_GetAction 65 s = Inl OutOfBounds \<and>
    (sig < 0 \<or> 65 < sig \<longrightarrow> Signal_SetAction sig act s = Inr (- EINVAL, s))"
proof (intro conjI impI)
  assume sig: "0 \<le> sig \<and> sig \<le> 64"
  then obtain s' where s': "Signal_SetAction sig act s = Inr (0, s')" "sa s' = (sa s)[nat sig := act]"
    using SetAction_spec [OF assms, of sig act] by auto
  moreover have "Signal_GetAction sig s' = Inr (0, Some act)"
    using sig assms s'(2) by (auto simp: Signal_GetAction_def sa_at_def rbind_def)
  moreover have "Signal_GetAction k s' = Signal_GetAction k s" if "k \<noteq> sig" for k
  proof -
    have "0 \<le> k \<Longrightarrow> nat k \<noteq> nat sig" using that sig by (simp add: eq_nat_nat_iff)
    then have "0 \<le> k \<Longrightarrow> sa s' ! nat k = sa s ! nat k" using s'(2) by simp
    then show ?thesis by (auto simp: Signal_GetAction_def sa_at_def)
  qed
  ultimately show "\<exists>s'. Signal_SetAction sig act s = Inr (0, s') \<and> Signal_GetAction sig s' = Inr (0, Some act) \<and>
         (\<forall>k. k \<noteq> sig \<longrightarrow> Signal_GetAction k s' = Signal_GetAction k s)" by blast
qed (auto simp: Signal_SetAction_def Signal_GetAction_def sa_at_def rbind_def Let_def)

theorem action_round_trip_witness:
  "\<exists>s'. Signal_SetAction SIGUSR1 catching Signal_new = Inr (0, s') \<and> Signal_GetAction SIGUSR1 s' = Inr (0, Some catching)"
  using action_round_trip [of Signal_new 19 catching] by (auto simp: Signal_new_def)

text \<open>
  \<open>SetAction\<close> to \<open>SIG_DFL\<close> keeps the pending signals of the number, and \<open>GetAvailableSignal\<close> asserts that a pending
  signal has a handler: when the first deliverable signal is one whose action was reset while it was
  pending, the next delivery to the thread stops on the failing assertion.
\<close>

theorem resetting_a_pending_signal_asserts:
  assumes "sig_ok s" "Queue s = i # rest" "deliverable m tid i" "sa_handler act = 0"
    and "Signal_SetAction (si_sig i) act s = Inr (r, s')"
  shows "Signal_GetAvailableSignal freed m tid s' = Inl AssertFailed"
proof -
  have i: "1 \<le> si_sig i" "si_sig i \<le> 64" and len: "length (sa s) = 65" using assms(1,2) by (auto simp: sig_ok_def)
  have s': "sa s' = (sa s)[nat (si_sig i) := act]" "Queue s' = i # rest"
    using SetAction_spec [OF len, of "si_sig i" act] i assms(2,4,5) by auto
  have "sa_handler (sa s' ! nat (si_sig i)) = 0" using s'(1) i len assms(4) by simp
  then show ?thesis
    using GetAvailable_hit [OF i assms(3), of freed s' rest]
    by (simp add: Signal_GetAvailableSignal_def s'(2) rbind_def del: GetAvailable_loop.simps)
qed

theorem resetting_a_pending_signal_asserts_witness:
  "\<exists>s'. Signal_SetAction SIGUSR2 (catching\<lparr>sa_handler := 0\<rparr>) queue_example = Inr (0, s') \<and>
     Signal_GetAvailableSignal (\<lambda>i. i) 0 11 s' = Inl AssertFailed"
proof -
  have ok: "sig_ok queue_example" by (simp add: queue_example_def sig_ok_def Signal_new_def catching_def)
  have q: "Queue queue_example = \<lparr>si_sig = SIGUSR2, si_val = 1, si_tid = - 1\<rparr> # [\<lparr>si_sig = SIGUSR1, si_val = 2, si_tid = 11\<rparr>]"
    by (simp add: queue_example_def)
  obtain s' where s': "Signal_SetAction 20 (catching\<lparr>sa_handler := 0\<rparr>) queue_example = Inr (0, s')"
    using SetAction_spec [of queue_example 20] ok by (auto simp: sig_ok_def)
  then show ?thesis
    using resetting_a_pending_signal_asserts [OF ok q, of 0 11 "catching\<lparr>sa_handler := 0\<rparr>" 0 s' "\<lambda>i. i"]
    by (simp add: deliverable_def)
qed

text \<open>
  \<open>SIGKILL\<close> and \<open>SIGSTOP\<close> can be ignored: \<open>SetAction\<close> takes \<open>SIG_IGN\<close> for them like for any signal, and then
  sending one to a process that is not a kernel process returns 0 and leaves its state and exit code as
  they were.
\<close>

theorem kill_can_be_ignored:
  assumes "sig \<in> {SIGKILL, SIGSTOP}" "get_proc pid sys = Some p" "p_Mode p \<noteq> Kernel"
    and "length (sa (p_Signals p)) = 65" "sa_handler act = 1"
  shows "\<exists>s' sys' p'. Signal_SetAction sig act (p_Signals p) = Inr (0, s') \<and>
    Signal_SendSignal cur tramp pid sig val tid (upd_proc pid (\<lambda>p. p\<lparr>p_Signals := s'\<rparr>) sys) = Inr (0, sys') \<and>
    get_proc pid sys' = Some p' \<and> p_State p' = p_State p \<and> p_ExitCode p' = p_ExitCode p \<and> p_Threads p' = p_Threads p"
proof -
  have sig: "0 \<le> sig" "sig \<le> 64" using assms(1) by auto
  obtain s' where s': "Signal_SetAction sig act (p_Signals p) = Inr (0, s')" "sa s' = (sa (p_Signals p))[nat sig := act]"
    using SetAction_spec [OF assms(4) sig, of act] by auto
  define q where "q = p\<lparr>p_Signals := s'\<lparr>LastSignal := sig\<rparr>\<rparr>"
  have h: "sa_handler (sa s' ! nat sig) = 1" using s'(2) assms(4,5) sig by simp
  have "SendSignal_begin cur sig val (p\<lparr>p_Signals := s'\<rparr>) = Inr (Sent (0, q))"
    using sig assms(3) h by (simp add: SendSignal_begin_def sa_at_def rbind_def q_def)
  then have "Signal_SendSignal cur tramp pid sig val tid (upd_proc pid (\<lambda>p. p\<lparr>p_Signals := s'\<rparr>) sys) =
      Inr (0, upd_proc pid (\<lambda>_. q) (upd_proc pid (\<lambda>p. p\<lparr>p_Signals := s'\<rparr>) sys))"
    using assms(2) by (simp add: Signal_SendSignal_def rbind_def)
  moreover have "p_ID q = pid" using get_proc_ID [OF assms(2)] by (simp add: q_def)
  ultimately show ?thesis using s'(1) assms(2) by (auto simp: get_proc_put q_def)
qed

theorem kill_can_be_ignored_witness:
  "\<exists>s' sys' p'. Signal_SetAction SIGKILL (catching\<lparr>sa_handler := 1\<rparr>) Signal_new = Inr (0, s') \<and>
     Signal_SendSignal 0 (\<lambda>_. Inr 0) 2 SIGKILL 0 (- 1) (upd_proc 2 (\<lambda>p. p\<lparr>p_Signals := s'\<rparr>) sys_example) = Inr (0, sys') \<and>
     get_proc 2 sys' = Some p' \<and> p_State p' = Ready"
  using kill_can_be_ignored [OF _ get_example(2), of 10 "catching\<lparr>sa_handler := 1\<rparr>" 0 "\<lambda>_. Inr 0" 0 "- 1"]
  by (simp add: proc_example_def Signal_new_def) blast

end
