(* ===== verification/SignalFrame.thy ===== *)
theory SignalFrame
  imports SignalProofs Translation
begin

unbundle bit_operations_syntax

section \<open>Delivering a signal to user mode\<close>

text \<open>
  A model of src/Kernel/arch/amd64/tasking/signal.cpp: \<open>HandleSignal\<close> saves the state of a thread on its
  user stack and redirects it to the trampoline, \<open>RestoreHandleSignal\<close> takes the state back. The stack is
  written and read through its physical address, so both work on the memory of the paging model: a
  physical address is a frame and one of its 512 words.
\<close>

definition store_word :: "u64 \<Rightarrow> u64 \<Rightarrow> memory \<Rightarrow> memory" where
  "store_word a v m = m(a AND NOT 0xFFF := (m (a AND NOT 0xFFF))(drop_bit 3 (a AND 0xFFF) := v))"

definition load_word :: "u64 \<Rightarrow> memory \<Rightarrow> u64" where
  "load_word a m = m (a AND NOT 0xFFF) (drop_bit 3 (a AND 0xFFF))"

fun store_words :: "u64 \<Rightarrow> u64 list \<Rightarrow> memory \<Rightarrow> memory" where
  "store_words a [] m = m"
| "store_words a (v # vs) m = store_words (a + 8) vs (store_word a v m)"

fun load_words :: "nat \<Rightarrow> u64 \<Rightarrow> memory \<Rightarrow> u64 list" where
  "load_words 0 a m = []"
| "load_words (Suc n) a m = load_word a m # load_words n (a + 8) m"

subsection \<open>The saved state\<close>

text \<open>
  \<open>StackInfo\<close> has 656 bytes, 82 words: the 416 bytes of \<open>FXState\<close>, the 24 registers of the frame, three bases,
  the mask, the compatibility (4 bytes) and padding to a multiple of 16.
\<close>

record StackInfo =
  si_fx :: "u64 list"
  si_tf :: SchedulerFrame
  si_GSBase :: u64
  si_FSBase :: u64
  si_ShadowGSBase :: u64
  si_SignalMask :: u64
  si_Compatibility :: u64

definition frame_words :: "SchedulerFrame \<Rightarrow> u64 list" where
  "frame_words tf =
     [f_ppt tf, f_opt tf, f_r15 tf, f_r14 tf, f_r13 tf, f_r12 tf, f_r11 tf, f_r10 tf, f_r9 tf, f_r8 tf,
      f_rbp tf, f_rdi tf, f_rsi tf, f_rdx tf, f_rcx tf, f_rbx tf, f_rax tf, f_InterruptNumber tf,
      f_ErrorCode tf, f_rip tf, f_cs tf, f_rflags tf, f_rsp tf, f_ss tf]"

definition frame_of :: "u64 list \<Rightarrow> SchedulerFrame" where
  "frame_of w =
     \<lparr>f_ppt = w ! 0, f_opt = w ! 1, f_r15 = w ! 2, f_r14 = w ! 3, f_r13 = w ! 4, f_r12 = w ! 5, f_r11 = w ! 6,
      f_r10 = w ! 7, f_r9 = w ! 8, f_r8 = w ! 9, f_rbp = w ! 10, f_rdi = w ! 11, f_rsi = w ! 12,
      f_rdx = w ! 13, f_rcx = w ! 14, f_rbx = w ! 15, f_rax = w ! 16, f_InterruptNumber = w ! 17,
      f_ErrorCode = w ! 18, f_rip = w ! 19, f_cs = w ! 20, f_rflags = w ! 21, f_rsp = w ! 22, f_ss = w ! 23\<rparr>"

definition StackInfo_words :: "StackInfo \<Rightarrow> u64 list" where
  "StackInfo_words si =
     si_fx si @ frame_words (si_tf si) @
     [si_GSBase si, si_FSBase si, si_ShadowGSBase si, si_SignalMask si, si_Compatibility si, 0]"

definition StackInfo_of :: "u64 list \<Rightarrow> StackInfo" where
  "StackInfo_of w =
     \<lparr>si_fx = take 52 w, si_tf = frame_of (drop 52 w), si_GSBase = w ! 76, si_FSBase = w ! 77,
      si_ShadowGSBase = w ! 78, si_SignalMask = w ! 79, si_Compatibility = w ! 80\<rparr>"

definition StackInfo_size :: u64 where "StackInfo_size = 656"

fun Compatibility_code :: "TaskCompatibility \<Rightarrow> u64" where
  "Compatibility_code UnknownPlatform = 0"
| "Compatibility_code Native = 1"
| "Compatibility_code Linux = 2"
| "Compatibility_code Windows = 3"

subsection \<open>Delivery\<close>

abbreviation (input) GDT_KERNEL_CODE :: u64 where "GDT_KERNEL_CODE \<equiv> 0x08"
abbreviation (input) GDT_USER_CODE :: u64 where "GDT_USER_CODE \<equiv> 0x23"

definition thread_mask :: "PCB \<Rightarrow> int \<Rightarrow> u64" where
  "thread_mask p tid = (case PCB_GetThread p tid of Some t \<Rightarrow> t_Mask t | None \<Rightarrow> 0)"

definition Signal_HandleSignal ::
    "(SignalInfo \<Rightarrow> SignalInfo) \<Rightarrow> int \<Rightarrow> cpu_context \<Rightarrow> PCB \<Rightarrow> SchedulerFrame \<Rightarrow> machine \<Rightarrow>
     (bool \<times> PCB \<times> SchedulerFrame \<times> machine) res" where
  "Signal_HandleSignal freed tid cpu p tf s =
     (if f_cs tf \<noteq> GDT_USER_CODE then Inr (False, p, tf, s)
      else if Queue (p_Signals p) = [] then Inr (False, p, tf, s)
      else
        rbind (Signal_GetAvailableSignal freed (thread_mask p tid) tid (p_Signals p)) (\<lambda>(sigI, sg).
        let p = p\<lparr>p_Signals := sg\<rparr> in
        if si_sig sigI = 0 then Inr (False, p, tf, s)
        else
          rbind (PageTable_Get (p_PageTable p) s (f_rsp tf)) (\<lambda>p_rsp.
          let paRsp = (p_rsp AND NOT 0xF) - 128;
              v_rsp = (f_rsp tf AND NOT 0xF) - 128;
              vRsp = v_rsp - StackInfo_size - 8 - 8 in
          rbind (assert_res (vRsp AND 0xF = 0)) (\<lambda>_.
          let si = \<lparr>si_fx = c_FPU cpu, si_tf = tf, si_GSBase = c_GSBase cpu, si_FSBase = c_FSBase cpu,
                    si_ShadowGSBase = c_ShadowGSBase cpu, si_SignalMask = thread_mask p tid,
                    si_Compatibility = Compatibility_code (p_Compatibility p)\<rparr>;
              pRsp = paRsp - StackInfo_size;
              mem = store_words pRsp (StackInfo_words si) (Mem s);
              pRsp = pRsp - 8 - 8 in
          rbind (sa_at (p_Signals p) (si_sig sigI)) (\<lambda>act.
          let mem = store_word pRsp (sa_handler act) mem in
          rbind (assert_res (pRsp AND 0xF = 0)) (\<lambda>_.
          let cSig = (if Signal_LinuxSig p then ConvertSignalToLinux (si_sig sigI) else si_sig sigI);
              tf = tf\<lparr>f_rsp := vRsp, f_rip := TrampAddr (p_Signals p), f_rdi := word_of_int cSig,
                      f_rsi := 0, f_rdx := 0, f_rcx := 0, f_r8 := 0, f_r9 := 0\<rparr>;
              p = upd_thread tid (\<lambda>t. t\<lparr>t_Mask := sa_Mask act\<rparr>) p in
          rbind (assert_res (TrampAddr (p_Signals p) \<noteq> 0)) (\<lambda>_.
          Inr (True, p, tf, s\<lparr>Mem := mem\<rparr>))))))))"

subsection \<open>Return\<close>

text \<open>The registers a system call saves; \<open>TempStack\<close> is the user stack pointer at the call.\<close>

record SyscallsFrame =
  s_r15 :: u64
  s_r14 :: u64
  s_r13 :: u64
  s_r12 :: u64
  s_r11 :: u64
  s_r10 :: u64
  s_r9 :: u64
  s_r8 :: u64
  s_bp :: u64
  s_di :: u64
  s_si :: u64
  s_dx :: u64
  s_cx :: u64
  s_bx :: u64
  s_ax :: u64
  s_ReturnAddress :: u64
  s_CodeSegment :: u64
  s_Flags :: u64
  s_StackPointer :: u64
  s_StackSegment :: u64

definition restore_regs :: "SchedulerFrame \<Rightarrow> SyscallsFrame \<Rightarrow> SyscallsFrame" where
  "restore_regs tf sf =
     sf\<lparr>s_r15 := f_r15 tf, s_r14 := f_r14 tf, s_r13 := f_r13 tf, s_r12 := f_r12 tf, s_r11 := f_r11 tf,
        s_r10 := f_r10 tf, s_r9 := f_r9 tf, s_r8 := f_r8 tf, s_bp := f_rbp tf, s_di := f_rdi tf,
        s_si := f_rsi tf, s_dx := f_rdx tf, s_cx := f_rcx tf, s_bx := f_rbx tf, s_ax := f_rax tf,
        s_Flags := f_rflags tf, s_ReturnAddress := f_rip tf\<rparr>"

definition Signal_RestoreHandleSignal ::
    "int \<Rightarrow> u64 \<Rightarrow> PCB \<Rightarrow> SyscallsFrame \<Rightarrow> cpu_context \<Rightarrow> machine \<Rightarrow>
     (PCB \<times> SyscallsFrame \<times> u64 \<times> cpu_context) res" where
  "Signal_RestoreHandleSignal tid TempStack p sf cpu s =
     rbind (PageTable_Get (p_PageTable p) s TempStack) (\<lambda>sp.
     let sp = sp + 8 + 8 in
     rbind (assert_res (sp AND 0xF = 0)) (\<lambda>_.
     rbind (assert_res (sp \<noteq> 0)) (\<lambda>_.
     let si = StackInfo_of (load_words 82 sp (Mem s)) in
     Inr (upd_thread tid (\<lambda>t. t\<lparr>t_Mask := si_SignalMask si\<rparr>) p,
          restore_regs (si_tf si) sf,
          f_rsp (si_tf si),
          cpu\<lparr>c_FPU := si_fx si, c_GSBase := si_ShadowGSBase si, c_FSBase := si_FSBase si,
              c_ShadowGSBase := si_GSBase si\<rparr>))))"

subsection \<open>Words inside a page\<close>

lemma mask12: "(0xFFF :: u64) = mask 12"
  by (simp add: mask_eq_exp_minus_1)

lemma mask4: "(0xF :: u64) = mask 4"
  by (simp add: mask_eq_exp_minus_1)

lemma and_not_diff: "w AND NOT m = w - (w AND m)" for w :: u64
proof -
  have "w - (w AND m) = w AND NOT (w AND m)" by (rule disjunctive_diff) (simp add: bit_simps)
  also have "\<dots> = w AND NOT m" by (rule bit_word_eqI) (auto simp: bit_simps)
  finally show ?thesis by simp
qed

lemma take_bit_of_nat: "take_bit k (of_nat n :: u64) = of_nat (n mod 2 ^ k)"
  unfolding of_nat_take_bit [symmetric] by (simp only: take_bit_eq_mod)

text \<open>Addresses \<open>F + of_nat n\<close> inside the page at \<open>F\<close>.\<close>

lemma unat_small: "n < 2 ^ 64 \<Longrightarrow> unat (of_nat n :: u64) = n"
  by (simp add: unsigned_of_nat take_bit_nat_eq_self)

lemma page_take_bit:
  assumes "F AND 0xFFF = (0 :: u64)" "k \<le> 12" "n < 4096"
  shows "take_bit k (F + of_nat n) = of_nat (n mod 2 ^ k)"
proof -
  have F: "\<not> bit F i" if "i < 12" for i
    using arg_cong [OF assms(1), of "\<lambda>w. bit w i"] that unfolding mask12 by (simp add: bit_simps)
  have "take_bit 12 (of_nat n :: u64) = of_nat n" using assms(3) by (simp add: take_bit_of_nat)
  then have n: "i < 12" if "bit (of_nat n :: u64) i" for i
    using that by (metis bit_take_bit_iff)
  have "F + of_nat n = F OR of_nat n" using F n by (intro disjunctive_add) auto
  moreover have "take_bit k (F OR of_nat n) = take_bit k (of_nat n)"
    using F assms(2) by (intro bit_word_eqI) (auto simp: bit_simps)
  ultimately show ?thesis by (simp add: take_bit_of_nat)
qed

lemma page_low: "F AND 0xFFF = (0 :: u64) \<Longrightarrow> n < 4096 \<Longrightarrow> (F + of_nat n) AND 0xFFF = of_nat n"
  using page_take_bit [of F 12 n] unfolding mask12 by (simp add: take_bit_eq_mask)

lemma page_high: "F AND 0xFFF = (0 :: u64) \<Longrightarrow> n < 4096 \<Longrightarrow> (F + of_nat n) AND NOT 0xFFF = F"
  unfolding and_not_diff by (simp add: page_low)

lemma page_low4: "F AND 0xFFF = (0 :: u64) \<Longrightarrow> n < 4096 \<Longrightarrow> (F + of_nat n) AND 0xF = of_nat (n mod 16)"
  using page_take_bit [of F 4 n] unfolding mask4 by (simp add: take_bit_eq_mask)

lemma page_align: "F AND 0xFFF = (0 :: u64) \<Longrightarrow> n < 4096 \<Longrightarrow> (F + of_nat n) AND NOT 0xF = F + of_nat (n - n mod 16)"
  unfolding and_not_diff by (simp add: page_low4)

lemma page_index: "k < 512 \<Longrightarrow> drop_bit 3 (of_nat (8 * k) :: u64) = of_nat k"
proof -
  assume k: "k < 512"
  have "unat (drop_bit 3 (of_nat (8 * k) :: u64)) = unat (of_nat k :: u64)"
    using k unat_small [of "8 * k"] unat_small [of k] by (simp add: drop_bit_eq_div unat_div del: of_nat_mult)
  then show ?thesis by (simp only: word_unat_eq_iff)
qed

lemma store_word_page:
  "F AND 0xFFF = 0 \<Longrightarrow> k < 512 \<Longrightarrow> store_word (F + of_nat (8 * k)) v m = m(F := (m F)(of_nat k := v))"
  using page_high [of F "8 * k"] page_low [of F "8 * k"] page_index [of k]
  unfolding store_word_def by (simp del: of_nat_mult)

lemma load_word_page: "F AND 0xFFF = 0 \<Longrightarrow> k < 512 \<Longrightarrow> load_word (F + of_nat (8 * k)) m = m F (of_nat k)"
  using page_high [of F "8 * k"] page_low [of F "8 * k"] page_index [of k]
  unfolding load_word_def by (simp del: of_nat_mult)

lemma page_next: "F + of_nat (8 * k) + 8 = F + of_nat (8 * Suc k)" for F :: u64
  by simp

lemma store_words_page:
  assumes "F AND 0xFFF = 0" "k + length vs \<le> 512"
  shows "store_words (F + of_nat (8 * k)) vs m =
    m(F := (\<lambda>i. if k \<le> unat i \<and> unat i < k + length vs then vs ! (unat i - k) else m F i))"
  using assms(2)
proof (induction vs arbitrary: k m)
  case (Cons v vs)
  have k: "k < 512" "Suc k + length vs \<le> 512" using Cons.prems by auto
  have u: "unat (of_nat k :: u64) = k" using k by (simp add: unat_small)
  have ne: "i \<noteq> of_nat k" if "unat i \<noteq> k" for i :: u64 using that u by auto
  show ?case
    unfolding store_words.simps store_word_page [OF assms(1) k(1)] page_next Cons.IH [OF k(2)]
    using u ne by (auto simp: fun_eq_iff nth_Cons' Suc_le_eq)
qed (auto simp: fun_eq_iff)

lemma load_words_page:
  assumes "F AND 0xFFF = 0" "k + n \<le> 512"
  shows "load_words n (F + of_nat (8 * k)) m = map (\<lambda>j. m F (of_nat (k + j))) [0..<n]"
  using assms(2)
proof (induction n arbitrary: k)
  case (Suc n)
  have k: "k < 512" "Suc k + n \<le> 512" using Suc.prems by auto
  show ?case
    unfolding load_words.simps load_word_page [OF assms(1) k(1)] page_next Suc.IH [OF k(2)]
    by (simp add: upt_conv_Cons map_Suc_upt [symmetric] add.left_commute del: upt_Suc)
qed simp

subsection \<open>The saved state comes back\<close>

lemma StackInfo_round_trip: "length (si_fx si) = 52 \<Longrightarrow> StackInfo_of (StackInfo_words si) = si"
  by (simp add: StackInfo_of_def StackInfo_words_def frame_of_def frame_words_def nth_append)

lemma StackInfo_words_length: "length (si_fx si) = 52 \<Longrightarrow> length (StackInfo_words si) = 82"
  by (simp add: StackInfo_words_def frame_words_def)

lemma stack_round_trip:
  assumes "F AND 0xFFF = 0" "k + 82 \<le> 512" "2 \<le> k" "length ws = 82"
  shows "load_words 82 (F + of_nat (8 * k)) (store_word (F + of_nat (8 * (k - 2))) h (store_words (F + of_nat (8 * k)) ws m)) = ws"
proof -
  have k: "k - 2 < 512" "k + length ws \<le> 512" using assms by auto
  have "(of_nat (k + j) :: u64) \<noteq> of_nat (k - 2)" "unat (of_nat (k + j) :: u64) = k + j" if "j < 82" for j
  proof -
    have "unat (of_nat (k + j) :: u64) = k + j" by (rule unat_small) (use assms(2) that in simp)
    moreover have "unat (of_nat (k - 2) :: u64) = k - 2" by (rule unat_small) (use assms(2) in simp)
    ultimately show "(of_nat (k + j) :: u64) \<noteq> of_nat (k - 2)" "unat (of_nat (k + j) :: u64) = k + j"
      using assms(3) by (auto dest: arg_cong [where f = unat])
  qed
  then show ?thesis
    unfolding load_words_page [OF assms(1,2)] store_word_page [OF assms(1) k(1)] store_words_page [OF assms(1) k(2)]
    using assms(4) by (intro nth_equalityI) (auto simp del: of_nat_add of_nat_diff)
qed

definition HandleSignal_info :: "int \<Rightarrow> cpu_context \<Rightarrow> PCB \<Rightarrow> SchedulerFrame \<Rightarrow> StackInfo" where
  "HandleSignal_info tid cpu p tf =
     \<lparr>si_fx = c_FPU cpu, si_tf = tf, si_GSBase = c_GSBase cpu, si_FSBase = c_FSBase cpu,
      si_ShadowGSBase = c_ShadowGSBase cpu, si_SignalMask = thread_mask p tid,
      si_Compatibility = Compatibility_code (p_Compatibility p)\<rparr>"

lemma thread_mask_Signals [simp]: "thread_mask (p\<lparr>p_Signals := sg\<rparr>) tid = thread_mask p tid"
  by (simp add: thread_mask_def PCB_GetThread_def)

lemma HandleSignal_True:
  assumes "Signal_HandleSignal freed tid cpu p tf s = Inr (True, p', tf', s')"
    and "PageTable_Get (p_PageTable p) s (f_rsp tf) = Inr pa"
  obtains h msk sg where
    "f_rsp tf' = (f_rsp tf AND NOT 0xF) - 128 - StackInfo_size - 8 - 8"
    "s' = s\<lparr>Mem := store_word ((pa AND NOT 0xF) - 128 - StackInfo_size - 8 - 8) h
       (store_words ((pa AND NOT 0xF) - 128 - StackInfo_size) (StackInfo_words (HandleSignal_info tid cpu p tf)) (Mem s))\<rparr>"
    "p' = upd_thread tid (\<lambda>t. t\<lparr>t_Mask := msk\<rparr>) (p\<lparr>p_Signals := sg\<rparr>)"
proof -
  obtain sigI sg where a: "Signal_GetAvailableSignal freed (thread_mask p tid) tid (p_Signals p) = Inr (sigI, sg)"
    using assms(1) by (auto simp: Signal_HandleSignal_def rbind_def split: if_splits sum.splits)
  show thesis
    using assms a that
    by (auto simp: Signal_HandleSignal_def HandleSignal_info_def rbind_def Let_def assert_res_def
        split: if_splits sum.splits)
qed

lemma page_sub: "m \<le> n \<Longrightarrow> F + of_nat n - of_nat m = F + of_nat (n - m)" for F :: u64
  by (simp add: of_nat_diff)

text \<open>Where the saved state lies, in a page with room for it.\<close>

lemma saved_place:
  assumes "P AND 0xFFF = (0 :: u64)" "off < 4096" "800 \<le> off" "k = (off - off mod 16 - 784) div 8"
  shows "((P + of_nat off) AND NOT 0xF) - 128 - StackInfo_size = P + of_nat (8 * k)"
    and "((P + of_nat off) AND NOT 0xF) - 128 - StackInfo_size - 8 - 8 = P + of_nat (8 * (k - 2))"
    and "2 \<le> k" "k + 82 \<le> 512" "16 dvd 8 * k"
proof -
  obtain j where j: "off - off mod 16 = 16 * j" by (metis dvd_def dvd_minus_mod)
  have jb: "50 \<le> j" "j < 256" using j assms(2,3) by linarith+
  have "16 * j - 784 = 8 * (2 * (j - 49))" using jb by linarith
  then have k: "8 * k = 16 * j - 784" unfolding assms(4) j by simp
  show "2 \<le> k" "k + 82 \<le> 512" using k jb by linarith+
  show "16 dvd 8 * k" unfolding k using jb by presburger
  have "(P + of_nat off) AND NOT 0xF = P + of_nat (16 * j)" using page_align [OF assms(1,2)] j by simp
  then have *: "((P + of_nat off) AND NOT 0xF) - of_nat m = P + of_nat (16 * j - m)" if "m \<le> 16 * j" for m
    using page_sub [OF that] by simp
  show "((P + of_nat off) AND NOT 0xF) - 128 - StackInfo_size = P + of_nat (8 * k)"
    using * [of 784] jb k by (simp add: StackInfo_size_def del: of_nat_diff)
  have "8 * (k - 2) = 16 * j - 800" using k by simp
  then show "((P + of_nat off) AND NOT 0xF) - 128 - StackInfo_size - 8 - 8 = P + of_nat (8 * (k - 2))"
    using * [of 800] jb by (simp add: StackInfo_size_def del: of_nat_diff)
qed

lemma page_split: "w = (w AND NOT 0xFFF) + of_nat (unat (w AND 0xFFF))" for w :: u64
  unfolding and_not_diff by simp

lemma page_base: "(w AND NOT 0xFFF) AND 0xFFF = (0 :: u64)"
  by (rule bit_word_eqI) (auto simp: bit_simps)

lemma page_offset_less: "unat (w AND 0xFFF) < 4096" for w :: u64
proof -
  have "w AND 0xFFF \<le> 0xFFF" by (rule word_and_le1)
  then show ?thesis by (simp add: word_le_nat_alt)
qed

text \<open>
  C23. Returning from a signal handler restores the thread. Let \<open>HandleSignal\<close> divert a thread whose stack
  pointer is at least 800 bytes into its page, and let the handler leave the saved state and the page
  tables alone. When \<open>RestoreHandleSignal\<close> then runs with the stack pointer the handler was started with, it
  puts back every general register, the flags and the instruction pointer, and gives back the stack
  pointer, the signal mask, the floating-point state and the bases (those of GS exchanged, since the
  system call that returns has exchanged them).
\<close>

theorem signal_frame_round_trip:
  assumes "Signal_HandleSignal freed tid cpu p tf s = Inr (True, p', tf', s')"
    and "PageTable_Get (p_PageTable p) s (f_rsp tf) = Inr pa" "pa AND 0xFFF = f_rsp tf AND 0xFFF"
    and "800 \<le> unat (f_rsp tf AND 0xFFF)" "length (c_FPU cpu) = 52"
    and "PageTable_Get (p_PageTable p) s' (f_rsp tf') = Inr ((pa AND NOT 0xFFF) + (f_rsp tf' AND 0xFFF))"
  shows "\<exists>p''. Signal_RestoreHandleSignal tid (f_rsp tf') p' sf cpu' s' =
      Inr (p'', restore_regs tf sf, f_rsp tf,
           cpu'\<lparr>c_FPU := c_FPU cpu, c_GSBase := c_ShadowGSBase cpu, c_FSBase := c_FSBase cpu, c_ShadowGSBase := c_GSBase cpu\<rparr>) \<and>
    (PCB_GetThread p tid \<noteq> None \<longrightarrow> thread_mask p'' tid = thread_mask p tid)"
proof -
  define F where "F = pa AND NOT 0xFFF"
  define V where "V = f_rsp tf AND NOT 0xFFF"
  define off where "off = unat (f_rsp tf AND 0xFFF)"
  define k where "k = (off - off mod 16 - 784) div 8"
  have FV: "F AND 0xFFF = 0" "V AND 0xFFF = 0" unfolding F_def V_def by (rule page_base)+
  have off: "off < 4096" "800 \<le> off" unfolding off_def by (rule page_offset_less) (rule assms(4))
  have pa: "pa = F + of_nat off" using page_split [of pa] assms(3) by (simp add: F_def off_def)
  have rsp: "f_rsp tf = V + of_nat off" using page_split [of "f_rsp tf"] by (simp add: V_def off_def)
  note pl = saved_place [OF FV(1) off k_def] and vl = saved_place [OF FV(2) off k_def]
  obtain h msk sg where H: "f_rsp tf' = V + of_nat (8 * (k - 2))"
    "s' = s\<lparr>Mem := store_word (F + of_nat (8 * (k - 2))) h
       (store_words (F + of_nat (8 * k)) (StackInfo_words (HandleSignal_info tid cpu p tf)) (Mem s))\<rparr>"
    "p' = upd_thread tid (\<lambda>t. t\<lparr>t_Mask := msk\<rparr>) (p\<lparr>p_Signals := sg\<rparr>)"
    using HandleSignal_True [OF assms(1,2)] unfolding pa rsp unfolding pl(2) vl(2) unfolding pl(1) by blast
  have low: "f_rsp tf' AND 0xFFF = of_nat (8 * (k - 2))"
    unfolding H(1) by (rule page_low [OF FV(2)]) (use pl(4) in simp)
  have len: "length (StackInfo_words (HandleSignal_info tid cpu p tf)) = 82"
    using assms(5) by (simp add: StackInfo_words_length HandleSignal_info_def)
  have "load_words 82 (F + of_nat (8 * k)) (Mem s') = StackInfo_words (HandleSignal_info tid cpu p tf)"
    unfolding H(2) using stack_round_trip [OF FV(1) pl(4,3) len] by simp
  then have si: "StackInfo_of (load_words 82 (F + of_nat (8 * k)) (Mem s')) = HandleSignal_info tid cpu p tf"
    using assms(5) by (simp add: StackInfo_round_trip HandleSignal_info_def)
  have g: "PageTable_Get (p_PageTable p') s' (f_rsp tf') = Inr (F + of_nat (8 * (k - 2)))"
    using assms(6) low H(3) by (simp add: F_def upd_thread_def)
  have "8 * k = 8 * (k - 2) + 8 + 8" using pl(3) by simp
  then have sp: "F + of_nat (8 * (k - 2)) + 8 + 8 = F + of_nat (8 * k)" by simp
  have k: "8 * k < 4096" "8 * k \<noteq> 0" using pl(3,4) by auto
  have al: "(F + of_nat (8 * k)) AND 0xF = 0" using page_low4 [OF FV(1) k(1)] pl(5) by (simp add: mod_0_imp_dvd)
  have nz: "F + of_nat (8 * k) \<noteq> 0"
  proof
    assume "F + of_nat (8 * k) = 0"
    then have "(of_nat (8 * k) :: u64) = 0" using page_low [OF FV(1) k(1)] by simp
    then have "unat (of_nat (8 * k) :: u64) = 0" by simp
    then show False using unat_small [of "8 * k"] k by simp
  qed
  have mask: "thread_mask (upd_thread tid (\<lambda>t. t\<lparr>t_Mask := thread_mask p tid\<rparr>) p') tid = thread_mask p tid"
    if "PCB_GetThread p tid \<noteq> None"
    using that unfolding H(3) thread_mask_def
    by (auto simp: GetThread_upd option.map_comp) (auto simp: PCB_GetThread_def)
  show ?thesis
    unfolding Signal_RestoreHandleSignal_def g rbind_def [of "Inr _"] Let_def sum.case sp si
    using al nz mask by (simp add: assert_res_def rbind_def HandleSignal_info_def)
qed

text \<open>The example: a page of stack, and a thread with two signals pending.\<close>

definition stack_example :: "machine res" where
  "stack_example = Virtual_Map 0x1000 tiny 0x400000 0x9000 PTFlag_RW FourKiB"

definition tf_example :: SchedulerFrame where
  "tf_example = frame_zero\<lparr>f_cs := 0x23, f_rsp := 0x400F00, f_rip := 0x1234, f_rbx := 7\<rparr>"

definition catching_proc :: PCB where
  "catching_proc = proc_example 1 (queue_example\<lparr>TrampAddr := 0x5000\<rparr>)"

lemma stack_example_get:
  "\<exists>s. stack_example = Inr s \<and> PageTable_Get 0x1000 s 0x400F00 = Inr 0x9F00 \<and>
     (\<forall>g. PageTable_Get 0x1000 (s\<lparr>Mem := (Mem s)(0x9000 := g)\<rparr>) 0x400BE0 = Inr 0x9BE0)"
  by (simp add: stack_example_def paging_eval Virtual_GetPhysical_def PageTable_Get_def PTFlag_RW_def)

lemma catching_proc_available:
  "Signal_GetAvailableSignal (\<lambda>i. i) 0 11 (p_Signals catching_proc) =
     Inr (\<lparr>si_sig = SIGUSR2, si_val = 1, si_tid = - 1\<rparr>,
          queue_example\<lparr>TrampAddr := 0x5000, Queue := [\<lparr>si_sig = SIGUSR1, si_val = 2, si_tid = 11\<rparr>]\<rparr>)"
  by (simp add: catching_proc_def proc_example_def queue_example_def Signal_GetAvailableSignal_def rbind_def
      mask_test_def sa_at_def assert_res_def Signal_new_def catching_def)

lemma handle_example:
  assumes "PageTable_Get 0x1000 s 0x400F00 = Inr 0x9F00"
  shows "\<exists>p' tf' g. Signal_HandleSignal (\<lambda>i. i) 11 context_zero catching_proc tf_example s =
      Inr (True, p', tf', s\<lparr>Mem := (Mem s)(0x9000 := g)\<rparr>) \<and> f_rsp tf' = 0x400BE0"
proof -
  have tm: "thread_mask catching_proc 11 = 0"
    by (simp add: thread_mask_def PCB_GetThread_def catching_proc_def proc_example_def thread_example_def)
  let ?si = "HandleSignal_info 11 context_zero catching_proc tf_example"
  let ?m = "store_word 0x9BE0 0x1000 (store_words 0x9BF0 (StackInfo_words ?si) (Mem s))"
  have len: "length (StackInfo_words ?si) = 82"
    by (rule StackInfo_words_length) (simp add: HandleSignal_info_def context_zero_def)
  have "\<exists>g. ?m = (Mem s)(0x9000 := g)"
    using store_words_page [where F = "0x9000" and k = 382 and vs = "StackInfo_words ?si" and m = "Mem s"]
      store_word_page [where F = "0x9000" and k = 380] len
    by auto
  then obtain g where g: "?m = (Mem s)(0x9000 := g)" by blast
  have "\<exists>p' tf'. Signal_HandleSignal (\<lambda>i. i) 11 context_zero catching_proc tf_example s =
      Inr (True, p', tf', s\<lparr>Mem := ?m\<rparr>) \<and> f_rsp tf' = 0x400BE0"
    using assms catching_proc_available
    by (simp add: Signal_HandleSignal_def tm rbind_def Let_def assert_res_def tf_example_def StackInfo_size_def
        HandleSignal_info_def catching_proc_def proc_example_def queue_example_def sa_at_def Signal_new_def
        catching_def thread_mask_def PCB_GetThread_def upd_thread_def thread_example_def)
  with g show ?thesis by metis
qed

theorem signal_frame_round_trip_witness:
  "\<forall>sf. \<exists>s p' tf' s' p''. stack_example = Inr s \<and>
     Signal_HandleSignal (\<lambda>i. i) 11 context_zero catching_proc tf_example s = Inr (True, p', tf', s') \<and>
     Signal_RestoreHandleSignal 11 (f_rsp tf') p' sf context_zero s' =
       Inr (p'', restore_regs tf_example sf, 0x400F00, context_zero)"
proof
  fix sf
  obtain s where s: "stack_example = Inr s" "PageTable_Get 0x1000 s 0x400F00 = Inr 0x9F00"
    "\<And>g. PageTable_Get 0x1000 (s\<lparr>Mem := (Mem s)(0x9000 := g)\<rparr>) 0x400BE0 = Inr 0x9BE0"
    using stack_example_get by blast
  obtain p' tf' g where h: "Signal_HandleSignal (\<lambda>i. i) 11 context_zero catching_proc tf_example s =
      Inr (True, p', tf', s\<lparr>Mem := (Mem s)(0x9000 := g)\<rparr>)" "f_rsp tf' = 0x400BE0"
    using handle_example [OF s(2)] by blast
  have pt: "p_PageTable catching_proc = 0x1000" by (simp add: catching_proc_def proc_example_def)
  have "\<exists>p''. Signal_RestoreHandleSignal 11 (f_rsp tf') p' sf context_zero (s\<lparr>Mem := (Mem s)(0x9000 := g)\<rparr>) =
       Inr (p'', restore_regs tf_example sf, 0x400F00, context_zero)"
    using signal_frame_round_trip [OF h(1), where pa = "0x9F00" and sf = sf and cpu' = context_zero] s(2) s(3) [of g] h(2)
    by (auto simp: pt tf_example_def context_zero_def)
  with s(1) h(1) show "\<exists>s p' tf' s' p''. stack_example = Inr s \<and>
     Signal_HandleSignal (\<lambda>i. i) 11 context_zero catching_proc tf_example s = Inr (True, p', tf', s') \<and>
     Signal_RestoreHandleSignal 11 (f_rsp tf') p' sf context_zero s' =
       Inr (p'', restore_regs tf_example sf, 0x400F00, context_zero)" by blast
qed

end
