(* ===== verification/Scheduler.thy ===== *)
theory Scheduler
  imports SignalFrame
begin

section \<open>The scheduler\<close>

text \<open>
  A model of \<open>Tasking::Scheduler::Custom\<close> (src/Kernel/tasking/scheduler/custom.cpp) on one CPU, with the
  destruction of processes and threads it causes (src/Kernel/tasking/process.cpp and thread.cpp). \<open>procs\<close>
  are the processes that exist, \<open>ProcessList\<close> the vector of pointers the scheduler goes through. A pointer to
  a process that was deleted is an identifier without a process; using it is a fault.
  \<^item> The range-based loops of the code read the slots of a vector up to the end it had at the start. When
    an element is erased meanwhile, the ones behind it move down and the last slots keep what they held:
    \<open>reslot\<close> gives the slots after the erasure.
  \<^item> \<open>sched_env\<close> has what the code reads from the clock at each place, the address of the kernel's page table
    and, for \<open>GetAvailableSignal\<close>, the reading of a deleted list node.
\<close>

record scheduler =
  procs :: "PCB list"
  ProcessList :: "int list"
  IdleProcess :: "int option"
  IdleThread :: "int option"
  CurrentProcess :: "int option"
  CurrentThread :: "int option"
  cpu_ID :: u8
  cpu_context :: cpu_context
  hw :: machine
  SchedulerTicks :: u64
  LastTaskTicks :: u64
  LastCore :: u8
  StopScheduler :: bool
  SchedulerUpdateTrapFrame :: bool
  TimeSlice :: int

record sched_env =
  e_start :: u64
  e_wake :: "int \<Rightarrow> u64"
  e_usage_process :: u64
  e_usage_thread :: u64
  e_update_process :: u64
  e_update_thread :: u64
  e_end :: u64
  e_freed :: "SignalInfo \<Rightarrow> SignalInfo"
  e_KernelPageTable :: u64

definition the_ptr :: "'a option \<Rightarrow> 'a res" where
  "the_ptr x = (case x of None \<Rightarrow> Inl NullPointer | Some a \<Rightarrow> Inr a)"

definition deref_proc :: "scheduler \<Rightarrow> int \<Rightarrow> PCB res" where
  "deref_proc s pid = (case get_proc pid (procs s) of None \<Rightarrow> Inl DanglingPointer | Some p \<Rightarrow> Inr p)"

definition deref_thread :: "scheduler \<Rightarrow> int \<Rightarrow> int \<Rightarrow> TCB res" where
  "deref_thread s pid tid =
     rbind (deref_proc s pid) (\<lambda>p.
     case PCB_GetThread p tid of None \<Rightarrow> Inl DanglingPointer | Some t \<Rightarrow> Inr t)"

definition on_proc :: "int \<Rightarrow> (PCB \<Rightarrow> PCB) \<Rightarrow> scheduler \<Rightarrow> scheduler" where
  "on_proc pid f s = s\<lparr>procs := upd_proc pid f (procs s)\<rparr>"

definition on_thread :: "int \<Rightarrow> int \<Rightarrow> (TCB \<Rightarrow> TCB) \<Rightarrow> scheduler \<Rightarrow> scheduler" where
  "on_thread pid tid f = on_proc pid (upd_thread tid f)"

subsection \<open>The process list\<close>

definition reslot :: "'a list \<Rightarrow> 'a list \<Rightarrow> 'a list" where
  "reslot live slots = live @ drop (length live) slots"

definition Custom_PushProcess :: "int \<Rightarrow> scheduler \<Rightarrow> scheduler" where
  "Custom_PushProcess pid s = s\<lparr>ProcessList := ProcessList s @ [pid]\<rparr>"

definition Custom_PopProcess :: "int \<Rightarrow> scheduler \<Rightarrow> scheduler" where
  "Custom_PopProcess pid s = s\<lparr>ProcessList := remove1 pid (ProcessList s)\<rparr>"

definition Custom_GetIdle :: "scheduler \<Rightarrow> int option \<times> int option" where
  "Custom_GetIdle s = (IdleProcess s, IdleThread s)"

fun Custom_GetProcessByID :: "int \<Rightarrow> scheduler \<Rightarrow> int list \<Rightarrow> PCB option res" where
  "Custom_GetProcessByID ID s [] = Inr None"
| "Custom_GetProcessByID ID s (pid # pids) =
     rbind (deref_proc s pid) (\<lambda>p. if p_ID p = ID then Inr (Some p) else Custom_GetProcessByID ID s pids)"

definition Custom_GetThreadByID :: "int \<Rightarrow> PCB option \<Rightarrow> TCB option" where
  "Custom_GetThreadByID ID Parent = (case Parent of None \<Rightarrow> None | Some p \<Rightarrow> find (\<lambda>t. t_ID t = ID) (p_Threads p))"

subsection \<open>Destruction\<close>

text \<open>
  \<open>~TCB\<close>: the thread leaves the vector of its process. \<open>~PCB\<close>: the process leaves the list of the scheduler,
  destroys its children and its threads and leaves the vector of its parent. The memory, descriptors
  and names it gives back are not part of the state.
\<close>

definition erase_thread :: "int \<Rightarrow> TCB list \<Rightarrow> TCB list" where
  "erase_thread tid ts = takeWhile (\<lambda>t. t_ID t \<noteq> tid) ts @ tl (dropWhile (\<lambda>t. t_ID t \<noteq> tid) ts)"

definition delete_TCB :: "int \<Rightarrow> int \<Rightarrow> scheduler \<Rightarrow> scheduler res" where
  "delete_TCB pid tid s =
     rbind (deref_thread s pid tid) (\<lambda>_.
     Inr (on_proc pid (\<lambda>p. p\<lparr>p_Threads := erase_thread tid (p_Threads p)\<rparr>) s))"

definition tids :: "int \<Rightarrow> scheduler \<Rightarrow> int list" where
  "tids pid s = (case get_proc pid (procs s) of None \<Rightarrow> [] | Some p \<Rightarrow> map t_ID (p_Threads p))"

definition children :: "int \<Rightarrow> scheduler \<Rightarrow> int list" where
  "children pid s = (case get_proc pid (procs s) of None \<Rightarrow> [] | Some p \<Rightarrow> p_Children p)"

definition delete_threads :: "int \<Rightarrow> scheduler \<Rightarrow> scheduler res" where
  "delete_threads pid s =
     rbind (each_res (\<lambda>i (slots, s).
         rbind (delete_TCB pid (slots ! i) s) (\<lambda>s. Inr (reslot (tids pid s) slots, s)))
       [0..<length (tids pid s)] (tids pid s, s)) (\<lambda>(_, s). Inr s)"

definition leave_parent :: "int \<Rightarrow> int option \<Rightarrow> scheduler \<Rightarrow> scheduler res" where
  "leave_parent pid parent s =
     (case parent of
        None \<Rightarrow> Inr s
      | Some parent \<Rightarrow>
          rbind (deref_proc s parent) (\<lambda>q.
          if pid \<in> set (p_Children q)
          then Inr (on_proc parent (\<lambda>q. q\<lparr>p_Children := remove1 pid (p_Children q)\<rparr>) s)
          else Inl OutOfBounds))"

fun delete_PCB_fuel :: "nat \<Rightarrow> int \<Rightarrow> scheduler \<Rightarrow> scheduler res" where
  "delete_PCB_fuel 0 pid s = Inl Diverges"
| "delete_PCB_fuel (Suc n) pid s =
     rbind (deref_proc s pid) (\<lambda>p.
     let s = Custom_PopProcess pid s in
     rbind (each_res (\<lambda>i (slots, s).
         rbind (delete_PCB_fuel n (slots ! i) s) (\<lambda>s. Inr (reslot (children pid s) slots, s)))
       [0..<length (children pid s)] (children pid s, s)) (\<lambda>(_, s).
     rbind (delete_threads pid s) (\<lambda>s.
     rbind (leave_parent pid (p_Parent p) s) (\<lambda>s.
     Inr (s\<lparr>procs := filter (\<lambda>q. p_ID q \<noteq> pid) (procs s)\<rparr>)))))"

text \<open>Children are nested at most as deep as there are processes, unless a process is its own descendant.\<close>

definition delete_PCB :: "int \<Rightarrow> scheduler \<Rightarrow> scheduler res" where
  "delete_PCB pid s = delete_PCB_fuel (Suc (length (procs s))) pid s"

definition Custom_RemoveThread :: "int \<Rightarrow> int \<Rightarrow> scheduler \<Rightarrow> scheduler res" where
  "Custom_RemoveThread pid tid s = delete_TCB pid tid s"

definition terminated_threads :: "int \<Rightarrow> scheduler \<Rightarrow> scheduler res" where
  "terminated_threads pid s =
     rbind (each_res (\<lambda>i (slots, s).
         rbind (deref_thread s pid (slots ! i)) (\<lambda>t.
         if t_State t = Terminated
         then rbind (Custom_RemoveThread pid (t_ID t) s) (\<lambda>s. Inr (reslot (tids pid s) slots, s))
         else Inr (slots, s)))
       [0..<length (tids pid s)] (tids pid s, s)) (\<lambda>(_, s). Inr s)"

definition Custom_RemoveProcess :: "int \<Rightarrow> scheduler \<Rightarrow> scheduler res" where
  "Custom_RemoveProcess pid s =
     rbind (deref_proc s pid) (\<lambda>p.
     if p_State p = Terminated then delete_PCB pid s else terminated_threads pid s)"

definition Custom_CleanupTerminated :: "scheduler \<Rightarrow> scheduler res" where
  "Custom_CleanupTerminated s =
     rbind (each_res (\<lambda>i (slots, s).
         rbind (deref_proc s (slots ! i)) (\<lambda>p.
         if p_State p = Terminated
         then rbind (delete_PCB (slots ! i) s) (\<lambda>s. Inr (reslot (ProcessList s) slots, s))
         else rbind (terminated_threads (slots ! i) s) (\<lambda>s. Inr (slots, s))))
       [0..<length (ProcessList s)] (ProcessList s, s)) (\<lambda>(_, s). Inr s)"

subsection \<open>Choosing a thread\<close>

definition runnable :: "u8 \<Rightarrow> TCB \<Rightarrow> bool" where
  "runnable cpu t \<longleftrightarrow> t_State t = Ready \<and> Affinity (t_Info t) cpu"

definition set_current :: "int \<Rightarrow> int \<Rightarrow> scheduler \<Rightarrow> scheduler" where
  "set_current pid tid s = s\<lparr>CurrentProcess := Some pid, CurrentThread := Some tid\<rparr>"

fun FindNewProcess_loop :: "nat list \<Rightarrow> int list \<Rightarrow> scheduler \<Rightarrow> (bool \<times> scheduler) res" where
  "FindNewProcess_loop [] slots s = Inr (False, s)"
| "FindNewProcess_loop (i # is) slots s =
     rbind (deref_proc s (slots ! i)) (\<lambda>p.
     if p_State p \<noteq> Ready then
       rbind (Custom_RemoveProcess (slots ! i) s) (\<lambda>s. FindNewProcess_loop is (reslot (ProcessList s) slots) s)
     else
       case find (runnable (cpu_ID s)) (p_Threads p) of
         Some t \<Rightarrow> Inr (True, set_current (p_ID p) (t_ID t) s)
       | None \<Rightarrow> FindNewProcess_loop is slots s)"

definition Custom_FindNewProcess :: "scheduler \<Rightarrow> (bool \<times> scheduler) res" where
  "Custom_FindNewProcess s = FindNewProcess_loop [0..<length (ProcessList s)] (ProcessList s) s"

fun next_thread :: "u8 \<Rightarrow> int \<Rightarrow> TCB list \<Rightarrow> TCB option" where
  "next_thread cpu cur [] = None"
| "next_thread cpu cur (t # ts) = (if t_ID t = cur then find (runnable cpu) ts else next_thread cpu cur ts)"

definition Custom_GetNextAvailableThread :: "scheduler \<Rightarrow> (bool \<times> scheduler) res" where
  "Custom_GetNextAvailableThread s =
     rbind (the_ptr (CurrentProcess s)) (\<lambda>pid.
     rbind (the_ptr (CurrentThread s)) (\<lambda>tid.
     rbind (deref_proc s pid) (\<lambda>p.
     case next_thread (cpu_ID s) tid (p_Threads p) of
       Some t \<Rightarrow> Inr (True, s\<lparr>CurrentThread := Some (t_ID t)\<rparr>)
     | None \<Rightarrow> Inr (False, s))))"

fun GetNextAvailableProcess_loop :: "bool \<Rightarrow> int list \<Rightarrow> scheduler \<Rightarrow> (bool \<times> scheduler) res" where
  "GetNextAvailableProcess_loop Skip [] s = Inr (False, s)"
| "GetNextAvailableProcess_loop Skip (pid # pids) s =
     (if Some pid = CurrentProcess s then GetNextAvailableProcess_loop False pids s
      else if Skip then GetNextAvailableProcess_loop Skip pids s
      else
        rbind (deref_proc s pid) (\<lambda>p.
        if p_State p \<noteq> Ready then GetNextAvailableProcess_loop Skip pids s
        else
          case find (runnable (cpu_ID s)) (p_Threads p) of
            Some t \<Rightarrow> Inr (True, set_current pid (t_ID t) s)
          | None \<Rightarrow> GetNextAvailableProcess_loop Skip pids s))"

definition Custom_GetNextAvailableProcess :: "scheduler \<Rightarrow> (bool \<times> scheduler) res" where
  "Custom_GetNextAvailableProcess s = GetNextAvailableProcess_loop True (ProcessList s) s"

fun SearchProcessThread_loop :: "int list \<Rightarrow> scheduler \<Rightarrow> (bool \<times> scheduler) res" where
  "SearchProcessThread_loop [] s = Inr (False, s)"
| "SearchProcessThread_loop (pid # pids) s =
     rbind (deref_proc s pid) (\<lambda>p.
     if p_State p \<noteq> Ready then SearchProcessThread_loop pids s
     else
       case find (runnable (cpu_ID s)) (p_Threads p) of
         Some t \<Rightarrow> Inr (True, set_current pid (t_ID t) s)
       | None \<Rightarrow> SearchProcessThread_loop pids s)"

definition Custom_SchedulerSearchProcessThread :: "scheduler \<Rightarrow> (bool \<times> scheduler) res" where
  "Custom_SchedulerSearchProcessThread s = SearchProcessThread_loop (ProcessList s) s"

subsection \<open>States and times\<close>

definition AllThreadsSleeping :: "TCB list \<Rightarrow> bool" where
  "AllThreadsSleeping ts \<longleftrightarrow> list_all (\<lambda>t. t_State t = Terminated \<or> t_State t = Sleeping) ts"

definition update_state :: "PCB \<Rightarrow> PCB" where
  "update_state p =
     (if p_State p = Terminated then p
      else if length (p_Threads p) = 1 then p\<lparr>p_State := t_State (hd (p_Threads p))\<rparr>
      else if AllThreadsSleeping (p_Threads p) then p\<lparr>p_State := Sleeping\<rparr>
      else if p_State p = Sleeping then p\<lparr>p_State := Ready\<rparr>
      else p)"

definition Custom_UpdateProcessState :: "scheduler \<Rightarrow> scheduler res" where
  "Custom_UpdateProcessState s =
     each_res (\<lambda>pid s. rbind (deref_proc s pid) (\<lambda>_. Inr (on_proc pid update_state s))) (ProcessList s) s"

definition wakes :: "(int \<Rightarrow> u64) \<Rightarrow> TCB \<Rightarrow> bool" where
  "wakes now t \<longleftrightarrow> t_State t = Sleeping \<and> SleepUntil (t_Info t) < now (t_ID t)"

definition wake_up :: "(int \<Rightarrow> u64) \<Rightarrow> PCB \<Rightarrow> PCB" where
  "wake_up now p =
     (let pState = p_State p in
      if pState \<notin> {Ready, Sleeping, Blocked} then p
      else p\<lparr>p_State := (if pState = Sleeping \<and> list_ex (wakes now) (p_Threads p) then Ready else pState),
             p_Threads := map (\<lambda>t. if wakes now t
               then t\<lparr>t_State := Ready, t_Info := (t_Info t)\<lparr>SleepUntil := 0\<rparr>\<rparr> else t) (p_Threads p)\<rparr>)"

definition Custom_WakeUpThreads :: "(int \<Rightarrow> u64) \<Rightarrow> scheduler \<Rightarrow> scheduler res" where
  "Custom_WakeUpThreads now s =
     each_res (\<lambda>pid s. rbind (deref_proc s pid) (\<lambda>_. Inr (on_proc pid (wake_up now) s))) (ProcessList s) s"

definition Custom_UpdateUsage :: "u64 \<Rightarrow> TaskExecutionMode \<Rightarrow> TaskInfo \<Rightarrow> TaskInfo" where
  "Custom_UpdateUsage CurrentTime Mode Info =
     (let TimePassed = LastUpdateTime Info - CurrentTime;
          Info = Info\<lparr>LastUpdateTime := CurrentTime\<rparr> in
      if Mode = User then Info\<lparr>UserTime := UserTime Info + TimePassed\<rparr>
      else Info\<lparr>KernelTime := KernelTime Info + TimePassed\<rparr>)"

definition Custom_OneShot :: "int \<Rightarrow> scheduler \<Rightarrow> scheduler" where
  "Custom_OneShot n s = s\<lparr>TimeSlice := (if n = 0 then 5 else n)\<rparr>"

subsection \<open>A scheduler interrupt\<close>

text \<open>
  The part of \<open>Schedule\<close> behind the label \<open>Success\<close>, in three steps: accounting, states and page table of the
  new thread; its registers and the delivery of a signal; the times of the update and the timer. Setting
  the kernel stack of the task state segment is not part of the state.
\<close>

definition switch_in :: "sched_env \<Rightarrow> bool \<Rightarrow> int \<Rightarrow> int \<Rightarrow> u64 \<Rightarrow> scheduler \<Rightarrow> scheduler" where
  "switch_in e ProcessNotChanged pid tid table s =
     (let s = (if ProcessNotChanged then s
               else on_proc pid (\<lambda>p. p\<lparr>p_Info := Custom_UpdateUsage (e_usage_process e) (p_Mode p) (p_Info p)\<rparr>) s);
          s = on_thread pid tid (\<lambda>t. t\<lparr>t_Info := Custom_UpdateUsage (e_usage_thread e) (t_Mode t) (t_Info t)\<rparr>) s;
          s = on_proc pid (\<lambda>p. p\<lparr>p_State := Running\<rparr>) s;
          s = on_thread pid tid (\<lambda>t. t\<lparr>t_State := Running\<rparr>) s in
      on_thread pid tid (\<lambda>t. t\<lparr>t_Registers := (t_Registers t)\<lparr>f_ppt :=
        (if f_cs (t_Registers t) \<noteq> GDT_KERNEL_CODE then table else e_KernelPageTable e)\<rparr>\<rparr>) s)"

definition switch_out :: "sched_env \<Rightarrow> bool \<Rightarrow> int \<Rightarrow> int \<Rightarrow> int \<Rightarrow> scheduler \<Rightarrow> scheduler" where
  "switch_out e ProcessNotChanged pid tid prio s =
     (let s = (if ProcessNotChanged then s
               else on_proc pid (\<lambda>p. p\<lparr>p_Info := (p_Info p)\<lparr>LastUpdateTime := e_update_process e\<rparr>\<rparr>) s);
          s = on_thread pid tid (\<lambda>t. t\<lparr>t_Info := (t_Info t)\<lparr>LastUpdateTime := e_update_thread e\<rparr>\<rparr>) s;
          s = Custom_OneShot prio s in
      s\<lparr>SchedulerTicks := e_end e - e_start e\<rparr>)"

definition Schedule_success ::
    "sched_env \<Rightarrow> bool \<Rightarrow> scheduler \<Rightarrow> (SchedulerFrame \<times> scheduler) res" where
  "Schedule_success e ProcessNotChanged s =
     rbind (the_ptr (CurrentProcess s)) (\<lambda>pid.
     rbind (the_ptr (CurrentThread s)) (\<lambda>tid.
     rbind (deref_proc s pid) (\<lambda>p.
     let s = switch_in e ProcessNotChanged pid tid (p_PageTable p) s in
     rbind (deref_thread s pid tid) (\<lambda>t.
     rbind (deref_proc s pid) (\<lambda>p.
     let s = s\<lparr>cpu_context := t_Context t\<rparr> in
     rbind (Signal_HandleSignal (e_freed e) tid (cpu_context s) p (t_Registers t) (hw s)) (\<lambda>(_, p, Frame, m).
     Inr (Frame, switch_out e ProcessNotChanged pid tid (Priority (t_Info t)) (on_proc pid (\<lambda>_. p) (s\<lparr>hw := m\<rparr>)))))))))"

definition Schedule_idle :: "sched_env \<Rightarrow> scheduler \<Rightarrow> (SchedulerFrame \<times> scheduler) res" where
  "Schedule_idle e s =
     Schedule_success e True (s\<lparr>CurrentProcess := IdleProcess s, CurrentThread := IdleThread s\<rparr>)"

text \<open>The outgoing thread: its registers are saved, and a running state becomes ready.\<close>

definition Schedule_save :: "SchedulerFrame \<Rightarrow> int \<Rightarrow> int \<Rightarrow> scheduler \<Rightarrow> scheduler res" where
  "Schedule_save Frame pid tid s =
     rbind (deref_thread s pid tid) (\<lambda>_.
     let s = on_thread pid tid (\<lambda>t. t\<lparr>t_Registers := Frame, t_Context := cpu_context s\<rparr>) s;
         s = on_proc pid (\<lambda>p. if p_State p = Running then p\<lparr>p_State := Ready\<rparr> else p) s in
     Inr (on_thread pid tid (\<lambda>t. if t_State t = Running then t\<lparr>t_State := Ready\<rparr> else t) s))"

text \<open>The three searches in the order of the code.\<close>

definition Schedule_choose :: "sched_env \<Rightarrow> scheduler \<Rightarrow> (SchedulerFrame \<times> scheduler) res" where
  "Schedule_choose e s =
     rbind (Custom_GetNextAvailableThread s) (\<lambda>(found, s).
     if found then Schedule_success e True s else
     rbind (Custom_GetNextAvailableProcess s) (\<lambda>(found, s).
     if found then Schedule_success e False s else
     rbind (Custom_SchedulerSearchProcessThread s) (\<lambda>(found, s).
     if found then Schedule_success e False s else Schedule_idle e s)))"

text \<open>What is done before the choice.\<close>

definition Schedule_prepare :: "sched_env \<Rightarrow> SchedulerFrame \<Rightarrow> int \<Rightarrow> int \<Rightarrow> scheduler \<Rightarrow> scheduler res" where
  "Schedule_prepare e Frame pid tid s =
     rbind (Schedule_save Frame pid tid s) (\<lambda>s.
     rbind (Custom_CleanupTerminated s) (\<lambda>s.
     rbind (Custom_UpdateProcessState s) (\<lambda>s.
     Custom_WakeUpThreads (e_wake e) s)))"

definition Custom_Schedule :: "sched_env \<Rightarrow> SchedulerFrame \<Rightarrow> scheduler \<Rightarrow> (SchedulerFrame \<times> scheduler) res" where
  "Custom_Schedule e Frame s =
     (if StopScheduler s then Inr (Frame, s) else
      let s = s\<lparr>LastTaskTicks := e_start e - SchedulerTicks s, LastCore := cpu_ID s\<rparr> in
      case (CurrentProcess s, CurrentThread s) of
        (Some pid, Some tid) \<Rightarrow>
          rbind (Schedule_prepare e Frame pid tid s) (\<lambda>s.
          if SchedulerUpdateTrapFrame s then
            let s = on_thread pid tid (\<lambda>t. t\<lparr>t_State := Running\<rparr>)
                      (on_proc pid (\<lambda>p. p\<lparr>p_State := Running\<rparr>) (s\<lparr>SchedulerUpdateTrapFrame := False\<rparr>)) in
            rbind (deref_thread s pid tid) (\<lambda>t.
            Inr (t_Registers t, s\<lparr>SchedulerTicks := e_end e - e_start e\<rparr>))
          else Schedule_choose e s)
      | _ \<Rightarrow>
          rbind (Custom_FindNewProcess s) (\<lambda>(found, s).
          if found then Schedule_success e True s else Schedule_idle e s))"

definition Custom_OnInterruptReceived ::
    "sched_env \<Rightarrow> SchedulerFrame \<Rightarrow> scheduler \<Rightarrow> (int \<times> SchedulerFrame \<times> scheduler) res" where
  "Custom_OnInterruptReceived e Frame s =
     rbind (Custom_Schedule e Frame s) (\<lambda>(Frame, s). Inr (0, Frame, s))"

subsection \<open>Stopping processes\<close>

definition Task_KillThread :: "int \<Rightarrow> int \<Rightarrow> int \<Rightarrow> scheduler \<Rightarrow> scheduler" where
  "Task_KillThread pid tid Code = on_proc pid (\<lambda>p. TCB_SetExitCode tid Code (TCB_SetState tid Terminated p))"

definition Task_KillProcess :: "int \<Rightarrow> int \<Rightarrow> scheduler \<Rightarrow> scheduler" where
  "Task_KillProcess pid Code = on_proc pid (\<lambda>p. PCB_SetExitCode Code (PCB_SetState Terminated p))"

definition Task_SignalShutdown :: "u64 \<Rightarrow> (int \<Rightarrow> u64 res) \<Rightarrow> scheduler \<Rightarrow> scheduler res" where
  "Task_SignalShutdown cur tramp s =
     each_res (\<lambda>pid s.
       rbind (deref_proc s pid) (\<lambda>p.
       if p_State p = Terminated \<or> p_State p = Zombie \<or> Some pid = CurrentProcess s then Inr s
       else rbind (PCB_SendSignal cur tramp pid SIGTERM (procs s)) (\<lambda>(_, sys). Inr (s\<lparr>procs := sys\<rparr>))))
     (ProcessList s) s"

end
