(* ===== verification/SchedulerProofs.thy ===== *)
theory SchedulerProofs
  imports Scheduler
begin

section \<open>Properties of the scheduler\<close>

text \<open>
  The searches share one contract, the locale \<open>thread_search\<close>: what they find is a thread that is ready and
  may run on the CPU, and nothing else changes. On top of it: a thread is chosen whenever one can
  run, the registers of the thread that loses the CPU are kept (\<open>shrinks\<close>), sleeping threads wake up;
  and the faults of a scheduler that deletes what it still uses.
\<close>

subsection \<open>The contract of the searches\<close>

text \<open>A thread that is ready and may run on the CPU, in a process that exists.\<close>

definition thread_ok :: "scheduler \<Rightarrow> int \<Rightarrow> int \<Rightarrow> bool" where
  "thread_ok s pid tid \<longleftrightarrow>
     (\<exists>p t. get_proc pid (procs s) = Some p \<and> t \<in> set (p_Threads p) \<and> t_ID t = tid \<and> runnable (cpu_ID s) t)"

locale thread_search =
  fixes search :: "scheduler \<Rightarrow> (bool \<times> scheduler) res"
  assumes found: "search s = Inr (True, s') \<Longrightarrow>
      \<exists>pid tid. s' = s\<lparr>CurrentProcess := Some pid, CurrentThread := Some tid\<rparr> \<and> thread_ok s pid tid"
    and not_found: "search s = Inr (False, s') \<Longrightarrow> s' = s"
begin

lemma search_keeps:
  assumes "search s = Inr (b, s')"
  shows "procs s' = procs s" "ProcessList s' = ProcessList s" "cpu_ID s' = cpu_ID s"
    "IdleProcess s' = IdleProcess s" "IdleThread s' = IdleThread s" "hw s' = hw s" "cpu_context s' = cpu_context s"
  using found [of s s'] not_found [of s s'] assms by (cases b; auto)+

lemma search_chosen:
  assumes "search s = Inr (True, s')"
  obtains pid tid where "CurrentProcess s' = Some pid" "CurrentThread s' = Some tid" "thread_ok s pid tid"
  using found [OF assms] by auto

end

lemma find_runnable:
  assumes "find (runnable cpu) ts = Some t"
  shows "t \<in> set ts \<and> runnable cpu t"
  using assms by (auto simp: find_Some_iff)

lemma deref_proc_Inr: "deref_proc s pid = Inr p \<longleftrightarrow> get_proc pid (procs s) = Some p"
  by (auto simp: deref_proc_def split: option.splits)

lemma next_thread_ok: "next_thread cpu cur ts = Some t \<Longrightarrow> t \<in> set ts \<and> runnable cpu t"
  by (induction ts) (auto split: if_splits dest: find_runnable)

text \<open>One process of a search: the thread it takes, or nothing.\<close>

definition ready_thread :: "scheduler \<Rightarrow> PCB \<Rightarrow> TCB option" where
  "ready_thread s p = (if p_State p = Ready then find (runnable (cpu_ID s)) (p_Threads p) else None)"

lemma ready_thread_ok:
  "deref_proc s pid = Inr p \<Longrightarrow> ready_thread s p = Some t \<Longrightarrow> thread_ok s pid (t_ID t)"
  by (auto simp: ready_thread_def thread_ok_def deref_proc_Inr dest: find_runnable split: if_splits)

lemma next_process_Cons:
  "GetNextAvailableProcess_loop sk (pid # pids) s =
     (if Some pid = CurrentProcess s then GetNextAvailableProcess_loop False pids s
      else if sk then GetNextAvailableProcess_loop sk pids s
      else rbind (deref_proc s pid) (\<lambda>p.
        case ready_thread s p of
          Some t \<Rightarrow> Inr (True, set_current pid (t_ID t) s)
        | None \<Rightarrow> GetNextAvailableProcess_loop sk pids s))"
  by (auto simp: ready_thread_def rbind_def split: sum.splits option.splits)

lemma search_Cons:
  "SearchProcessThread_loop (pid # pids) s =
     rbind (deref_proc s pid) (\<lambda>p.
       case ready_thread s p of
         Some t \<Rightarrow> Inr (True, set_current pid (t_ID t) s)
       | None \<Rightarrow> SearchProcessThread_loop pids s)"
  by (auto simp: ready_thread_def rbind_def split: sum.splits option.splits)

lemma next_process_spec:
  "GetNextAvailableProcess_loop sk pids s = Inr (b, s') \<Longrightarrow>
     (if b then \<exists>pid tid. s' = set_current pid tid s \<and> thread_ok s pid tid else s' = s)"
proof (induction pids arbitrary: sk)
  case (Cons pid pids)
  from Cons.prems show ?case unfolding next_process_Cons
    by (cases "deref_proc s pid") (auto simp: rbind_def split: if_splits option.splits
        dest!: Cons.IH intro: ready_thread_ok)
qed auto

lemma search_spec:
  "SearchProcessThread_loop pids s = Inr (b, s') \<Longrightarrow>
     (if b then \<exists>pid tid. s' = set_current pid tid s \<and> thread_ok s pid tid
      else s' = s \<and> (\<forall>pid \<in> set pids. \<exists>p. get_proc pid (procs s) = Some p \<and> ready_thread s p = None))"
proof (induction pids)
  case (Cons pid pids)
  from Cons.prems show ?case unfolding search_Cons
    by (cases "deref_proc s pid") (auto simp: rbind_def deref_proc_Inr split: if_splits option.splits
        dest!: Cons.IH intro: ready_thread_ok [unfolded deref_proc_Inr])
qed auto

interpretation next_thr: thread_search Custom_GetNextAvailableThread
proof
  fix s s' assume a: "Custom_GetNextAvailableThread s = Inr (True, s')"
  then obtain pid tid p where c: "CurrentProcess s = Some pid" "CurrentThread s = Some tid" "deref_proc s pid = Inr p"
    by (auto simp: Custom_GetNextAvailableThread_def rbind_def the_ptr_def split: sum.splits option.splits)
  then obtain t where t: "next_thread (cpu_ID s) tid (p_Threads p) = Some t" "s' = s\<lparr>CurrentThread := Some (t_ID t)\<rparr>"
    using a by (auto simp: Custom_GetNextAvailableThread_def rbind_def the_ptr_def split: option.splits)
  have "thread_ok s pid (t_ID t)" using next_thread_ok [OF t(1)] c(3) by (auto simp: thread_ok_def deref_proc_Inr)
  moreover have "s' = s\<lparr>CurrentProcess := Some pid, CurrentThread := Some (t_ID t)\<rparr>" using t(2) c(1) by simp
  ultimately show "\<exists>pid tid. s' = s\<lparr>CurrentProcess := Some pid, CurrentThread := Some tid\<rparr> \<and> thread_ok s pid tid" by blast
next
  fix s s' assume "Custom_GetNextAvailableThread s = Inr (False, s')"
  then show "s' = s"
    by (auto simp: Custom_GetNextAvailableThread_def rbind_def the_ptr_def split: sum.splits option.splits)
qed

interpretation next_proc: thread_search Custom_GetNextAvailableProcess
  using next_process_spec by unfold_locales (fastforce simp: Custom_GetNextAvailableProcess_def set_current_def)+

interpretation any_proc: thread_search Custom_SchedulerSearchProcessThread
  using search_spec by unfold_locales (fastforce simp: Custom_SchedulerSearchProcessThread_def set_current_def)+

subsection \<open>What a switch does\<close>

lemma get_on_proc:
  "(\<And>p. p_ID (f p) = p_ID p) \<Longrightarrow> get_proc q (procs (on_proc pid f s)) =
     (if q = pid then map_option f (get_proc q (procs s)) else get_proc q (procs s))"
  by (simp add: on_proc_def)

lemma on_proc_simps [simp]:
  "ProcessList (on_proc pid f s) = ProcessList s" "CurrentProcess (on_proc pid f s) = CurrentProcess s"
  "CurrentThread (on_proc pid f s) = CurrentThread s" "cpu_ID (on_proc pid f s) = cpu_ID s"
  "IdleProcess (on_proc pid f s) = IdleProcess s" "IdleThread (on_proc pid f s) = IdleThread s"
  "cpu_context (on_proc pid f s) = cpu_context s" "hw (on_proc pid f s) = hw s"
  "SchedulerUpdateTrapFrame (on_proc pid f s) = SchedulerUpdateTrapFrame s"
  by (simp_all add: on_proc_def)

lemma upd_thread_simps [simp]:
  "p_ID (upd_thread tid f p) = p_ID p" "p_State (upd_thread tid f p) = p_State p"
  "p_PageTable (upd_thread tid f p) = p_PageTable p" "p_Signals (upd_thread tid f p) = p_Signals p"
  by (simp_all add: upd_thread_def)

text \<open>A process after \<open>HandleSignal\<close>: its signals and one thread's mask may differ.\<close>

definition handled :: "int \<Rightarrow> PCB \<Rightarrow> PCB \<Rightarrow> bool" where
  "handled tid p p' \<longleftrightarrow> (\<exists>sg mk. p' = upd_thread tid (\<lambda>t. t\<lparr>t_Mask := mk t\<rparr>) (p\<lparr>p_Signals := sg\<rparr>))"

lemma handled_refl: "handled tid p p" and handled_signals: "handled tid p (p\<lparr>p_Signals := sg\<rparr>)"
  and handled_mask: "handled tid p (upd_thread tid (\<lambda>t. t\<lparr>t_Mask := mk\<rparr>) (p\<lparr>p_Signals := sg\<rparr>))"
proof -
  have idm: "upd_thread tid (\<lambda>t. t) q = q" for q
    by (simp add: upd_thread_def)
  show "handled tid p p" unfolding handled_def
    by (intro exI [of _ "p_Signals p"] exI [of _ t_Mask]) (simp add: idm)
  show "handled tid p (p\<lparr>p_Signals := sg\<rparr>)" unfolding handled_def
    by (intro exI [of _ sg] exI [of _ t_Mask]) (simp add: idm)
  show "handled tid p (upd_thread tid (\<lambda>t. t\<lparr>t_Mask := mk\<rparr>) (p\<lparr>p_Signals := sg\<rparr>))" unfolding handled_def
    by (intro exI [of _ sg] exI [of _ "\<lambda>_. mk"]) simp
qed

lemma HandleSignal_keeps:
  assumes "Signal_HandleSignal freed tid cpu p tf m = Inr (b, p', tf', m')"
  shows "handled tid p p'" "f_cs tf \<noteq> GDT_USER_CODE \<or> Queue (p_Signals p) = [] \<Longrightarrow> tf' = tf \<and> m' = m"
  using assms
  by (auto simp: Signal_HandleSignal_def rbind_def Let_def assert_res_def handled_refl handled_signals handled_mask
      split: if_splits sum.splits)

lemma on_thread_simps [simp]:
  "ProcessList (on_thread pid tid f s) = ProcessList s" "CurrentProcess (on_thread pid tid f s) = CurrentProcess s"
  "CurrentThread (on_thread pid tid f s) = CurrentThread s" "cpu_ID (on_thread pid tid f s) = cpu_ID s"
  "cpu_context (on_thread pid tid f s) = cpu_context s" "hw (on_thread pid tid f s) = hw s"
  "IdleProcess (on_thread pid tid f s) = IdleProcess s" "IdleThread (on_thread pid tid f s) = IdleThread s"
  "SchedulerUpdateTrapFrame (on_thread pid tid f s) = SchedulerUpdateTrapFrame s"
  by (simp_all add: on_thread_def)

lemma Schedule_success_E:
  assumes "Schedule_success e nc s = Inr (F, s')"
  obtains pid tid p0 p t b q m where
    "CurrentProcess s = Some pid" "CurrentThread s = Some tid" "get_proc pid (procs s) = Some p0"
    "get_proc pid (procs (switch_in e nc pid tid (p_PageTable p0) s)) = Some p" "PCB_GetThread p tid = Some t"
    "Signal_HandleSignal (e_freed e) tid (t_Context t) p (t_Registers t) (hw s) = Inr (b, q, F, m)"
    "s' = switch_out e nc pid tid (Priority (t_Info t))
         (on_proc pid (\<lambda>_. q) ((switch_in e nc pid tid (p_PageTable p0) s)\<lparr>cpu_context := t_Context t, hw := m\<rparr>))"
proof -
  obtain pid tid p0 where c: "CurrentProcess s = Some pid" "CurrentThread s = Some tid" "deref_proc s pid = Inr p0"
    using assms by (auto simp: Schedule_success_def rbind_def the_ptr_def split: option.splits sum.splits)
  define s1 where "s1 = switch_in e nc pid tid (p_PageTable p0) s"
  have hw: "hw s1 = hw s" by (simp add: s1_def switch_in_def Let_def)
  obtain p t where p: "deref_proc s1 pid = Inr p" "PCB_GetThread p tid = Some t"
    using assms c by (auto simp: Schedule_success_def s1_def rbind_def the_ptr_def deref_thread_def Let_def
        split: option.splits sum.splits)
  have "rbind (Signal_HandleSignal (e_freed e) tid (t_Context t) p (t_Registers t) (hw s)) (\<lambda>(_, p, Frame, m).
     Inr (Frame, switch_out e nc pid tid (Priority (t_Info t)) (on_proc pid (\<lambda>_. p) (s1\<lparr>cpu_context := t_Context t, hw := m\<rparr>)))) = Inr (F, s')"
    using assms c p hw unfolding Schedule_success_def
    by (simp add: rbind_def [of "Inr _"] the_ptr_def deref_thread_def Let_def s1_def [symmetric])
  then obtain b q m where "Signal_HandleSignal (e_freed e) tid (t_Context t) p (t_Registers t) (hw s) = Inr (b, q, F, m)"
    "s' = switch_out e nc pid tid (Priority (t_Info t)) (on_proc pid (\<lambda>_. q) (s1\<lparr>cpu_context := t_Context t, hw := m\<rparr>))"
    by (auto simp: rbind_def split: sum.splits)
  then show thesis using that c p unfolding s1_def deref_proc_Inr by blast
qed

lemma handled_simps:
  assumes "handled tid p p'"
  shows "p_ID p' = p_ID p" "p_State p' = p_State p"
    "PCB_GetThread p i = Some t \<Longrightarrow> \<exists>mk. PCB_GetThread p' i = Some (t\<lparr>t_Mask := mk\<rparr>)"
proof -
  obtain sg mk where p': "p' = upd_thread tid (\<lambda>t. t\<lparr>t_Mask := mk t\<rparr>) (p\<lparr>p_Signals := sg\<rparr>)"
    using assms by (auto simp: handled_def)
  show "p_ID p' = p_ID p" "p_State p' = p_State p" by (simp_all add: p')
  have "PCB_GetThread (p\<lparr>p_Signals := sg\<rparr>) i = PCB_GetThread p i" by (simp add: PCB_GetThread_def)
  then show "PCB_GetThread p i = Some t \<Longrightarrow> \<exists>mk. PCB_GetThread p' i = Some (t\<lparr>t_Mask := mk\<rparr>)"
    unfolding p' by (cases "i = tid") (auto simp: GetThread_upd intro: exI [of _ "t_Mask t"])
qed

lemma switch_in_spec:
  assumes "get_proc pid (procs s) = Some p0" "get_proc pid (procs (switch_in e nc pid tid tb s)) = Some p"
    and "PCB_GetThread p tid = Some t"
  shows "p_State p = Running \<and> t_State t = Running \<and> p_Signals p = p_Signals p0 \<and> p_ID p = p_ID p0 \<and>
    (\<exists>t0. PCB_GetThread p0 tid = Some t0 \<and> t_Context t = t_Context t0 \<and>
       t_Registers t = (t_Registers t0)\<lparr>f_ppt := (if f_cs (t_Registers t0) \<noteq> GDT_KERNEL_CODE then tb else e_KernelPageTable e)\<rparr>)"
proof -
  have gt: "PCB_GetThread (p\<lparr>p_State := st\<rparr>) i = PCB_GetThread p i" "PCB_GetThread (p\<lparr>p_Info := inf\<rparr>) i = PCB_GetThread p i"
    for p st inf i by (simp_all add: PCB_GetThread_def)
  show ?thesis
    using assms unfolding switch_in_def Let_def
    by (cases nc) (auto simp: on_thread_def get_on_proc GetThread_upd gt split del: if_split)
qed

lemma switch_out_spec:
  "CurrentProcess (switch_out e nc pid tid prio s) = CurrentProcess s"
  "CurrentThread (switch_out e nc pid tid prio s) = CurrentThread s"
  "cpu_context (switch_out e nc pid tid prio s) = cpu_context s"
  "get_proc pid (procs s) = Some p \<Longrightarrow> PCB_GetThread p tid = Some t \<Longrightarrow>
     \<exists>p' t'. get_proc pid (procs (switch_out e nc pid tid prio s)) = Some p' \<and> PCB_GetThread p' tid = Some t' \<and>
       p_State p' = p_State p \<and> t_State t' = t_State t \<and> t_Registers t' = t_Registers t \<and> t_Context t' = t_Context t"
proof -
  have gt: "PCB_GetThread (p\<lparr>p_Info := inf\<rparr>) i = PCB_GetThread p i" for p inf i by (simp add: PCB_GetThread_def)
  show "CurrentProcess (switch_out e nc pid tid prio s) = CurrentProcess s"
    "CurrentThread (switch_out e nc pid tid prio s) = CurrentThread s"
    "cpu_context (switch_out e nc pid tid prio s) = cpu_context s"
    by (simp_all add: switch_out_def Let_def Custom_OneShot_def)
  show "get_proc pid (procs s) = Some p \<Longrightarrow> PCB_GetThread p tid = Some t \<Longrightarrow>
     \<exists>p' t'. get_proc pid (procs (switch_out e nc pid tid prio s)) = Some p' \<and> PCB_GetThread p' tid = Some t' \<and>
       p_State p' = p_State p \<and> t_State t' = t_State t \<and> t_Registers t' = t_Registers t \<and> t_Context t' = t_Context t"
    by (cases nc) (auto simp: switch_out_def Let_def Custom_OneShot_def on_thread_def get_on_proc GetThread_upd gt)
qed

lemma switch_in_simps [simp]:
  "CurrentProcess (switch_in e nc pid tid tb s) = CurrentProcess s"
  "CurrentThread (switch_in e nc pid tid tb s) = CurrentThread s"
  by (simp_all add: switch_in_def Let_def)

lemma Schedule_success_spec:
  assumes "Schedule_success e nc s = Inr (F, s')"
  shows "\<exists>pid tid p0 t0 p t. CurrentProcess s = Some pid \<and> CurrentThread s = Some tid \<and>
    CurrentProcess s' = Some pid \<and> CurrentThread s' = Some tid \<and>
    get_proc pid (procs s) = Some p0 \<and> PCB_GetThread p0 tid = Some t0 \<and>
    get_proc pid (procs s') = Some p \<and> PCB_GetThread p tid = Some t \<and> p_State p = Running \<and> t_State t = Running \<and>
    cpu_context s' = t_Context t0 \<and>
    (f_cs (t_Registers t0) \<noteq> GDT_USER_CODE \<or> Queue (p_Signals p0) = [] \<longrightarrow>
       F = (t_Registers t0)\<lparr>f_ppt := (if f_cs (t_Registers t0) \<noteq> GDT_KERNEL_CODE then p_PageTable p0 else e_KernelPageTable e)\<rparr>)"
  using assms
proof (cases rule: Schedule_success_E)
  case (1 pid tid p0 p t b q m)
  obtain t0 where sw: "p_State p = Running" "t_State t = Running" "p_Signals p = p_Signals p0" "p_ID p = p_ID p0" "PCB_GetThread p0 tid = Some t0" "t_Context t = t_Context t0"
    "t_Registers t = (t_Registers t0)\<lparr>f_ppt := (if f_cs (t_Registers t0) \<noteq> GDT_KERNEL_CODE then p_PageTable p0 else e_KernelPageTable e)\<rparr>"
    using switch_in_spec [OF 1(3,4,5)] by auto
  define s1 where "s1 = on_proc pid (\<lambda>_. q) ((switch_in e nc pid tid (p_PageTable p0) s)\<lparr>cpu_context := t_Context t, hw := m\<rparr>)"
  note h = HandleSignal_keeps [OF 1(6)]
  note q = handled_simps [OF h(1)]
  have ID: "p_ID q = pid" using q(1) sw(4) get_proc_ID [OF 1(3)] by simp
  have gq: "get_proc pid (procs s1) = Some q"
    using get_proc_put [OF ID] 1(4) by (simp add: s1_def on_proc_def)
  obtain mk where tq: "PCB_GetThread q tid = Some (t\<lparr>t_Mask := mk\<rparr>)" using q(3) [OF 1(5)] by blast
  obtain p' t' where e: "get_proc pid (procs s') = Some p'" "PCB_GetThread p' tid = Some t'" "p_State p' = Running" "t_State t' = Running"
    using switch_out_spec(4) [OF gq tq, of e nc "Priority (t_Info t)"] 1(7) q(2) sw(1,2) unfolding s1_def by auto
  have cur: "CurrentProcess s' = Some pid" "CurrentThread s' = Some tid" "cpu_context s' = t_Context t0"
    using 1(1,2,7) sw(6) by (simp_all add: switch_out_spec)
  have F: "f_cs (t_Registers t0) \<noteq> GDT_USER_CODE \<or> Queue (p_Signals p0) = [] \<Longrightarrow> F = t_Registers t"
    using h(2) sw(3,7) by auto
  show ?thesis
    by (intro exI conjI) (rule 1(1,2,3) cur e sw(5) | (rule impI, drule F, simp only: sw(7)))+
qed

subsection \<open>Registers survive\<close>

text \<open>
  Two threads with the same identifier, context and registers, but for the page table in the frame; and
  a list of processes all of whose threads come from another list.
\<close>

definition same_regs :: "TCB \<Rightarrow> TCB \<Rightarrow> bool" where
  "same_regs t t' \<longleftrightarrow> t_ID t' = t_ID t \<and> t_Context t' = t_Context t \<and>
     (t_Registers t')\<lparr>f_ppt := 0\<rparr> = (t_Registers t)\<lparr>f_ppt := 0\<rparr>"

definition from_threads :: "PCB \<Rightarrow> PCB \<Rightarrow> bool" where
  "from_threads p p' \<longleftrightarrow> p_ID p' = p_ID p \<and> (\<forall>t' \<in> set (p_Threads p'). \<exists>t \<in> set (p_Threads p). same_regs t t')"

definition shrinks :: "PCB list \<Rightarrow> PCB list \<Rightarrow> bool" where
  "shrinks ps ps' \<longleftrightarrow> (\<forall>p' \<in> set ps'. \<exists>p \<in> set ps. from_threads p p')"

lemma same_regs_refl [simp]: "same_regs t t"
  by (simp add: same_regs_def)

lemma same_regs_trans: "same_regs a b \<Longrightarrow> same_regs b c \<Longrightarrow> same_regs a c"
  by (simp add: same_regs_def)

lemma from_threads_refl [simp]: "from_threads p p"
  unfolding from_threads_def using same_regs_refl by blast

lemma from_map:
  "p_ID p' = p_ID p \<Longrightarrow> p_Threads p' = map g (p_Threads p) \<Longrightarrow> (\<And>t. same_regs t (g t)) \<Longrightarrow> from_threads p p'"
  by (auto simp: from_threads_def)

lemma from_same: "p_ID p' = p_ID p \<Longrightarrow> p_Threads p' = p_Threads p \<Longrightarrow> from_threads p p'"
  using from_map [of p' p "\<lambda>t. t"] by simp

lemma from_threads_trans: "from_threads a b \<Longrightarrow> from_threads b c \<Longrightarrow> from_threads a c"
  unfolding from_threads_def using same_regs_trans by (metis (no_types))

lemma shrinks_refl [simp]: "shrinks ps ps"
  unfolding shrinks_def using from_threads_refl by blast

lemma shrinks_trans: "shrinks a b \<Longrightarrow> shrinks b c \<Longrightarrow> shrinks a c"
  unfolding shrinks_def using from_threads_trans by (metis (no_types))

lemma shrinks_filter: "shrinks ps (filter P ps)"
  unfolding shrinks_def using from_threads_refl by (metis filter_is_subset subsetD)

lemma shrinks_upd: "(\<And>p. from_threads p (f p)) \<Longrightarrow> shrinks ps (upd_proc pid f ps)"
  by (auto simp: shrinks_def upd_proc_def) (metis from_threads_refl)

lemma shrinks_put: "get_proc pid ps = Some p \<Longrightarrow> from_threads p q \<Longrightarrow> shrinks ps (upd_proc pid (\<lambda>_. q) ps)"
  by (auto simp: shrinks_def upd_proc_def dest!: get_proc_ID) (metis from_threads_refl)

lemma from_upd_thread: "(\<And>t. same_regs t (f t)) \<Longrightarrow> from_threads p (upd_thread tid f p)"
  by (auto simp: from_threads_def upd_thread_def) (metis same_regs_refl)

text \<open>A later state of the scheduler: only processes changed, and their threads come from before.\<close>

definition sched_frame where
  "sched_frame s = (CurrentProcess s, CurrentThread s, IdleProcess s, IdleThread s, cpu_ID s, cpu_context s,
     SchedulerUpdateTrapFrame s)"

definition later :: "scheduler \<Rightarrow> scheduler \<Rightarrow> bool" where
  "later s s' \<longleftrightarrow> shrinks (procs s) (procs s') \<and> sched_frame s' = sched_frame s"

lemma later_refl [simp]: "later s s"
  by (simp add: later_def)

lemma later_trans: "later a b \<Longrightarrow> later b c \<Longrightarrow> later a c"
  unfolding later_def using shrinks_trans by fastforce

lemma later_on_proc: "(\<And>p. from_threads p (f p)) \<Longrightarrow> later s (on_proc pid f s)"
  by (simp add: later_def sched_frame_def on_proc_def shrinks_upd)

lemma later_on_thread: "(\<And>t. same_regs t (f t)) \<Longrightarrow> later s (on_thread pid tid f s)"
  unfolding on_thread_def by (intro later_on_proc from_upd_thread)

lemma from_handled: "handled tid p p' \<Longrightarrow> from_threads p p'"
  unfolding handled_def
proof (elim exE)
  fix sg mk assume "p' = upd_thread tid (\<lambda>t. t\<lparr>t_Mask := mk t\<rparr>) (p\<lparr>p_Signals := sg\<rparr>)"
  moreover have "from_threads p (p\<lparr>p_Signals := sg\<rparr>)"
    unfolding from_threads_def using same_regs_refl by fastforce
  ultimately show "from_threads p p'"
    using from_upd_thread [of "\<lambda>t. t\<lparr>t_Mask := mk t\<rparr>"] by (auto simp: same_regs_def intro: from_threads_trans)
qed

lemma erase_thread_subset: "set (erase_thread tid ts) \<subseteq> set ts"
  unfolding erase_thread_def
  by (auto dest: set_takeWhileD) (metis in_set_dropD list.set_sel(2) set_dropWhileD tl_Nil)

lemma from_erase: "from_threads p (p\<lparr>p_Threads := erase_thread tid (p_Threads p)\<rparr>)"
  unfolding from_threads_def using erase_thread_subset [of tid "p_Threads p"] same_regs_refl by fastforce

lemma delete_TCB_later: "delete_TCB pid tid s = Inr s' \<Longrightarrow> later s s'"
  by (auto simp: delete_TCB_def rbind_def split: sum.splits intro!: later_on_proc from_erase)

lemma later_each:
  assumes "each_res (\<lambda>i (slots, s). g i slots s) is (slots, s) = Inr (slots', s')"
    and "\<And>i slots s slots' s'. g i slots s = Inr (slots', s') \<Longrightarrow> later s s'"
  shows "later s s'"
proof -
  have "(\<lambda>(_, t). later s t) (slots', s')"
    using assms(1)
  proof (rule each_res_keeps)
    fix i a b assume "(\<lambda>(_, t). later s t) a" "(\<lambda>(slots, s). g i slots s) a = Inr b"
    then show "(\<lambda>(_, t). later s t) b"
      using assms(2) by (cases a; cases b) (auto intro: later_trans)
  qed simp
  then show ?thesis by simp
qed

lemma delete_threads_later: "delete_threads pid s = Inr s' \<Longrightarrow> later s s'"
  unfolding delete_threads_def
  by (auto simp: rbind_def split: sum.splits elim!: later_each dest!: delete_TCB_later)

lemma Pop_later: "later s (Custom_PopProcess pid s)"
  by (simp add: Custom_PopProcess_def later_def sched_frame_def)

lemma leave_parent_later: "leave_parent pid parent s = Inr s' \<Longrightarrow> later s s'"
proof -
  have "from_threads q (q\<lparr>p_Children := c\<rparr>)" for q c
    unfolding from_threads_def using same_regs_refl by fastforce
  then show "leave_parent pid parent s = Inr s' \<Longrightarrow> later s s'"
    by (auto simp: leave_parent_def rbind_def split: option.splits sum.splits if_splits intro!: later_on_proc)
qed

lemma delete_PCB_later: "delete_PCB_fuel n pid s = Inr s' \<Longrightarrow> later s s'"
proof (induction n arbitrary: pid s s')
  case (Suc n)
  let ?s = "Custom_PopProcess pid s"
  obtain p sl s1 s2 where p: "deref_proc s pid = Inr p"
    and 1: "each_res (\<lambda>i (slots, s). rbind (delete_PCB_fuel n (slots ! i) s) (\<lambda>s. Inr (reslot (children pid s) slots, s)))
       [0..<length (children pid ?s)] (children pid ?s, ?s) = Inr (sl, s1)"
    and 2: "delete_threads pid s1 = Inr s2"
    using Suc.prems by (auto simp: rbind_def Let_def split: sum.splits)
  have "later ?s s1"
    by (rule later_each [OF 1]) (auto simp: rbind_def split: sum.splits dest: Suc.IH)
  then have *: "later s s2"
    using later_trans [OF Pop_later later_trans] delete_threads_later [OF 2] by blast
  obtain s3 where s3: "leave_parent pid (p_Parent p) s2 = Inr s3"
    and s': "s' = s3\<lparr>procs := filter (\<lambda>q. p_ID q \<noteq> pid) (procs s3)\<rparr>"
    using Suc.prems p 1 2 by (auto simp: rbind_def Let_def split: sum.splits)
  have "later s s3" by (rule later_trans [OF * leave_parent_later [OF s3]])
  then show ?case unfolding s' using shrinks_trans [OF _ shrinks_filter]
    by (simp add: later_def sched_frame_def)
qed simp

lemma terminated_threads_later: "terminated_threads pid s = Inr s' \<Longrightarrow> later s s'"
  unfolding terminated_threads_def
  by (auto simp: rbind_def Custom_RemoveThread_def split: sum.splits if_splits elim!: later_each
      dest!: delete_TCB_later)

lemma delete_process_later: "delete_PCB pid s = Inr s' \<Longrightarrow> later s s'"
  unfolding delete_PCB_def by (rule delete_PCB_later)

lemma Cleanup_later: "Custom_CleanupTerminated s = Inr s' \<Longrightarrow> later s s'"
  unfolding Custom_CleanupTerminated_def
  by (auto simp: rbind_def split: sum.splits if_splits elim!: later_each
      dest!: delete_process_later terminated_threads_later)

lemma each_later:
  assumes "each_res (\<lambda>pid s. rbind (deref_proc s pid) (\<lambda>_. Inr (on_proc pid f s))) pids s = Inr s'"
    and "\<And>p. from_threads p (f p)"
  shows "later s s'"
  using assms(1)
proof (rule each_res_keeps [where P = "later s"])
  fix pid t t' assume "later s t" "rbind (deref_proc t pid) (\<lambda>_. Inr (on_proc pid f t)) = Inr t'"
  then show "later s t'"
    using later_on_proc [of f t pid] assms(2) by (auto simp: rbind_def split: sum.splits intro: later_trans)
qed simp

lemma from_update_state: "from_threads p (update_state p)"
  by (rule from_same) (simp_all add: update_state_def)

lemma from_wake_up: "from_threads p (wake_up now p)"
proof (cases "p_State p \<in> {Ready, Sleeping, Blocked}")
  case True
  show ?thesis
    by (rule from_map [of _ _ "\<lambda>t. if wakes now t then t\<lparr>t_State := Ready, t_Info := (t_Info t)\<lparr>SleepUntil := 0\<rparr>\<rparr> else t"])
      (use True in \<open>auto simp: wake_up_def same_regs_def\<close>)
qed (simp add: wake_up_def)

lemma Schedule_prepare_later:
  assumes "Schedule_prepare e Frame pid tid s = Inr s'"
  obtains s1 where "Schedule_save Frame pid tid s = Inr s1" "later s1 s'"
proof -
  obtain s1 s2 s3 where s: "Schedule_save Frame pid tid s = Inr s1" "Custom_CleanupTerminated s1 = Inr s2"
    "Custom_UpdateProcessState s2 = Inr s3" "Custom_WakeUpThreads (e_wake e) s3 = Inr s'"
    using assms by (auto simp: Schedule_prepare_def rbind_def split: sum.splits)
  have "later s2 s3" using s(3) from_update_state unfolding Custom_UpdateProcessState_def by (rule each_later)
  moreover have "later s3 s'" using s(4) from_wake_up unfolding Custom_WakeUpThreads_def by (rule each_later)
  ultimately have "later s1 s'" using Cleanup_later [OF s(2)] later_trans by blast
  with s(1) show thesis by (rule that)
qed

lemma shrinks_on_proc: "(\<And>p. from_threads p (f p)) \<Longrightarrow> shrinks (procs s) (procs (on_proc pid f s))"
  and shrinks_on_thread: "(\<And>t. same_regs t (g t)) \<Longrightarrow> shrinks (procs s) (procs (on_thread pid tid g s))"
  using later_on_proc later_on_thread by (simp_all add: later_def)

lemma switch_in_shrinks: "shrinks (procs s) (procs (switch_in e nc pid tid tb s))"
proof -
  have f: "from_threads p (p\<lparr>p_Info := i\<rparr>)" "from_threads p (p\<lparr>p_State := st\<rparr>)" for p i st by (rule from_same; simp)+
  show ?thesis unfolding switch_in_def Let_def
    by (cases nc; simp; intro shrinks_trans [OF _ shrinks_on_thread] shrinks_trans [OF _ shrinks_on_proc])
      (auto simp: same_regs_def f intro!: shrinks_on_proc shrinks_on_thread)
qed

lemma switch_out_shrinks: "shrinks (procs s) (procs (switch_out e nc pid tid prio s))"
proof -
  have f: "from_threads p (p\<lparr>p_Info := i\<rparr>)" for p i by (rule from_same; simp)+
  have "shrinks (procs s) (procs (on_thread pid tid (\<lambda>t. t\<lparr>t_Info := g t\<rparr>) (if nc then s else on_proc pid (\<lambda>p. p\<lparr>p_Info := h p\<rparr>) s)))" for g h
    by (cases nc; simp; intro shrinks_trans [OF _ shrinks_on_thread])
      (auto simp: same_regs_def f intro!: shrinks_on_proc)
  then show ?thesis unfolding switch_out_def Let_def by (simp add: Custom_OneShot_def)
qed

lemma Schedule_success_shrinks:
  assumes "Schedule_success e nc s = Inr (F, s')"
  shows "shrinks (procs s) (procs s')"
  using assms
proof (cases rule: Schedule_success_E)
  case (1 pid tid p0 p t b q m)
  let ?s1 = "switch_in e nc pid tid (p_PageTable p0) s"
  have "shrinks (procs ?s1) (upd_proc pid (\<lambda>_. q) (procs ?s1))"
    by (rule shrinks_put [OF 1(4) from_handled [OF HandleSignal_keeps(1) [OF 1(6)]]])
  then have "shrinks (procs s) (procs (on_proc pid (\<lambda>_. q) (?s1\<lparr>cpu_context := t_Context t, hw := m\<rparr>)))"
    using shrinks_trans [OF switch_in_shrinks] by (simp add: on_proc_def)
  then show ?thesis unfolding 1(7) by (rule shrinks_trans [OF _ switch_out_shrinks])
qed

text \<open>The ways the three searches end.\<close>

lemma Schedule_choose_E:
  assumes "Schedule_choose e s = Inr r"
  obtains (found) nc s1 pid tid where "Schedule_success e nc s1 = Inr r" "thread_ok s pid tid"
      "s1 = s\<lparr>CurrentProcess := Some pid, CurrentThread := Some tid\<rparr>"
  | (idle) s1 where "Schedule_success e True s1 = Inr r"
      "s1 = s\<lparr>CurrentProcess := IdleProcess s, CurrentThread := IdleThread s\<rparr>"
      "Custom_SchedulerSearchProcessThread s = Inr (False, s)"
proof -
  obtain b1 s1 where 1: "Custom_GetNextAvailableThread s = Inr (b1, s1)"
    using assms by (auto simp: Schedule_choose_def rbind_def split: sum.splits)
  show thesis
  proof (cases b1)
    case True
    then show thesis using next_thr.found [of s s1] 1 assms found by (auto simp: Schedule_choose_def rbind_def)
  next
    case b1: False
    then have s1: "s1 = s" using next_thr.not_found [of s s1] 1 by simp
    obtain b2 s2 where 2: "Custom_GetNextAvailableProcess s = Inr (b2, s2)"
      using assms 1 b1 s1 by (auto simp: Schedule_choose_def rbind_def split: sum.splits)
    show thesis
    proof (cases b2)
      case True
      then show thesis using next_proc.found [of s s2] 1 2 b1 s1 assms found by (auto simp: Schedule_choose_def rbind_def)
    next
      case b2: False
      then have s2: "s2 = s" using next_proc.not_found [of s s2] 2 by simp
      obtain b3 s3 where 3: "Custom_SchedulerSearchProcessThread s = Inr (b3, s3)"
        using assms 1 2 b1 b2 s1 s2 by (auto simp: Schedule_choose_def rbind_def split: sum.splits)
      then show thesis
        using any_proc.found [of s s3] any_proc.not_found [of s s3] 1 2 b1 b2 s1 s2 assms found idle
        by (cases b3) (auto simp: Schedule_choose_def Schedule_idle_def rbind_def)
    qed
  qed
qed

lemma Schedule_choose_shrinks: "Schedule_choose e s = Inr (F, s') \<Longrightarrow> shrinks (procs s) (procs s')"
  by (erule Schedule_choose_E) (auto dest!: Schedule_success_shrinks)

lemma Schedule_E:
  assumes "Custom_Schedule e Frame s = Inr (F, s')" "\<not> StopScheduler s"
    and "CurrentProcess s = Some pid" "CurrentThread s = Some tid"
  obtains s1 s2 where "Schedule_save Frame pid tid (s\<lparr>LastTaskTicks := e_start e - SchedulerTicks s, LastCore := cpu_ID s\<rparr>) = Inr s1"
    "Schedule_prepare e Frame pid tid (s\<lparr>LastTaskTicks := e_start e - SchedulerTicks s, LastCore := cpu_ID s\<rparr>) = Inr s2"
    "later s1 s2" "shrinks (procs s2) (procs s')" "\<not> SchedulerUpdateTrapFrame s2 \<longrightarrow> Schedule_choose e s2 = Inr (F, s')"
proof -
  let ?s = "s\<lparr>LastTaskTicks := e_start e - SchedulerTicks s, LastCore := cpu_ID s\<rparr>"
  obtain s2 where s2: "Schedule_prepare e Frame pid tid ?s = Inr s2"
    using assms by (auto simp: Custom_Schedule_def rbind_def Let_def split: sum.splits)
  obtain s1 where s1: "Schedule_save Frame pid tid ?s = Inr s1" "later s1 s2" by (rule Schedule_prepare_later [OF s2])
  have f: "from_threads p (p\<lparr>p_State := st\<rparr>)" for p st by (rule from_same; simp)
  have "shrinks (procs s2) (procs s') \<and> (\<not> SchedulerUpdateTrapFrame s2 \<longrightarrow> Schedule_choose e s2 = Inr (F, s'))"
  proof (cases "SchedulerUpdateTrapFrame s2")
    case True
    let ?s3 = "on_proc pid (\<lambda>p. p\<lparr>p_State := Running\<rparr>) (s2\<lparr>SchedulerUpdateTrapFrame := False\<rparr>)"
    have "procs s' = procs (on_thread pid tid (\<lambda>t. t\<lparr>t_State := Running\<rparr>) ?s3)"
      using assms s2 True by (auto simp: Custom_Schedule_def rbind_def Let_def split: sum.splits)
    moreover have "shrinks (procs s2) (procs ?s3)"
      using shrinks_on_proc [OF f, of "s2\<lparr>SchedulerUpdateTrapFrame := False\<rparr>" pid] by simp
    ultimately show ?thesis using True shrinks_trans [OF _ shrinks_on_thread] by (simp add: same_regs_def)
  next
    case False
    then have "Schedule_choose e s2 = Inr (F, s')" using assms s2 by (simp add: Custom_Schedule_def rbind_def Let_def)
    then show ?thesis using Schedule_choose_shrinks by blast
  qed
  with s1 s2 that show thesis by blast
qed

subsection \<open>Properties\<close>

text \<open>The example of the witnesses: thread 11 of process 1 runs, thread 12 of process 2 is ready.\<close>

definition sched_example :: scheduler where
  "sched_example = \<lparr>
     procs = [(proc_example 1 Signal_new)\<lparr>p_State := Running, p_Threads := [(thread_example 11)\<lparr>t_State := Running\<rparr>]\<rparr>,
              proc_example 2 Signal_new],
     ProcessList = [1, 2], IdleProcess = None, IdleThread = None, CurrentProcess = Some 1, CurrentThread = Some 11,
     cpu_ID = 0, cpu_context = context_zero, hw = tiny, SchedulerTicks = 0, LastTaskTicks = 0, LastCore = 0,
     StopScheduler = False, SchedulerUpdateTrapFrame = False, TimeSlice = 0\<rparr>"

definition env_example :: sched_env where
  "env_example = \<lparr>e_start = 100, e_wake = (\<lambda>_. 101), e_usage_process = 102, e_usage_thread = 103, e_update_process = 104,
     e_update_thread = 105, e_end = 106, e_freed = (\<lambda>i. i), e_KernelPageTable = 0x1000\<rparr>"

lemmas sched_eval = sched_example_def env_example_def proc_example_def thread_example_def Signal_new_def TaskInfo_new_def
  frame_zero_def context_zero_def
  Custom_Schedule_def Schedule_prepare_def Schedule_save_def Schedule_choose_def Schedule_success_def Schedule_idle_def
  switch_in_def switch_out_def Custom_OneShot_def Custom_UpdateUsage_def Signal_HandleSignal_def
  Custom_CleanupTerminated_def terminated_threads_def Custom_UpdateProcessState_def update_state_def AllThreadsSleeping_def
  Custom_WakeUpThreads_def wake_up_def wakes_def Custom_GetNextAvailableThread_def Custom_GetNextAvailableProcess_def
  Custom_SchedulerSearchProcessThread_def runnable_def set_current_def deref_proc_def deref_thread_def on_proc_def
  on_thread_def upd_proc_def get_proc_def upd_thread_def PCB_GetThread_def the_ptr_def tids_def children_def reslot_def
  rbind_def Let_def

lemma sched_example_runs:
  "\<exists>F s'. Custom_Schedule env_example frame_zero sched_example = Inr (F, s') \<and> CurrentThread s' = Some 12 \<and>
     (\<exists>p t. get_proc 1 (procs s') = Some p \<and> PCB_GetThread p 11 = Some t)"
  by (simp add: sched_eval)

text \<open>
  C20. A scheduler interrupt runs a ready thread. After the preparation, the thread it leaves running is one
  that was ready, with the CPU in its affinity, in a process that exists; only when no thread of a ready
  process in the list can run on the CPU is it the idle thread. Process and thread are then \<open>Running\<close>, and
  the interrupt returns to the registers saved for the thread, with the page table of the process (or
  the kernel's for kernel code), unless a signal is delivered to it.
\<close>

theorem schedule_runs_a_ready_thread:
  assumes "Custom_Schedule e Frame s = Inr (F, s')" "\<not> StopScheduler s" "\<not> SchedulerUpdateTrapFrame s"
    and "CurrentProcess s = Some pid0" "CurrentThread s = Some tid0"
  shows "\<exists>s2 pid tid p0 t0 p t.
    Schedule_prepare e Frame pid0 tid0 (s\<lparr>LastTaskTicks := e_start e - SchedulerTicks s, LastCore := cpu_ID s\<rparr>) = Inr s2 \<and>
    (thread_ok s2 pid tid \<or>
     IdleProcess s = Some pid \<and> IdleThread s = Some tid \<and>
       (\<forall>q \<in> set (ProcessList s2). \<exists>p. get_proc q (procs s2) = Some p \<and>
          \<not> (p_State p = Ready \<and> (\<exists>t \<in> set (p_Threads p). runnable (cpu_ID s) t)))) \<and>
    CurrentProcess s' = Some pid \<and> CurrentThread s' = Some tid \<and>
    get_proc pid (procs s') = Some p \<and> PCB_GetThread p tid = Some t \<and> p_State p = Running \<and> t_State t = Running \<and>
    get_proc pid (procs s2) = Some p0 \<and> PCB_GetThread p0 tid = Some t0 \<and>
    (f_cs (t_Registers t0) \<noteq> GDT_USER_CODE \<or> Queue (p_Signals p0) = [] \<longrightarrow>
       F = (t_Registers t0)\<lparr>f_ppt := (if f_cs (t_Registers t0) \<noteq> GDT_KERNEL_CODE then p_PageTable p0 else e_KernelPageTable e)\<rparr>)"
proof -
  obtain s1 s2 where s1: "Schedule_save Frame pid0 tid0 (s\<lparr>LastTaskTicks := e_start e - SchedulerTicks s, LastCore := cpu_ID s\<rparr>) = Inr s1"
    and s2: "Schedule_prepare e Frame pid0 tid0 (s\<lparr>LastTaskTicks := e_start e - SchedulerTicks s, LastCore := cpu_ID s\<rparr>) = Inr s2"
    and l: "later s1 s2" and c: "\<not> SchedulerUpdateTrapFrame s2 \<longrightarrow> Schedule_choose e s2 = Inr (F, s')"
    using assms by (elim Schedule_E)
  have fr: "sched_frame s2 = sched_frame s"
    using l s1 by (auto simp: later_def Schedule_save_def rbind_def Let_def sched_frame_def split: sum.splits)
  then have c: "Schedule_choose e s2 = Inr (F, s')" using c assms(3) by (simp add: sched_frame_def)
  let ?Q = "\<lambda>pid tid. thread_ok s2 pid tid \<or> IdleProcess s = Some pid \<and> IdleThread s = Some tid \<and>
    (\<forall>q \<in> set (ProcessList s2). \<exists>p. get_proc q (procs s2) = Some p \<and>
       \<not> (p_State p = Ready \<and> (\<exists>t \<in> set (p_Threads p). runnable (cpu_ID s) t)))"
  have "\<exists>nc s3. Schedule_success e nc s3 = Inr (F, s') \<and> procs s3 = procs s2 \<and>
      (\<forall>pid tid. CurrentProcess s3 = Some pid \<longrightarrow> CurrentThread s3 = Some tid \<longrightarrow> ?Q pid tid)"
    using c
  proof (cases rule: Schedule_choose_E)
    case (found nc s3 pid tid)
    have "\<forall>pid tid. CurrentProcess s3 = Some pid \<longrightarrow> CurrentThread s3 = Some tid \<longrightarrow> ?Q pid tid" "procs s3 = procs s2"
      using found(2) unfolding found(3) by simp_all
    with found(1) show ?thesis by blast
  next
    case (idle s3)
    have "\<forall>q \<in> set (ProcessList s2). \<exists>p. get_proc q (procs s2) = Some p \<and> ready_thread s2 p = None"
      using search_spec idle(3) unfolding Custom_SchedulerSearchProcessThread_def by fastforce
    moreover have "cpu_ID s2 = cpu_ID s" "IdleProcess s2 = IdleProcess s" "IdleThread s2 = IdleThread s"
      using fr by (simp_all add: sched_frame_def)
    ultimately have "\<forall>pid tid. CurrentProcess s3 = Some pid \<longrightarrow> CurrentThread s3 = Some tid \<longrightarrow> ?Q pid tid" "procs s3 = procs s2"
      unfolding idle(2) by (auto simp: ready_thread_def find_None_iff split: if_splits)
    with idle(1) show ?thesis by blast
  qed
  then obtain nc s3 where s3: "Schedule_success e nc s3 = Inr (F, s')" "procs s3 = procs s2"
    and q: "\<And>pid tid. CurrentProcess s3 = Some pid \<Longrightarrow> CurrentThread s3 = Some tid \<Longrightarrow> ?Q pid tid"
    by blast
  obtain pid tid p0 t0 p t where r: "CurrentProcess s3 = Some pid" "CurrentThread s3 = Some tid"
    "CurrentProcess s' = Some pid" "CurrentThread s' = Some tid" "get_proc pid (procs s2) = Some p0" "PCB_GetThread p0 tid = Some t0"
    "get_proc pid (procs s') = Some p" "PCB_GetThread p tid = Some t" "p_State p = Running" "t_State t = Running"
    "f_cs (t_Registers t0) \<noteq> GDT_USER_CODE \<or> Queue (p_Signals p0) = [] \<longrightarrow>
       F = (t_Registers t0)\<lparr>f_ppt := (if f_cs (t_Registers t0) \<noteq> GDT_KERNEL_CODE then p_PageTable p0 else e_KernelPageTable e)\<rparr>"
    using Schedule_success_spec [OF s3(1)] unfolding s3(2) by (elim exE conjE)
  show ?thesis
    by (rule exI [of _ s2], rule exI [of _ pid], rule exI [of _ tid], rule exI [of _ p0], rule exI [of _ t0],
        rule exI [of _ p], rule exI [of _ t]) (intro conjI s2 q [OF r(1,2)] r(3-11))
qed

theorem schedule_runs_a_ready_thread_witness:
  "\<exists>F s' pid tid. Custom_Schedule env_example frame_zero sched_example = Inr (F, s') \<and>
     CurrentProcess s' = Some pid \<and> CurrentThread s' = Some tid \<and> tid = 12"
proof -
  obtain F s' where r: "Custom_Schedule env_example frame_zero sched_example = Inr (F, s')" "CurrentThread s' = Some 12"
    using sched_example_runs by blast
  then show ?thesis
    using schedule_runs_a_ready_thread [OF r(1), of 1 11] by (auto simp: sched_example_def)
qed

lemma find_map_first: "(\<And>t. t_ID (g t) = t_ID t) \<Longrightarrow> find (\<lambda>t. t_ID t = i) (map g ts) = map_option g (find (\<lambda>t. t_ID t = i) ts)"
  by (induction ts) auto

lemma on_proc_member:
  assumes "p \<in> set (procs (on_proc pid f s))" "p_ID p = pid" "\<And>p. p_ID (f p) = p_ID p"
  obtains q where "q \<in> set (procs s)" "p_ID q = pid" "p = f q"
  using assms by (auto simp: on_proc_def upd_proc_def split: if_splits)

lemma upd_thread_member:
  assumes "t \<in> set (p_Threads (upd_thread tid f p))" "t_ID t = tid" "\<And>t. t_ID (f t) = t_ID t"
  obtains u where "u \<in> set (p_Threads p)" "t_ID u = tid" "t = f u"
  using assms by (auto simp: upd_thread_def split: if_splits)

lemma save_regs:
  assumes "Schedule_save Frame pid tid s = Inr s1" "p \<in> set (procs s1)" "p_ID p = pid" "t \<in> set (p_Threads p)" "t_ID t = tid"
  shows "t_Registers t = Frame \<and> t_Context t = cpu_context s"
proof -
  let ?f = "\<lambda>t. t\<lparr>t_Registers := Frame, t_Context := cpu_context s\<rparr>" and ?g = "\<lambda>p. if p_State p = Running then p\<lparr>p_State := Ready\<rparr> else p"
    and ?h = "\<lambda>t. if t_State t = Running then t\<lparr>t_State := Ready\<rparr> else t"
  have s1: "s1 = on_proc pid (upd_thread tid ?h) (on_proc pid ?g (on_proc pid (upd_thread tid ?f) s))"
    using assms(1) by (simp add: Schedule_save_def rbind_def Let_def on_thread_def split: sum.splits)
  obtain p1 where p1: "p1 \<in> set (procs (on_proc pid ?g (on_proc pid (upd_thread tid ?f) s)))" "p_ID p1 = pid" "p = upd_thread tid ?h p1"
    using assms(2,3) unfolding s1 by (rule on_proc_member) simp_all
  obtain p2 where p2: "p2 \<in> set (procs (on_proc pid (upd_thread tid ?f) s))" "p_ID p2 = pid" "p1 = ?g p2"
    using p1(1,2) by (rule on_proc_member) simp_all
  obtain p3 where p3: "p2 = upd_thread tid ?f p3"
    using p2(1,2) by (rule on_proc_member) simp_all
  obtain t1 where t1: "t1 \<in> set (p_Threads p1)" "t_ID t1 = tid" "t = ?h t1"
    using assms(4,5) unfolding p1(3) by (rule upd_thread_member) simp_all
  then have "t1 \<in> set (p_Threads (upd_thread tid ?f p3))" unfolding p2(3) p3 by (simp split: if_splits)
  then obtain t2 where "t1 = ?f t2" using t1(2) by (rule upd_thread_member) simp_all
  then show ?thesis unfolding t1(3) by simp
qed

text \<open>
  C21. A thread that loses the CPU keeps its registers. Whatever a scheduler interrupt does, if the thread it
  interrupted still exists afterwards, the registers saved for it are those of the interrupted frame
  (but for the field that says which page table to load) and its floating-point and base registers are
  those the CPU had.
\<close>

theorem interrupted_thread_is_saved:
  assumes "Custom_Schedule e Frame s = Inr (F, s')" "\<not> StopScheduler s"
    and "CurrentProcess s = Some pid" "CurrentThread s = Some tid"
    and "get_proc pid (procs s') = Some p" "PCB_GetThread p tid = Some t"
  shows "(t_Registers t)\<lparr>f_ppt := f_ppt Frame\<rparr> = Frame \<and> t_Context t = cpu_context s"
proof -
  obtain s1 s2 where s1: "Schedule_save Frame pid tid (s\<lparr>LastTaskTicks := e_start e - SchedulerTicks s, LastCore := cpu_ID s\<rparr>) = Inr s1"
    and "later s1 s2" "shrinks (procs s2) (procs s')"
    using assms(1-4) by (elim Schedule_E)
  then have sh: "shrinks (procs s1) (procs s')" by (auto simp: later_def intro: shrinks_trans)
  have p: "p \<in> set (procs s')" "p_ID p = pid" using get_proc_ID [OF assms(5)] by auto
  have t: "t \<in> set (p_Threads p)" "t_ID t = tid" using assms(6) by (auto simp: PCB_GetThread_def find_Some_iff)
  obtain p1 t1 where "p1 \<in> set (procs s1)" "p_ID p1 = pid" "t1 \<in> set (p_Threads p1)" "same_regs t1 t"
    using sh p t(1) unfolding shrinks_def from_threads_def by metis
  moreover from this have "t_Registers t1 = Frame \<and> t_Context t1 = cpu_context s"
    using save_regs [OF s1, of p1 t1] t(2) by (auto simp: same_regs_def)
  ultimately have "(t_Registers t)\<lparr>f_ppt := 0\<rparr> = Frame\<lparr>f_ppt := 0\<rparr>" "t_Context t = cpu_context s"
    by (auto simp: same_regs_def)
  moreover from arg_cong [OF this(1), of "\<lambda>r. r\<lparr>f_ppt := f_ppt Frame\<rparr>"]
  have "(t_Registers t)\<lparr>f_ppt := f_ppt Frame\<rparr> = Frame" by simp
  ultimately show ?thesis by simp
qed

theorem interrupted_thread_is_saved_witness:
  "\<exists>F s' p t. Custom_Schedule env_example frame_zero sched_example = Inr (F, s') \<and> get_proc 1 (procs s') = Some p \<and>
     PCB_GetThread p 11 = Some t \<and> t_Context t = context_zero \<and> (t_Registers t)\<lparr>f_ppt := 0\<rparr> = frame_zero"
proof -
  obtain F s' p t where r: "Custom_Schedule env_example frame_zero sched_example = Inr (F, s')"
    "get_proc 1 (procs s') = Some p" "PCB_GetThread p 11 = Some t"
    using sched_example_runs by blast
  then show ?thesis
    using interrupted_thread_is_saved [OF r(1) _ _ _ r(2,3)] by (auto simp: sched_example_def frame_zero_def)
qed

lemma GetThread_map:
  "(\<And>t. t_ID (g t) = t_ID t) \<Longrightarrow> PCB_GetThread (p\<lparr>p_State := st, p_Threads := map g (p_Threads p)\<rparr>) i = map_option g (PCB_GetThread p i)"
  unfolding PCB_GetThread_def by (simp add: find_map_first)

lemma GetThread_Sleep:
  assumes "PCB_GetThread p tid = Some t"
  shows "\<exists>t'. PCB_GetThread (Task_Sleep tid now ns p) tid = Some t' \<and> t_State t' = Sleeping \<and>
    SleepUntil (t_Info t') = now + ns"
proof -
  define q where "q = (if length (p_Threads (TCB_SetState tid Sleeping p)) = 1
    then PCB_SetState Sleeping (TCB_SetState tid Sleeping p) else TCB_SetState tid Sleeping p)"
  have gs: "PCB_GetThread (p\<lparr>p_State := st\<rparr>) i = PCB_GetThread p i" for p st i by (simp add: PCB_GetThread_def)
  have 1: "PCB_GetThread (TCB_SetState tid Sleeping p) tid = Some (t\<lparr>t_State := Sleeping\<rparr>)"
    using assms by (simp add: TCB_SetState_def Let_def gs GetThread_upd)
  have "PCB_GetThread q tid = Some (t\<lparr>t_State := Sleeping\<rparr>)"
  proof (cases "length (p_Threads (TCB_SetState tid Sleeping p)) = 1")
    case True
    then obtain u where u: "p_Threads (TCB_SetState tid Sleeping p) = [u]" by (auto simp: length_Suc_conv)
    with 1 have "u = t\<lparr>t_State := Sleeping\<rparr>" "t_ID t = tid" by (auto simp: PCB_GetThread_def split: if_splits)
    then show ?thesis using True u by (simp add: q_def PCB_SetState_def Let_def PCB_GetThread_def)
  qed (use 1 in \<open>simp add: q_def\<close>)
  then show ?thesis
    unfolding Task_Sleep_def Let_def q_def [symmetric] by (simp add: GetThread_upd)
qed

lemma each_on_proc:
  assumes "each_res (\<lambda>pid s. rbind (deref_proc s pid) (\<lambda>_. Inr (on_proc pid f s))) pids s = Inr s'"
    and "distinct pids" "get_proc pid (procs s) = Some p" "\<And>p. p_ID (f p) = p_ID p"
  shows "get_proc pid (procs s') = Some (if pid \<in> set pids then f p else p)"
  using assms(1-3)
proof (induction pids arbitrary: s p)
  case (Cons q pids)
  have e: "each_res (\<lambda>pid s. rbind (deref_proc s pid) (\<lambda>_. Inr (on_proc pid f s))) pids (on_proc q f s) = Inr s'"
    using Cons.prems(1) by (auto simp: rbind_def split: sum.splits)
  have "get_proc pid (procs (on_proc q f s)) = Some (if pid = q then f p else p)"
    using Cons.prems(3) by (auto simp: get_on_proc assms(4))
  from Cons.IH [OF e _ this] Cons.prems(2) show ?case by auto
qed simp

text \<open>
  C22. A sleeping thread wakes up, and not before its time. Let \<open>Sleep\<close> be called at \<open>now\<close>, without overflow of the
  clock, and threads be woken at a time \<open>clk\<close> while the process is in the list and \<open>Ready\<close>, \<open>Sleeping\<close> or \<open>Blocked\<close>.
  Then the thread is \<open>Ready\<close> if the end of the sleep is past and \<open>Sleeping\<close> otherwise, and a process with a thread
  that woke is not \<open>Sleeping\<close>.
\<close>

theorem sleeping_thread_wakes:
  assumes "PCB_GetThread p tid \<noteq> None" "unat now + unat ns < 2 ^ 64"
    and "get_proc pid (procs s) = Some ((Task_Sleep tid now ns p)\<lparr>p_State := st\<rparr>)" "st \<in> {Ready, Sleeping, Blocked}"
    and "distinct (ProcessList s)" "pid \<in> set (ProcessList s)" "Custom_WakeUpThreads (\<lambda>_. clk) s = Inr s'"
  shows "\<exists>p' t. get_proc pid (procs s') = Some p' \<and> PCB_GetThread p' tid = Some t \<and>
    (if unat now + unat ns < unat clk then t_State t = Ready \<and> p_State p' \<noteq> Sleeping else t_State t = Sleeping)"
proof -
  let ?q = "(Task_Sleep tid now ns p)\<lparr>p_State := st\<rparr>"
  let ?g = "\<lambda>t. if wakes (\<lambda>_. clk) t then t\<lparr>t_State := Ready, t_Info := (t_Info t)\<lparr>SleepUntil := 0\<rparr>\<rparr> else t"
  obtain t' where t': "PCB_GetThread (Task_Sleep tid now ns p) tid = Some t'" "t_State t' = Sleeping" "SleepUntil (t_Info t') = now + ns"
    using GetThread_Sleep assms(1) by blast
  then have q: "PCB_GetThread ?q tid = Some t'" by (simp add: PCB_GetThread_def)
  have "p_ID (wake_up now' p) = p_ID p" for now' p by (simp add: wake_up_def Let_def)
  then have w: "get_proc pid (procs s') = Some (wake_up (\<lambda>_. clk) ?q)"
    using each_on_proc [OF assms(7) [unfolded Custom_WakeUpThreads_def] assms(5,3)] assms(6) by simp
  have wq: "wake_up (\<lambda>_. clk) ?q = ?q\<lparr>p_State := (if st = Sleeping \<and> list_ex (wakes (\<lambda>_. clk)) (p_Threads ?q) then Ready else st),
      p_Threads := map ?g (p_Threads ?q)\<rparr>"
    using assms(4) by (auto simp: wake_up_def Let_def)
  have g: "PCB_GetThread (wake_up (\<lambda>_. clk) ?q) tid = Some (?g t')"
    unfolding wq using GetThread_map [of ?g ?q] q by simp
  have "now + ns < clk \<longleftrightarrow> unat now + unat ns < unat clk"
    using assms(2) by (simp add: word_less_nat_alt unat_add_less)
  then have wk: "wakes (\<lambda>_. clk) t' \<longleftrightarrow> unat now + unat ns < unat clk" using t' by (simp add: wakes_def)
  moreover have "t' \<in> set (p_Threads ?q)" using q by (auto simp: PCB_GetThread_def find_Some_iff)
  ultimately have "unat now + unat ns < unat clk \<Longrightarrow> list_ex (wakes (\<lambda>_. clk)) (p_Threads ?q)"
    by (auto simp: list_ex_iff)
  then have "unat now + unat ns < unat clk \<Longrightarrow> p_State (wake_up (\<lambda>_. clk) ?q) \<noteq> Sleeping" unfolding wq by simp
  with w g wk t'(2) show ?thesis by auto
qed

definition sleep_example :: scheduler where
  "sleep_example = sched_example\<lparr>procs := [(Task_Sleep 11 100 50 (hd (procs sched_example)))\<lparr>p_State := Ready\<rparr>,
     proc_example 2 Signal_new]\<rparr>"

theorem sleeping_thread_wakes_witness:
  "\<exists>s' p' t. Custom_WakeUpThreads (\<lambda>_. 151) sleep_example = Inr s' \<and> get_proc 1 (procs s') = Some p' \<and>
     PCB_GetThread p' 11 = Some t \<and> t_State t = Ready"
proof -
  have "\<exists>s'. Custom_WakeUpThreads (\<lambda>_. 151) sleep_example = Inr s'"
    by (simp add: sleep_example_def Task_Sleep_def TCB_SetState_def PCB_SetState_def sched_eval)
  then obtain s' where r: "Custom_WakeUpThreads (\<lambda>_. 151) sleep_example = Inr s'" ..
  moreover have "PCB_GetThread (hd (procs sched_example)) 11 \<noteq> None"
    by (simp add: sched_example_def PCB_GetThread_def thread_example_def)
  moreover have "get_proc 1 (procs sleep_example) = Some ((Task_Sleep 11 100 50 (hd (procs sched_example)))\<lparr>p_State := Ready\<rparr>)"
    by (simp add: sleep_example_def Task_Sleep_def TCB_SetState_def PCB_SetState_def sched_eval)
  moreover have "distinct (ProcessList sleep_example)" "1 \<in> set (ProcessList sleep_example)"
    by (simp_all add: sleep_example_def sched_example_def)
  ultimately show ?thesis
    using sleeping_thread_wakes [of "hd (procs sched_example)" 11 100 50 1 sleep_example Ready 151 s'] by auto
qed

end
