(* ===== verification/SchedulerFindings.thy ===== *)
theory SchedulerFindings
  imports SchedulerProofs
begin

section \<open>What the scheduler does with deleted processes\<close>

text \<open>
  \<open>Schedule\<close> deletes terminated processes before it chooses a thread, and the process it interrupted may be
  one of them. The lemmas follow the deletion through the cleanup and what comes after it.
\<close>

definition state_of :: "scheduler \<Rightarrow> int \<Rightarrow> TaskState option" where
  "state_of s pid = map_option p_State (get_proc pid (procs s))"

lemma state_of_on_proc:
  assumes "\<And>p. p_ID (f p) = p_ID p" "\<And>p. p_State (f p) = h (p_State p)"
  shows "state_of (on_proc pid f s) q = (if q = pid then map_option h (state_of s q) else state_of s q)"
  using get_on_proc [of f q pid s] assms by (simp add: state_of_def option.map_comp comp_def)

lemma state_of_on_thread [simp]: "state_of (on_thread pid tid f s) = state_of s"
  using state_of_on_proc [of "upd_thread tid f" "\<lambda>x. x" pid s] by (auto simp: on_thread_def option.map_ident)

lemma later_None:
  assumes "later s s'" "get_proc pid (procs s) = None"
  shows "get_proc pid (procs s') = None"
proof (rule ccontr)
  assume "get_proc pid (procs s') \<noteq> None"
  then obtain p where "p \<in> set (procs s')" "p_ID p = pid" using get_proc_ID by blast
  then obtain q where "q \<in> set (procs s)" "p_ID q = pid"
    using assms(1) unfolding later_def shrinks_def from_threads_def by metis
  then show False using assms(2) by (auto simp: get_proc_def find_None_iff)
qed

lemma delete_PCB_gone:
  assumes "delete_PCB pid s = Inr s'"
  shows "get_proc pid (procs s') = None"
  using assms by (auto simp: delete_PCB_def rbind_def Let_def get_proc_def find_None_iff split: sum.splits)

lemma delete_TCB_state: "delete_TCB pid tid s = Inr s' \<Longrightarrow> state_of s' = state_of s"
  by (auto simp: delete_TCB_def rbind_def state_of_def get_on_proc option.map_comp comp_def split: sum.splits intro!: ext)

lemma terminated_threads_state:
  assumes "terminated_threads pid s = Inr s'"
  shows "state_of s' = state_of s"
proof -
  let ?P = "\<lambda>(slots, s'). state_of s' = state_of s"
  obtain slots where "each_res (\<lambda>i (slots, s).
         rbind (deref_thread s pid (slots ! i)) (\<lambda>t.
         if t_State t = Terminated
         then rbind (Custom_RemoveThread pid (t_ID t) s) (\<lambda>s. Inr (reslot (tids pid s) slots, s))
         else Inr (slots, s)))
       [0..<length (tids pid s)] (tids pid s, s) = Inr (slots, s')"
    using assms unfolding terminated_threads_def by (auto simp: rbind_def split: sum.splits)
  then have "?P (slots, s')"
    by (rule each_res_keeps [where P = ?P])
      (auto simp: rbind_def Custom_RemoveThread_def split: sum.splits if_splits dest!: delete_TCB_state)
  then show ?thesis by simp
qed

abbreviation (input) cleanup_step :: "nat \<Rightarrow> int list \<times> scheduler \<Rightarrow> (int list \<times> scheduler) res" where
  "cleanup_step \<equiv> \<lambda>i (slots, s).
     rbind (deref_proc s (slots ! i)) (\<lambda>p.
     if p_State p = Terminated
     then rbind (delete_PCB (slots ! i) s) (\<lambda>s. Inr (reslot (ProcessList s) slots, s))
     else rbind (terminated_threads (slots ! i) s) (\<lambda>s. Inr (slots, s)))"

lemma each_res_append: "each_res f (xs @ ys) s = rbind (each_res f xs s) (each_res f ys)"
  by (induction xs arbitrary: s) (auto simp: rbind_def split: sum.splits)

lemma cleanup_keeps:
  assumes "each_res cleanup_step js (slots, s) = Inr (slots', s')" "\<forall>i \<in> set js. state_of s (slots ! i) \<noteq> Some Terminated"
  shows "slots' = slots \<and> state_of s' = state_of s"
  using assms
proof (induction js arbitrary: s)
  case (Cons i js)
  obtain p where p: "get_proc (slots ! i) (procs s) = Some p"
    using Cons.prems(1) by (auto simp: rbind_def deref_proc_def split: option.splits)
  then have "p_State p \<noteq> Terminated" using Cons.prems(2) by (simp add: state_of_def)
  then obtain u where u: "terminated_threads (slots ! i) s = Inr u" "each_res cleanup_step js (slots, u) = Inr (slots', s')"
    using Cons.prems(1) p by (auto simp: rbind_def deref_proc_def split: sum.splits)
  then show ?case using Cons.IH [OF u(2)] Cons.prems(2) terminated_threads_state [OF u(1)] by simp
qed simp

lemma cleanup_deletes:
  assumes "Custom_CleanupTerminated s = Inr s'" "ProcessList s = before @ pid # behind"
    and "state_of s pid = Some Terminated" "\<forall>q \<in> set before. state_of s q \<noteq> Some Terminated"
  shows "get_proc pid (procs s') = None"
proof -
  let ?n = "length before" and ?N = "length (ProcessList s)"
  obtain slots where "each_res cleanup_step [0..<?N] (ProcessList s, s) = Inr (slots, s')"
    using assms(1) unfolding Custom_CleanupTerminated_def by (auto simp: rbind_def split: sum.splits)
  moreover have "[0..<?N] = [0..<?n] @ ?n # [Suc ?n..<?N]"
    using upt_add_eq_append [of 0 ?n "Suc (length behind)"] upt_conv_Cons [of ?n "?n + Suc (length behind)"] assms(2)
    by simp
  ultimately obtain a where a: "each_res cleanup_step [0..<?n] (ProcessList s, s) = Inr a"
    and r: "each_res cleanup_step (?n # [Suc ?n..<?N]) a = Inr (slots, s')"
    by (auto simp: each_res_append rbind_def split: sum.splits)
  have "\<forall>i \<in> set [0..<?n]. state_of s (ProcessList s ! i) \<noteq> Some Terminated"
    using assms(2,4) by (simp add: nth_append)
  with a have fa: "fst a = ProcessList s" and "state_of (snd a) = state_of s"
    using cleanup_keeps [of "[0..<?n]" "ProcessList s" s "fst a" "snd a"] by auto
  then have "state_of (snd a) pid = Some Terminated" using assms(3) by simp
  then obtain p where p: "get_proc pid (procs (snd a)) = Some p" "p_State p = Terminated"
    by (auto simp: state_of_def)
  have "fst a ! ?n = pid" using fa assms(2) by simp
  then obtain u where u: "delete_PCB pid (snd a) = Inr u"
    "each_res cleanup_step [Suc ?n..<?N] (reslot (ProcessList u) (fst a), u) = Inr (slots, s')"
    using r p by (cases a) (auto simp: rbind_def deref_proc_def split: sum.splits)
  have "later u s'"
    by (rule later_each [OF u(2)])
      (auto simp: rbind_def split: sum.splits if_splits intro: terminated_threads_later delete_process_later)
  then show ?thesis using delete_PCB_gone [OF u(1)] later_None by simp
qed

lemma prepare_deletes:
  assumes "Schedule_prepare e Frame pid tid s = Inr s'" "ProcessList s = before @ pid # behind"
    and "state_of s pid = Some Terminated" "\<forall>q \<in> set before. state_of s q \<noteq> Some Terminated"
  shows "get_proc pid (procs s') = None"
proof -
  obtain s1 s2 s3 where s: "Schedule_save Frame pid tid s = Inr s1" "Custom_CleanupTerminated s1 = Inr s2"
    "Custom_UpdateProcessState s2 = Inr s3" "Custom_WakeUpThreads (e_wake e) s3 = Inr s'"
    using assms(1) by (auto simp: Schedule_prepare_def rbind_def split: sum.splits)
  obtain r where s1: "s1 = on_thread pid tid (\<lambda>t. if t_State t = Running then t\<lparr>t_State := Ready\<rparr> else t)
      (on_proc pid (\<lambda>p. if p_State p = Running then p\<lparr>p_State := Ready\<rparr> else p) (on_thread pid tid r s))"
    using s(1) by (auto simp: Schedule_save_def rbind_def Let_def split: sum.splits)
  have "state_of s1 q = state_of s q" for q
    using assms(3) unfolding s1 by (simp add: state_of_on_proc [where h = "\<lambda>x. if x = Running then Ready else x"])
  moreover have "ProcessList s1 = ProcessList s" by (simp add: s1)
  ultimately have "get_proc pid (procs s2) = None"
    using cleanup_deletes [OF s(2), of before pid behind] assms(2-4) by auto
  moreover have "later s2 s3" using s(3) from_update_state unfolding Custom_UpdateProcessState_def by (rule each_later)
  moreover have "later s3 s'" using s(4) from_wake_up unfolding Custom_WakeUpThreads_def by (rule each_later)
  ultimately show ?thesis using later_None by blast
qed

text \<open>
  C24. A scheduler interrupt that finds the process it interrupted \<open>Terminated\<close>, with no terminated process in
  front of it in the list, uses the process after deleting it. When the cleanup before the choice of a
  thread returns, it has deleted the process, and the interrupt then reads it through \<open>CurrentProcess\<close>,
  which still points to it: the outcome is an access to a deleted process, whether a thread is chosen
  anew or the interrupted one is to be continued.
\<close>

theorem terminated_current_process_is_used_after_deletion:
  assumes "\<not> StopScheduler s" "CurrentProcess s = Some pid" "CurrentThread s = Some tid"
    and "ProcessList s = before @ pid # behind" "state_of s pid = Some Terminated"
    and "\<forall>q \<in> set before. state_of s q \<noteq> Some Terminated"
    and p: "Schedule_prepare e Frame pid tid (s\<lparr>LastTaskTicks := e_start e - SchedulerTicks s, LastCore := cpu_ID s\<rparr>) = Inr s2"
  shows "get_proc pid (procs s2) = None \<and> CurrentProcess s2 = Some pid \<and> Custom_Schedule e Frame s = Inl DanglingPointer"
proof -
  let ?s = "s\<lparr>LastTaskTicks := e_start e - SchedulerTicks s, LastCore := cpu_ID s\<rparr>"
  have "state_of ?s = state_of s" by (simp add: state_of_def fun_eq_iff)
  then have gone: "get_proc pid (procs s2) = None" using prepare_deletes [OF p] assms(4-6) by simp
  obtain s1 where "Schedule_save Frame pid tid ?s = Inr s1" "later s1 s2" using Schedule_prepare_later [OF p] .
  then have cur: "CurrentProcess s2 = Some pid" and thr: "CurrentThread s2 = Some tid"
    using assms(2,3) by (auto simp: later_def sched_frame_def Schedule_save_def rbind_def Let_def split: sum.splits)
  have g: "Custom_GetNextAvailableThread s2 = Inl DanglingPointer"
    using gone cur thr by (auto simp: Custom_GetNextAvailableThread_def rbind_def the_ptr_def deref_proc_def)
  let ?u = "on_thread pid tid (t_State_update (\<lambda>_. Running)) (on_proc pid (p_State_update (\<lambda>_. Running)) (s2\<lparr>SchedulerUpdateTrapFrame := False\<rparr>))"
  have "get_proc pid (procs ?u) = None" using gone by (simp add: on_thread_def get_on_proc)
  then have "deref_thread ?u pid tid = Inl DanglingPointer" by (simp add: deref_thread_def deref_proc_def rbind_def)
  with g p gone cur assms(1-3) show ?thesis
    by (auto simp: Custom_Schedule_def Schedule_choose_def rbind_def Let_def)
qed

lemma killed_example_is_cleaned:
  "\<exists>s2. Schedule_prepare env_example frame_zero 1 11 ((Task_KillProcess 1 0 sched_example)
      \<lparr>LastTaskTicks := e_start env_example - SchedulerTicks (Task_KillProcess 1 0 sched_example),
       LastCore := cpu_ID (Task_KillProcess 1 0 sched_example)\<rparr>) = Inr s2"
  by (simp add: Task_KillProcess_def PCB_SetState_def PCB_SetExitCode_def sched_eval
      delete_PCB_def delete_TCB_def delete_threads_def leave_parent_def Custom_PopProcess_def)

theorem terminated_current_process_is_used_after_deletion_witness:
  "\<exists>s2 :: scheduler. get_proc 1 (procs s2) = None \<and> CurrentProcess s2 = Some 1 \<and>
     Custom_Schedule env_example frame_zero (Task_KillProcess 1 0 sched_example) = Inl DanglingPointer"
proof -
  obtain s2 where p: "Schedule_prepare env_example frame_zero 1 11 ((Task_KillProcess 1 0 sched_example)
      \<lparr>LastTaskTicks := e_start env_example - SchedulerTicks (Task_KillProcess 1 0 sched_example),
       LastCore := cpu_ID (Task_KillProcess 1 0 sched_example)\<rparr>) = Inr s2"
    using killed_example_is_cleaned by blast
  have "get_proc 1 (procs s2) = None \<and> CurrentProcess s2 = Some 1 \<and>
     Custom_Schedule env_example frame_zero (Task_KillProcess 1 0 sched_example) = Inl DanglingPointer"
    by (rule terminated_current_process_is_used_after_deletion [where before = "[]" and behind = "[2]", OF _ _ _ _ _ _ p])
      (simp_all add: Task_KillProcess_def PCB_SetState_def PCB_SetExitCode_def state_of_def sched_eval)
  then show ?thesis by blast
qed

text \<open>
  The loop of the cleanup erases from the vector it goes through. With three terminated processes the
  second is skipped, and the last slot still holds the third when the loop reaches it after deleting it.
\<close>

lemma cleanup_reads_a_deleted_process:
  "Custom_CleanupTerminated (sched_example\<lparr>ProcessList := [1, 2, 3],
     procs := map (\<lambda>pid. (proc_example pid Signal_new)\<lparr>p_State := Terminated, p_Threads := []\<rparr>) [1, 2, 3]\<rparr>) =
   Inl DanglingPointer"
  by (simp add: sched_eval delete_PCB_def delete_threads_def leave_parent_def Custom_PopProcess_def)

end
