(* ===== verification/Cwalk.thy ===== *)
theory Cwalk
  imports Prelude
begin

section \<open>Paths: the library cwalk\<close>

text \<open>
  A model of src/Kernel/library/cwalk.c (interface src/Kernel/include/cwalk.h), with which the virtual file
  system splits, joins and normalises paths.
  \<^item> A C string is the list of its characters without the terminator; \<open>char_at\<close> reads the terminator at its
    end. A pointer into a path is an index, as in the record \<open>cwk_segment\<close>.
  \<^item> The path style, which the code reads from the thread, is the parameter \<open>st\<close>.
  \<^item> A buffer is the list of its \<open>buffer_size\<close> characters; an operation that writes to one returns its new
    contents. The buffer does not overlap the paths.
  \<^item> A failing \<open>assert\<close> is the fault \<open>AssertFailed\<close>.
\<close>

datatype cwk_segment_type = CWK_NORMAL | CWK_CURRENT | CWK_BACK

datatype cwk_path_style = CWK_STYLE_WINDOWS | CWK_STYLE_UNIX

record cwk_segment =
  s_path :: string
  s_segments :: nat
  s_begin :: nat
  s_end :: nat
  s_size :: nat

record cwk_segment_joined =
  j_segment :: cwk_segment
  j_paths :: "string list"
  j_index :: nat

abbreviation (input) NUL :: char where "NUL \<equiv> CHR 0x00"

definition char_at :: "string \<Rightarrow> nat \<Rightarrow> char" where
  "char_at s i = (if i < length s then s ! i else NUL)"

subsection \<open>Characters and strings\<close>

fun separators :: "cwk_path_style \<Rightarrow> string" where
  "separators CWK_STYLE_WINDOWS = [CHR 0x5C, CHR ''/'']"
| "separators CWK_STYLE_UNIX = ''/''"

definition cwk_path_is_separator :: "cwk_path_style \<Rightarrow> char \<Rightarrow> bool" where
  "cwk_path_is_separator st c \<longleftrightarrow> c \<in> set (separators st)"

definition tolower :: "char \<Rightarrow> char" where
  "tolower c =
     (let n = of_char c :: nat in
      if of_char (CHR ''A'') \<le> n \<and> n \<le> of_char (CHR ''Z'') then char_of (n + 0x20) else c)"

fun strncmp_equal :: "string \<Rightarrow> string \<Rightarrow> nat \<Rightarrow> bool" where
  "strncmp_equal s1 s2 0 = True"
| "strncmp_equal s1 s2 (Suc n) =
     (if char_at s1 0 \<noteq> char_at s2 0 then False
      else if char_at s1 0 = NUL then True
      else strncmp_equal (tl s1) (tl s2) n)"

fun windows_equal :: "string \<Rightarrow> string \<Rightarrow> nat \<Rightarrow> bool" where
  "windows_equal (a # first) (b # second) (Suc n) =
     (let are_both_separators = cwk_path_is_separator CWK_STYLE_WINDOWS a \<and> cwk_path_is_separator CWK_STYLE_WINDOWS b in
      if tolower a \<noteq> tolower b \<and> \<not> are_both_separators then False
      else windows_equal first second n)"
| "windows_equal _ _ _ = True"

definition cwk_path_is_string_equal :: "cwk_path_style \<Rightarrow> string \<Rightarrow> string \<Rightarrow> nat \<Rightarrow> nat \<Rightarrow> bool" where
  "cwk_path_is_string_equal st first second first_size second_size =
     (if first_size \<noteq> second_size then False
      else if st = CWK_STYLE_UNIX then strncmp_equal first second first_size
      else windows_equal first second first_size)"

subsection \<open>Output\<close>

definition memmove_at :: "string \<Rightarrow> nat \<Rightarrow> string \<Rightarrow> string" where
  "memmove_at buffer pos xs = take pos buffer @ xs @ drop (pos + length xs) buffer"

definition cwk_path_output_sized :: "string \<Rightarrow> nat \<Rightarrow> string \<Rightarrow> nat \<Rightarrow> nat \<times> string" where
  "cwk_path_output_sized buffer position str n =
     (let buffer_size = length buffer;
          amount_written = (if buffer_size > position + n then n
                            else if buffer_size > position then buffer_size - position else 0) in
      (n, if amount_written > 0 then memmove_at buffer position (take amount_written str) else buffer))"

definition cwk_path_output_current :: "string \<Rightarrow> nat \<Rightarrow> nat \<times> string" where
  "cwk_path_output_current buffer position = cwk_path_output_sized buffer position ''.'' 1"

definition cwk_path_output_back :: "string \<Rightarrow> nat \<Rightarrow> nat \<times> string" where
  "cwk_path_output_back buffer position = cwk_path_output_sized buffer position ''..'' 2"

definition cwk_path_output_separator :: "cwk_path_style \<Rightarrow> string \<Rightarrow> nat \<Rightarrow> nat \<times> string" where
  "cwk_path_output_separator st buffer position = cwk_path_output_sized buffer position (separators st) 1"

definition cwk_path_output_dot :: "string \<Rightarrow> nat \<Rightarrow> nat \<times> string" where
  "cwk_path_output_dot buffer position = cwk_path_output_sized buffer position ''.'' 1"

definition cwk_path_output :: "string \<Rightarrow> nat \<Rightarrow> string \<Rightarrow> nat \<times> string" where
  "cwk_path_output buffer position str = cwk_path_output_sized buffer position str (length str)"

definition cwk_path_terminate_output :: "string \<Rightarrow> nat \<Rightarrow> string" where
  "cwk_path_terminate_output buffer pos =
     (if length buffer > 0
      then if pos \<ge> length buffer then buffer[length buffer - 1 := NUL] else buffer[pos := NUL]
      else buffer)"

subsection \<open>Moving in a path\<close>

function cwk_path_find_next_stop :: "cwk_path_style \<Rightarrow> string \<Rightarrow> nat \<Rightarrow> nat" where
  "cwk_path_find_next_stop st p c =
     (if char_at p c \<noteq> NUL \<and> \<not> cwk_path_is_separator st (char_at p c)
      then cwk_path_find_next_stop st p (Suc c) else c)"
  by auto
termination by (relation "measure (\<lambda>(_, p, c). length p - c)") (auto simp: char_at_def split: if_splits)

fun cwk_path_find_previous_stop :: "cwk_path_style \<Rightarrow> string \<Rightarrow> nat \<Rightarrow> nat \<Rightarrow> nat" where
  "cwk_path_find_previous_stop st p first c =
     (if c > first \<and> \<not> cwk_path_is_separator st (char_at p c)
      then cwk_path_find_previous_stop st p first (c - 1)
      else if cwk_path_is_separator st (char_at p c) then c + 1 else c)"

text \<open>\<open>while (cwk_path_is_separator(c)) ++c;\<close>\<close>

function skip_separators :: "cwk_path_style \<Rightarrow> string \<Rightarrow> nat \<Rightarrow> nat" where
  "skip_separators st p c =
     (if cwk_path_is_separator st (char_at p c) then skip_separators st p (Suc c) else c)"
  by auto

lemma NUL_no_separator [simp]: "\<not> cwk_path_is_separator st NUL"
  by (cases st) (simp_all add: cwk_path_is_separator_def)

termination skip_separators
  by (relation "measure (\<lambda>(_, p, c). length p - c)") (auto simp: char_at_def split: if_splits)

declare cwk_path_find_next_stop.simps [simp del] cwk_path_find_previous_stop.simps [simp del] skip_separators.simps [simp del]

definition cwk_path_get_first_segment_without_root ::
    "cwk_path_style \<Rightarrow> string \<Rightarrow> nat \<Rightarrow> bool \<times> cwk_segment" where
  "cwk_path_get_first_segment_without_root st path segments =
     (let segment = \<lparr>s_path = path, s_segments = segments, s_begin = segments, s_end = segments, s_size = 0\<rparr> in
      if char_at path segments = NUL then (False, segment)
      else
        let c = skip_separators st path segments in
        if char_at path c = NUL then (False, segment)
        else
          let e = cwk_path_find_next_stop st path c in
          (True, segment\<lparr>s_begin := c, s_size := e - c, s_end := e\<rparr>))"

definition cwk_path_get_next_segment :: "cwk_path_style \<Rightarrow> cwk_segment \<Rightarrow> (bool \<times> cwk_segment) res" where
  "cwk_path_get_next_segment st segment =
     (let p = s_path segment; c = s_begin segment + s_size segment in
      if char_at p c = NUL then Inr (False, segment)
      else if \<not> cwk_path_is_separator st (char_at p c) then Inl AssertFailed
      else
        let c = skip_separators st p (Suc c) in
        if char_at p c = NUL then Inr (False, segment)
        else
          let e = cwk_path_find_next_stop st p c in
          Inr (True, segment\<lparr>s_begin := c, s_end := e, s_size := e - c\<rparr>))"

text \<open>
  The loop of \<open>cwk_path_get_previous_segment\<close>: the last index before \<open>c\<close>, from \<open>first\<close> on, that holds no separator.
\<close>

fun back_over_separators :: "cwk_path_style \<Rightarrow> string \<Rightarrow> nat \<Rightarrow> nat \<Rightarrow> nat option" where
  "back_over_separators st p first 0 = None"
| "back_over_separators st p first (Suc c) =
     (if c < first then None
      else if cwk_path_is_separator st (char_at p c) then back_over_separators st p first c else Some c)"

definition cwk_path_get_previous_segment :: "cwk_path_style \<Rightarrow> cwk_segment \<Rightarrow> bool \<times> cwk_segment" where
  "cwk_path_get_previous_segment st segment =
     (let p = s_path segment in
      if s_begin segment \<le> s_segments segment then (False, segment)
      else
        case back_over_separators st p (s_segments segment) (s_begin segment) of
          None \<Rightarrow> (False, segment)
        | Some c \<Rightarrow>
            let b = cwk_path_find_previous_stop st p (s_segments segment) c in
            (True, segment\<lparr>s_end := c + 1, s_begin := b, s_size := c + 1 - b\<rparr>))"

definition cwk_path_get_segment_type :: "cwk_segment \<Rightarrow> cwk_segment_type" where
  "cwk_path_get_segment_type segment =
     (let content = drop (s_begin segment) (s_path segment) in
      if strncmp_equal content ''.'' (s_size segment) then CWK_CURRENT
      else if strncmp_equal content ''..'' (s_size segment) then CWK_BACK
      else CWK_NORMAL)"


subsection \<open>Roots\<close>

definition cwk_path_get_root_windows :: "cwk_path_style \<Rightarrow> string \<Rightarrow> nat" where
  "cwk_path_get_root_windows st path =
     (let sep = (\<lambda>c. cwk_path_is_separator st (char_at path c)) in
      if char_at path 0 = NUL then 0
      else if sep 0 then
        if \<not> sep 1 then 1
        else
          let mark = char_at path 2 \<in> {CHR ''?'', CHR ''.''};
              c = (if mark then 3 else 2) in
          if mark \<and> sep 3 then 4
          else
            let c = cwk_path_find_next_stop st path c;
                c = skip_separators st path c;
                c = cwk_path_find_next_stop st path c in
            if sep c then c + 1 else c
      else if char_at path 1 = CHR '':'' then if sep 2 then 3 else 2
      else 0)"

definition cwk_path_get_root_unix :: "string \<Rightarrow> nat" where
  "cwk_path_get_root_unix path = (if cwk_path_is_separator CWK_STYLE_UNIX (char_at path 0) then 1 else 0)"

definition cwk_path_get_root :: "cwk_path_style \<Rightarrow> string \<Rightarrow> nat" where
  "cwk_path_get_root st path =
     (if st = CWK_STYLE_WINDOWS then cwk_path_get_root_windows st path else cwk_path_get_root_unix path)"

definition cwk_path_is_root_absolute :: "cwk_path_style \<Rightarrow> string \<Rightarrow> nat \<Rightarrow> bool" where
  "cwk_path_is_root_absolute st path n \<longleftrightarrow> n \<noteq> 0 \<and> cwk_path_is_separator st (char_at path (n - 1))"

definition cwk_path_is_absolute :: "cwk_path_style \<Rightarrow> string \<Rightarrow> bool" where
  "cwk_path_is_absolute st path = cwk_path_is_root_absolute st path (cwk_path_get_root st path)"

definition cwk_path_is_relative :: "cwk_path_style \<Rightarrow> string \<Rightarrow> bool" where
  "cwk_path_is_relative st path \<longleftrightarrow> \<not> cwk_path_is_absolute st path"

definition cwk_path_fix_root :: "cwk_path_style \<Rightarrow> string \<Rightarrow> nat \<Rightarrow> string" where
  "cwk_path_fix_root st buffer n =
     (if st \<noteq> CWK_STYLE_WINDOWS then buffer
      else map (\<lambda>c. if cwk_path_is_separator st c then hd (separators CWK_STYLE_WINDOWS) else c) (take n buffer) @
        drop n buffer)"

subsection \<open>First and last segment\<close>

definition cwk_path_get_first_segment :: "cwk_path_style \<Rightarrow> string \<Rightarrow> bool \<times> cwk_segment" where
  "cwk_path_get_first_segment st path =
     cwk_path_get_first_segment_without_root st path (cwk_path_get_root st path)"

lemma skip_separators_ge: "c \<le> skip_separators st p c"
  by (induction st p c rule: skip_separators.induct) (metis Suc_leD eq_refl skip_separators.simps)

lemma next_segment_moves:
  assumes "cwk_path_get_next_segment st segment = Inr (True, segment')"
  shows "s_path segment' = s_path segment" "s_segments segment' = s_segments segment"
    "s_begin segment < s_begin segment'" "s_begin segment' < length (s_path segment)"
proof -
  let ?c = "skip_separators st (s_path segment) (Suc (s_begin segment + s_size segment))"
  show "s_path segment' = s_path segment" "s_segments segment' = s_segments segment"
    using assms by (auto simp: cwk_path_get_next_segment_def Let_def split: if_splits)
  have "s_begin segment' = ?c" "char_at (s_path segment) ?c \<noteq> NUL"
    using assms by (auto simp: cwk_path_get_next_segment_def Let_def split: if_splits)
  then show "s_begin segment < s_begin segment'" "s_begin segment' < length (s_path segment)"
    using skip_separators_ge [of "Suc (s_begin segment + s_size segment)" st "s_path segment"]
    by (auto simp: char_at_def split: if_splits)
qed

text \<open>\<open>while (cwk_path_get_next_segment(segment));\<close>\<close>

function go_to_last_segment :: "cwk_path_style \<Rightarrow> cwk_segment \<Rightarrow> cwk_segment res" where
  "go_to_last_segment st segment =
     (case cwk_path_get_next_segment st segment of
        Inl f \<Rightarrow> Inl f
      | Inr (found, segment') \<Rightarrow> if found then go_to_last_segment st segment' else Inr segment')"
  by auto
termination
proof (relation "measure (\<lambda>(_, segment). length (s_path segment) - s_begin segment)", goal_cases)
  case (2 st segment b found segment')
  then have "cwk_path_get_next_segment st segment = Inr (True, segment')" by simp
  from next_segment_moves [OF this] show ?case by simp
qed simp

declare go_to_last_segment.simps [simp del]

definition cwk_path_get_last_segment_without_root :: "cwk_path_style \<Rightarrow> string \<Rightarrow> (bool \<times> cwk_segment) res" where
  "cwk_path_get_last_segment_without_root st path =
     (case cwk_path_get_first_segment_without_root st path 0 of
        (found, segment) \<Rightarrow>
          if \<not> found then Inr (False, segment)
          else rbind (go_to_last_segment st segment) (\<lambda>segment. Inr (True, segment)))"

definition cwk_path_get_last_segment :: "cwk_path_style \<Rightarrow> string \<Rightarrow> (bool \<times> cwk_segment) res" where
  "cwk_path_get_last_segment st path =
     (case cwk_path_get_first_segment st path of
        (found, segment) \<Rightarrow>
          if \<not> found then Inr (False, segment)
          else rbind (go_to_last_segment st segment) (\<lambda>segment. Inr (True, segment)))"

subsection \<open>Joined paths\<close>

text \<open>
  A list of paths as one: \<open>j_index\<close> is the path the segment belongs to. The structure of the caller is not
  initialised; the search for the first segment sets its segment before anything reads it.
\<close>

function first_segment_joined_loop :: "cwk_path_style \<Rightarrow> cwk_segment_joined \<Rightarrow> bool \<times> cwk_segment_joined" where
  "first_segment_joined_loop st sj =
     (if j_index sj < length (j_paths sj) then
        case cwk_path_get_first_segment st (j_paths sj ! j_index sj) of
          (found, segment) \<Rightarrow>
            if found then (True, sj\<lparr>j_segment := segment\<rparr>)
            else first_segment_joined_loop st (sj\<lparr>j_segment := segment, j_index := Suc (j_index sj)\<rparr>)
      else (False, sj))"
  by auto
termination by (relation "measure (\<lambda>(_, sj). length (j_paths sj) - j_index sj)") auto

declare first_segment_joined_loop.simps [simp del]

definition cwk_path_get_first_segment_joined ::
    "cwk_path_style \<Rightarrow> string list \<Rightarrow> bool \<times> cwk_segment_joined" where
  "cwk_path_get_first_segment_joined st paths =
     first_segment_joined_loop st
       \<lparr>j_segment = \<lparr>s_path = [], s_segments = 0, s_begin = 0, s_end = 0, s_size = 0\<rparr>, j_paths = paths, j_index = 0\<rparr>"

function next_path_loop :: "cwk_path_style \<Rightarrow> cwk_segment_joined \<Rightarrow> bool \<times> cwk_segment_joined" where
  "next_path_loop st sj =
     (let sj = sj\<lparr>j_index := Suc (j_index sj)\<rparr> in
      if j_index sj < length (j_paths sj) then
        case cwk_path_get_first_segment_without_root st (j_paths sj ! j_index sj) 0 of
          (found, segment) \<Rightarrow>
            let sj = sj\<lparr>j_segment := segment\<rparr> in
            if found then (True, sj) else next_path_loop st sj
      else (False, sj))"
  by auto
termination by (relation "measure (\<lambda>(_, sj). length (j_paths sj) - j_index sj)") auto

declare next_path_loop.simps [simp del]

definition cwk_path_get_next_segment_joined ::
    "cwk_path_style \<Rightarrow> cwk_segment_joined \<Rightarrow> (bool \<times> cwk_segment_joined) res" where
  "cwk_path_get_next_segment_joined st sj =
     (if j_index sj \<ge> length (j_paths sj) then Inr (False, sj)
      else
        rbind (cwk_path_get_next_segment st (j_segment sj)) (\<lambda>(found, segment).
        if found then Inr (True, sj\<lparr>j_segment := segment\<rparr>) else Inr (next_path_loop st sj)))"

fun previous_path_loop :: "cwk_path_style \<Rightarrow> nat \<Rightarrow> cwk_segment_joined \<Rightarrow> (bool \<times> cwk_segment_joined) res" where
  "previous_path_loop st 0 sj = Inr (False, sj)"
| "previous_path_loop st (Suc i) sj =
     rbind (if i = 0 then cwk_path_get_last_segment st (j_paths sj ! i)
            else cwk_path_get_last_segment_without_root st (j_paths sj ! i)) (\<lambda>(found, segment).
     let sj = sj\<lparr>j_segment := segment, j_index := i\<rparr> in
     if found then Inr (True, sj) else previous_path_loop st i sj)"

definition cwk_path_get_previous_segment_joined ::
    "cwk_path_style \<Rightarrow> cwk_segment_joined \<Rightarrow> (bool \<times> cwk_segment_joined) res" where
  "cwk_path_get_previous_segment_joined st sj =
     (if j_paths sj = [] then Inr (False, sj)
      else
        case cwk_path_get_previous_segment st (j_segment sj) of
          (found, segment) \<Rightarrow>
            if found then Inr (True, sj\<lparr>j_segment := segment\<rparr>)
            else previous_path_loop st (j_index sj) sj)"

lemma next_path_loop_moves:
  "next_path_loop st sj = (found, sj') \<Longrightarrow>
     j_paths sj' = j_paths sj \<and> j_index sj < j_index sj' \<and> (found \<longrightarrow> j_index sj' < length (j_paths sj))"
proof (induction st sj arbitrary: sj' rule: next_path_loop.induct)
  case (1 st sj)
  let ?sj = "sj\<lparr>j_index := Suc (j_index sj)\<rparr>"
  show ?case
  proof (cases "j_index ?sj < length (j_paths ?sj)")
    case True
    obtain b g where g: "cwk_path_get_first_segment_without_root st (j_paths ?sj ! j_index ?sj) 0 = (b, g)" by fastforce
    show ?thesis
    proof (cases b)
      case True
      with "1.prems" \<open>j_index ?sj < length (j_paths ?sj)\<close> g show ?thesis
        by (subst (asm) next_path_loop.simps) (auto simp: Let_def)
    next
      case False
      with "1.prems" \<open>j_index ?sj < length (j_paths ?sj)\<close> g have "next_path_loop st (?sj\<lparr>j_segment := g\<rparr>) = (found, sj')"
        by (subst (asm) next_path_loop.simps) (auto simp: Let_def)
      from "1.IH" [OF refl True g [symmetric] refl False this] show ?thesis by auto
    qed
  qed (use "1.prems" in \<open>subst (asm) next_path_loop.simps, auto simp: Let_def\<close>)
qed

lemma next_joined_moves:
  assumes "cwk_path_get_next_segment_joined st sj = Inr (True, sj')"
  shows "(sj', sj) \<in> measures [\<lambda>sj. length (j_paths sj) - j_index sj, \<lambda>sj. length (s_path (j_segment sj)) - s_begin (j_segment sj)]"
proof -
  obtain found g where g: "j_index sj < length (j_paths sj)" "cwk_path_get_next_segment st (j_segment sj) = Inr (found, g)"
    using assms by (auto simp: cwk_path_get_next_segment_joined_def rbind_def split: if_splits sum.splits)
  show ?thesis
  proof (cases found)
    case True
    with assms g have "sj' = sj\<lparr>j_segment := g\<rparr>" by (simp add: cwk_path_get_next_segment_joined_def rbind_def)
    with next_segment_moves [of st "j_segment sj" g] g True show ?thesis by simp
  next
    case False
    with assms g have "next_path_loop st sj = (True, sj')" by (simp add: cwk_path_get_next_segment_joined_def rbind_def)
    from next_path_loop_moves [OF this] g(1) have "j_paths sj' = j_paths sj"
      "length (j_paths sj) - j_index sj' < length (j_paths sj) - j_index sj" by auto
    then show ?thesis by simp
  qed
qed

lemma find_previous_stop_le: "cwk_path_find_previous_stop st p first c \<le> Suc c"
  by (induction st p first c rule: cwk_path_find_previous_stop.induct)
    (subst cwk_path_find_previous_stop.simps, auto)

lemma back_over_less: "back_over_separators st p first c = Some d \<Longrightarrow> first \<le> d \<and> d < c \<and> \<not> cwk_path_is_separator st (char_at p d)"
  by (induction st p first c rule: back_over_separators.induct) (auto split: if_splits)

lemma find_previous_stop_no_separator:
  "\<not> cwk_path_is_separator st (char_at p c) \<Longrightarrow> cwk_path_find_previous_stop st p first c \<le> c"
proof (induction st p first c rule: cwk_path_find_previous_stop.induct)
  case (1 st p first c)
  show ?case
  proof (cases "c > first \<and> \<not> cwk_path_is_separator st (char_at p (c - 1))")
    case True
    with 1 show ?thesis by (subst cwk_path_find_previous_stop.simps) (auto intro: le_trans)
  next
    case False
    have "cwk_path_find_previous_stop st p first (c - 1) \<le> Suc (c - 1)" by (rule find_previous_stop_le)
    with 1 show ?thesis by (subst cwk_path_find_previous_stop.simps) auto
  qed
qed

lemma previous_segment_moves:
  assumes "cwk_path_get_previous_segment st segment = (True, segment')"
  shows "s_path segment' = s_path segment \<and> s_segments segment' = s_segments segment \<and> s_begin segment' < s_begin segment"
proof -
  obtain c where c: "back_over_separators st (s_path segment) (s_segments segment) (s_begin segment) = Some c"
    "segment' = segment\<lparr>s_end := c + 1, s_begin := cwk_path_find_previous_stop st (s_path segment) (s_segments segment) c,
       s_size := c + 1 - cwk_path_find_previous_stop st (s_path segment) (s_segments segment) c\<rparr>"
    using assms by (auto simp: cwk_path_get_previous_segment_def Let_def split: if_splits option.splits)
  with back_over_less [OF c(1)] find_previous_stop_no_separator [of st "s_path segment" c "s_segments segment"]
  show ?thesis by auto
qed

lemma previous_path_loop_moves:
  "previous_path_loop st i sj = Inr (True, sj') \<Longrightarrow> j_paths sj' = j_paths sj \<and> j_index sj' < i"
  by (induction st i sj arbitrary: sj' rule: previous_path_loop.induct)
    (fastforce simp: rbind_def Let_def split: sum.splits if_splits)+

lemma previous_joined_moves:
  assumes "cwk_path_get_previous_segment_joined st sj = Inr (True, sj')"
  shows "(sj', sj) \<in> measures [j_index, \<lambda>sj. s_begin (j_segment sj)]"
proof -
  obtain found g where g: "cwk_path_get_previous_segment st (j_segment sj) = (found, g)" by fastforce
  show ?thesis
  proof (cases found)
    case True
    with assms g have "sj' = sj\<lparr>j_segment := g\<rparr>"
      by (simp add: cwk_path_get_previous_segment_joined_def split: if_splits)
    with previous_segment_moves [of st "j_segment sj" g] g True show ?thesis by simp
  next
    case False
    with assms g have "previous_path_loop st (j_index sj) sj = Inr (True, sj')"
      by (simp add: cwk_path_get_previous_segment_joined_def split: if_splits)
    from previous_path_loop_moves [OF this] show ?thesis by simp
  qed
qed

subsection \<open>Which segments stay\<close>

function back_removed_loop :: "cwk_path_style \<Rightarrow> int \<Rightarrow> cwk_segment_joined \<Rightarrow> bool res" where
  "back_removed_loop st counter sj =
     (case cwk_path_get_previous_segment_joined st sj of
        Inl f \<Rightarrow> Inl f
      | Inr (found, sj') \<Rightarrow>
          if \<not> found then Inr False
          else
            case cwk_path_get_segment_type (j_segment sj') of
              CWK_NORMAL \<Rightarrow> if counter + 1 > 0 then Inr True else back_removed_loop st (counter + 1) sj'
            | CWK_BACK \<Rightarrow> back_removed_loop st (counter - 1) sj'
            | CWK_CURRENT \<Rightarrow> back_removed_loop st counter sj')"
  by auto
termination
  by (relation "inv_image (measures [j_index, \<lambda>sj. s_begin (j_segment sj)]) (\<lambda>(_, _, sj). sj)")
    (simp_all only: in_inv_image prod.case wf_inv_image wf_measures not_not previous_joined_moves)

function normal_removed_loop :: "cwk_path_style \<Rightarrow> int \<Rightarrow> cwk_segment_joined \<Rightarrow> bool res" where
  "normal_removed_loop st counter sj =
     (case cwk_path_get_next_segment_joined st sj of
        Inl f \<Rightarrow> Inl f
      | Inr (found, sj') \<Rightarrow>
          if \<not> found then Inr False
          else
            case cwk_path_get_segment_type (j_segment sj') of
              CWK_NORMAL \<Rightarrow> normal_removed_loop st (counter + 1) sj'
            | CWK_BACK \<Rightarrow> if counter - 1 < 0 then Inr True else normal_removed_loop st (counter - 1) sj'
            | CWK_CURRENT \<Rightarrow> normal_removed_loop st counter sj')"
  by auto
termination
  by (relation "inv_image (measures [\<lambda>sj. length (j_paths sj) - j_index sj, \<lambda>sj. length (s_path (j_segment sj)) - s_begin (j_segment sj)])
       (\<lambda>(_, _, sj). sj)")
    (simp_all only: in_inv_image prod.case wf_inv_image wf_measures not_not next_joined_moves)

declare back_removed_loop.simps [simp del] normal_removed_loop.simps [simp del]

definition cwk_path_segment_back_will_be_removed :: "cwk_path_style \<Rightarrow> cwk_segment_joined \<Rightarrow> bool res" where
  "cwk_path_segment_back_will_be_removed st sj = back_removed_loop st 0 sj"

definition cwk_path_segment_normal_will_be_removed :: "cwk_path_style \<Rightarrow> cwk_segment_joined \<Rightarrow> bool res" where
  "cwk_path_segment_normal_will_be_removed st sj = normal_removed_loop st 0 sj"

definition cwk_path_segment_will_be_removed :: "cwk_path_style \<Rightarrow> cwk_segment_joined \<Rightarrow> bool \<Rightarrow> bool res" where
  "cwk_path_segment_will_be_removed st sj absolute =
     (let type = cwk_path_get_segment_type (j_segment sj) in
      if type = CWK_CURRENT \<or> type = CWK_BACK \<and> absolute then Inr True
      else if type = CWK_BACK then cwk_path_segment_back_will_be_removed st sj
      else cwk_path_segment_normal_will_be_removed st sj)"

function cwk_path_segment_joined_skip_invisible ::
    "cwk_path_style \<Rightarrow> cwk_segment_joined \<Rightarrow> bool \<Rightarrow> (bool \<times> cwk_segment_joined) res" where
  "cwk_path_segment_joined_skip_invisible st sj absolute =
     (case cwk_path_segment_will_be_removed st sj absolute of
        Inl f \<Rightarrow> Inl f
      | Inr removed \<Rightarrow>
          if \<not> removed then Inr (True, sj)
          else
            case cwk_path_get_next_segment_joined st sj of
              Inl f \<Rightarrow> Inl f
            | Inr (found, sj') \<Rightarrow>
                if \<not> found then Inr (False, sj') else cwk_path_segment_joined_skip_invisible st sj' absolute)"
  by auto
termination
  by (relation "inv_image (measures [\<lambda>sj. length (j_paths sj) - j_index sj, \<lambda>sj. length (s_path (j_segment sj)) - s_begin (j_segment sj)])
       (\<lambda>(_, sj, _). sj)")
    (simp_all only: in_inv_image prod.case wf_inv_image wf_measures not_not next_joined_moves)

declare cwk_path_segment_joined_skip_invisible.simps [simp del]

subsection \<open>Joining and normalising\<close>

text \<open>
  The loop of \<open>cwk_path_join_and_normalize_multiple\<close>. Its state is the flag \<open>has_segment_output\<close>, the position and
  the buffer.
\<close>

definition output_segment :: "cwk_path_style \<Rightarrow> cwk_segment \<Rightarrow> bool \<times> nat \<times> string \<Rightarrow> bool \<times> nat \<times> string" where
  "output_segment st segment = (\<lambda>(has_segment_output, pos, buffer).
     let (n, buffer) = (if has_segment_output then cwk_path_output_separator st buffer pos else (0, buffer));
         pos = pos + n;
         (n, buffer) = cwk_path_output_sized buffer pos (drop (s_begin segment) (s_path segment)) (s_size segment) in
     (True, pos + n, buffer))"

function normalize_loop ::
    "cwk_path_style \<Rightarrow> bool \<Rightarrow> cwk_segment_joined \<Rightarrow> bool \<times> nat \<times> string \<Rightarrow> (bool \<times> nat \<times> string) res" where
  "normalize_loop st absolute sj out =
     (case cwk_path_segment_will_be_removed st sj absolute of
        Inl f \<Rightarrow> Inl f
      | Inr removed \<Rightarrow>
          let out = (if removed then out else output_segment st (j_segment sj) out) in
          case cwk_path_get_next_segment_joined st sj of
            Inl f \<Rightarrow> Inl f
          | Inr (found, sj') \<Rightarrow> if found then normalize_loop st absolute sj' out else Inr out)"
  by auto
termination
  by (relation "inv_image (measures [\<lambda>sj. length (j_paths sj) - j_index sj, \<lambda>sj. length (s_path (j_segment sj)) - s_begin (j_segment sj)])
       (\<lambda>(_, _, sj, _). sj)")
    (simp_all only: in_inv_image prod.case wf_inv_image wf_measures not_not next_joined_moves)

declare normalize_loop.simps [simp del]

definition cwk_path_join_and_normalize_multiple ::
    "cwk_path_style \<Rightarrow> string list \<Rightarrow> string \<Rightarrow> (nat \<times> string) res" where
  "cwk_path_join_and_normalize_multiple st paths buffer =
     (case paths of
        [] \<Rightarrow> Inl NullPointer
      | path # _ \<Rightarrow>
          let pos = cwk_path_get_root st path;
              absolute = cwk_path_is_root_absolute st path pos;
              (_, buffer) = cwk_path_output_sized buffer 0 path pos;
              buffer = cwk_path_fix_root st buffer pos in
          case cwk_path_get_first_segment_joined st paths of
            (found, sj) \<Rightarrow>
              if \<not> found then Inr (pos, cwk_path_terminate_output buffer pos)
              else
                rbind (normalize_loop st absolute sj (False, pos, buffer)) (\<lambda>(has_segment_output, pos, buffer).
                if \<not> has_segment_output \<and> pos = 0 then
                  if absolute then Inl AssertFailed
                  else
                    let (n, buffer) = cwk_path_output_current buffer pos; pos = pos + n in
                    Inr (pos, cwk_path_terminate_output buffer pos)
                else Inr (pos, cwk_path_terminate_output buffer pos)))"

definition cwk_path_join :: "cwk_path_style \<Rightarrow> string \<Rightarrow> string \<Rightarrow> string \<Rightarrow> (nat \<times> string) res" where
  "cwk_path_join st path_a path_b buffer = cwk_path_join_and_normalize_multiple st [path_a, path_b] buffer"

definition cwk_path_join_multiple :: "cwk_path_style \<Rightarrow> string list \<Rightarrow> string \<Rightarrow> (nat \<times> string) res" where
  "cwk_path_join_multiple st paths buffer = cwk_path_join_and_normalize_multiple st paths buffer"

definition cwk_path_normalize :: "cwk_path_style \<Rightarrow> string \<Rightarrow> string \<Rightarrow> (nat \<times> string) res" where
  "cwk_path_normalize st path buffer = cwk_path_join_and_normalize_multiple st [path] buffer"

definition cwk_path_get_absolute :: "cwk_path_style \<Rightarrow> string \<Rightarrow> string \<Rightarrow> string \<Rightarrow> (nat \<times> string) res" where
  "cwk_path_get_absolute st base path buffer =
     (let paths = (if cwk_path_is_absolute st base then []
                   else if st = CWK_STYLE_WINDOWS then [[CHR 0x5C]] else [''/'']) in
      cwk_path_join_and_normalize_multiple st
        (if cwk_path_is_absolute st path then paths @ [path] else paths @ [base, path]) buffer)"

subsection \<open>Relative paths and common parts\<close>

lemma rbind_fundef [fundef_cong]:
  "x = y \<Longrightarrow> (\<And>a. y = Inr a \<Longrightarrow> f a = g a) \<Longrightarrow> rbind x f = rbind y g"
  by (cases y) (simp_all add: rbind_def)

abbreviation ahead :: "(cwk_segment_joined \<times> cwk_segment_joined) set" where
  "ahead \<equiv> measures [\<lambda>sj. length (j_paths sj) - j_index sj, \<lambda>sj. length (s_path (j_segment sj)) - s_begin (j_segment sj)]"

lemma ahead_trans: "(a, b) \<in> ahead \<Longrightarrow> (b, c) \<in> ahead \<Longrightarrow> (a, c) \<in> ahead"
  by auto

lemma skip_invisible_moves:
  "cwk_path_segment_joined_skip_invisible st sj absolute = Inr (True, sj') \<Longrightarrow> sj' = sj \<or> (sj', sj) \<in> ahead"
proof (induction st sj absolute arbitrary: sj' rule: cwk_path_segment_joined_skip_invisible.induct)
  case (1 st sj absolute)
  obtain r where r: "cwk_path_segment_will_be_removed st sj absolute = Inr r"
    using "1.prems" by (subst (asm) cwk_path_segment_joined_skip_invisible.simps) (auto split: sum.splits)
  show ?case
  proof (cases r)
    case True
    then obtain u where u: "cwk_path_get_next_segment_joined st sj = Inr (True, u)"
      "cwk_path_segment_joined_skip_invisible st u absolute = Inr (True, sj')"
      using "1.prems" r by (subst (asm) cwk_path_segment_joined_skip_invisible.simps) (auto split: sum.splits if_splits)
    have "sj' = u \<or> (sj', u) \<in> ahead" using "1.IH" [OF r _ u(1) refl _ u(2)] True by simp
    with next_joined_moves [OF u(1)] ahead_trans show ?thesis by blast
  next
    case False
    then show ?thesis
      using "1.prems" r by (subst (asm) cwk_path_segment_joined_skip_invisible.simps) auto
  qed
qed

lemma visible_next_moves:
  "cwk_path_segment_joined_skip_invisible st sj absolute = Inr (True, u) \<Longrightarrow>
   cwk_path_get_next_segment_joined st u = Inr (True, sj') \<Longrightarrow> (sj', sj) \<in> ahead"
  using skip_invisible_moves next_joined_moves ahead_trans by blast

function cwk_path_skip_segments_until_diverge ::
    "cwk_path_style \<Rightarrow> cwk_segment_joined \<Rightarrow> cwk_segment_joined \<Rightarrow> bool \<Rightarrow>
     (bool \<times> bool \<times> cwk_segment_joined \<times> cwk_segment_joined) res" where
  "cwk_path_skip_segments_until_diverge st bsj osj absolute =
     rbind (cwk_path_segment_joined_skip_invisible st bsj absolute) (\<lambda>(base_available, bsj).
     rbind (cwk_path_segment_joined_skip_invisible st osj absolute) (\<lambda>(other_available, osj).
     if \<not> base_available \<or> \<not> other_available then Inr (base_available, other_available, bsj, osj)
     else if \<not> cwk_path_is_string_equal st
         (drop (s_begin (j_segment bsj)) (s_path (j_segment bsj))) (drop (s_begin (j_segment osj)) (s_path (j_segment osj)))
         (s_size (j_segment bsj)) (s_size (j_segment osj))
     then Inr (base_available, other_available, bsj, osj)
     else
       rbind (cwk_path_get_next_segment_joined st bsj) (\<lambda>(base_available, bsj).
       rbind (cwk_path_get_next_segment_joined st osj) (\<lambda>(other_available, osj).
       if base_available \<and> other_available then cwk_path_skip_segments_until_diverge st bsj osj absolute
       else Inr (base_available, other_available, bsj, osj)))))"
  by auto
termination
  by (relation "inv_image ahead (\<lambda>(_, bsj, _, _). bsj)") (auto simp del: in_measures intro: visible_next_moves)

text \<open>The two output loops of \<open>cwk_path_get_relative\<close> differ in what they write for a segment, the argument \<open>body\<close>.\<close>

function visible_loop ::
    "cwk_path_style \<Rightarrow> bool \<Rightarrow> (cwk_segment \<Rightarrow> nat \<times> string \<Rightarrow> nat \<times> string) \<Rightarrow> cwk_segment_joined \<Rightarrow>
     bool \<times> nat \<times> string \<Rightarrow> (bool \<times> nat \<times> string) res" where
  "visible_loop st absolute body sj out =
     rbind (cwk_path_segment_joined_skip_invisible st sj absolute) (\<lambda>(visible, sj).
     if \<not> visible then Inr out
     else
       let out = (True, body (j_segment sj) (snd out)) in
       rbind (cwk_path_get_next_segment_joined st sj) (\<lambda>(found, sj).
       if found then visible_loop st absolute body sj out else Inr out))"
  by auto
termination
  by (relation "inv_image ahead (\<lambda>(_, _, _, sj, _). sj)") (auto simp del: in_measures intro: visible_next_moves)

declare cwk_path_skip_segments_until_diverge.simps [simp del] visible_loop.simps [simp del]

definition then_output :: "nat \<times> string \<Rightarrow> (string \<Rightarrow> nat \<Rightarrow> nat \<times> string) \<Rightarrow> nat \<times> string" where
  "then_output out f = (case out of (pos, buffer) \<Rightarrow> case f buffer pos of (n, buffer) \<Rightarrow> (pos + n, buffer))"

definition cwk_path_get_relative :: "cwk_path_style \<Rightarrow> string \<Rightarrow> string \<Rightarrow> string \<Rightarrow> (nat \<times> string) res" where
  "cwk_path_get_relative st base_directory path buffer =
     (let base_root_length = cwk_path_get_root st base_directory;
          path_root_length = cwk_path_get_root st path in
      if base_root_length \<noteq> path_root_length \<or>
         \<not> cwk_path_is_string_equal st base_directory path base_root_length path_root_length
      then Inr (0, cwk_path_terminate_output buffer 0)
      else
        let absolute = cwk_path_is_root_absolute st base_directory base_root_length;
            (_, bsj) = cwk_path_get_first_segment_joined st [base_directory];
            (_, osj) = cwk_path_get_first_segment_joined st [path] in
        rbind (cwk_path_skip_segments_until_diverge st bsj osj absolute) (\<lambda>(base_available, other_available, bsj, osj).
        rbind (if base_available
               then visible_loop st absolute (\<lambda>_ out. then_output (then_output out cwk_path_output_back)
                      (cwk_path_output_separator st)) bsj (False, 0, buffer)
               else Inr (False, 0, buffer)) (\<lambda>out.
        rbind (if other_available
               then visible_loop st absolute (\<lambda>segment out. then_output (then_output out
                        (\<lambda>buffer pos. cwk_path_output_sized buffer pos (drop (s_begin segment) (s_path segment)) (s_size segment)))
                      (cwk_path_output_separator st)) osj out
               else Inr out) (\<lambda>(has_output, pos, buffer).
        let (pos, buffer) = (if has_output then (pos - 1, buffer) else then_output (pos, buffer) cwk_path_output_current) in
        Inr (pos, cwk_path_terminate_output buffer pos)))))"

function intersection_loop ::
    "cwk_path_style \<Rightarrow> bool \<Rightarrow> cwk_segment_joined \<Rightarrow> cwk_segment_joined \<Rightarrow> nat \<Rightarrow> nat res" where
  "intersection_loop st absolute base other e =
     rbind (cwk_path_segment_joined_skip_invisible st base absolute) (\<lambda>(visible, base).
     if \<not> visible then Inr e
     else
       rbind (cwk_path_segment_joined_skip_invisible st other absolute) (\<lambda>(visible, other).
       if \<not> visible then Inr e
       else if \<not> cwk_path_is_string_equal st
           (drop (s_begin (j_segment base)) (s_path (j_segment base))) (drop (s_begin (j_segment other)) (s_path (j_segment other)))
           (s_size (j_segment base)) (s_size (j_segment other))
       then Inr e
       else
         let e = s_end (j_segment base) in
         rbind (cwk_path_get_next_segment_joined st base) (\<lambda>(found, base).
         if \<not> found then Inr e
         else
           rbind (cwk_path_get_next_segment_joined st other) (\<lambda>(found, other).
           if \<not> found then Inr e else intersection_loop st absolute base other e))))"
  by auto
termination
  by (relation "inv_image ahead (\<lambda>(_, _, base, _, _). base)") (auto simp del: in_measures intro: visible_next_moves)

declare intersection_loop.simps [simp del]

definition cwk_path_get_intersection :: "cwk_path_style \<Rightarrow> string \<Rightarrow> string \<Rightarrow> nat res" where
  "cwk_path_get_intersection st path_base path_other =
     (let base_root_length = cwk_path_get_root st path_base;
          other_root_length = cwk_path_get_root st path_other in
      if \<not> cwk_path_is_string_equal st path_base path_other base_root_length other_root_length then Inr 0
      else
        let (b, base) = cwk_path_get_first_segment_joined st [path_base];
            (o', other) = cwk_path_get_first_segment_joined st [path_other] in
        if \<not> b \<or> \<not> o' then Inr base_root_length
        else intersection_loop st (cwk_path_is_root_absolute st path_base base_root_length) base other base_root_length)"

subsection \<open>Changing parts of a path\<close>

definition cwk_path_change_root :: "cwk_path_style \<Rightarrow> string \<Rightarrow> string \<Rightarrow> string \<Rightarrow> nat \<times> string" where
  "cwk_path_change_root st path new_root buffer =
     (let root_length = cwk_path_get_root st path;
          new_root_length = length new_root;
          tail_length = length path - root_length;
          (_, buffer) = cwk_path_output_sized buffer new_root_length (drop root_length path) tail_length;
          (_, buffer) = cwk_path_output_sized buffer 0 new_root new_root_length;
          new_path_size = tail_length + new_root_length in
      (new_path_size, cwk_path_terminate_output buffer new_path_size))"

definition cwk_path_get_basename :: "cwk_path_style \<Rightarrow> string \<Rightarrow> (nat \<times> nat) option res" where
  "cwk_path_get_basename st path =
     rbind (cwk_path_get_last_segment st path) (\<lambda>(found, segment).
     Inr (if \<not> found then None else Some (s_begin segment, s_size segment)))"

text \<open>
  The value written for a segment loses the separators at both of its ends.
\<close>

fun trim_size :: "cwk_path_style \<Rightarrow> string \<Rightarrow> nat \<Rightarrow> nat" where
  "trim_size st value 0 = 0"
| "trim_size st value (Suc n) = (if cwk_path_is_separator st (char_at value n) then trim_size st value n else Suc n)"

definition cwk_path_change_segment :: "cwk_path_style \<Rightarrow> cwk_segment \<Rightarrow> string \<Rightarrow> string \<Rightarrow> nat \<times> string" where
  "cwk_path_change_segment st segment value buffer =
     (let (pos, buffer) = cwk_path_output_sized buffer 0 (s_path segment) (s_begin segment);
          value = drop (skip_separators st value 0) value;
          value_size = trim_size st value (length value);
          rest = drop (s_end segment) (s_path segment);
          tail_size = length rest;
          (_, buffer) = cwk_path_output_sized buffer (pos + value_size) rest tail_size;
          (n, buffer) = cwk_path_output_sized buffer pos value value_size;
          pos = pos + n + tail_size in
      (pos, cwk_path_terminate_output buffer pos))"

definition cwk_path_change_basename :: "cwk_path_style \<Rightarrow> string \<Rightarrow> string \<Rightarrow> string \<Rightarrow> (nat \<times> string) res" where
  "cwk_path_change_basename st path new_basename buffer =
     rbind (cwk_path_get_last_segment st path) (\<lambda>(found, segment).
     if \<not> found then
       let root_size = cwk_path_get_root st path;
           (pos, buffer) = cwk_path_output_sized buffer 0 path root_size;
           new_basename = drop (skip_separators st new_basename 0) new_basename;
           new_basename_size = trim_size st new_basename (length new_basename);
           (n, buffer) = cwk_path_output_sized buffer pos new_basename new_basename_size;
           pos = pos + n in
       Inr (pos, cwk_path_terminate_output buffer pos)
     else Inr (cwk_path_change_segment st segment new_basename buffer))"

definition cwk_path_get_dirname :: "cwk_path_style \<Rightarrow> string \<Rightarrow> nat res" where
  "cwk_path_get_dirname st path =
     rbind (cwk_path_get_last_segment st path) (\<lambda>(found, segment). Inr (if \<not> found then 0 else s_begin segment))"

text \<open>\<open>for (c = segment.end; c >= segment.begin; --c)\<close>: the last dot from \<open>first\<close> to \<open>first + n\<close>.\<close>

fun extension_loop :: "string \<Rightarrow> nat \<Rightarrow> nat \<Rightarrow> nat option" where
  "extension_loop path first 0 = (if char_at path first = CHR ''.'' then Some first else None)"
| "extension_loop path first (Suc n) =
     (if char_at path (first + Suc n) = CHR ''.'' then Some (first + Suc n) else extension_loop path first n)"

definition cwk_path_get_extension :: "cwk_path_style \<Rightarrow> string \<Rightarrow> (nat \<times> nat) option res" where
  "cwk_path_get_extension st path =
     rbind (cwk_path_get_last_segment st path) (\<lambda>(found, segment).
     Inr (if \<not> found then None
          else map_option (\<lambda>c. (c, s_end segment - c)) (extension_loop path (s_begin segment) (s_end segment - s_begin segment))))"

definition cwk_path_has_extension :: "cwk_path_style \<Rightarrow> string \<Rightarrow> bool res" where
  "cwk_path_has_extension st path = rbind (cwk_path_get_extension st path) (\<lambda>e. Inr (e \<noteq> None))"

text \<open>\<open>for (c = segment.begin; c < segment.end; ++c)\<close>: the last dot in the segment, or its end.\<close>

definition old_extension :: "cwk_segment \<Rightarrow> nat" where
  "old_extension segment =
     fold (\<lambda>c old. if char_at (s_path segment) c = CHR ''.'' then c else old) [s_begin segment..<s_end segment] (s_end segment)"

definition cwk_path_change_extension :: "cwk_path_style \<Rightarrow> string \<Rightarrow> string \<Rightarrow> string \<Rightarrow> (nat \<times> string) res" where
  "cwk_path_change_extension st path new_extension buffer =
     rbind (cwk_path_get_last_segment st path) (\<lambda>(found, segment).
     if \<not> found then
       let root_size = cwk_path_get_root st path;
           out = cwk_path_output_sized buffer 0 path root_size;
           out = (if char_at new_extension 0 \<noteq> CHR ''.'' then then_output out cwk_path_output_dot else out);
           (pos, buffer) = then_output out (\<lambda>buffer pos. cwk_path_output buffer pos new_extension) in
       Inr (pos, cwk_path_terminate_output buffer pos)
     else
       let (pos, buffer) = cwk_path_output_sized buffer 0 (s_path segment) (old_extension segment);
           new_extension = (if char_at new_extension 0 = CHR ''.'' then tl new_extension else new_extension);
           new_extension_size = length new_extension + 1;
           (trail_size, buffer) = cwk_path_output buffer (pos + new_extension_size) (drop (s_end segment) (s_path segment));
           out = then_output (pos, buffer) cwk_path_output_dot;
           (pos, buffer) = then_output out (\<lambda>buffer pos. cwk_path_output buffer pos new_extension);
           pos = pos + trail_size in
       Inr (pos, cwk_path_terminate_output buffer pos))"

subsection \<open>Styles\<close>

definition cwk_path_guess_style :: "cwk_path_style \<Rightarrow> string \<Rightarrow> cwk_path_style res" where
  "cwk_path_guess_style st path =
     (if cwk_path_get_root_windows st path > 1 then Inr CWK_STYLE_WINDOWS
      else
        case find (\<lambda>c. c = hd (separators CWK_STYLE_UNIX) \<or> c = hd (separators CWK_STYLE_WINDOWS)) path of
          Some c \<Rightarrow> Inr (if c = hd (separators CWK_STYLE_UNIX) then CWK_STYLE_UNIX else CWK_STYLE_WINDOWS)
        | None \<Rightarrow>
            rbind (cwk_path_get_last_segment st path) (\<lambda>(found, segment).
            Inr (if \<not> found then CWK_STYLE_UNIX
                 else if char_at path (s_begin segment) = CHR ''.'' then CWK_STYLE_UNIX
                 else if CHR ''.'' \<in> set (drop (s_begin segment) path) then CWK_STYLE_WINDOWS
                 else CWK_STYLE_UNIX)))"

end
