(* ===== verification/CwalkProofs.thy ===== *)
theory CwalkProofs
  imports Cwalk
begin

section \<open>What normalising a path means\<close>

text \<open>
  The reference is a stack: the segments of the paths are pushed one after the other, ``\<open>.\<close>'' is skipped and
  ``\<open>..\<close>'' takes the last one off (\<open>resolve\<close>). The code has no stack. For each segment it walks over the ones
  before or behind it to find out whether it will be removed. The lemmas
  \<^item> turn the walk by pointers into one over the list of segments (\<open>view\<close>),
  \<^item> show that the segments that are not removed are those the stack ends with (\<open>survivors_resolve\<close>),
  \<^item> and follow what is written to the buffer (\<open>written\<close>).
\<close>

subsection \<open>The segments of a path\<close>

lemma find_next_stop_ge: "c \<le> cwk_path_find_next_stop st p c"
  by (induction st p c rule: cwk_path_find_next_stop.induct) (metis Suc_leD eq_refl cwk_path_find_next_stop.simps)

lemma find_next_stop_less:
  "char_at p c \<noteq> NUL \<Longrightarrow> \<not> cwk_path_is_separator st (char_at p c) \<Longrightarrow> c < cwk_path_find_next_stop st p c"
  using find_next_stop_ge [of "Suc c" st p] by (subst cwk_path_find_next_stop.simps) auto

lemma skip_separators_stop: "\<not> cwk_path_is_separator st (char_at p (skip_separators st p c))"
  by (induction st p c rule: skip_separators.induct) (metis skip_separators.simps)

lemma skip_separators_over: "c \<le> i \<Longrightarrow> i < skip_separators st p c \<Longrightarrow> cwk_path_is_separator st (char_at p i)"
proof (induction st p c rule: skip_separators.induct)
  case (1 st p c)
  then show ?case by (cases "i = c") (force simp: skip_separators.simps [of st p c] split: if_splits)+
qed

lemma find_next_stop_stop:
  "char_at p (cwk_path_find_next_stop st p c) = NUL \<or> cwk_path_is_separator st (char_at p (cwk_path_find_next_stop st p c))"
  by (induction st p c rule: cwk_path_find_next_stop.induct) (metis cwk_path_find_next_stop.simps)

lemma find_next_stop_over:
  "c \<le> i \<Longrightarrow> i < cwk_path_find_next_stop st p c \<Longrightarrow> char_at p i \<noteq> NUL \<and> \<not> cwk_path_is_separator st (char_at p i)"
proof (induction st p c rule: cwk_path_find_next_stop.induct)
  case (1 st p c)
  then show ?case by (cases "i = c") (force simp: cwk_path_find_next_stop.simps [of st p c] split: if_splits)+
qed

text \<open>The positions of the segments from an index on: where each begins and ends.\<close>

function segpos :: "cwk_path_style \<Rightarrow> string \<Rightarrow> nat \<Rightarrow> (nat \<times> nat) list" where
  "segpos st p c =
     (let b = skip_separators st p c; e = cwk_path_find_next_stop st p b in
      if char_at p b = NUL then [] else (b, e) # segpos st p e)"
  by auto
termination
proof (relation "measure (\<lambda>(_, p, c). length p - c)", goal_cases)
  case (2 st p c b e)
  then have "b < e" "b < length p" "c \<le> b"
    using find_next_stop_less skip_separators_stop skip_separators_ge by (auto simp: char_at_def split: if_splits)
  then show ?case by simp
qed simp

declare segpos.simps [simp del]

definition segs :: "cwk_path_style \<Rightarrow> string \<Rightarrow> string list" where
  "segs st p = map (\<lambda>(b, e). take (e - b) (drop b p)) (segpos st p 0)"

lemma segpos_skip: "cwk_path_is_separator st (char_at p c) \<Longrightarrow> segpos st p (Suc c) = segpos st p c"
  by (subst (1 2) segpos.simps) (simp add: skip_separators.simps [of st p c])

lemma segpos_NUL: "char_at p c = NUL \<Longrightarrow> segpos st p c = []"
  by (subst segpos.simps) (simp add: skip_separators.simps [of st p c])

text \<open>A segment at the \<open>i\<close>-th position of its path.\<close>

definition at_seg :: "cwk_path_style \<Rightarrow> string \<Rightarrow> nat \<Rightarrow> cwk_segment \<Rightarrow> bool" where
  "at_seg st p i s \<longleftrightarrow> s_path s = p \<and> segpos st p (s_segments s) = segpos st p 0 \<and>
     i < length (segpos st p 0) \<and> segpos st p 0 ! i = (s_begin s, s_end s) \<and> s_size s = s_end s - s_begin s"

lemma first_segment_at:
  assumes "segpos st p lo = segpos st p 0" "cwk_path_get_first_segment_without_root st p lo = (found, s)"
  shows "found \<longleftrightarrow> segpos st p 0 \<noteq> []" "found \<Longrightarrow> at_seg st p 0 s"
  using assms(2) segpos_NUL [of p lo st] segpos.simps [of st p lo] assms(1)
  by (auto simp: cwk_path_get_first_segment_without_root_def at_seg_def Let_def split: if_splits)

text \<open>Facts on two positions of the list.\<close>

lemma segpos_nth:
  "i < length (segpos st p c) \<Longrightarrow> segpos st p c ! i = (b, e) \<Longrightarrow>
     c \<le> b \<and> b < e \<and> e = cwk_path_find_next_stop st p b \<and> char_at p b \<noteq> NUL \<and> \<not> cwk_path_is_separator st (char_at p b) \<and>
     segpos st p e = drop (Suc i) (segpos st p c)"
proof (induction st p c arbitrary: i rule: segpos.induct)
  case (1 st p c)
  let ?b = "skip_separators st p c" and ?e = "cwk_path_find_next_stop st p (skip_separators st p c)"
  have n: "char_at p ?b \<noteq> NUL" using "1.prems"(1) by (subst (asm) segpos.simps) (auto split: if_splits)
  then have s: "segpos st p c = (?b, ?e) # segpos st p ?e" by (subst segpos.simps) (simp add: Let_def)
  have le: "c \<le> ?b" "?b < ?e" "\<not> cwk_path_is_separator st (char_at p ?b)"
    using skip_separators_ge find_next_stop_less n skip_separators_stop by blast+
  show ?case
  proof (cases i)
    case 0
    with "1.prems" s n le show ?thesis by auto
  next
    case (Suc j)
    with "1.prems" s "1.IH" [OF refl refl n, of j] le show ?thesis by auto
  qed
qed

lemma segpos_next:
  assumes "i < length (segpos st p c)" "segpos st p c ! i = (b, e)"
  shows "segpos st p e = drop (Suc i) (segpos st p c)"
    and "Suc i < length (segpos st p c) \<longleftrightarrow> cwk_path_is_separator st (char_at p e) \<and> char_at p (skip_separators st p e) \<noteq> NUL"
    and "Suc i < length (segpos st p c) \<Longrightarrow> segpos st p c ! Suc i = (skip_separators st p e, cwk_path_find_next_stop st p (skip_separators st p e))"
proof -
  let ?b = "skip_separators st p e"
  show d: "segpos st p e = drop (Suc i) (segpos st p c)" using segpos_nth [OF assms] by blast
  have "e = cwk_path_find_next_stop st p b" using segpos_nth [OF assms] by blast
  then have e: "char_at p e = NUL \<or> cwk_path_is_separator st (char_at p e)" using find_next_stop_stop by simp
  have u: "segpos st p e = (if char_at p ?b = NUL then [] else (?b, cwk_path_find_next_stop st p ?b) # segpos st p (cwk_path_find_next_stop st p ?b))"
    by (subst segpos.simps) (simp add: Let_def)
  have l: "Suc i < length (segpos st p c) \<longleftrightarrow> segpos st p e \<noteq> []" using d by (simp add: not_le)
  show "Suc i < length (segpos st p c) \<longleftrightarrow> cwk_path_is_separator st (char_at p e) \<and> char_at p ?b \<noteq> NUL"
    unfolding l using e u segpos_NUL by auto
  show "segpos st p c ! Suc i = (?b, cwk_path_find_next_stop st p ?b)" if "Suc i < length (segpos st p c)"
    using u l that d by (metis (no_types) hd_drop_conv_nth list.sel(1))
qed

lemma segpos_before:
  "i < length (segpos st p c) \<Longrightarrow> segpos st p c ! i = (b, e) \<Longrightarrow> b = c \<or> c < b \<and> cwk_path_is_separator st (char_at p (b - 1))"
proof (induction i arbitrary: b e)
  case 0
  then have "b = skip_separators st p c" by (subst (asm) (1 2) segpos.simps) (auto simp: Let_def split: if_splits)
  then show ?case using skip_separators_ge [of c st p] skip_separators_over [of c "b - 1" st p] by fastforce
next
  case (Suc i)
  obtain b0 e0 where p0: "segpos st p c ! i = (b0, e0)" by fastforce
  with Suc.prems have i: "i < length (segpos st p c)" by simp
  have b: "b = skip_separators st p e0" "cwk_path_is_separator st (char_at p e0)"
    using segpos_next [OF i p0] Suc.prems by simp_all
  then have "e0 < b" using skip_separators_ge [of "Suc e0" st p] by (simp add: skip_separators.simps [of st p e0])
  moreover have "c < e0" using segpos_nth [OF i p0] by simp
  ultimately show ?case using skip_separators_over [of e0 "b - 1" st p] b by auto
qed

lemma next_segment_at:
  assumes "at_seg st p i s"
  shows "Suc i < length (segpos st p 0) \<Longrightarrow> \<exists>s'. cwk_path_get_next_segment st s = Inr (True, s') \<and> at_seg st p (Suc i) s'"
    and "\<not> Suc i < length (segpos st p 0) \<Longrightarrow> cwk_path_get_next_segment st s = Inr (False, s)"
proof -
  have i: "i < length (segpos st p 0)" "segpos st p 0 ! i = (s_begin s, s_end s)" and s: "s_path s = p" "s_size s = s_end s - s_begin s"
    using assms by (simp_all add: at_seg_def)
  note n = segpos_nth [OF i] and nx = segpos_next [OF i]
  have c: "s_begin s + s_size s = s_end s" using n s by simp
  have stop: "char_at p (s_end s) = NUL \<or> cwk_path_is_separator st (char_at p (s_end s))"
    using n find_next_stop_stop by (metis (no_types))
  show "\<exists>s'. cwk_path_get_next_segment st s = Inr (True, s') \<and> at_seg st p (Suc i) s'" if l: "Suc i < length (segpos st p 0)"
  proof -
    have "cwk_path_is_separator st (char_at p (s_end s))" "char_at p (skip_separators st p (s_end s)) \<noteq> NUL" using nx l by blast+
    then show ?thesis
      using assms nx(3) [OF l] l c s
      by (auto simp: cwk_path_get_next_segment_def Let_def at_seg_def skip_separators.simps [of st p "s_end s"])
  qed
  show "cwk_path_get_next_segment st s = Inr (False, s)" if l: "\<not> Suc i < length (segpos st p 0)"
    using nx(2) l c s stop
    by (auto simp: cwk_path_get_next_segment_def Let_def skip_separators.simps [of st p "s_end s"])
qed

lemma back_over_none: "(\<And>i. lo \<le> i \<Longrightarrow> i < b \<Longrightarrow> cwk_path_is_separator st (char_at p i)) \<Longrightarrow> back_over_separators st p lo b = None"
  by (induction b) auto

lemma back_over_some:
  "(\<And>i. c < i \<Longrightarrow> i < b \<Longrightarrow> cwk_path_is_separator st (char_at p i)) \<Longrightarrow> lo \<le> c \<Longrightarrow> c < b \<Longrightarrow>
   \<not> cwk_path_is_separator st (char_at p c) \<Longrightarrow> back_over_separators st p lo b = Some c"
  by (induction b) (auto simp: less_Suc_eq)

lemma find_previous_stop_at:
  "b \<le> c \<Longrightarrow> (\<And>i. b \<le> i \<Longrightarrow> i \<le> c \<Longrightarrow> \<not> cwk_path_is_separator st (char_at p i)) \<Longrightarrow>
   b = lo \<or> lo < b \<and> cwk_path_is_separator st (char_at p (b - 1)) \<Longrightarrow> cwk_path_find_previous_stop st p lo c = b"
proof (induction c)
  case 0
  then show ?case by (subst cwk_path_find_previous_stop.simps) auto
next
  case (Suc c)
  show ?case
  proof (cases "b \<le> c")
    case True
    then have "cwk_path_find_previous_stop st p lo c = b" using Suc by simp
    with True Suc.prems show ?thesis by (subst cwk_path_find_previous_stop.simps) auto
  next
    case False
    then have b: "b = Suc c" using Suc.prems(1) by simp
    have "cwk_path_is_separator st (char_at p c) \<Longrightarrow> cwk_path_find_previous_stop st p lo c = Suc c"
      by (subst cwk_path_find_previous_stop.simps) auto
    with b Suc.prems show ?thesis by (subst cwk_path_find_previous_stop.simps) auto
  qed
qed

lemma previous_segment_at:
  assumes "at_seg st p i s"
  shows "i = 0 \<Longrightarrow> cwk_path_get_previous_segment st s = (False, s)"
    and "i = Suc j \<Longrightarrow> \<exists>s'. cwk_path_get_previous_segment st s = (True, s') \<and> at_seg st p j s'"
proof -
  let ?lo = "s_segments s"
  have i: "i < length (segpos st p ?lo)" "segpos st p ?lo ! i = (s_begin s, s_end s)" and s: "s_path s = p"
    and lo: "segpos st p ?lo = segpos st p 0" using assms by (simp_all add: at_seg_def)
  show "cwk_path_get_previous_segment st s = (False, s)" if "i = 0"
  proof -
    have "s_begin s = skip_separators st p ?lo"
      using i that by (subst (asm) (1 2) segpos.simps) (auto simp: Let_def split: if_splits)
    then have "back_over_separators st p ?lo (s_begin s) = None" using skip_separators_over by (auto intro!: back_over_none)
    then show ?thesis by (simp add: cwk_path_get_previous_segment_def s)
  qed
  show "\<exists>s'. cwk_path_get_previous_segment st s = (True, s') \<and> at_seg st p j s'" if j: "i = Suc j"
  proof -
    obtain b0 e0 where p0: "segpos st p ?lo ! j = (b0, e0)" by fastforce
    have j': "j < length (segpos st p ?lo)" using i j by simp
    note n = segpos_nth [OF j' p0]
    have b: "s_begin s = skip_separators st p e0" using segpos_next(3) [OF j' p0] i j by simp
    then have "e0 \<le> s_begin s" using skip_separators_ge by simp
    have in_seg: "\<not> cwk_path_is_separator st (char_at p k)" if "b0 \<le> k" "k < e0" for k
      using n find_next_stop_over [of b0 k st p] that by simp
    have "back_over_separators st p ?lo (s_begin s) = Some (e0 - 1)"
    proof (rule back_over_some)
      show "cwk_path_is_separator st (char_at p k)" if "e0 - 1 < k" "k < s_begin s" for k
        using skip_separators_over [of e0 k st p] that b by simp
      show "\<not> cwk_path_is_separator st (char_at p (e0 - 1))" by (rule in_seg) (use n in linarith)+
    qed (use n \<open>e0 \<le> s_begin s\<close> in auto)
    moreover have "cwk_path_find_previous_stop st p ?lo (e0 - 1) = b0"
      by (rule find_previous_stop_at) (use n in_seg segpos_before [OF j' p0] in auto)
    moreover have "\<not> s_begin s \<le> ?lo" using n \<open>e0 \<le> s_begin s\<close> by simp
    moreover have "Suc (e0 - Suc 0) = e0" using n by simp
    ultimately show ?thesis
      using assms p0 j j' lo by (auto simp: cwk_path_get_previous_segment_def at_seg_def s)
  qed
qed

lemma go_to_last_at:
  "at_seg st p i s \<Longrightarrow> \<exists>s'. go_to_last_segment st s = Inr s' \<and> at_seg st p (length (segpos st p 0) - 1) s'"
proof (induction "length (segpos st p 0) - i" arbitrary: i s)
  case 0
  then show ?case by (simp add: at_seg_def)
next
  case (Suc n)
  show ?case
  proof (cases "Suc i < length (segpos st p 0)")
    case True
    obtain s' where s': "cwk_path_get_next_segment st s = Inr (True, s')" "at_seg st p (Suc i) s'"
      using next_segment_at(1) [OF Suc.prems True] by blast
    with Suc.hyps(1) [of "Suc i" s'] Suc.hyps(2) True show ?thesis by (subst go_to_last_segment.simps) auto
  next
    case False
    with Suc.prems have "i = length (segpos st p 0) - 1" by (auto simp: at_seg_def)
    with next_segment_at(2) [OF Suc.prems False] Suc.prems show ?thesis by (subst go_to_last_segment.simps) simp
  qed
qed

lemma last_segment_at:
  assumes "cwk_path_get_first_segment_without_root st p lo = (found, s)" "segpos st p lo = segpos st p 0"
  shows "\<exists>s'. (if \<not> found then Inr (False, s) else rbind (go_to_last_segment st s) (\<lambda>s. Inr (True, s))) =
      Inr (segpos st p 0 \<noteq> [], s') \<and> (segpos st p 0 \<noteq> [] \<longrightarrow> at_seg st p (length (segpos st p 0) - 1) s')"
  using first_segment_at [OF assms(2,1)] go_to_last_at [of st p 0 s] by auto

subsection \<open>The segments of a list of paths\<close>

text \<open>
  A joined segment sees the segments \<open>bs\<close> before it, itself, \<open>c\<close>, and the segments \<open>as\<close> behind it. This is all that
  the removal of segments depends on.
\<close>

definition all_segs :: "string list \<Rightarrow> string list" where
  "all_segs paths = concat (map (segs CWK_STYLE_UNIX) paths)"

definition view :: "cwk_segment_joined \<Rightarrow> string list \<Rightarrow> string \<Rightarrow> string list \<Rightarrow> bool" where
  "view sj bs c as \<longleftrightarrow> (\<exists>i. let k = j_index sj; ss = segs CWK_STYLE_UNIX (j_paths sj ! k) in
     k < length (j_paths sj) \<and> at_seg CWK_STYLE_UNIX (j_paths sj ! k) i (j_segment sj) \<and>
     bs = all_segs (take k (j_paths sj)) @ take i ss \<and> c = ss ! i \<and> as = drop (Suc i) ss @ all_segs (drop (Suc k) (j_paths sj)))"

lemma length_segs [simp]: "length (segs st p) = length (segpos st p 0)"
  by (simp add: segs_def)

lemma root_unix: "segpos CWK_STYLE_UNIX p (cwk_path_get_root CWK_STYLE_UNIX p) = segpos CWK_STYLE_UNIX p 0"
  using segpos_skip [of CWK_STYLE_UNIX p 0] by (simp add: cwk_path_get_root_def cwk_path_get_root_unix_def)

lemma segs_Nil [simp]: "segs st p = [] \<longleftrightarrow> segpos st p 0 = []"
  by (simp add: segs_def)

lemma view_first:
  assumes "k < length (j_paths sj)" "j_index sj = k" "at_seg CWK_STYLE_UNIX (j_paths sj ! k) 0 (j_segment sj)"
    "all_segs (take k (j_paths sj)) = bs"
  shows "view sj bs (hd (all_segs (drop k (j_paths sj)))) (tl (all_segs (drop k (j_paths sj))))"
proof -
  let ?ss = "segs CWK_STYLE_UNIX (j_paths sj ! k)"
  have "drop k (j_paths sj) = j_paths sj ! k # drop (Suc k) (j_paths sj)" using assms(1) by (simp add: Cons_nth_drop_Suc)
  then have "all_segs (drop k (j_paths sj)) = ?ss @ all_segs (drop (Suc k) (j_paths sj))" by (simp add: all_segs_def)
  moreover have "?ss \<noteq> []" using assms(3) by (auto simp: at_seg_def)
  then have "hd (?ss @ xs) = ?ss ! 0 \<and> tl (?ss @ xs) = drop (Suc 0) ?ss @ xs" for xs by (cases ?ss) auto
  ultimately show ?thesis
    using assms unfolding view_def Let_def by (intro exI [of _ 0]) simp
qed

lemma first_joined_view:
  "cwk_path_get_first_segment_joined CWK_STYLE_UNIX paths = (found, sj) \<Longrightarrow>
     j_paths sj = paths \<and> (found \<longleftrightarrow> all_segs paths \<noteq> []) \<and> (found \<longrightarrow> view sj [] (hd (all_segs paths)) (tl (all_segs paths)))"
proof -
  have "first_segment_joined_loop CWK_STYLE_UNIX sj0 = (found, sj) \<Longrightarrow> all_segs (take (j_index sj0) (j_paths sj0)) = [] \<Longrightarrow>
     j_index sj0 \<le> length (j_paths sj0) \<Longrightarrow>
     j_paths sj = j_paths sj0 \<and> (found \<longleftrightarrow> all_segs (j_paths sj0) \<noteq> []) \<and>
     (found \<longrightarrow> view sj [] (hd (all_segs (j_paths sj0))) (tl (all_segs (j_paths sj0))))" for sj0
  proof (induction "length (j_paths sj0) - j_index sj0" arbitrary: sj0)
    case 0
    then show ?case by (subst (asm) first_segment_joined_loop.simps) auto
  next
    case (Suc n)
    let ?k = "j_index sj0" and ?ps = "j_paths sj0"
    have k: "?k < length ?ps" using Suc.hyps(2) by simp
    obtain b g where g: "cwk_path_get_first_segment CWK_STYLE_UNIX (?ps ! ?k) = (b, g)" by fastforce
    note f = first_segment_at [OF root_unix g [unfolded cwk_path_get_first_segment_def]]
    have all: "all_segs ?ps = all_segs (drop ?k ?ps)"
      using Suc.prems(2) by (metis (no_types) all_segs_def append_take_drop_id concat_append map_append self_append_conv2)
    show ?case
    proof (cases b)
      case True
      then have eq: "found" "sj = sj0\<lparr>j_segment := g\<rparr>"
        using Suc.prems(1) k g by (subst (asm) first_segment_joined_loop.simps, simp)+
      have "all_segs (drop ?k ?ps) \<noteq> []"
        using f True k by (auto simp: all_segs_def Cons_nth_drop_Suc [symmetric])
      moreover have "view sj [] (hd (all_segs (drop ?k ?ps))) (tl (all_segs (drop ?k ?ps)))"
        using view_first [of ?k sj "[]"] f True k eq Suc.prems(2) by simp
      ultimately show ?thesis using eq all by simp
    next
      case False
      then have "first_segment_joined_loop CWK_STYLE_UNIX (sj0\<lparr>j_segment := g, j_index := Suc ?k\<rparr>) = (found, sj)"
        using Suc.prems(1) k g by (subst (asm) first_segment_joined_loop.simps) simp
      moreover have "all_segs (take (Suc ?k) ?ps) = []"
        using Suc.prems(2) f False k by (simp add: all_segs_def take_Suc_conv_app_nth)
      ultimately show ?thesis
        using Suc.hyps(1) [of "sj0\<lparr>j_segment := g, j_index := Suc ?k\<rparr>"] Suc.hyps(2) k by simp
    qed
  qed
  from this [of "\<lparr>j_segment = \<lparr>s_path = [], s_segments = 0, s_begin = 0, s_end = 0, s_size = 0\<rparr>, j_paths = paths, j_index = 0\<rparr>"]
  show "cwk_path_get_first_segment_joined CWK_STYLE_UNIX paths = (found, sj) \<Longrightarrow> ?thesis"
    by (simp add: cwk_path_get_first_segment_joined_def all_segs_def)
qed

lemma all_segs_split:
  "k < length ps \<Longrightarrow> all_segs (take (Suc k) ps) = all_segs (take k ps) @ segs CWK_STYLE_UNIX (ps ! k)"
  "k < length ps \<Longrightarrow> all_segs (drop k ps) = segs CWK_STYLE_UNIX (ps ! k) @ all_segs (drop (Suc k) ps)"
  by (simp_all add: all_segs_def take_Suc_conv_app_nth Cons_nth_drop_Suc [symmetric])

lemma next_path_loop_view:
  "next_path_loop CWK_STYLE_UNIX sj = (found, sj') \<Longrightarrow> j_index sj < length (j_paths sj) \<Longrightarrow>
     all_segs (take (Suc (j_index sj)) (j_paths sj)) = bs \<Longrightarrow>
     (found \<longleftrightarrow> all_segs (drop (Suc (j_index sj)) (j_paths sj)) \<noteq> []) \<and> j_paths sj' = j_paths sj \<and>
     (found \<longrightarrow> view sj' bs (hd (all_segs (drop (Suc (j_index sj)) (j_paths sj)))) (tl (all_segs (drop (Suc (j_index sj)) (j_paths sj)))))"
proof (induction "length (j_paths sj) - j_index sj" arbitrary: sj)
  case (Suc n)
  let ?k = "Suc (j_index sj)" and ?ps = "j_paths sj"
  show ?case
  proof (cases "?k < length ?ps")
    case k: True
    obtain b g where g: "cwk_path_get_first_segment_without_root CWK_STYLE_UNIX (?ps ! ?k) 0 = (b, g)" by fastforce
    note f = first_segment_at [OF refl g]
    have d: "all_segs (drop ?k ?ps) = segs CWK_STYLE_UNIX (?ps ! ?k) @ all_segs (drop (Suc ?k) ?ps)"
      using k by (simp add: all_segs_def Cons_nth_drop_Suc [symmetric])
    show ?thesis
    proof (cases b)
      case True
      then have eq: "found" "sj' = sj\<lparr>j_index := ?k, j_segment := g\<rparr>"
        using Suc.prems(1) k g by (subst (asm) next_path_loop.simps, simp add: Let_def)+
      then show ?thesis
        using view_first [of ?k sj' bs] f True k Suc.prems(3) d by simp
    next
      case False
      let ?sj = "sj\<lparr>j_index := ?k, j_segment := g\<rparr>"
      have "next_path_loop CWK_STYLE_UNIX ?sj = (found, sj')"
        using Suc.prems(1) k g False by (subst (asm) next_path_loop.simps) (simp add: Let_def)
      moreover have nil: "segs CWK_STYLE_UNIX (?ps ! ?k) = []" using f False by simp
      moreover have "all_segs (take (Suc ?k) ?ps) = bs" "all_segs (drop ?k ?ps) = all_segs (drop (Suc ?k) ?ps)"
        unfolding all_segs_split [OF k] nil using Suc.prems(3) by simp_all
      ultimately show ?thesis
        using Suc.hyps(1) [of ?sj] Suc.hyps(2) k by simp
    qed
  next
    case False
    then show ?thesis
      using Suc.prems(1) by (subst (asm) next_path_loop.simps) (auto simp: all_segs_def)
  qed
qed simp

lemma next_joined_view:
  assumes "view sj bs c as"
  shows "\<exists>sj'. cwk_path_get_next_segment_joined CWK_STYLE_UNIX sj = Inr (as \<noteq> [], sj') \<and>
    (as \<noteq> [] \<longrightarrow> view sj' (bs @ [c]) (hd as) (tl as))"
proof -
  let ?k = "j_index sj"
  let ?p = "j_paths sj ! ?k"
  let ?ss = "segs CWK_STYLE_UNIX ?p"
  obtain i where v: "?k < length (j_paths sj)" "at_seg CWK_STYLE_UNIX ?p i (j_segment sj)"
    "bs = all_segs (take ?k (j_paths sj)) @ take i ?ss" "c = ?ss ! i" "as = drop (Suc i) ?ss @ all_segs (drop (Suc ?k) (j_paths sj))"
    using assms by (auto simp: view_def Let_def)
  have i: "i < length ?ss" using v(2) by (simp add: at_seg_def)
  have bs: "bs @ [c] = all_segs (take ?k (j_paths sj)) @ take (Suc i) ?ss" using v(3,4) i by (simp add: take_Suc_conv_app_nth)
  show ?thesis
  proof (cases "Suc i < length ?ss")
    case True
    then obtain s' where s': "cwk_path_get_next_segment CWK_STYLE_UNIX (j_segment sj) = Inr (True, s')" "at_seg CWK_STYLE_UNIX ?p (Suc i) s'"
      using next_segment_at(1) [OF v(2)] by auto
    have "drop (Suc i) ?ss = ?ss ! Suc i # drop (Suc (Suc i)) ?ss" using True by (simp add: Cons_nth_drop_Suc)
    then have "as \<noteq> []" "view (sj\<lparr>j_segment := s'\<rparr>) (bs @ [c]) (hd as) (tl as)"
      using s' v(1,5) bs unfolding view_def Let_def by (auto intro!: exI [of _ "Suc i"])
    then show ?thesis using s' v(1) by (auto simp: cwk_path_get_next_segment_joined_def)
  next
    case False
    then have "cwk_path_get_next_segment CWK_STYLE_UNIX (j_segment sj) = Inr (False, j_segment sj)"
      using next_segment_at(2) [OF v(2)] by simp
    moreover obtain b sj' where n: "next_path_loop CWK_STYLE_UNIX sj = (b, sj')" by fastforce
    moreover have "bs @ [c] = all_segs (take (Suc ?k) (j_paths sj))" "as = all_segs (drop (Suc ?k) (j_paths sj))"
      using False bs v(1,5) by (simp_all add: all_segs_split)
    ultimately show ?thesis
      using next_path_loop_view [OF n v(1)] v(1) by (auto simp: cwk_path_get_next_segment_joined_def)
  qed
qed

lemma view_last:
  assumes "k < length (j_paths sj)" "j_index sj = k" "at_seg CWK_STYLE_UNIX (j_paths sj ! k) (length (segpos CWK_STYLE_UNIX (j_paths sj ! k) 0) - 1) (j_segment sj)"
  shows "view sj (butlast (all_segs (take (Suc k) (j_paths sj)))) (last (all_segs (take (Suc k) (j_paths sj)))) (all_segs (drop (Suc k) (j_paths sj)))"
proof -
  let ?ss = "segs CWK_STYLE_UNIX (j_paths sj ! k)"
  have n: "?ss \<noteq> []" using assms(3) by (auto simp: at_seg_def)
  then have "all_segs (take (Suc k) (j_paths sj)) = all_segs (take k (j_paths sj)) @ butlast ?ss @ [last ?ss]"
    using all_segs_split(1) [OF assms(1)] by (metis (no_types) append_butlast_last_id)
  then have "butlast (all_segs (take (Suc k) (j_paths sj))) = all_segs (take k (j_paths sj)) @ butlast ?ss"
    "last (all_segs (take (Suc k) (j_paths sj))) = last ?ss" by (simp_all add: butlast_append)
  moreover have "butlast ?ss = take (length ?ss - 1) ?ss" "last ?ss = ?ss ! (length ?ss - 1)" "drop (Suc (length ?ss - 1)) ?ss = []"
    using last_conv_nth [OF n] by (simp_all only: butlast_conv_take drop_eq_Nil)
  ultimately show ?thesis
    using assms unfolding view_def Let_def by (intro exI [of _ "length ?ss - 1"]) simp
qed

lemma previous_path_view:
  "k \<le> length (j_paths sj) \<Longrightarrow>
   \<exists>sj'. previous_path_loop CWK_STYLE_UNIX k sj = Inr (all_segs (take k (j_paths sj)) \<noteq> [], sj') \<and>
     (all_segs (take k (j_paths sj)) \<noteq> [] \<longrightarrow>
      view sj' (butlast (all_segs (take k (j_paths sj)))) (last (all_segs (take k (j_paths sj)))) (all_segs (drop k (j_paths sj))))"
proof (induction k arbitrary: sj)
  case 0
  then show ?case by (simp add: all_segs_def)
next
  case (Suc k)
  let ?p = "j_paths sj ! k"
  have k: "k < length (j_paths sj)" using Suc.prems by simp
  obtain b g where f: "cwk_path_get_first_segment_without_root CWK_STYLE_UNIX ?p (if k = 0 then cwk_path_get_root CWK_STYLE_UNIX ?p else 0) = (b, g)"
    by fastforce
  obtain s' where s': "(if k = 0 then cwk_path_get_last_segment CWK_STYLE_UNIX ?p else cwk_path_get_last_segment_without_root CWK_STYLE_UNIX ?p) =
      Inr (segpos CWK_STYLE_UNIX ?p 0 \<noteq> [], s')" "segpos CWK_STYLE_UNIX ?p 0 \<noteq> [] \<longrightarrow> at_seg CWK_STYLE_UNIX ?p (length (segpos CWK_STYLE_UNIX ?p 0) - 1) s'"
    using last_segment_at [OF f] f root_unix
    by (auto simp: cwk_path_get_last_segment_def cwk_path_get_last_segment_without_root_def cwk_path_get_first_segment_def split: if_splits)
  let ?sj = "sj\<lparr>j_segment := s', j_index := k\<rparr>"
  show ?case
  proof (cases "segpos CWK_STYLE_UNIX ?p 0 = []")
    case True
    then have "segs CWK_STYLE_UNIX ?p = []" by simp
    then have "all_segs (take (Suc k) (j_paths sj)) = all_segs (take k (j_paths sj))" "all_segs (drop (Suc k) (j_paths sj)) = all_segs (drop k (j_paths sj))"
      using k by (simp_all add: all_segs_split)
    with Suc.IH [of ?sj] k s' True show ?thesis by simp
  next
    case False
    then have "view ?sj (butlast (all_segs (take (Suc k) (j_paths sj)))) (last (all_segs (take (Suc k) (j_paths sj)))) (all_segs (drop (Suc k) (j_paths sj)))"
      using view_last [of k ?sj] s' k by simp
    moreover have "all_segs (take (Suc k) (j_paths sj)) \<noteq> []" using False k by (simp add: all_segs_split)
    ultimately show ?thesis using s' False by simp
  qed
qed

lemma previous_joined_view:
  assumes "view sj bs c as"
  shows "\<exists>sj'. cwk_path_get_previous_segment_joined CWK_STYLE_UNIX sj = Inr (bs \<noteq> [], sj') \<and>
    (bs \<noteq> [] \<longrightarrow> view sj' (butlast bs) (last bs) (c # as))"
proof -
  let ?k = "j_index sj"
  let ?p = "j_paths sj ! ?k"
  let ?ss = "segs CWK_STYLE_UNIX ?p"
  obtain i where v: "?k < length (j_paths sj)" "at_seg CWK_STYLE_UNIX ?p i (j_segment sj)"
    "bs = all_segs (take ?k (j_paths sj)) @ take i ?ss" "c = ?ss ! i" "as = drop (Suc i) ?ss @ all_segs (drop (Suc ?k) (j_paths sj))"
    using assms by (auto simp: view_def Let_def)
  have i: "i < length ?ss" using v(2) by (simp add: at_seg_def)
  then have as: "c # as = drop i ?ss @ all_segs (drop (Suc ?k) (j_paths sj))" using v(4,5) by (simp add: Cons_nth_drop_Suc)
  show ?thesis
  proof (cases i)
    case 0
    have "cwk_path_get_previous_segment CWK_STYLE_UNIX (j_segment sj) = (False, j_segment sj)"
      using previous_segment_at(1) [OF v(2) 0] .
    moreover have "bs = all_segs (take ?k (j_paths sj))" "c # as = all_segs (drop ?k (j_paths sj))"
      using v(1,3) as 0 by (simp_all add: all_segs_split)
    ultimately show ?thesis
      using previous_path_view [of ?k sj] v(1) by (auto simp: cwk_path_get_previous_segment_joined_def)
  next
    case (Suc j)
    then obtain s' where s': "cwk_path_get_previous_segment CWK_STYLE_UNIX (j_segment sj) = (True, s')" "at_seg CWK_STYLE_UNIX ?p j s'"
      using previous_segment_at(2) [OF v(2)] by blast
    have "take i ?ss = take j ?ss @ [?ss ! j]" using i Suc by (simp add: take_Suc_conv_app_nth)
    then have "bs \<noteq> []" "view (sj\<lparr>j_segment := s'\<rparr>) (butlast bs) (last bs) (c # as)"
      using s' v(1,3) as Suc unfolding view_def Let_def by (auto intro!: exI [of _ j] simp: butlast_append)
    then show ?thesis using s' v(1) by (auto simp: cwk_path_get_previous_segment_joined_def)
  qed
qed

text \<open>The content of the segment and its type.\<close>

definition kind :: "string \<Rightarrow> cwk_segment_type" where
  "kind c = (if c = ''.'' then CWK_CURRENT else if c = ''..'' then CWK_BACK else CWK_NORMAL)"

lemma strncmp_equal_take:
  "NUL \<notin> set (take n s1) \<Longrightarrow> n \<le> length s1 \<Longrightarrow> NUL \<notin> set s2 \<Longrightarrow> 
   strncmp_equal s1 s2 n \<longleftrightarrow> take n s1 = take n s2"
proof (induction s1 s2 n rule: strncmp_equal.induct)
  case (2 s1 s2 n)
  obtain a t where s1: "s1 = a # t" using 2(3) by (cases s1) auto
  show ?case
    using 2 s1 by (cases s2) (auto simp: char_at_def)
qed simp

lemma content_view:
  assumes "view sj bs c as" "\<forall>p \<in> set (j_paths sj). NUL \<notin> set p"
  shows "take (s_size (j_segment sj)) (drop (s_begin (j_segment sj)) (s_path (j_segment sj))) = c"
    and "length c = s_size (j_segment sj)" "c \<noteq> []" "cwk_path_get_segment_type (j_segment sj) = kind c"
proof -
  let ?p = "j_paths sj ! j_index sj" and ?s = "j_segment sj"
  obtain i where v: "j_index sj < length (j_paths sj)" "at_seg CWK_STYLE_UNIX ?p i ?s" "c = segs CWK_STYLE_UNIX ?p ! i"
    using assms(1) by (auto simp: view_def Let_def)
  have i: "i < length (segpos CWK_STYLE_UNIX ?p 0)" "segpos CWK_STYLE_UNIX ?p 0 ! i = (s_begin ?s, s_end ?s)"
    and s: "s_path ?s = ?p" "s_size ?s = s_end ?s - s_begin ?s" using v(2) by (simp_all add: at_seg_def)
  note n = segpos_nth [OF i]
  show c: "take (s_size ?s) (drop (s_begin ?s) (s_path ?s)) = c" using v(3) i s by (simp add: segs_def)
  have "s_begin ?s \<le> s_end ?s - 1" "s_end ?s - 1 < cwk_path_find_next_stop CWK_STYLE_UNIX ?p (s_begin ?s)" using n by linarith+
  then have "char_at ?p (s_end ?s - 1) \<noteq> NUL" using find_next_stop_over by blast
  then have e: "s_end ?s \<le> length ?p" by (auto simp: char_at_def split: if_splits)
  then show l: "length c = s_size ?s" using c s by (auto simp: c [symmetric])
  then show "c \<noteq> []" using n s by auto
  have "NUL \<notin> set ?p" using assms(2) v(1) by auto
  then have nul: "NUL \<notin> set (take (s_size ?s) (drop (s_begin ?s) ?p))" by (meson in_set_dropD in_set_takeD)
  have "s_size ?s \<le> length (drop (s_begin ?s) ?p)" using s e by simp
  then have *: "strncmp_equal (drop (s_begin ?s) ?p) t (s_size ?s) \<longleftrightarrow> c = take (length c) t" if "NUL \<notin> set t" for t
    using strncmp_equal_take [OF nul] that c l s by auto
  have "c = take (length c) ''.'' \<longleftrightarrow> c = ''.''" "c \<noteq> ''.'' \<Longrightarrow> c = take (length c) ''..'' \<longleftrightarrow> c = ''..''"
    using \<open>c \<noteq> []\<close> by (cases c; auto simp: take_Cons' split: if_splits)+
  then show "cwk_path_get_segment_type ?s = kind c"
    using * [of "''.''"] * [of "''..''"] s by (simp add: cwk_path_get_segment_type_def kind_def)
qed

subsection \<open>Which segments stay\<close>

text \<open>The two counting loops on the list of the segments before (the last one first) and behind a segment.\<close>

fun back_removed :: "int \<Rightarrow> string list \<Rightarrow> bool" where
  "back_removed n [] = False"
| "back_removed n (x # xs) =
     (case kind x of
        CWK_NORMAL \<Rightarrow> if n + 1 > 0 then True else back_removed (n + 1) xs
      | CWK_BACK \<Rightarrow> back_removed (n - 1) xs
      | CWK_CURRENT \<Rightarrow> back_removed n xs)"

fun normal_removed :: "int \<Rightarrow> string list \<Rightarrow> bool" where
  "normal_removed n [] = False"
| "normal_removed n (x # xs) =
     (case kind x of
        CWK_NORMAL \<Rightarrow> normal_removed (n + 1) xs
      | CWK_BACK \<Rightarrow> if n - 1 < 0 then True else normal_removed (n - 1) xs
      | CWK_CURRENT \<Rightarrow> normal_removed n xs)"

definition removed :: "bool \<Rightarrow> string list \<Rightarrow> string \<Rightarrow> string list \<Rightarrow> bool" where
  "removed absolute bs c as =
     (case kind c of
        CWK_CURRENT \<Rightarrow> True
      | CWK_BACK \<Rightarrow> absolute \<or> back_removed 0 (rev bs)
      | CWK_NORMAL \<Rightarrow> normal_removed 0 as)"

text \<open>The paths the structure refers to do not change, and they are C strings.\<close>

definition sees :: "string list \<Rightarrow> cwk_segment_joined \<Rightarrow> string list \<Rightarrow> string \<Rightarrow> string list \<Rightarrow> bool" where
  "sees paths sj bs c as \<longleftrightarrow> view sj bs c as \<and> j_paths sj = paths \<and> (\<forall>p \<in> set paths. NUL \<notin> set p)"

lemma next_joined_paths: "cwk_path_get_next_segment_joined st sj = Inr (b, sj') \<Longrightarrow> j_paths sj' = j_paths sj"
  using next_path_loop_moves
  by (fastforce simp: cwk_path_get_next_segment_joined_def rbind_def split: sum.splits if_splits)

lemma previous_path_loop_paths: "previous_path_loop st i sj = Inr (b, sj') \<Longrightarrow> j_paths sj' = j_paths sj"
  by (induction st i sj arbitrary: sj' rule: previous_path_loop.induct)
    (fastforce simp: rbind_def Let_def split: sum.splits if_splits)+

lemma previous_joined_paths: "cwk_path_get_previous_segment_joined st sj = Inr (b, sj') \<Longrightarrow> j_paths sj' = j_paths sj"
  using previous_path_loop_paths
  by (fastforce simp: cwk_path_get_previous_segment_joined_def split: prod.splits if_splits)

lemma sees_next:
  assumes "sees paths sj bs c as"
  shows "as = [] \<Longrightarrow> \<exists>sj'. cwk_path_get_next_segment_joined CWK_STYLE_UNIX sj = Inr (False, sj')"
    and "as = d # as' \<Longrightarrow> \<exists>sj'. cwk_path_get_next_segment_joined CWK_STYLE_UNIX sj = Inr (True, sj') \<and> sees paths sj' (bs @ [c]) d as'"
  using assms next_joined_view [of sj bs c as] next_joined_paths by (fastforce simp: sees_def)+

lemma sees_previous:
  assumes "sees paths sj bs c as"
  shows "bs = [] \<Longrightarrow> \<exists>sj'. cwk_path_get_previous_segment_joined CWK_STYLE_UNIX sj = Inr (False, sj')"
    and "bs = bs' @ [d] \<Longrightarrow> \<exists>sj'. cwk_path_get_previous_segment_joined CWK_STYLE_UNIX sj = Inr (True, sj') \<and> sees paths sj' bs' d (c # as)"
  using assms previous_joined_view [of sj bs c as] previous_joined_paths by (fastforce simp: sees_def)+

lemma sees_kind: "sees paths sj bs c as \<Longrightarrow> cwk_path_get_segment_type (j_segment sj) = kind c"
  using content_view(4) by (auto simp: sees_def)

lemma back_removed_loop_list:
  "sees paths sj bs c as \<Longrightarrow> back_removed_loop CWK_STYLE_UNIX n sj = Inr (back_removed n (rev bs))"
proof (induction bs arbitrary: n sj c as rule: rev_induct)
  case Nil
  then show ?case using sees_previous(1) by (subst back_removed_loop.simps) fastforce
next
  case (snoc d bs)
  obtain sj' where sj': "cwk_path_get_previous_segment_joined CWK_STYLE_UNIX sj = Inr (True, sj')" "sees paths sj' bs d (c # as)"
    using sees_previous(2) [OF snoc.prems refl] by blast
  with snoc.IH [OF sj'(2)] sees_kind [OF sj'(2)] show ?case
    by (subst back_removed_loop.simps) (simp split: cwk_segment_type.split)
qed

lemma normal_removed_loop_list:
  "sees paths sj bs c as \<Longrightarrow> normal_removed_loop CWK_STYLE_UNIX n sj = Inr (normal_removed n as)"
proof (induction as arbitrary: n sj c bs)
  case Nil
  then show ?case using sees_next(1) by (subst normal_removed_loop.simps) fastforce
next
  case (Cons d as)
  obtain sj' where sj': "cwk_path_get_next_segment_joined CWK_STYLE_UNIX sj = Inr (True, sj')" "sees paths sj' (bs @ [c]) d as"
    using sees_next(2) [OF Cons.prems refl] by blast
  with Cons.IH [OF sj'(2)] sees_kind [OF sj'(2)] show ?case
    by (subst normal_removed_loop.simps) (simp split: cwk_segment_type.split)
qed

lemma will_be_removed_list:
  "sees paths sj bs c as \<Longrightarrow> cwk_path_segment_will_be_removed CWK_STYLE_UNIX sj absolute = Inr (removed absolute bs c as)"
  using back_removed_loop_list normal_removed_loop_list sees_kind [of paths sj bs c as]
  by (cases "kind c") (auto simp: cwk_path_segment_will_be_removed_def removed_def Let_def
      cwk_path_segment_back_will_be_removed_def cwk_path_segment_normal_will_be_removed_def)

text \<open>The segments that stay, and the stack that is the reference.\<close>

fun survivors :: "bool \<Rightarrow> string list \<Rightarrow> string list \<Rightarrow> string list" where
  "survivors absolute bs [] = []"
| "survivors absolute bs (c # as) =
     (if removed absolute bs c as then [] else [c]) @ survivors absolute (bs @ [c]) as"

fun resolve :: "bool \<Rightarrow> string list \<Rightarrow> string list \<Rightarrow> string list" where
  "resolve absolute stack [] = rev stack"
| "resolve absolute stack (s # ss) =
     (if s = ''.'' then resolve absolute stack ss
      else if s = ''..'' then
        case stack of
          [] \<Rightarrow> resolve absolute (if absolute then [] else [''..'']) ss
        | t # stack' \<Rightarrow> resolve absolute (if t = ''..'' then ''..'' # stack else stack') ss
      else resolve absolute (s # stack) ss)"

text \<open>How many normal segments the ones read so far have left on the stack.\<close>

fun depth :: "nat \<Rightarrow> string list \<Rightarrow> nat" where
  "depth n [] = n"
| "depth n (x # xs) = depth (case kind x of CWK_NORMAL \<Rightarrow> Suc n | CWK_BACK \<Rightarrow> n - 1 | CWK_CURRENT \<Rightarrow> n) xs"

lemma depth_append [simp]: "depth n (xs @ ys) = depth (depth n xs) ys"
  by (induction xs arbitrary: n) auto

lemma back_removed_depth: "n \<le> 0 \<Longrightarrow> back_removed n (rev bs) \<longleftrightarrow> int (depth 0 bs) > - n"
  by (induction bs arbitrary: n rule: rev_induct) (auto split: cwk_segment_type.split)

text \<open>What is left of a stack of normal segments after the segments behind it; \<open>h\<close> is the number of segments above.\<close>

fun stays :: "nat \<Rightarrow> string list \<Rightarrow> string list \<Rightarrow> string list" where
  "stays h [] as = []"
| "stays h (n # ns) as = stays (Suc h) ns as @ (if normal_removed (int h) as then [] else [n])"

lemma stays_simps:
  "stays h ns [] = rev ns"
  "kind x = CWK_CURRENT \<Longrightarrow> stays h ns (x # as) = stays h ns as"
  "kind x = CWK_NORMAL \<Longrightarrow> stays h ns (x # as) = stays (Suc h) ns as"
  "kind x = CWK_BACK \<Longrightarrow> stays (Suc h) ns (x # as) = stays h ns as"
  by (induction ns arbitrary: h) (simp_all add: add.commute)

lemma kind_simps [simp]: "kind ''.'' = CWK_CURRENT" "kind ''..'' = CWK_BACK"
  by (simp_all add: kind_def)

lemma kind_cases:
  obtains "c = ''.''" "kind c = CWK_CURRENT" | "c = ''..''" "kind c = CWK_BACK" | "c \<noteq> ''.''" "c \<noteq> ''..''" "kind c = CWK_NORMAL"
  by (auto simp: kind_def split: if_splits)

lemma survivors_resolve_stack:
  assumes "\<forall>n \<in> set ns. kind n = CWK_NORMAL" "depth 0 bs = length ns" "absolute \<Longrightarrow> m = 0"
  shows "resolve absolute (ns @ replicate m ''..'') as = replicate m ''..'' @ stays 0 ns as @ survivors absolute bs as"
  using assms
proof (induction as arbitrary: ns bs m)
  case Nil
  then show ?case by (simp add: stays_simps)
next
  case (Cons c as)
  show ?case
  proof (cases rule: kind_cases [of c])
    case 1
    then show ?thesis using Cons.IH [of ns "bs @ [c]" m] Cons.prems by (simp add: removed_def stays_simps)
  next
    case 2
    show ?thesis
    proof (cases ns)
      case Nil
      then have "depth 0 bs = 0" using Cons.prems by simp
      then have r: "removed absolute bs c as \<longleftrightarrow> absolute" using 2 back_removed_depth [of 0 bs] by (simp add: removed_def)
      show ?thesis
      proof (cases absolute)
        case True
        then show ?thesis using Cons.IH [of "[]" "bs @ [c]" 0] Cons.prems 2 Nil r by simp
      next
        case False
        then show ?thesis
          using Cons.IH [of "[]" "bs @ [c]" "Suc m"] Cons.prems 2 Nil r
          by (cases m) (simp_all add: replicate_append_same)
      qed
    next
      case (Cons n ns')
      then have "depth 0 bs > 0" "n \<noteq> ''..''" using Cons.prems by auto
      then have "removed absolute bs c as" using 2 back_removed_depth [of 0 bs] by (simp add: removed_def)
      then show ?thesis
        using Cons.IH [of ns' "bs @ [c]" m] Cons.prems 2 Cons \<open>n \<noteq> ''..''\<close> by (simp add: stays_simps)
    qed
  next
    case 3
    then show ?thesis
      using Cons.IH [of "c # ns" "bs @ [c]" m] Cons.prems by (simp add: removed_def stays_simps)
  qed
qed

lemma survivors_resolve: "survivors absolute [] ss = resolve absolute [] ss"
  using survivors_resolve_stack [of "[]" "[]" absolute 0 ss] by simp

subsection \<open>What is written\<close>

text \<open>The buffer of \<open>n\<close> characters after writing \<open>text\<close>: as much of it as fits.\<close>

definition written :: "nat \<Rightarrow> string \<Rightarrow> nat \<times> string \<Rightarrow> bool" where
  "written n txt out \<longleftrightarrow> (case out of (pos, buffer) \<Rightarrow>
     length buffer = n \<and> pos = length txt \<and> take (min pos n) buffer = take n txt)"

lemma written_output:
  assumes "written n txt (pos, buffer)" "k \<le> length xs"
  shows "case cwk_path_output_sized buffer pos xs k of (m, buffer') \<Rightarrow> written n (txt @ take k xs) (pos + m, buffer')"
proof -
  have b: "length buffer = n" "pos = length txt" "take (min pos n) buffer = take n txt" using assms(1) by (auto simp: written_def)
  consider "pos + k < n" | "pos < n" "n \<le> pos + k" | "n \<le> pos" by linarith
  then show ?thesis
  proof cases
    case 1
    then show ?thesis
      using b assms(2) by (cases "k = 0") (auto simp: written_def cwk_path_output_sized_def memmove_at_def Let_def min_def)
  next
    case 2
    then have "n - pos \<le> length xs" using assms(2) by simp
    then show ?thesis
      using b assms(2) 2 by (auto simp: written_def cwk_path_output_sized_def memmove_at_def Let_def min_def)
  next
    case 3
    then show ?thesis
      using b assms(2) by (auto simp: written_def cwk_path_output_sized_def Let_def min_def)
  qed
qed

lemma written_segment:
  assumes "written n txt (pos, buffer)" "sees paths sj bs c as"
  shows "case output_segment CWK_STYLE_UNIX (j_segment sj) (h, pos, buffer) of (h', out) \<Rightarrow>
    h' \<and> written n (txt @ (if h then ''/'' else []) @ c) out"
proof -
  obtain m b where m: "(if h then cwk_path_output_separator CWK_STYLE_UNIX buffer pos else (0, buffer)) = (m, b)" by fastforce
  then have w: "written n (txt @ (if h then ''/'' else [])) (pos + m, b)"
    using assms(1) written_output [OF assms(1), of 1 "''/''"] by (auto simp: cwk_path_output_separator_def split: if_splits prod.splits)
  let ?s = "j_segment sj"
  have c: "take (s_size ?s) (drop (s_begin ?s) (s_path ?s)) = c" "length c = s_size ?s"
    using content_view assms(2) by (auto simp: sees_def)
  then have "s_size ?s \<le> length (drop (s_begin ?s) (s_path ?s))" by (metis length_take min.cobounded1)
  from written_output [OF w this] c(1) m show ?thesis
    by (auto simp: output_segment_def Let_def split: prod.splits)
qed

text \<open>Segments with separators between them.\<close>

fun join_segs :: "string list \<Rightarrow> string" where
  "join_segs [] = []"
| "join_segs [s] = s"
| "join_segs (s # t # ss) = s @ ''/'' @ join_segs (t # ss)"

lemma join_segs_snoc: "ss \<noteq> [] \<Longrightarrow> join_segs (ss @ [s]) = join_segs ss @ ''/'' @ s"
  by (induction ss rule: join_segs.induct) auto

lemma normalize_loop_written:
  assumes "sees paths sj bs c as" "written n (root @ join_segs out) (pos, buffer)"
  shows "\<exists>pos' buffer'. normalize_loop CWK_STYLE_UNIX absolute sj (out \<noteq> [], pos, buffer) =
      Inr (out @ survivors absolute bs (c # as) \<noteq> [], pos', buffer') \<and>
    written n (root @ join_segs (out @ survivors absolute bs (c # as))) (pos', buffer')"
  using assms
proof (induction as arbitrary: sj bs c out pos buffer)
  case Nil
  obtain h pos1 buffer1 where o: "output_segment CWK_STYLE_UNIX (j_segment sj) (out \<noteq> [], pos, buffer) = (h, pos1, buffer1)"
    by (metis prod_cases3)
  with written_segment [OF Nil(2,1), of "out \<noteq> []"] have "h" "written n (root @ join_segs (out @ [c])) (pos1, buffer1)"
    by (auto simp: join_segs_snoc split: if_splits)
  moreover obtain sj' where "cwk_path_get_next_segment_joined CWK_STYLE_UNIX sj = Inr (False, sj')" using sees_next(1) [OF Nil(1)] by blast
  ultimately show ?case
    using will_be_removed_list [OF Nil(1), of absolute] o Nil(2) by (subst normalize_loop.simps) auto
next
  case (Cons d as)
  obtain h pos1 buffer1 where o: "output_segment CWK_STYLE_UNIX (j_segment sj) (out \<noteq> [], pos, buffer) = (h, pos1, buffer1)"
    by (metis prod_cases3)
  with written_segment [OF Cons.prems(2,1), of "out \<noteq> []"] have h: "h" "written n (root @ join_segs (out @ [c])) (pos1, buffer1)"
    by (auto simp: join_segs_snoc split: if_splits)
  obtain sj' where sj': "cwk_path_get_next_segment_joined CWK_STYLE_UNIX sj = Inr (True, sj')" "sees paths sj' (bs @ [c]) d as"
    using sees_next(2) [OF Cons.prems(1) refl] by blast
  show ?case
    using Cons.IH [OF sj'(2) h(2)] Cons.IH [OF sj'(2) Cons.prems(2)] will_be_removed_list [OF Cons.prems(1), of absolute] o h(1) sj'(1)
    by (subst normalize_loop.simps) (auto split: if_splits)
qed

text \<open>The normal form of a list of paths.\<close>

definition normal_form :: "string list \<Rightarrow> string" where
  "normal_form paths =
     (let absolute = cwk_path_is_absolute CWK_STYLE_UNIX (hd paths);
          ss = resolve absolute [] (all_segs paths) in
      if absolute then ''/'' @ join_segs ss
      else if all_segs paths \<noteq> [] \<and> ss = [] then ''.''
      else join_segs ss)"

lemma written_terminate:
  assumes "written n txt (pos, buffer)" "0 < n"
  shows "let k = min (length txt) (n - 1); b = cwk_path_terminate_output buffer pos in
    length b = n \<and> take k b = take k txt \<and> b ! k = NUL"
proof -
  have b: "length buffer = n" "pos = length txt" "take (min pos n) buffer = take n txt" using assms(1) by (auto simp: written_def)
  have "take (min (length txt) (n - 1)) buffer = take (min (length txt) (n - 1)) (take (min pos n) buffer)"
    using b(2) by (simp add: min_def)
  also have "\<dots> = take (min (length txt) (n - 1)) txt" unfolding b(3) by (simp add: min_def)
  finally have *: "take (min (length txt) (n - 1)) buffer = take (min (length txt) (n - 1)) txt" .
  show ?thesis
  proof (cases "length txt < n")
    case True
    then have "min (length txt) (n - 1) = length txt" by simp
    with * b True show ?thesis by (simp add: cwk_path_terminate_output_def Let_def)
  next
    case False
    then have "min (length txt) (n - 1) = n - 1" by simp
    with * b False assms(2) show ?thesis by (simp add: cwk_path_terminate_output_def Let_def)
  qed
qed

lemma unix_absolute: "cwk_path_is_root_absolute CWK_STYLE_UNIX p (cwk_path_get_root CWK_STYLE_UNIX p) \<longleftrightarrow> char_at p 0 = CHR ''/''"
  "cwk_path_get_root CWK_STYLE_UNIX p = (if char_at p 0 = CHR ''/'' then 1 else 0)"
  by (simp_all add: cwk_path_is_root_absolute_def cwk_path_get_root_def cwk_path_get_root_unix_def cwk_path_is_separator_def)

lemma join_and_normalize_written:
  assumes "paths \<noteq> []" "\<forall>p \<in> set paths. NUL \<notin> set p"
  shows "\<exists>out. written (length buffer) (normal_form paths) out \<and>
    cwk_path_join_and_normalize_multiple CWK_STYLE_UNIX paths buffer = Inr (fst out, cwk_path_terminate_output (snd out) (fst out))"
proof -
  obtain path ps where p: "paths = path # ps" using assms(1) by (cases paths) auto
  define n r where "n = length buffer" and "r = cwk_path_get_root CWK_STYLE_UNIX path"
  define absolute where "absolute = cwk_path_is_root_absolute CWK_STYLE_UNIX path r"
  define ss where "ss = all_segs paths"
  define out where "out = resolve absolute [] ss"
  define root where "root = (if absolute then ''/'' else [])"
  have r: "take r path = root" "r \<le> length path"
    unfolding r_def absolute_def root_def unix_absolute(1)
    by (auto simp: unix_absolute(2) char_at_def take_Suc hd_conv_nth Suc_le_eq)
  obtain m b0 where b0: "cwk_path_output_sized buffer 0 path r = (m, b0)" by fastforce
  have m: "m = r" using b0 by (simp add: cwk_path_output_sized_def Let_def)
  have w0: "written n (root @ join_segs []) (r, b0)"
    using written_output [of n "[]" 0 buffer r path] b0 m r by (auto simp: written_def n_def)
  have nf: "normal_form paths = (if ss \<noteq> [] \<and> out = [] \<and> \<not> absolute then ''.'' else root @ join_segs out)"
    by (simp add: normal_form_def p cwk_path_is_absolute_def Let_def out_def ss_def absolute_def r_def root_def)
  obtain found sj where f: "cwk_path_get_first_segment_joined CWK_STYLE_UNIX paths = (found, sj)" by fastforce
  note v = first_joined_view [OF f]
  have J: "cwk_path_join_and_normalize_multiple CWK_STYLE_UNIX paths buffer =
      (if \<not> found then Inr (r, cwk_path_terminate_output b0 r)
       else rbind (normalize_loop CWK_STYLE_UNIX absolute sj (False, r, b0)) (\<lambda>(has_segment_output, pos, buffer).
         if \<not> has_segment_output \<and> pos = 0 then
           if absolute then Inl AssertFailed
           else let (k, buffer) = cwk_path_output_current buffer pos; pos = pos + k in Inr (pos, cwk_path_terminate_output buffer pos)
         else Inr (pos, cwk_path_terminate_output buffer pos)))"
    using b0 f unfolding cwk_path_join_and_normalize_multiple_def p absolute_def r_def
    by (simp add: Let_def cwk_path_fix_root_def)
  show ?thesis
  proof (cases found)
    case False
    then have "ss = []" using v by (simp add: ss_def)
    then have "normal_form paths = root @ join_segs []" using nf by (simp add: out_def)
    then show ?thesis using w0 J False by (intro exI [of _ "(r, b0)"]) (simp add: n_def)
  next
    case True
    then have s: "sees paths sj [] (hd ss) (tl ss)" "ss \<noteq> []" using v assms(2) by (auto simp: sees_def ss_def)
    have "survivors absolute [] (hd ss # tl ss) = out" using s(2) survivors_resolve by (simp add: out_def)
    then obtain pos b1 where l: "normalize_loop CWK_STYLE_UNIX absolute sj (False, r, b0) = Inr (out \<noteq> [], pos, b1)"
      "written n (root @ join_segs out) (pos, b1)"
      using normalize_loop_written [OF s(1) w0, of absolute] by auto
    have pos: "pos = length (root @ join_segs out)" using l(2) by (simp add: written_def)
    show ?thesis
    proof (cases "out = [] \<and> \<not> absolute")
      case True
      obtain m2 b2 where b2: "cwk_path_output_sized b1 0 ''.'' 1 = (m2, b2)" by fastforce
      have pos0: "pos = 0" "root @ join_segs out = []" using True pos by (simp_all add: root_def)
      then have "written n ''.'' (m2, b2)"
        using written_output [OF l(2), of 1 "''.''"] b2 by simp
      moreover have "normal_form paths = ''.''" using nf True s(2) by simp
      ultimately show ?thesis
        using J \<open>found\<close> l(1) True pos0 b2 by (intro exI [of _ "(m2, b2)"]) (simp add: cwk_path_output_current_def n_def)
    next
      case False
      then have "normal_form paths = root @ join_segs out" using nf by auto
      moreover have "\<not> (out = [] \<and> pos = 0)" using False pos by (auto simp: root_def)
      ultimately show ?thesis
        using J \<open>found\<close> l by (intro exI [of _ "(pos, b1)"]) (auto simp: n_def)
    qed
  qed
qed

text \<open>
  C25. Joining paths refines the stack of segments: for every non-empty list of C strings, \<open>cwk_path_join_multiple\<close>
  returns the length of the normal form of the paths and leaves the normal form in the buffer, cut to the
  size of the buffer and terminated in any case.
\<close>

theorem join_refines_stack:
  assumes "paths \<noteq> []" "\<forall>p \<in> set paths. NUL \<notin> set p"
  shows "\<exists>buffer'. cwk_path_join_multiple CWK_STYLE_UNIX paths buffer = Inr (length (normal_form paths), buffer') \<and>
    (buffer \<noteq> [] \<longrightarrow>
      (let k = min (length (normal_form paths)) (length buffer - 1) in
       length buffer' = length buffer \<and> take k buffer' = take k (normal_form paths) \<and> buffer' ! k = NUL))"
proof -
  obtain out where o: "written (length buffer) (normal_form paths) (fst out, snd out)"
    "cwk_path_join_multiple CWK_STYLE_UNIX paths buffer = Inr (fst out, cwk_path_terminate_output (snd out) (fst out))"
    using join_and_normalize_written [OF assms, of buffer] by (auto simp: cwk_path_join_multiple_def)
  have "fst out = length (normal_form paths)" using o(1) by (auto simp: written_def)
  with o written_terminate [OF o(1)] show ?thesis by (auto simp: Let_def)
qed

lemma normal_form_example:
  "normal_form [''/a/./b'', ''../../../c//d/''] = ''/c/d''"
  by code_simp

theorem join_refines_stack_witness:
  "\<exists>buffer'. cwk_path_join_multiple CWK_STYLE_UNIX [''/a/./b'', ''../../../c//d/''] (replicate 8 CHR ''x'') = Inr (4, buffer') \<and>
     take 4 buffer' = ''/c/d'' \<and> buffer' ! 4 = NUL"
  using join_refines_stack [of "[''/a/./b'', ''../../../c//d/'']" "replicate 8 CHR ''x''"] normal_form_example
  by (auto simp: Let_def numeral_eq_Suc)

end
