(* ===== verification/Hashes.thy ===== *)
theory Hashes
  imports Prelude
begin

unbundle bit_operations_syntax

section \<open>Checksums and message digests\<close>

text \<open>
  A model of src/Kernel/library/crc32.c, md5.c and sha512.c and of src/Kernel/network/checksum.cpp. A buffer is the
  list of its bytes.
  \<^item> \<open>md5Update\<close> counts with an \<open>unsigned int\<close> up to a \<open>size_t\<close>: for \<open>2\<^sup>3\<^sup>2\<close> bytes or more it does not end.
  \<^item> The context of \<open>sha512_sum\<close> is a local variable that \<open>sha512_init\<close> initialises in part; what its block
    buffer holds before is the parameter \<open>uninit\<close>.
  \<^item> The table \<open>sha512_K\<close> of the round constants is the argument \<open>K\<close> of the functions of sha512.c: their properties
    hold for every table.
  \<^item> Whether \<open>kmalloc\<close> or \<open>malloc\<close> returns memory for the result is the parameter \<open>alloc\<close>.
\<close>

subsection \<open>CRC-32\<close>

definition LookupTable :: "u32 list" where
  "LookupTable = [
    0x00000000, 0x04c11db7, 0x09823b6e, 0x0d4326d9, 0x130476dc, 0x17c56b6b, 0x1a864db2, 0x1e475005,
    0x2608edb8, 0x22c9f00f, 0x2f8ad6d6, 0x2b4bcb61, 0x350c9b64, 0x31cd86d3, 0x3c8ea00a, 0x384fbdbd,
    0x4c11db70, 0x48d0c6c7, 0x4593e01e, 0x4152fda9, 0x5f15adac, 0x5bd4b01b, 0x569796c2, 0x52568b75,
    0x6a1936c8, 0x6ed82b7f, 0x639b0da6, 0x675a1011, 0x791d4014, 0x7ddc5da3, 0x709f7b7a, 0x745e66cd,
    0x9823b6e0, 0x9ce2ab57, 0x91a18d8e, 0x95609039, 0x8b27c03c, 0x8fe6dd8b, 0x82a5fb52, 0x8664e6e5,
    0xbe2b5b58, 0xbaea46ef, 0xb7a96036, 0xb3687d81, 0xad2f2d84, 0xa9ee3033, 0xa4ad16ea, 0xa06c0b5d,
    0xd4326d90, 0xd0f37027, 0xddb056fe, 0xd9714b49, 0xc7361b4c, 0xc3f706fb, 0xceb42022, 0xca753d95,
    0xf23a8028, 0xf6fb9d9f, 0xfbb8bb46, 0xff79a6f1, 0xe13ef6f4, 0xe5ffeb43, 0xe8bccd9a, 0xec7dd02d,
    0x34867077, 0x30476dc0, 0x3d044b19, 0x39c556ae, 0x278206ab, 0x23431b1c, 0x2e003dc5, 0x2ac12072,
    0x128e9dcf, 0x164f8078, 0x1b0ca6a1, 0x1fcdbb16, 0x018aeb13, 0x054bf6a4, 0x0808d07d, 0x0cc9cdca,
    0x7897ab07, 0x7c56b6b0, 0x71159069, 0x75d48dde, 0x6b93dddb, 0x6f52c06c, 0x6211e6b5, 0x66d0fb02,
    0x5e9f46bf, 0x5a5e5b08, 0x571d7dd1, 0x53dc6066, 0x4d9b3063, 0x495a2dd4, 0x44190b0d, 0x40d816ba,
    0xaca5c697, 0xa864db20, 0xa527fdf9, 0xa1e6e04e, 0xbfa1b04b, 0xbb60adfc, 0xb6238b25, 0xb2e29692,
    0x8aad2b2f, 0x8e6c3698, 0x832f1041, 0x87ee0df6, 0x99a95df3, 0x9d684044, 0x902b669d, 0x94ea7b2a,
    0xe0b41de7, 0xe4750050, 0xe9362689, 0xedf73b3e, 0xf3b06b3b, 0xf771768c, 0xfa325055, 0xfef34de2,
    0xc6bcf05f, 0xc27dede8, 0xcf3ecb31, 0xcbffd686, 0xd5b88683, 0xd1799b34, 0xdc3abded, 0xd8fba05a,
    0x690ce0ee, 0x6dcdfd59, 0x608edb80, 0x644fc637, 0x7a089632, 0x7ec98b85, 0x738aad5c, 0x774bb0eb,
    0x4f040d56, 0x4bc510e1, 0x46863638, 0x42472b8f, 0x5c007b8a, 0x58c1663d, 0x558240e4, 0x51435d53,
    0x251d3b9e, 0x21dc2629, 0x2c9f00f0, 0x285e1d47, 0x36194d42, 0x32d850f5, 0x3f9b762c, 0x3b5a6b9b,
    0x0315d626, 0x07d4cb91, 0x0a97ed48, 0x0e56f0ff, 0x1011a0fa, 0x14d0bd4d, 0x19939b94, 0x1d528623,
    0xf12f560e, 0xf5ee4bb9, 0xf8ad6d60, 0xfc6c70d7, 0xe22b20d2, 0xe6ea3d65, 0xeba91bbc, 0xef68060b,
    0xd727bbb6, 0xd3e6a601, 0xdea580d8, 0xda649d6f, 0xc423cd6a, 0xc0e2d0dd, 0xcda1f604, 0xc960ebb3,
    0xbd3e8d7e, 0xb9ff90c9, 0xb4bcb610, 0xb07daba7, 0xae3afba2, 0xaafbe615, 0xa7b8c0cc, 0xa379dd7b,
    0x9b3660c6, 0x9ff77d71, 0x92b45ba8, 0x9675461f, 0x8832161a, 0x8cf30bad, 0x81b02d74, 0x857130c3,
    0x5d8a9099, 0x594b8d2e, 0x5408abf7, 0x50c9b640, 0x4e8ee645, 0x4a4ffbf2, 0x470cdd2b, 0x43cdc09c,
    0x7b827d21, 0x7f436096, 0x7200464f, 0x76c15bf8, 0x68860bfd, 0x6c47164a, 0x61043093, 0x65c52d24,
    0x119b4be9, 0x155a565e, 0x18197087, 0x1cd86d30, 0x029f3d35, 0x065e2082, 0x0b1d065b, 0x0fdc1bec,
    0x3793a651, 0x3352bbe6, 0x3e119d3f, 0x3ad08088, 0x2497d08d, 0x2056cd3a, 0x2d15ebe3, 0x29d4f654,
    0xc5a92679, 0xc1683bce, 0xcc2b1d17, 0xc8ea00a0, 0xd6ad50a5, 0xd26c4d12, 0xdf2f6bcb, 0xdbee767c,
    0xe3a1cbc1, 0xe760d676, 0xea23f0af, 0xeee2ed18, 0xf0a5bd1d, 0xf464a0aa, 0xf9278673, 0xfde69bc4,
    0x89b8fd09, 0x8d79e0be, 0x803ac667, 0x84fbdbd0, 0x9abc8bd5, 0x9e7d9662, 0x933eb0bb, 0x97ffad0c,
    0xafb010b1, 0xab710d06, 0xa6322bdf, 0xa2f33668, 0xbcb4666d, 0xb8757bda, 0xb5365d03, 0xb1f740b4]"

fun crc32_loop :: "u32 \<Rightarrow> u8 list \<Rightarrow> u32" where
  "crc32_loop ret [] = ret"
| "crc32_loop ret (b # Buffer) =
     crc32_loop (push_bit 8 ret XOR LookupTable ! unat ((drop_bit 24 ret XOR ucast b) AND 255)) Buffer"

definition crc32 :: "u8 list \<Rightarrow> u32" where
  "crc32 Buffer = crc32_loop 0xffffffff Buffer"

subsection \<open>MD5\<close>

definition md5_S :: "nat list" where
  "md5_S = [
    7, 12, 17, 22, 7, 12, 17, 22, 7, 12, 17, 22, 7, 12, 17, 22,
    5, 9, 14, 20, 5, 9, 14, 20, 5, 9, 14, 20, 5, 9, 14, 20,
    4, 11, 16, 23, 4, 11, 16, 23, 4, 11, 16, 23, 4, 11, 16, 23,
    6, 10, 15, 21, 6, 10, 15, 21, 6, 10, 15, 21, 6, 10, 15, 21]"

definition md5_K :: "u32 list" where
  "md5_K = [
    0xd76aa478, 0xe8c7b756, 0x242070db, 0xc1bdceee, 0xf57c0faf, 0x4787c62a, 0xa8304613, 0xfd469501,
    0x698098d8, 0x8b44f7af, 0xffff5bb1, 0x895cd7be, 0x6b901122, 0xfd987193, 0xa679438e, 0x49b40821,
    0xf61e2562, 0xc040b340, 0x265e5a51, 0xe9b6c7aa, 0xd62f105d, 0x02441453, 0xd8a1e681, 0xe7d3fbc8,
    0x21e1cde6, 0xc33707d6, 0xf4d50d87, 0x455a14ed, 0xa9e3e905, 0xfcefa3f8, 0x676f02d9, 0x8d2a4c8a,
    0xfffa3942, 0x8771f681, 0x6d9d6122, 0xfde5380c, 0xa4beea44, 0x4bdecfa9, 0xf6bb4b60, 0xbebfbc70,
    0x289b7ec6, 0xeaa127fa, 0xd4ef3085, 0x04881d05, 0xd9d4d039, 0xe6db99e5, 0x1fa27cf8, 0xc4ac5665,
    0xf4292244, 0x432aff97, 0xab9423a7, 0xfc93a039, 0x655b59c3, 0x8f0ccc92, 0xffeff47d, 0x85845dd1,
    0x6fa87e4f, 0xfe2ce6e0, 0xa3014314, 0x4e0811a1, 0xf7537e82, 0xbd3af235, 0x2ad7d2bb, 0xeb86d391]"

definition md5_F :: "u32 \<Rightarrow> u32 \<Rightarrow> u32 \<Rightarrow> u32" where "md5_F X Y Z = (X AND Y) OR (NOT X AND Z)"
definition md5_G :: "u32 \<Rightarrow> u32 \<Rightarrow> u32 \<Rightarrow> u32" where "md5_G X Y Z = (X AND Z) OR (Y AND NOT Z)"
definition md5_H :: "u32 \<Rightarrow> u32 \<Rightarrow> u32 \<Rightarrow> u32" where "md5_H X Y Z = X XOR Y XOR Z"
definition md5_I :: "u32 \<Rightarrow> u32 \<Rightarrow> u32 \<Rightarrow> u32" where "md5_I X Y Z = Y XOR (X OR NOT Z)"

definition rotateLeft :: "u32 \<Rightarrow> nat \<Rightarrow> u32" where
  "rotateLeft x n = push_bit n x OR drop_bit (32 - n) x"

record MD5Context =
  m_size :: u64
  m_buffer :: "u32 list"
  m_input :: "u8 list"
  m_digest :: "u8 list"

definition md5Init :: "MD5Context \<Rightarrow> MD5Context" where
  "md5Init ctx = ctx\<lparr>m_size := 0, m_buffer := [0x67452301, 0xefcdab89, 0x98badcfe, 0x10325476]\<rparr>"

fun md5_round :: "u32 list \<Rightarrow> nat \<Rightarrow> u32 \<times> u32 \<times> u32 \<times> u32 \<Rightarrow> u32 \<times> u32 \<times> u32 \<times> u32" where
  "md5_round input i (AA, BB, CC, DD) =
     (let (E, j) =
        (if i div 16 = 0 then (md5_F BB CC DD, i)
         else if i div 16 = 1 then (md5_G BB CC DD, (i * 5 + 1) mod 16)
         else if i div 16 = 2 then (md5_H BB CC DD, (i * 3 + 5) mod 16)
         else (md5_I BB CC DD, (i * 7) mod 16)) in
      (DD, BB + rotateLeft (AA + E + md5_K ! i + input ! j) (md5_S ! i), BB, CC))"

definition md5Step :: "u32 list \<Rightarrow> u32 list \<Rightarrow> u32 list" where
  "md5Step buffer input =
     (case fold (md5_round input) [0..<64] (buffer ! 0, buffer ! 1, buffer ! 2, buffer ! 3) of
        (AA, BB, CC, DD) \<Rightarrow> [buffer ! 0 + AA, buffer ! 1 + BB, buffer ! 2 + CC, buffer ! 3 + DD])"

text \<open>The bytes of a block as little-endian words.\<close>

definition le_word :: "u8 list \<Rightarrow> nat \<Rightarrow> u32" where
  "le_word input j =
     push_bit 24 (ucast (input ! (j * 4 + 3))) OR push_bit 16 (ucast (input ! (j * 4 + 2))) OR
     push_bit 8 (ucast (input ! (j * 4 + 1))) OR ucast (input ! (j * 4))"

fun md5Update_loop :: "nat \<Rightarrow> u8 list \<Rightarrow> MD5Context \<Rightarrow> MD5Context" where
  "md5Update_loop offset [] ctx = ctx"
| "md5Update_loop offset (b # input_buffer) ctx =
     (let ctx = ctx\<lparr>m_input := (m_input ctx)[offset := b]\<rparr>;
          offset = offset + 1 in
      if offset mod 64 = 0
      then md5Update_loop 0 input_buffer (ctx\<lparr>m_buffer := md5Step (m_buffer ctx) (map (le_word (m_input ctx)) [0..<16])\<rparr>)
      else md5Update_loop offset input_buffer ctx)"

definition md5Update :: "MD5Context \<Rightarrow> u8 list \<Rightarrow> MD5Context res" where
  "md5Update ctx input_buffer =
     (if length input_buffer \<ge> 2 ^ 32 then Inl Diverges
      else Inr (md5Update_loop (unat (m_size ctx) mod 64) input_buffer
        (ctx\<lparr>m_size := m_size ctx + of_nat (length input_buffer)\<rparr>)))"

definition PADDING :: "u8 list" where
  "PADDING = 0x80 # replicate 63 0"

definition digest_bytes :: "u32 \<Rightarrow> u8 list" where
  "digest_bytes w = [ucast (w AND 0x000000FF), ucast (drop_bit 8 (w AND 0x0000FF00)),
     ucast (drop_bit 16 (w AND 0x00FF0000)), ucast (drop_bit 24 (w AND 0xFF000000))]"

definition md5Finalize :: "MD5Context \<Rightarrow> MD5Context res" where
  "md5Finalize ctx =
     (let offset = unat (m_size ctx) mod 64;
          padding_length = (if offset < 56 then 56 - offset else (56 + 64) - offset) in
      rbind (md5Update ctx (take padding_length PADDING)) (\<lambda>ctx.
      let ctx = ctx\<lparr>m_size := m_size ctx - of_nat padding_length\<rparr>;
          input = map (le_word (m_input ctx)) [0..<14] @ [ucast (m_size ctx * 8), ucast (drop_bit 32 (m_size ctx * 8))];
          ctx = ctx\<lparr>m_buffer := md5Step (m_buffer ctx) input\<rparr> in
      Inr (ctx\<lparr>m_digest := concat (map digest_bytes (m_buffer ctx))\<rparr>)))"

text \<open>The string \<open>"error"\<close> with its terminator, which is returned when there is no memory for the digest.\<close>

definition md5_result :: "bool \<Rightarrow> MD5Context \<Rightarrow> u8 list" where
  "md5_result alloc ctx = (if \<not> alloc then [101, 114, 114, 111, 114, 0] else take 16 (m_digest ctx))"

definition md5String :: "bool \<Rightarrow> MD5Context \<Rightarrow> u8 list \<Rightarrow> u8 list res" where
  "md5String alloc uninit input =
     rbind (md5Update (md5Init uninit) input) (\<lambda>ctx.
     rbind (md5Finalize ctx) (\<lambda>ctx.
     Inr (md5_result alloc ctx)))"

function md5File_loop :: "u8 list \<Rightarrow> MD5Context \<Rightarrow> MD5Context res" where
  "md5File_loop input_buffer ctx =
     (if input_buffer = [] then Inr ctx
      else
        let chunk_size = (if length input_buffer > 1024 then 1024 else length input_buffer) in
        rbind (md5Update ctx (take chunk_size input_buffer)) (md5File_loop (drop chunk_size input_buffer)))"
  by auto
termination by (relation "measure (length \<circ> fst)") (auto simp: Let_def)

declare md5File_loop.simps [simp del]

definition md5File :: "bool \<Rightarrow> MD5Context \<Rightarrow> u8 list \<Rightarrow> u8 list res" where
  "md5File alloc uninit buffer =
     rbind (md5File_loop buffer (md5Init uninit)) (\<lambda>ctx.
     rbind (md5Finalize ctx) (\<lambda>ctx.
     Inr (md5_result alloc ctx)))"

subsection \<open>SHA-512\<close>

definition sha512_H0 :: "u64 list" where
  "sha512_H0 = [
    0x6a09e667f3bcc908, 0xbb67ae8584caa73b, 0x3c6ef372fe94f82b, 0xa54ff53a5f1d36f1,
    0x510e527fade682d1, 0x9b05688c2b3e6c1f, 0x1f83d9abfb41bd6b, 0x5be0cd19137e2179]"

definition ROTR :: "u64 \<Rightarrow> nat \<Rightarrow> u64" where "ROTR x n = drop_bit n x OR push_bit (64 - n) x"
definition CH :: "u64 \<Rightarrow> u64 \<Rightarrow> u64 \<Rightarrow> u64" where "CH x y z = (x AND y) XOR (NOT x AND z)"
definition MAJ :: "u64 \<Rightarrow> u64 \<Rightarrow> u64 \<Rightarrow> u64" where "MAJ x y z = (x AND y) XOR (x AND z) XOR (y AND z)"
definition SIGMA0 :: "u64 \<Rightarrow> u64" where "SIGMA0 x = ROTR x 28 XOR ROTR x 34 XOR ROTR x 39"
definition SIGMA1 :: "u64 \<Rightarrow> u64" where "SIGMA1 x = ROTR x 14 XOR ROTR x 18 XOR ROTR x 41"
definition sigma0 :: "u64 \<Rightarrow> u64" where "sigma0 x = ROTR x 1 XOR ROTR x 8 XOR drop_bit 7 x"
definition sigma1 :: "u64 \<Rightarrow> u64" where "sigma1 x = ROTR x 19 XOR ROTR x 61 XOR drop_bit 6 x"

record SHA512_CTX =
  sha_state :: "u64 list"
  sha_bitlen :: u64
  sha_data :: "u8 list"
  sha_datalen :: nat

definition be_word :: "u8 list \<Rightarrow> nat \<Rightarrow> u64" where
  "be_word data i =
     push_bit 56 (ucast (data ! (i * 8))) OR push_bit 48 (ucast (data ! (i * 8 + 1))) OR
     push_bit 40 (ucast (data ! (i * 8 + 2))) OR push_bit 32 (ucast (data ! (i * 8 + 3))) OR
     push_bit 24 (ucast (data ! (i * 8 + 4))) OR push_bit 16 (ucast (data ! (i * 8 + 5))) OR
     push_bit 8 (ucast (data ! (i * 8 + 6))) OR ucast (data ! (i * 8 + 7))"

definition sha512_schedule :: "u8 list \<Rightarrow> u64 list" where
  "sha512_schedule data =
     fold (\<lambda>i m. m @ [sigma1 (m ! (i - 2)) + m ! (i - 7) + sigma0 (m ! (i - 15)) + m ! (i - 16)]) [16..<80]
       (map (be_word data) [0..<16])"

type_synonym sha_regs = "u64 \<times> u64 \<times> u64 \<times> u64 \<times> u64 \<times> u64 \<times> u64 \<times> u64"

fun sha512_round :: "u64 list \<Rightarrow> u64 list \<Rightarrow> nat \<Rightarrow> sha_regs \<Rightarrow> sha_regs" where
  "sha512_round K m i (a, b, c, d, e, f, g, h) =
     (let t1 = h + SIGMA1 e + CH e f g + K ! i + m ! i;
          t2 = SIGMA0 a + MAJ a b c in
      (t1 + t2, a, b, c, d + t1, e, f, g))"

definition sha512_transform :: "u64 list \<Rightarrow> u64 list \<Rightarrow> u8 list \<Rightarrow> u64 list" where
  "sha512_transform K state data =
     (case fold (sha512_round K (sha512_schedule data)) [0..<80]
        (state ! 0, state ! 1, state ! 2, state ! 3, state ! 4, state ! 5, state ! 6, state ! 7) of
        (a, b, c, d, e, f, g, h) \<Rightarrow>
          [state ! 0 + a, state ! 1 + b, state ! 2 + c, state ! 3 + d, state ! 4 + e, state ! 5 + f, state ! 6 + g, state ! 7 + h])"

definition sha512_init :: "SHA512_CTX \<Rightarrow> SHA512_CTX" where
  "sha512_init ctx = ctx\<lparr>sha_state := sha512_H0, sha_bitlen := 0, sha_datalen := 0\<rparr>"

fun sha512_update :: "u64 list \<Rightarrow> SHA512_CTX \<Rightarrow> u8 list \<Rightarrow> SHA512_CTX" where
  "sha512_update K ctx [] = ctx"
| "sha512_update K ctx (b # data) =
     (let ctx = ctx\<lparr>sha_data := (sha_data ctx)[sha_datalen ctx := b], sha_datalen := sha_datalen ctx + 1\<rparr> in
      if sha_datalen ctx \<noteq> 128 then sha512_update K ctx data
      else sha512_update K (ctx\<lparr>sha_state := sha512_transform K (sha_state ctx) (sha_data ctx),
        sha_bitlen := sha_bitlen ctx + of_nat (sha_datalen ctx * 8), sha_datalen := 0\<rparr>) data)"

text \<open>\<open>while (datalen < n) data[datalen++] = 0\<close>\<close>

definition zero_upto :: "nat \<Rightarrow> nat \<Rightarrow> u8 list \<Rightarrow> u8 list" where
  "zero_upto n datalen data = fold (\<lambda>i d. d[i := 0]) [datalen..<n] data"

definition state_bytes :: "u64 \<Rightarrow> u8 list" where
  "state_bytes w = map (\<lambda>k. ucast (drop_bit k w AND 0xff)) [56, 48, 40, 32, 24, 16, 8, 0]"

definition sha512_final :: "u64 list \<Rightarrow> SHA512_CTX \<Rightarrow> u8 list" where
  "sha512_final K ctx =
     (let ctx = ctx\<lparr>sha_bitlen := sha_bitlen ctx + of_nat (sha_datalen ctx * 8),
                    sha_data := (sha_data ctx)[sha_datalen ctx := 0x80], sha_datalen := sha_datalen ctx + 1\<rparr>;
          ctx = (if sha_datalen ctx > 112
                 then let data = zero_upto 128 (sha_datalen ctx) (sha_data ctx) in
                   ctx\<lparr>sha_data := data, sha_state := sha512_transform K (sha_state ctx) data, sha_datalen := 0\<rparr>
                 else ctx);
          data = zero_upto 112 (sha_datalen ctx) (sha_data ctx);
          data = fold (\<lambda>i d. d[127 - i := ucast (drop_bit (i * 8) (sha_bitlen ctx))]) [0..<8] data in
      concat (map state_bytes (sha512_transform K (sha_state ctx) data)))"

definition sha512_sum :: "u64 list \<Rightarrow> bool \<Rightarrow> SHA512_CTX \<Rightarrow> u8 list \<Rightarrow> u8 list option" where
  "sha512_sum K alloc uninit input =
     (if \<not> alloc then None else Some (sha512_final K (sha512_update K (sha512_init uninit) input)))"

subsection \<open>The checksum of the internet protocols\<close>

text \<open>
  The words are read in the little-endian order of the machine. The last byte of an odd length is a \<open>char\<close>,
  which is signed: its conversion to \<open>uint16_t\<close> extends the sign. The shifted value is an \<open>int\<close>.
\<close>

definition data16 :: "u8 list \<Rightarrow> nat \<Rightarrow> u16" where
  "data16 Data i = push_bit 8 (ucast (Data ! (2 * i + 1))) OR ucast (Data ! (2 * i))"

definition checksum_word :: "u16 \<Rightarrow> u64" where
  "checksum_word w = ucast (drop_bit 8 (w AND 0xFF00) OR push_bit 8 (w AND 0x00FF))"

function checksum_fold :: "u64 \<Rightarrow> u64" where
  "checksum_fold Checksum =
     (if Checksum AND 0xFFFF0000 \<noteq> 0 then checksum_fold ((Checksum AND 0xFFFF) + drop_bit 16 Checksum) else Checksum)"
  by auto

lemma mod_plus_div_less:
  assumes "k \<le> n" "1 < k"
  shows "n mod k + n div k < (n :: nat)"
proof -
  have "0 < n div k" using assms by (simp add: div_greater_zero_iff)
  then have "n div k * 1 < n div k * k" using assms(2) by (simp only: mult_less_cancel1)
  then show ?thesis using div_mult_mod_eq [of n k] by linarith
qed

lemma checksum_fold_less:
  assumes "(c :: u64) AND 0xFFFF0000 \<noteq> 0"
  shows "(c AND 0xFFFF) + drop_bit 16 c < c"
proof -
  have "c AND 0xFFFF = take_bit 16 c" by (simp add: take_bit_eq_mask mask_eq_exp_minus_1)
  then have "unat (c AND 0xFFFF) = take_bit 16 (unat c)" by (simp only: unsigned_take_bit_eq)
  then have m: "unat (c AND 0xFFFF) = unat c mod 2 ^ 16" by (simp only: take_bit_eq_mod)
  have d: "unat (drop_bit 16 c) = unat c div 2 ^ 16" by (rule trans [OF unat_drop_bit_eq drop_bit_eq_div])
  have "unat c \<ge> 2 ^ 16"
  proof (rule ccontr)
    assume "\<not> ?thesis"
    then have "c AND 0xFFFF = c" using m by (simp add: word_unat_eq_iff)
    then have "c AND 0xFFFF0000 = (c AND 0xFFFF) AND 0xFFFF0000" by simp
    also have "\<dots> = 0" by (simp add: and.assoc)
    finally show False using assms by simp
  qed
  then have "unat c mod 2 ^ 16 + unat c div 2 ^ 16 < unat c" by (rule mod_plus_div_less) simp
  moreover have "unat ((c AND 0xFFFF) + drop_bit 16 c) \<le> unat c mod 2 ^ 16 + unat c div 2 ^ 16"
    using unat_word_ariths(1) [of "c AND 0xFFFF" "drop_bit 16 c"] m d by simp
  ultimately show ?thesis by (simp add: word_less_nat_alt)
qed

termination checksum_fold
  by (relation "measure unat") (auto simp: word_less_nat_alt [symmetric] dest: checksum_fold_less)

declare checksum_fold.simps [simp del]

definition CalculateChecksum_sum :: "u8 list \<Rightarrow> u64" where
  "CalculateChecksum_sum Data =
     (let Checksum = fold (\<lambda>i sum. sum + checksum_word (data16 Data i)) [0..<length Data div 2] 0 in
      if length Data mod 2 \<noteq> 0 then Checksum + push_bit 8 (ucast (scast (Data ! (length Data - 1)) :: u16)) else Checksum)"

definition CalculateChecksum :: "u8 list \<Rightarrow> u16" where
  "CalculateChecksum Data =
     (let Checksum = checksum_fold (CalculateChecksum_sum Data) in
      ucast (drop_bit 8 (NOT Checksum AND 0xFF00) OR push_bit 8 (NOT Checksum AND 0x00FF)))"

end
