(* ===== verification/CrcProofs.thy ===== *)
theory CrcProofs
  imports Hashes
begin

unbundle bit_operations_syntax

section \<open>The CRC against the division by its polynomial\<close>

text \<open>
  The reference \<open>crc_byte\<close> divides bit by bit. It is linear over exclusive or, so the table of
  src/Kernel/library/crc32.c is given by its eight powers of two, and one step of the table is eight steps of the division.
\<close>

text \<open>One step of the division: the register moves up by one bit and the polynomial is added on overflow.\<close>

definition crc_bit :: "u32 \<Rightarrow> bool \<Rightarrow> u32" where
  "crc_bit r b = push_bit 1 r XOR (if bit r 31 \<noteq> b then 0x04C11DB7 else 0)"

definition crc_byte :: "u32 \<Rightarrow> u8 \<Rightarrow> u32" where
  "crc_byte r b = fold (\<lambda>i r. crc_bit r (bit b i)) [7, 6, 5, 4, 3, 2, 1, 0] r"

lemma crc_bit_xor: "crc_bit (x XOR y) (b \<noteq> c) = crc_bit x b XOR crc_bit y c"
  by (cases b; cases c) (auto simp: crc_bit_def push_bit_xor bit_xor_iff ac_simps)

lemma crc_bit_xor': "crc_bit (x XOR y) (b = (\<not> c)) = crc_bit x b XOR crc_bit y c"
  using crc_bit_xor [of x y b c] by (cases b; cases c) simp_all

lemma crc_byte_xor: "crc_byte (x XOR y) (b XOR c) = crc_byte x b XOR crc_byte y c"
  by (simp add: crc_byte_def bit_xor_iff crc_bit_xor')

lemma byte_bits:
  "(b :: u8) = (if bit b 0 then 1 else 0) XOR (if bit b 1 then 2 else 0) XOR (if bit b 2 then 4 else 0) XOR (if bit b 3 then 8 else 0) XOR
     (if bit b 4 then 16 else 0) XOR (if bit b 5 then 32 else 0) XOR (if bit b 6 then 64 else 0) XOR (if bit b 7 then 128 else 0)"
proof (rule bit_word_eqI)
  fix n assume "n < LENGTH(8)"
  then consider "n = 0" | "n = 1" | "n = 2" | "n = 3" | "n = 4" | "n = 5" | "n = 6" | "n = 7" by force
  then show "bit b n = bit ((if bit b 0 then 1 else 0) XOR (if bit b 1 then 2 else 0) XOR (if bit b 2 then 4 else 0) XOR (if bit b 3 then 8 else 0) XOR
     (if bit b 4 then 16 else 0) XOR (if bit b 5 then 32 else 0) XOR (if bit b 6 then 64 else 0) XOR (if bit b 7 then 128 else 0) :: u8) n"
    by cases (simp_all add: bit_xor_iff)
qed

text \<open>Two linear functions of a byte agree when they agree on the single bits.\<close>

lemma linear_bytes:
  fixes f g :: "u8 \<Rightarrow> u32"
  assumes "\<And>x y. f (x XOR y) = f x XOR f y" "\<And>x y. g (x XOR y) = g x XOR g y"
    and "list_all (\<lambda>x. f x = g x) [0, 1, 2, 4, 8, 16, 32, 64, 128]"
  shows "f b = g b"
  by (subst (1 2) byte_bits [of b]) (use assms(3) in \<open>simp add: assms(1,2)\<close>)

lemma crc_byte_zero_xor: "crc_byte 0 (b XOR c) = crc_byte 0 b XOR crc_byte 0 c" "crc_byte (x XOR y) 0 = crc_byte x 0 XOR crc_byte y 0"
  using crc_byte_xor [of 0 0 b c] crc_byte_xor [of x y 0 0] by simp_all

lemma crc_byte_top: "crc_byte (push_bit 24 (ucast b)) 0 = crc_byte 0 b"
proof (rule linear_bytes [of "\<lambda>b. crc_byte (push_bit 24 (ucast b)) 0"])
  show "list_all (\<lambda>x :: u8. crc_byte (push_bit 24 (ucast x)) 0 = crc_byte 0 x) [0, 1, 2, 4, 8, 16, 32, 64, 128]"
    by (simp add: crc_byte_def crc_bit_def)
qed (simp_all add: crc_byte_zero_xor unsigned_xor_eq push_bit_xor)

text \<open>The table doubles for each bit of its index.\<close>

definition doubled :: "u32 list \<Rightarrow> u32 list" where
  "doubled = foldl (\<lambda>tab t. tab @ map ((XOR) t) tab) [0]"

lemma table_doubled: "LookupTable = doubled (map (crc_byte 0) [1, 2, 4, 8, 16, 32, 64, 128])"
  by (simp add: LookupTable_def doubled_def crc_byte_def crc_bit_def)

lemma of_nat_plus_power:
  assumes "i < 2 ^ k"
  shows "of_nat (2 ^ k + i) = (2 ^ k XOR of_nat i :: u8)"
proof -
  have "take_bit k (of_nat i) = (of_nat i :: u8)" by (metis assms take_bit_nat_eq_self_iff take_bit_of_nat)
  then have no: "\<not> bit (of_nat i :: u8) n" if "k \<le> n" for n using that by (metis bit_take_bit_iff not_le)
  then have "2 ^ k + of_nat i = (2 ^ k OR of_nat i :: u8)"
    by (intro disjunctive_add) (auto simp: bit_exp_iff)
  also have "\<dots> = 2 ^ k XOR of_nat i"
    by (rule bit_word_eqI) (use no in \<open>auto simp: bit_or_iff bit_xor_iff bit_exp_iff\<close>)
  finally show ?thesis by simp
qed

lemma doubled_powers:
  fixes f :: "u8 \<Rightarrow> u32"
  assumes "\<And>x y. f (x XOR y) = f x XOR f y" "f 0 = 0"
  shows "doubled (map (\<lambda>j. f (2 ^ j)) [0..<k]) = map (\<lambda>i. f (of_nat i)) [0..<2 ^ k]"
proof (induction k)
  case 0
  then show ?case by (simp add: doubled_def assms(2))
next
  case (Suc k)
  have "doubled (map (\<lambda>j. f (2 ^ j)) [0..<Suc k]) =
      (let tab = doubled (map (\<lambda>j. f (2 ^ j)) [0..<k]) in tab @ map ((XOR) (f (2 ^ k))) tab)"
    by (simp add: doubled_def Let_def)
  also have "\<dots> = map (\<lambda>i. f (of_nat i)) [0..<2 ^ k] @ map (\<lambda>i. f (of_nat (2 ^ k + i))) [0..<2 ^ k]"
    by (simp add: Suc.IH Let_def of_nat_plus_power assms(1) del: of_nat_add of_nat_power)
  also have "map (\<lambda>i. f (of_nat (2 ^ k + i))) [0..<2 ^ k] = map (\<lambda>i. f (of_nat i)) [2 ^ k..<2 ^ k + 2 ^ k]"
    by (rule nth_equalityI) (simp_all del: of_nat_add of_nat_power)
  also have "map (\<lambda>i. f (of_nat i)) [0..<2 ^ k] @ map (\<lambda>i. f (of_nat i)) [2 ^ k..<2 ^ k + 2 ^ k] = map (\<lambda>i. f (of_nat i)) [0..<2 ^ Suc k]"
    using upt_add_eq_append [of 0 "2 ^ k" "2 ^ k"] by (simp add: mult_2)
  finally show ?case .
qed

lemma table_nth: "LookupTable ! unat b = crc_byte 0 b"
proof -
  have "map (crc_byte 0) [1, 2, 4, 8, 16, 32, 64, 128] = map (\<lambda>j. crc_byte 0 (2 ^ j)) [0..<8]" by (simp add: upt_rec)
  moreover have "crc_byte 0 0 = 0" by (simp add: crc_byte_def crc_bit_def)
  ultimately have tab: "LookupTable = map (\<lambda>i. crc_byte 0 (of_nat i)) [0..<2 ^ 8]"
    using doubled_powers [of "crc_byte 0" 8] crc_byte_zero_xor(1) table_doubled by simp
  have "unat b < 2 ^ 8" using unsigned_less [of b] by simp
  then show ?thesis by (subst tab, subst nth_map) simp_all
qed

lemma crc_byte_low: "take_bit 24 r = r \<Longrightarrow> crc_byte r 0 = push_bit 8 r"
proof -
  assume r: "take_bit 24 r = r"
  have no: "\<not> bit r n" if "24 \<le> n" for n using that r by (metis bit_take_bit_iff not_le)
  have "crc_bit (push_bit k r) (bit 0 n) = push_bit (Suc k) r" if "k < 8" for k n
    using no [of "31 - k"] that by (simp add: crc_bit_def bit_push_bit_iff)
  from this [of 0] this [of 1] this [of 2] this [of 3] this [of 4] this [of 5] this [of 6] this [of 7] show ?thesis
    by (simp add: crc_byte_def numeral_2_eq_2 [symmetric] del: push_bit_Suc)
qed

lemma crc_byte_table:
  "crc_byte r b = push_bit 8 r XOR LookupTable ! unat ((drop_bit 24 r XOR ucast b) AND 255)"
proof -
  let ?top = "ucast (drop_bit 24 r) :: u8"
  have split: "r = take_bit 24 r XOR push_bit 24 (ucast ?top)"
    by (rule bit_word_eqI) (auto simp: bit_xor_iff bit_take_bit_iff bit_push_bit_iff bit_unsigned_iff bit_drop_bit_eq)
  have "(drop_bit 24 r XOR ucast b) AND 255 = take_bit 8 (drop_bit 24 r XOR ucast b)"
    by (simp add: take_bit_eq_mask mask_eq_exp_minus_1)
  also have "\<dots> = (ucast (?top XOR b) :: u32)"
    by (rule bit_word_eqI) (auto simp: bit_xor_iff bit_take_bit_iff bit_unsigned_iff bit_drop_bit_eq dest: bit_imp_le_length)
  finally have "(drop_bit 24 r XOR ucast b) AND 255 = (ucast (?top XOR b) :: u32)" .
  then have "LookupTable ! unat ((drop_bit 24 r XOR ucast b) AND 255) = crc_byte 0 (?top XOR b)"
    using table_nth [of "?top XOR b"] less_le_trans [OF unsigned_less [of "?top XOR b"], of "2 ^ 32 :: nat"]
    by (simp add: unsigned_ucast_eq take_bit_nat_eq_self)
  moreover have "crc_byte r b = crc_byte r 0 XOR crc_byte 0 b" using crc_byte_xor [of r 0 0 b] by simp
  moreover have "crc_byte r 0 = push_bit 8 (take_bit 24 r) XOR crc_byte 0 ?top"
    by (subst split) (simp only: crc_byte_zero_xor crc_byte_top, simp add: crc_byte_low)
  moreover have "push_bit 8 (take_bit 24 r) = push_bit 8 r"
    by (rule bit_word_eqI) (auto simp: bit_push_bit_iff bit_take_bit_iff)
  ultimately show ?thesis by (simp add: crc_byte_zero_xor(1) xor.assoc)
qed

text \<open>
  C26. The table-driven \<open>crc32\<close> divides the message by the polynomial 0x04C11DB7 bit by bit, from the most significant
  bit of each byte on, with the register set to ones before.
\<close>

theorem crc32_divides_bitwise:
  "crc32 Buffer = fold (\<lambda>b r. crc_byte r b) Buffer 0xffffffff"
proof -
  have "crc32_loop r Buffer = fold (\<lambda>b r. crc_byte r b) Buffer r" for r
    by (induction r Buffer rule: crc32_loop.induct) (simp_all add: crc_byte_table)
  then show ?thesis by (simp add: crc32_def)
qed

end
