(* ===== verification/DigestProofs.thy ===== *)
theory DigestProofs
  imports Hashes
begin

unbundle bit_operations_syntax

section \<open>The digests against their one-shot definitions\<close>

text \<open>
  MD5 and SHA-512 take a message in pieces and collect its bytes in a block buffer. The locale \<open>block_stream\<close> says what
  such a stream has done after a message; its interpretations on the two contexts give the digests as folds of the
  compression function over the blocks of the padded message.
\<close>

subsection \<open>Streams of bytes cut into blocks\<close>

text \<open>The full blocks of a message and what is left over after them.\<close>

function chunks :: "nat \<Rightarrow> 'a list \<Rightarrow> 'a list list" where
  "chunks n m = (if n = 0 \<or> length m < n then [] else take n m # chunks n (drop n m))"
  by auto
termination by (relation "measure (length \<circ> snd)") auto

declare chunks.simps [simp del]

definition leftover :: "nat \<Rightarrow> 'a list \<Rightarrow> 'a list" where
  "leftover n m = drop (length m - length m mod n) m"

lemma chunks_short [simp]: "length m < n \<Longrightarrow> chunks n m = []"
  by (subst chunks.simps) simp

lemma chunks_long: "0 < n \<Longrightarrow> n \<le> length m \<Longrightarrow> chunks n m = take n m # chunks n (drop n m)"
  by (subst chunks.simps) simp

lemma chunks_full: "length x = n \<Longrightarrow> 0 < n \<Longrightarrow> chunks n (x @ y) = x # chunks n y"
  by (simp add: chunks_long)

lemma leftover_short [simp]: "length m < n \<Longrightarrow> leftover n m = m"
  by (simp add: leftover_def)

lemma leftover_long: "0 < n \<Longrightarrow> n \<le> length m \<Longrightarrow> leftover n m = leftover n (drop n m)"
proof -
  assume n: "0 < n" "n \<le> length m"
  have "(length m - n) mod n = length m mod n" using n by (simp add: le_mod_geq)
  moreover have "length m mod n \<le> length m - n"
    using n by (metis calculation mod_less_eq_dividend)
  ultimately show ?thesis using n by (simp add: leftover_def add.commute)
qed

lemma length_leftover [simp]: "length (leftover n m) = length m mod n"
  by (simp add: leftover_def)

lemma chunks_append: "0 < n \<Longrightarrow> chunks n (m @ x) = chunks n m @ chunks n (leftover n m @ x)"
proof (induction n m rule: chunks.induct)
  case (1 n m)
  show ?case
  proof (cases "length m < n")
    case False
    then show ?thesis using 1 by (simp add: chunks_long leftover_long)
  qed simp
qed

lemma chunks_length: "c \<in> set (chunks n m) \<Longrightarrow> length c = n"
proof (induction n m rule: chunks.induct)
  case (1 n m)
  show ?case
  proof (cases "n = 0 \<or> length m < n")
    case True
    then show ?thesis using "1.prems" by (subst (asm) chunks.simps) simp
  next
    case False
    then show ?thesis using 1 by (auto simp: chunks_long)
  qed
qed

lemma leftover_snoc:
  assumes "0 < n"
  shows "leftover n (m @ [b]) = (if Suc (length m mod n) = n then [] else leftover n m @ [b])"
  using assms by (simp add: leftover_def mod_Suc)

locale block_stream =
  fixes n :: nat
    and feed :: "'b \<Rightarrow> 's \<Rightarrow> 's"
    and chain :: "'s \<Rightarrow> 'c"
    and buf :: "'s \<Rightarrow> 'b list"
    and used :: "'s \<Rightarrow> nat"
    and compress :: "'c \<Rightarrow> 'b list \<Rightarrow> 'c"
  assumes n_pos: "0 < n"
    and buf_feed: "buf (feed b s) = (buf s)[used s := b]"
    and feed_open: "used s < n \<Longrightarrow> Suc (used s) \<noteq> n \<Longrightarrow> used (feed b s) = Suc (used s) \<and> chain (feed b s) = chain s"
    and feed_full: "Suc (used s) = n \<Longrightarrow> used (feed b s) = 0 \<and> chain (feed b s) = compress (chain s) (buf (feed b s))"
begin

definition absorbed :: "'c \<Rightarrow> 'b list \<Rightarrow> 'b list \<Rightarrow> 's \<Rightarrow> bool" where
  "absorbed c b0 m s \<longleftrightarrow>
     length b0 = n \<and> chain s = foldl compress c (chunks n m) \<and> used s = length m mod n \<and>
     buf s = leftover n m @ drop (length m mod n) (last (b0 # chunks n m))"

lemma absorbed_length: "absorbed c b0 m s \<Longrightarrow> length (buf s) = n"
  using chunks_length [of "last (chunks n m)" n m] n_pos by (auto simp: absorbed_def less_imp_le)

lemma absorbed_feed:
  assumes "absorbed c b0 m s"
  shows "absorbed c b0 (m @ [b]) (feed b s)"
proof -
  have used: "used s = length m mod n" "used s < n" using assms n_pos by (simp_all add: absorbed_def)
  have len: "length (buf s) = n" using assms by (rule absorbed_length)
  have buf: "buf (feed b s) = leftover n m @ b # drop (Suc (length m mod n)) (last (b0 # chunks n m))"
    using assms used len by (simp add: buf_feed absorbed_def upd_conv_take_nth_drop)
  show ?thesis
  proof (cases "Suc (used s) = n")
    case True
    then have one: "chunks n (m @ [b]) = chunks n m @ [leftover n m @ [b]]" "leftover n (m @ [b]) = []"
      using used n_pos by (simp_all add: chunks_append chunks_long leftover_snoc)
    have "length (last (b0 # chunks n m)) = n" using assms chunks_length [OF last_in_set] by (auto simp: absorbed_def)
    then have "buf (feed b s) = leftover n m @ [b]" using buf True used by simp
    moreover have "Suc (length m) mod n = 0" using True used by (simp add: mod_Suc)
    ultimately show ?thesis using feed_full [OF True, of b] assms one by (simp add: absorbed_def)
  next
    case False
    then have "length (leftover n m @ [b]) < n" using used by simp
    then have "chunks n (m @ [b]) = chunks n m" by (simp only: chunks_append [OF n_pos, of m] chunks_short append_Nil2)
    moreover have "leftover n (m @ [b]) = leftover n m @ [b]" using False used n_pos by (simp add: leftover_snoc)
    moreover have "Suc (length m) mod n = Suc (length m mod n)" using False used by (simp add: mod_Suc)
    ultimately show ?thesis using feed_open [OF used(2) False, of b] assms buf by (simp add: absorbed_def)
  qed
qed

lemma absorbed_fold: "absorbed c b0 m s \<Longrightarrow> absorbed c b0 (m @ bs) (fold feed bs s)"
proof (induction bs arbitrary: m s)
  case (Cons b bs)
  from Cons.IH [OF absorbed_feed [OF Cons.prems, of b]] show ?case by simp
qed simp

lemma absorbed_start: "used s = 0 \<Longrightarrow> length (buf s) = n \<Longrightarrow> absorbed (chain s) (buf s) [] s"
  using n_pos by (simp add: absorbed_def)

end

subsection \<open>MD5\<close>

text \<open>One byte of \<open>md5Update\<close>, on the pair of its local \<open>offset\<close> and the context.\<close>

definition md5_feed :: "u8 \<Rightarrow> nat \<times> MD5Context \<Rightarrow> nat \<times> MD5Context" where
  "md5_feed b = (\<lambda>(offset, ctx).
     let ctx = ctx\<lparr>m_input := (m_input ctx)[offset := b]\<rparr> in
     if Suc offset mod 64 = 0 then (0, ctx\<lparr>m_buffer := md5Step (m_buffer ctx) (map (le_word (m_input ctx)) [0..<16])\<rparr>)
     else (Suc offset, ctx))"

definition md5_compress :: "u32 list \<Rightarrow> u8 list \<Rightarrow> u32 list" where
  "md5_compress st block = md5Step st (map (le_word block) [0..<16])"

interpretation md5_stream: block_stream 64 md5_feed "\<lambda>s. m_buffer (snd s)" "\<lambda>s. m_input (snd s)" fst md5_compress
  by unfold_locales (auto simp: md5_feed_def md5_compress_def Let_def dest: dvd_imp_le split: prod.splits)

lemma md5Update_loop_feed: "md5Update_loop offset bs ctx = snd (fold md5_feed bs (offset, ctx))"
  by (induction offset bs ctx rule: md5Update_loop.induct) (simp_all add: md5_feed_def Let_def)

lemma fold_md5_feed_size: "m_size (snd (fold md5_feed bs s)) = m_size (snd s)"
  by (induction bs arbitrary: s) (simp_all add: md5_feed_def Let_def split: prod.splits)

text \<open>The context after a message, whatever the pieces it came in.\<close>

definition md5_H0 :: "u32 list" where
  "md5_H0 = [0x67452301, 0xefcdab89, 0x98badcfe, 0x10325476]"

definition md5_at :: "u8 list \<Rightarrow> u8 list \<Rightarrow> MD5Context \<Rightarrow> bool" where
  "md5_at b0 m ctx \<longleftrightarrow>
     m_size ctx = of_nat (length m) \<and> md5_stream.absorbed md5_H0 b0 m (length m mod 64, ctx)"

lemma md5_at_init: "length (m_input ctx) = 64 \<Longrightarrow> md5_at (m_input ctx) [] (md5Init ctx)"
  using md5_stream.absorbed_start [of "(0, md5Init ctx)"] by (simp add: md5_at_def md5Init_def md5_H0_def)

lemma size_offset: "m_size ctx = of_nat k \<Longrightarrow> unat (m_size ctx) mod 64 = k mod 64"
  by (simp add: unsigned_of_nat take_bit_eq_mod mod_mod_cancel)

lemma md5Update_at:
  assumes "md5_at b0 m ctx" "length bs < 2 ^ 32"
  obtains ctx' where "md5Update ctx bs = Inr ctx'" "md5_at b0 (m @ bs) ctx'"
proof -
  let ?ctx = "ctx\<lparr>m_size := m_size ctx + of_nat (length bs)\<rparr>"
  have m: "m_size ctx = of_nat (length m)" "md5_stream.absorbed md5_H0 b0 m (length m mod 64, ?ctx)"
    using assms(1) by (simp_all add: md5_at_def md5_stream.absorbed_def)
  define s where "s = fold md5_feed bs (length m mod 64, ?ctx)"
  have s: "md5_stream.absorbed md5_H0 b0 (m @ bs) s" unfolding s_def using m(2) by (rule md5_stream.absorbed_fold)
  then have "fst s = length (m @ bs) mod 64" by (simp add: md5_stream.absorbed_def)
  then have "s = (length (m @ bs) mod 64, snd s)" by (metis prod.collapse)
  moreover have "m_size (snd s) = of_nat (length (m @ bs))" by (simp add: s_def fold_md5_feed_size m(1))
  ultimately have "md5_at b0 (m @ bs) (snd s)" using s by (simp add: md5_at_def)
  moreover have "md5Update ctx bs = Inr (snd s)"
    using assms(2) by (simp add: md5Update_def size_offset [OF m(1)] md5Update_loop_feed s_def)
  ultimately show thesis by (rule that [rotated])
qed

text \<open>RFC 1321: a one bit, zero bits up to 56 bytes modulo 64, and the low 64 bits of the length in bits, low byte first.\<close>

definition le64 :: "u64 \<Rightarrow> u8 list" where
  "le64 w = map (\<lambda>k. ucast (drop_bit k w)) [0, 8, 16, 24, 32, 40, 48, 56]"

definition md5_pad :: "u8 list \<Rightarrow> u8 list" where
  "md5_pad m = m @ 0x80 # replicate ((119 - length m mod 64) mod 64) 0 @ le64 (of_nat (length m * 8))"

definition md5_reference :: "u8 list \<Rightarrow> u8 list" where
  "md5_reference m = concat (map digest_bytes (foldl md5_compress md5_H0 (chunks 64 (md5_pad m))))"

lemma le_bytes:
  fixes w :: u64
  shows "push_bit 24 (ucast (ucast (drop_bit (k + 24) w) :: u8)) OR push_bit 16 (ucast (ucast (drop_bit (k + 16) w) :: u8)) OR
    push_bit 8 (ucast (ucast (drop_bit (k + 8) w) :: u8)) OR ucast (ucast (drop_bit k w) :: u8) = (ucast (drop_bit k w) :: u32)" (is "?l = ?r")
proof (rule bit_word_eqI)
  fix n assume "n < LENGTH(32)"
  then have "n < 8 \<or> (\<exists>i<8. n = 8 + i) \<or> (\<exists>i<8. n = 16 + i) \<or> (\<exists>i<8. n = 24 + i)"
    by simp presburger
  then show "bit ?l n = bit ?r n"
    by (elim disjE exE conjE) (simp_all add: bit_or_iff bit_push_bit_iff bit_unsigned_iff bit_drop_bit_eq ac_simps)
qed

lemma le_word_le64:
  assumes "length l = 56"
  shows "le_word (l @ le64 w) 14 = ucast w" "le_word (l @ le64 w) 15 = ucast (drop_bit 32 w)"
  using assms le_bytes [of 0 w] le_bytes [of 32 w] by (simp_all add: le_word_def nth_append le64_def)

lemma le_word_prefix:
  assumes "4 * j + 3 < k" "take k xs = take k ys"
  shows "le_word xs j = le_word ys j"
proof -
  have "xs ! i = ys ! i" if "i < k" for i using assms(2) that by (metis nth_take)
  then show ?thesis using assms(1) by (simp add: le_word_def)
qed

definition md5_padding :: "nat \<Rightarrow> nat" where
  "md5_padding offset = (if offset < 56 then 56 - offset else (56 + 64) - offset)"

lemma md5_padding_props:
  assumes "offset < 64"
  shows "md5_padding offset = Suc ((119 - offset) mod 64)" "md5_padding offset \<le> 64" "(offset + md5_padding offset) mod 64 = 56"
  using assms le_mod_geq [of 64 "119 - offset"] by (auto simp: md5_padding_def)

lemma md5_pad_split:
  fixes m :: "u8 list"
  defines "m' \<equiv> m @ take (md5_padding (length m mod 64)) PADDING"
  shows "md5_pad m = m' @ le64 (of_nat (length m * 8))" "length m' mod 64 = 56" "length m' = length m + md5_padding (length m mod 64)"
proof -
  note p = md5_padding_props [of "length m mod 64", simplified]
  show "md5_pad m = m' @ le64 (of_nat (length m * 8))" using p(1,2) by (simp add: m'_def md5_pad_def PADDING_def)
  show len: "length m' = length m + md5_padding (length m mod 64)" using p(2) by (simp add: m'_def PADDING_def)
  show "length m' mod 64 = 56" using p(3) by (simp add: len mod_add_left_eq)
qed

lemma md5Finalize_at:
  assumes "md5_at b0 m ctx"
  obtains ctx' where "md5Finalize ctx = Inr ctx'" "m_digest ctx' = md5_reference m"
proof -
  define bits where "bits = (of_nat (length m * 8) :: u64)"
  define pad where "pad = take (md5_padding (length m mod 64)) PADDING"
  note split = md5_pad_split [of m, folded pad_def bits_def]
  have size: "m_size ctx = of_nat (length m)" using assms by (simp add: md5_at_def)
  have "length pad < 2 ^ 32" by (simp add: pad_def PADDING_def)
  then obtain c where c: "md5Update ctx pad = Inr c" "md5_at b0 (m @ pad) c" using md5Update_at [OF assms] by blast
  let ?l = "leftover 64 (m @ pad)"
  have at: "m_size c = of_nat (length (m @ pad))" "m_buffer c = foldl md5_compress md5_H0 (chunks 64 (m @ pad))"
    "take 56 (m_input c) = ?l" "length ?l = 56"
    using c(2) split(2) by (simp_all add: md5_at_def md5_stream.absorbed_def del: length_append)
  define input where "input = map (le_word (m_input c)) [0..<14] @ [ucast bits, ucast (drop_bit 32 bits)]"
  have "chunks 64 (md5_pad m) = chunks 64 (m @ pad) @ [?l @ le64 bits]"
    using at(4) chunks_append [of 64 "m @ pad" "le64 bits"] by (simp add: split(1) chunks_long le64_def)
  then have fold: "foldl md5_compress md5_H0 (chunks 64 (md5_pad m)) = md5_compress (m_buffer c) (?l @ le64 bits)" by (simp add: at(2))
  have "map (le_word (?l @ le64 bits)) [0..<14] = map (le_word (m_input c)) [0..<14]"
    using at(3,4) by (intro map_cong refl le_word_prefix [of _ 56]) simp_all
  moreover have "[0..<16] = [0..<14] @ [14, 15]" by (simp add: upt_rec)
  ultimately have "map (le_word (?l @ le64 bits)) [0..<16] = input" using at(4) by (simp add: input_def le_word_le64)
  then have "md5_reference m = concat (map digest_bytes (md5Step (m_buffer c) input))"
    by (simp add: md5_reference_def fold md5_compress_def)
  moreover have "m_size c - of_nat (md5_padding (length m mod 64)) = of_nat (length m)"
    using at(1) split(3) by (simp del: length_append)
  then have "md5Finalize ctx = Inr (c\<lparr>m_size := of_nat (length m), m_buffer := md5Step (m_buffer c) input,
      m_digest := concat (map digest_bytes (md5Step (m_buffer c) input))\<rparr>)"
    using c(1) by (simp add: md5Finalize_def size_offset [OF size] Let_def md5_padding_def [symmetric] pad_def [symmetric] input_def bits_def
      del: left_diff_distrib_numeral)
  ultimately show thesis using that by simp
qed

lemma md5Step_digest: "length (concat (map digest_bytes (md5Step st input))) = 16"
  by (simp add: md5Step_def digest_bytes_def split: prod.splits)

lemma md5_reference_length: "length (md5_reference m) = 16"
proof -
  let ?bs = "chunks 64 (md5_pad m)"
  have "md5_pad m = (m @ take (md5_padding (length m mod 64)) PADDING) @ le64 (of_nat (length m * 8))" by (rule md5_pad_split)
  then have "length (md5_pad m) = length (m @ take (md5_padding (length m mod 64)) PADDING) + 8" by (simp add: le64_def)
  moreover have "56 \<le> length (m @ take (md5_padding (length m mod 64)) PADDING)"
    using md5_pad_split(2) [of m] mod_less_eq_dividend by metis
  ultimately have "64 \<le> length (md5_pad m)" by linarith
  then have "?bs \<noteq> []" by (simp add: chunks_long)
  then have "foldl md5_compress md5_H0 ?bs = md5_compress (foldl md5_compress md5_H0 (butlast ?bs)) (last ?bs)"
    by (metis append_butlast_last_id foldl_append foldl.simps)
  then show ?thesis by (simp add: md5_reference_def md5_compress_def md5Step_digest del: length_concat)
qed

lemma md5File_loop_at:
  assumes "md5_at b0 m ctx"
  obtains ctx' where "md5File_loop bs ctx = Inr ctx'" "md5_at b0 (m @ bs) ctx'"
  using assms
proof (induction bs arbitrary: m ctx thesis rule: measure_induct_rule [of length])
  case (less bs)
  show ?case
  proof (cases "bs = []")
    case True
    then show ?thesis using less.prems by (simp add: md5File_loop.simps)
  next
    case False
    let ?k = "if length bs > 1024 then 1024 else length bs"
    have "length (take ?k bs) < 2 ^ 32" by simp
    then obtain c where c: "md5Update ctx (take ?k bs) = Inr c" "md5_at b0 (m @ take ?k bs) c" using md5Update_at [OF less.prems(2)] by blast
    have "length (drop ?k bs) < length bs" using False by simp
    from less.IH [OF this _ c(2)] obtain c' where "md5File_loop (drop ?k bs) c = Inr c'" "md5_at b0 ((m @ take ?k bs) @ drop ?k bs) c'" by blast
    moreover from this(1) have "md5File_loop bs ctx = Inr c'" using c(1) False by (subst md5File_loop.simps) (simp add: Let_def)
    ultimately show ?thesis using less.prems(1) [of c'] by simp
  qed
qed

text \<open>
  C27. \<open>md5File\<close> reads a file in pieces of 1024 bytes, collects them in the 64 byte block buffer of the context
  and pads at the end; the digest is the one of RFC 1321, the fold of the compression function over the blocks of the
  padded file, for a file of any length. Without memory for the result it returns the string "error".
\<close>

theorem md5File_is_one_shot:
  assumes "length (m_input uninit) = 64"
  shows "md5File alloc uninit file = Inr (if alloc then md5_reference file else [101, 114, 114, 111, 114, 0])"
proof -
  obtain c where c: "md5File_loop file (md5Init uninit) = Inr c" "md5_at (m_input uninit) ([] @ file) c"
    using md5File_loop_at [OF md5_at_init [OF assms]] by blast
  then obtain c' where "md5Finalize c = Inr c'" "m_digest c' = md5_reference file" using md5Finalize_at by (metis append_Nil)
  then show ?thesis using c(1) by (simp add: md5File_def md5_result_def md5_reference_length)
qed

theorem md5File_is_one_shot_witness:
  "length (m_input \<lparr>m_size = 0, m_buffer = [], m_input = replicate 64 7, m_digest = []\<rparr>) = 64 \<and>
   md5File True \<lparr>m_size = 0, m_buffer = [], m_input = replicate 64 7, m_digest = []\<rparr> (replicate 3000 97) = Inr (md5_reference (replicate 3000 97))"
  using md5File_is_one_shot [of "\<lparr>m_size = 0, m_buffer = [], m_input = replicate 64 7, m_digest = []\<rparr>" True] by simp

text \<open>\<open>md5String\<close> computes the same digest of a string in one update, if the update ends.\<close>

lemma md5String_is_one_shot:
  assumes "length (m_input uninit) = 64"
  shows "md5String alloc uninit input =
    (if length input < 2 ^ 32 then Inr (if alloc then md5_reference input else [101, 114, 114, 111, 114, 0]) else Inl Diverges)"
proof (cases "length input < 2 ^ 32")
  case True
  then obtain c where c: "md5Update (md5Init uninit) input = Inr c" "md5_at (m_input uninit) ([] @ input) c"
    using md5Update_at [OF md5_at_init [OF assms]] by blast
  then obtain c' where "md5Finalize c = Inr c'" "m_digest c' = md5_reference input" using md5Finalize_at by (metis append_Nil)
  then show ?thesis using True c(1) by (simp add: md5String_def md5_result_def md5_reference_length)
next
  case False
  then show ?thesis by (simp add: md5String_def md5Update_def)
qed

subsection \<open>SHA-512\<close>

definition sha_feed :: "u64 list \<Rightarrow> u8 \<Rightarrow> SHA512_CTX \<Rightarrow> SHA512_CTX" where
  "sha_feed K b ctx = sha512_update K ctx [b]"

interpretation sha_stream: block_stream 128 "sha_feed K" sha_state sha_data sha_datalen "sha512_transform K" for K
  by unfold_locales (auto simp: sha_feed_def Let_def)

lemma sha512_update_feed: "sha512_update K ctx bs = fold (sha_feed K) bs ctx"
  by (induction ctx bs rule: sha512_update.induct) (simp_all add: sha_feed_def Let_def)

definition sha_total :: "SHA512_CTX \<Rightarrow> u64" where
  "sha_total ctx = sha_bitlen ctx + of_nat (sha_datalen ctx * 8)"

lemma sha_total_fold: "sha_total (fold (sha_feed K) bs ctx) = sha_total ctx + of_nat (length bs * 8)"
  by (induction bs arbitrary: ctx) (simp_all add: sha_feed_def sha_total_def Let_def algebra_simps)

text \<open>
  FIPS 180-4: a one bit, zero bits up to 112 bytes modulo 128, and the length in bits as a 16 byte number, high byte first.
  The high half of the length is the argument \<open>high\<close>; in the standard it is zero below \<open>2\<^sup>6\<^sup>1\<close> bytes.
\<close>

definition be64 :: "u64 \<Rightarrow> u8 list" where
  "be64 w = map (\<lambda>k. ucast (drop_bit k w)) [56, 48, 40, 32, 24, 16, 8, 0]"

definition sha512_pad :: "u8 list \<Rightarrow> u8 list \<Rightarrow> u8 list" where
  "sha512_pad high m = m @ 0x80 # replicate ((239 - length m mod 128) mod 128) 0 @ high @ be64 (of_nat (length m * 8))"

definition sha512_digest :: "u64 list \<Rightarrow> u8 list \<Rightarrow> u8 list \<Rightarrow> u8 list" where
  "sha512_digest K high m = concat (map state_bytes (foldl (sha512_transform K) sha512_H0 (chunks 128 (sha512_pad high m))))"

text \<open>What the bytes 112 to 119 of the last block hold: no statement of \<open>sha512_final\<close> writes them.\<close>

definition stale :: "u8 list \<Rightarrow> u8 list \<Rightarrow> u8 list" where
  "stale b0 m = take 8 (drop 112
     (if length m mod 128 < 112 then last (b0 # chunks 128 m)
      else leftover 128 m @ 0x80 # replicate (127 - length m mod 128) 0))"

lemma zero_upto_eq: "a \<le> n \<Longrightarrow> n \<le> length d \<Longrightarrow> zero_upto n a d = take a d @ replicate (n - a) 0 @ drop n d"
proof (induction n)
  case (Suc n)
  show ?case
  proof (cases "a = Suc n")
    case False
    then have a: "a \<le> n" using Suc.prems by simp
    have "zero_upto (Suc n) a d = (zero_upto n a d)[n := 0]" using a by (simp add: zero_upto_def)
    also have "\<dots> = (take a d @ replicate (n - a) 0 @ d ! n # drop (Suc n) d)[n := 0]"
      using Suc a by (simp add: Cons_nth_drop_Suc)
    also have "\<dots> = take a d @ replicate (Suc n - a) 0 @ drop (Suc n) d"
      using Suc.prems a by (simp add: list_update_append Suc_diff_le replicate_append_same min_def)
    finally show ?thesis .
  qed (use Suc.prems in \<open>simp add: zero_upto_def\<close>)
qed (simp add: zero_upto_def)

lemma eight_elements: "length xs = 8 \<Longrightarrow> \<exists>x0 x1 x2 x3 x4 x5 x6 x7. xs = [x0, x1, x2, x3, x4, x5, x6, x7]"
  by (auto simp: numeral_eq_Suc length_Suc_conv)

lemma length_bytes_eq:
  assumes "length d = 128"
  shows "fold (\<lambda>i d. d[127 - i := ucast (drop_bit (i * 8) w)]) [0..<8] d = take 120 d @ be64 w"
proof -
  have "length (drop 120 d) = 8" using assms by simp
  then obtain x0 x1 x2 x3 x4 x5 x6 x7 where "drop 120 d = [x0, x1, x2, x3, x4, x5, x6, x7]"
    using eight_elements by blast
  then have d: "d = take 120 d @ [x0, x1, x2, x3, x4, x5, x6, x7]" by (metis append_take_drop_id)
  have "length (take 120 d) = 120" using assms by simp
  then show ?thesis by (subst d) (simp add: upt_rec list_update_append be64_def)
qed

text \<open>The last block is built in place in the block buffer.\<close>

definition sha_last :: "u8 list \<Rightarrow> nat \<Rightarrow> u64 \<Rightarrow> u8 list" where
  "sha_last data datalen bits = fold (\<lambda>i d. d[127 - i := ucast (drop_bit (i * 8) bits)]) [0..<8] (zero_upto 112 datalen data)"

lemma sha_last_eq:
  assumes "length d = 128" "k \<le> 112"
  shows "sha_last d k bits = take k d @ replicate (112 - k) 0 @ take 8 (drop 112 d) @ be64 bits"
proof -
  have z: "zero_upto 112 k d = take k d @ replicate (112 - k) 0 @ drop 112 d" using assms by (simp add: zero_upto_eq)
  then have "length (zero_upto 112 k d) = 128" using assms by simp
  then show ?thesis unfolding sha_last_def using assms by (subst length_bytes_eq) (simp_all add: z)
qed

lemma sha512_final_short:
  assumes "length (sha_data ctx) = 128" "sha_datalen ctx < 112"
  shows "sha512_final K ctx = concat (map state_bytes (sha512_transform K (sha_state ctx)
    (take (sha_datalen ctx) (sha_data ctx) @ 0x80 # replicate (111 - sha_datalen ctx) 0 @
     take 8 (drop 112 (sha_data ctx)) @ be64 (sha_total ctx))))"
proof -
  let ?d = "(sha_data ctx)[sha_datalen ctx := 0x80]"
  have "sha512_final K ctx = concat (map state_bytes (sha512_transform K (sha_state ctx) (sha_last ?d (Suc (sha_datalen ctx)) (sha_total ctx))))"
    using assms(2) by (simp add: sha512_final_def Let_def sha_last_def sha_total_def)
  then show ?thesis using assms by (simp add: sha_last_eq take_Suc_conv_app_nth)
qed

lemma sha512_final_long:
  assumes "length (sha_data ctx) = 128" "112 \<le> sha_datalen ctx" "sha_datalen ctx < 128"
  defines "block \<equiv> take (sha_datalen ctx) (sha_data ctx) @ 0x80 # replicate (127 - sha_datalen ctx) 0"
  shows "sha512_final K ctx = concat (map state_bytes (sha512_transform K (sha512_transform K (sha_state ctx) block)
    (replicate 112 0 @ take 8 (drop 112 block) @ be64 (sha_total ctx))))"
proof -
  let ?d = "(sha_data ctx)[sha_datalen ctx := 0x80]"
  have "zero_upto 128 (Suc (sha_datalen ctx)) ?d = block"
    using assms(1,3) by (simp add: zero_upto_eq take_Suc_conv_app_nth block_def)
  moreover have "sha512_final K ctx = concat (map state_bytes (sha512_transform K (sha512_transform K (sha_state ctx) (zero_upto 128 (Suc (sha_datalen ctx)) ?d))
      (sha_last (zero_upto 128 (Suc (sha_datalen ctx)) ?d) 0 (sha_total ctx))))"
    using assms(2) by (simp add: sha512_final_def Let_def sha_last_def sha_total_def)
  moreover have "length block = 128" using assms(1,3) by (simp add: block_def)
  ultimately show ?thesis by (simp add: sha_last_eq)
qed

lemma sha512_update_at:
  fixes m :: "u8 list" and K :: "u64 list"
  assumes "length (sha_data uninit) = 128"
  defines "ctx \<equiv> sha512_update K (sha512_init uninit) m" and "k \<equiv> length m mod 128"
  shows "sha_state ctx = foldl (sha512_transform K) sha512_H0 (chunks 128 m)" "sha_datalen ctx = k" "length (sha_data ctx) = 128"
    "take k (sha_data ctx) = leftover 128 m" "sha_total ctx = of_nat (length m * 8)"
    "k < 112 \<Longrightarrow> take 8 (drop 112 (sha_data ctx)) = stale (sha_data uninit) m"
proof -
  have at: "sha_stream.absorbed K sha512_H0 (sha_data uninit) m ctx"
    using sha_stream.absorbed_fold [OF sha_stream.absorbed_start [where s = "sha512_init uninit"], where bs = m and K = K] assms(1)
    by (simp add: ctx_def sha512_update_feed sha512_init_def)
  then show "sha_state ctx = foldl (sha512_transform K) sha512_H0 (chunks 128 m)" "sha_datalen ctx = k"
    "take k (sha_data ctx) = leftover 128 m" "k < 112 \<Longrightarrow> take 8 (drop 112 (sha_data ctx)) = stale (sha_data uninit) m"
    by (simp_all add: sha_stream.absorbed_def k_def stale_def)
  show "length (sha_data ctx) = 128" using at by (rule sha_stream.absorbed_length)
  show "sha_total ctx = of_nat (length m * 8)"
    by (simp add: ctx_def sha512_update_feed sha_total_fold) (simp add: sha_total_def sha512_init_def)
qed

lemma sha512_pad_chunks:
  fixes m :: "u8 list"
  assumes "length high = 8"
  defines "k \<equiv> length m mod 128" and "tail \<equiv> high @ be64 (of_nat (length m * 8))"
  shows "k < 112 \<Longrightarrow> chunks 128 (sha512_pad high m) = chunks 128 m @ [leftover 128 m @ 0x80 # replicate (111 - k) 0 @ tail]"
    and "112 \<le> k \<Longrightarrow> chunks 128 (sha512_pad high m) =
      chunks 128 m @ [leftover 128 m @ 0x80 # replicate (127 - k) 0, replicate 112 0 @ tail]"
proof -
  have tail: "length tail = 16" using assms by (simp add: be64_def)
  have pad: "chunks 128 (sha512_pad high m) = chunks 128 m @ chunks 128 (leftover 128 m @ 0x80 # replicate ((239 - k) mod 128) 0 @ tail)"
    unfolding sha512_pad_def k_def tail_def by (rule chunks_append) simp
  have k: "k < 128" "length (leftover 128 m) = k" by (simp_all add: k_def)
  show "chunks 128 (sha512_pad high m) = chunks 128 m @ [leftover 128 m @ 0x80 # replicate (111 - k) 0 @ tail]" if "k < 112"
  proof -
    have "(239 - k) mod 128 = 111 - k" using that le_mod_geq [of 128 "239 - k"] by simp
    then show ?thesis using that k(2) tail by (simp add: pad chunks_long)
  qed
  show "chunks 128 (sha512_pad high m) = chunks 128 m @ [leftover 128 m @ 0x80 # replicate (127 - k) 0, replicate 112 0 @ tail]" if "112 \<le> k"
  proof -
    have "replicate ((239 - k) mod 128) 0 = replicate (127 - k) (0 :: u8) @ replicate 112 0" using that k(1) by (simp add: replicate_add [symmetric])
    then show ?thesis
      using k tail chunks_full [of "leftover 128 m @ 0x80 # replicate (127 - k) 0" 128 "replicate 112 0 @ tail"] chunks_full [of "replicate 112 0 @ tail" 128 "[]"]
      by (simp add: pad)
  qed
qed

text \<open>
  C28. \<open>sha512_sum\<close> folds the compression function over the blocks of the padded message, however the blocks fill up; but
  the bytes 112 to 119 of the last block, the high half of the length, keep what the block buffer held before: bytes of
  the message, or of the uninitialised stack for a message of less than 112 bytes.
\<close>

theorem sha512_sum_is_one_shot:
  assumes "length (sha_data uninit) = 128"
  shows "sha512_sum K alloc uninit m = (if alloc then Some (sha512_digest K (stale (sha_data uninit) m) m) else None)"
proof -
  note at = sha512_update_at [OF assms, where m = m and K = K]
  have "sha512_final K (sha512_update K (sha512_init uninit) m) = sha512_digest K (stale (sha_data uninit) m) m"
  proof (cases "length m mod 128 < 112")
    case True
    have "length (stale (sha_data uninit) m) = 8" using at(3) by (simp add: at(6) [OF True, symmetric])
    from sha512_pad_chunks(1) [OF this True] show ?thesis
      using sha512_final_short [OF at(3)] True at by (simp add: sha512_digest_def)
  next
    case False
    then have "length (stale (sha_data uninit) m) = 8" by (simp add: stale_def)
    from sha512_pad_chunks(2) [OF this] show ?thesis
      using sha512_final_long [OF at(3)] False at by (simp add: sha512_digest_def stale_def)
  qed
  then show ?thesis by (simp add: sha512_sum_def)
qed

theorem sha512_sum_is_one_shot_witness:
  "length (sha_data \<lparr>sha_state = [], sha_bitlen = 0, sha_data = replicate 128 9, sha_datalen = 0\<rparr>) = 128 \<and>
   (\<forall>K. sha512_sum K True \<lparr>sha_state = [], sha_bitlen = 0, sha_data = replicate 128 9, sha_datalen = 0\<rparr> [97, 98, 99] =
     Some (sha512_digest K (replicate 8 9) [97, 98, 99]))"
  using sha512_sum_is_one_shot [where uninit = "\<lparr>sha_state = [], sha_bitlen = 0, sha_data = replicate 128 9, sha_datalen = 0\<rparr>"
      and alloc = True and m = "[97, 98, 99]"]
  by (simp add: stale_def)

end
