(* ===== verification/ChecksumProofs.thy ===== *)
theory ChecksumProofs
  imports Hashes
begin

unbundle bit_operations_syntax

section \<open>The internet checksum against RFC 1071\<close>

text \<open>
  The reference adds the 16 bit words of a buffer, high byte first, in one's complement arithmetic: \<open>ones_norm\<close> is the
  representative between 1 and 65535 of a positive sum modulo 65535.
\<close>

fun words16 :: "u8 list \<Rightarrow> nat list" where
  "words16 (a # b # r) = (256 * unat a + unat b) # words16 r"
| "words16 [a] = [256 * unat a]"
| "words16 [] = []"

definition ones_norm :: "nat \<Rightarrow> nat" where
  "ones_norm n = (if n = 0 then 0 else (n - 1) mod 65535 + 1)"

lemma ones_norm_add:
  assumes "0 < n"
  shows "ones_norm (n + q * 65535) = ones_norm n"
proof -
  have "n + q * 65535 - 1 = (n - 1) + q * 65535" using assms by simp
  then show ?thesis using assms mod_mult_self1 [of "n - 1" q 65535] by (simp only: ones_norm_def) simp
qed

lemma ones_norm_fold: "ones_norm (n mod 65536 + n div 65536) = ones_norm n"
proof (cases "n = 0")
  case False
  then have "0 < n mod 65536 + n div 65536" by (metis add_is_0 div_mult_mod_eq mult_0 add_0 not_gr_zero)
  moreover have "n = (n mod 65536 + n div 65536) + n div 65536 * 65535" using div_mult_mod_eq [of n 65536] by linarith
  ultimately show ?thesis by (metis ones_norm_add)
qed simp

lemma ones_norm_small: "n < 65536 \<Longrightarrow> ones_norm n = n"
  by (auto simp: ones_norm_def)

lemma ones_norm_le: "ones_norm n \<le> 65535"
proof -
  have "(n - 1) mod 65535 < 65535" by simp
  moreover have "ones_norm n \<le> (n - 1) mod 65535 + 1" by (simp add: ones_norm_def)
  ultimately show ?thesis by linarith
qed

lemma unat_fold_step:
  assumes "unat (c :: u64) < 2 ^ 32"
  shows "unat ((c AND 0xFFFF) + drop_bit 16 c) = unat c mod 65536 + unat c div 65536"
proof -
  have "c AND 0xFFFF = take_bit 16 c" by (simp add: take_bit_eq_mask mask_eq_exp_minus_1)
  then have "unat (c AND 0xFFFF) = take_bit 16 (unat c)" by (simp only: unsigned_take_bit_eq)
  then have m: "unat (c AND 0xFFFF) = unat c mod 65536" by (simp add: take_bit_eq_mod)
  have d: "unat (drop_bit 16 c) = unat c div 65536" using trans [OF unat_drop_bit_eq drop_bit_eq_div, of 16 c] by simp
  have "unat c mod 65536 < 65536" "unat c div 65536 \<le> unat c" by simp_all
  then have "unat c mod 65536 + unat c div 65536 < 2 ^ 64" using assms by simp
  then show ?thesis using m d by (simp add: unat_word_ariths(1))
qed

lemma fold_ends_low:
  assumes "unat (c :: u64) < 2 ^ 32" "c AND 0xFFFF0000 = 0"
  shows "unat c < 65536"
proof -
  have "take_bit 32 c = c" using assms(1) by (simp add: word_unat_eq_iff unsigned_take_bit_eq take_bit_nat_eq_self)
  moreover have "take_bit 32 c = (c AND 0xFFFF0000) OR (c AND 0xFFFF)"
    by (simp add: take_bit_eq_mask mask_eq_exp_minus_1 and.commute bit.conj_disj_distrib [symmetric])
  ultimately have "c = take_bit 16 c" using assms(2) by (simp add: take_bit_eq_mask mask_eq_exp_minus_1)
  then have "unat c = take_bit 16 (unat c)" by (metis unsigned_take_bit_eq)
  then show ?thesis using take_bit_nat_less_exp [of 16 "unat c"] by simp
qed

lemma checksum_fold_norm: "unat c < 2 ^ 32 \<Longrightarrow> unat (checksum_fold c) = ones_norm (unat c)"
proof (induction c rule: checksum_fold.induct)
  case (1 c)
  show ?case
  proof (cases "c AND 0xFFFF0000 = 0")
    case True
    then show ?thesis using fold_ends_low [OF "1.prems" True] by (simp add: checksum_fold.simps ones_norm_small)
  next
    case False
    have step: "unat ((c AND 0xFFFF) + drop_bit 16 c) = unat c mod 65536 + unat c div 65536" by (rule unat_fold_step [OF "1.prems"])
    then have "unat ((c AND 0xFFFF) + drop_bit 16 c) < 2 ^ 32" using "1.prems" by simp
    then show ?thesis using "1.IH" [OF False] False by (simp add: checksum_fold.simps [of c] step ones_norm_fold)
  qed
qed

lemma bytes_or_plus: "push_bit 8 (ucast (a :: u8)) OR ucast (b :: u8) = (256 * ucast a + ucast b :: 'a::len word)"
proof -
  have "push_bit 8 (ucast a) OR ucast b = (push_bit 8 (ucast a) + ucast b :: 'a word)"
    by (rule disjunctive_add [symmetric]) (auto simp: bit_push_bit_iff bit_unsigned_iff dest: bit_imp_le_length)
  then show ?thesis by (simp add: push_bit_eq_mult mult.commute)
qed

lemma unat_bytes: "unat (push_bit 8 (ucast (a :: u8)) OR ucast (b :: u8) :: u16) = 256 * unat a + unat b"
proof -
  have "unat a < 256" "unat b < 256" using unsigned_less [of a] unsigned_less [of b] by simp_all
  then show ?thesis by (simp add: bytes_or_plus unat_word_ariths unsigned_ucast_eq take_bit_nat_eq_self)
qed

lemma swap_bytes:
  "drop_bit 8 ((push_bit 8 (ucast (b :: u8)) OR ucast (a :: u8)) AND 0xFF00) OR push_bit 8 ((push_bit 8 (ucast b) OR ucast a) AND 0x00FF) =
     (push_bit 8 (ucast a) OR ucast b :: u16)"
proof -
  have m: "0xFF00 = (push_bit 8 (mask 8) :: u16)" "0x00FF = (mask 8 :: u16)" by (simp_all add: mask_eq_exp_minus_1)
  show ?thesis by (rule bit_word_eqI)
    (simp only: m, auto simp: bit_or_iff bit_and_iff bit_mask_iff bit_push_bit_iff bit_drop_bit_eq bit_unsigned_iff dest: bit_imp_le_length)
qed

lemma checksum_word_value:
  "unat (checksum_word (push_bit 8 (ucast b) OR ucast a)) = 256 * unat (a :: u8) + unat (b :: u8)"
proof -
  have ab: "unat a < 256" "unat b < 256" using unsigned_less [of a] unsigned_less [of b] by simp_all
  show ?thesis using ab unat_bytes [of a b] unfolding checksum_word_def swap_bytes by (simp add: unsigned_ucast_eq take_bit_nat_eq_self)
qed

lemma words16_map: "words16 Data = map (\<lambda>n. 256 * unat (Data ! (2 * n)) + unat (Data ! (2 * n + 1))) [0..<length Data div 2] @
    (if odd (length Data) then [256 * unat (Data ! (length Data - 1))] else [])"
proof (induction Data rule: words16.induct)
  case (1 a b r)
  then show ?case by (simp add: upt_conv_Cons map_Suc_upt [symmetric] comp_def del: upt_Suc) (auto simp: nth_Cons' elim: oddE)
qed simp_all

lemma word_sum_bound: "\<forall>x\<in>set xs. x \<le> k \<Longrightarrow> sum_list xs \<le> k * length (xs :: nat list)"
  by (induction xs) auto

lemma words16_bound: "x \<in> set (words16 Data) \<Longrightarrow> x \<le> 65535"
proof (induction Data rule: words16.induct)
  case (1 a b r)
  have "unat a < 256" "unat b < 256" using unsigned_less [of a] unsigned_less [of b] by simp_all
  then show ?case using 1 by auto
next
  case (2 a)
  have "unat a < 256" using unsigned_less [of a] by simp
  then show ?case using 2 by simp
qed simp

lemma fold_checksum_words:
  assumes "unat s + sum_list (map f is) < 2 ^ 64" "\<And>i. i \<in> set is \<Longrightarrow> unat (g i) = f i"
  shows "unat (fold (\<lambda>i s. s + (g i :: u64)) is s) = unat s + sum_list (map f is)"
  using assms
proof (induction "is" arbitrary: s)
  case (Cons i "is")
  then have "unat (s + g i) = unat s + f i" by (simp add: unat_word_ariths(1))
  then show ?case using Cons.IH [of "s + g i"] Cons.prems by (simp add: add.assoc)
qed simp

lemma scast_low: "(b :: u8) < 0x80 \<Longrightarrow> (scast b :: u16) = ucast b"
proof -
  assume "b < 0x80"
  then have "take_bit 7 b = b" by (simp add: word_unat_eq_iff unsigned_take_bit_eq word_less_nat_alt take_bit_nat_eq_self)
  then have "\<not> bit b n" if "7 \<le> n" for n using that by (metis bit_take_bit_iff not_le)
  then show ?thesis by (intro bit_word_eqI) (auto simp: bit_signed_iff bit_unsigned_iff min_def)
qed

lemma checksum_sum_words:
  assumes "length Data \<le> 2 ^ 17" "odd (length Data) \<Longrightarrow> last Data < 0x80"
  shows "unat (CalculateChecksum_sum Data) = sum_list (words16 Data)" "sum_list (words16 Data) < 2 ^ 32"
proof -
  let ?f = "\<lambda>n. 256 * unat (Data ! (2 * n)) + unat (Data ! (2 * n + 1))" and ?is = "[0..<length Data div 2]"
  have "length (words16 Data) \<le> 2 ^ 16" using assms(1) by (simp add: words16_map) presburger
  moreover have "sum_list (words16 Data) \<le> 65535 * length (words16 Data)" using words16_bound by (intro word_sum_bound) blast
  ultimately show bound: "sum_list (words16 Data) < 2 ^ 32" by simp
  then have le: "sum_list (map ?f ?is) < 2 ^ 32" by (simp add: words16_map split: if_splits)
  have g: "unat (checksum_word (data16 Data n)) = ?f n" for n by (simp add: data16_def checksum_word_value)
  have sum: "unat (fold (\<lambda>i s. s + checksum_word (data16 Data i)) ?is 0) = sum_list (map ?f ?is)"
    using fold_checksum_words [of 0 ?f ?is "\<lambda>i. checksum_word (data16 Data i)", OF _ g] le by simp
  show "unat (CalculateChecksum_sum Data) = sum_list (words16 Data)"
  proof (cases "odd (length Data)")
    case True
    define b where "b = Data ! (length Data - 1)"
    have "Data \<noteq> []" using True by auto
    then have "b < 0x80" using assms(2) [OF True] by (simp add: b_def last_conv_nth)
    moreover have "unat b < 256" using unsigned_less [of b] by simp
    ultimately have "unat (push_bit 8 (ucast (scast b :: u16)) :: u64) = 256 * unat b"
      by (simp add: scast_low push_bit_eq_mult unat_word_ariths unsigned_ucast_eq unsigned_take_bit_eq take_bit_nat_eq_self)
    moreover have "sum_list (words16 Data) = sum_list (map ?f ?is) + 256 * unat b" using True by (simp add: words16_map b_def)
    ultimately show ?thesis using sum True bound by (simp add: CalculateChecksum_sum_def b_def unat_word_ariths(1) Let_def odd_iff_mod_2_eq_one)
  next
    case False
    then show ?thesis using sum by (simp add: CalculateChecksum_sum_def words16_map)
  qed
qed

lemma unat_not: "unat (NOT (x :: u16)) = 65535 - unat x"
proof -
  have "NOT x = -1 - x" by (simp add: not_eq_complement)
  then show ?thesis by (simp add: unat_sub unsigned_minus_1_eq_mask mask_eq_exp_minus_1)
qed

lemma result_bytes:
  fixes c :: u64
  defines "r \<equiv> (ucast (drop_bit 8 (NOT c AND 0xFF00) OR push_bit 8 (NOT c AND 0x00FF)) :: u16)"
  shows "256 * unat (ucast r :: u8) + unat (ucast (drop_bit 8 r) :: u8) = unat (NOT (ucast c :: u16))"
proof -
  have m: "0xFF00 = (push_bit 8 (mask 8) :: u64)" "0x00FF = (mask 8 :: u64)" by (simp_all add: mask_eq_exp_minus_1)
  have "push_bit 8 (ucast (ucast r :: u8)) OR ucast (ucast (drop_bit 8 r) :: u8) = NOT (ucast c :: u16)"
    unfolding r_def m
    by (rule bit_word_eqI)
      (auto simp: bit_or_iff bit_and_iff bit_not_iff bit_mask_iff bit_push_bit_iff bit_drop_bit_eq bit_unsigned_iff)
  then show ?thesis using unat_bytes [of "ucast r" "ucast (drop_bit 8 r)"] by simp
qed

text \<open>
  C29. For a buffer of at most 128 KiB, whose last byte is below 0x80 when the length is odd, \<open>CalculateChecksum\<close>
  returns the checksum of RFC 1071: its two bytes, in the order they lie in the packet, are the complement of the one's
  complement sum of the words of the buffer.
\<close>

theorem checksum_is_rfc1071:
  assumes "length Data \<le> 2 ^ 17" "odd (length Data) \<longrightarrow> last Data < 0x80"
  shows "256 * unat (ucast (CalculateChecksum Data) :: u8) + unat (ucast (drop_bit 8 (CalculateChecksum Data)) :: u8) =
    65535 - ones_norm (sum_list (words16 Data))"
proof -
  note sum = checksum_sum_words [OF assms(1)] assms(2)
  let ?c = "checksum_fold (CalculateChecksum_sum Data)"
  have c: "unat ?c = ones_norm (sum_list (words16 Data))" using sum by (simp add: checksum_fold_norm)
  then have "unat (ucast ?c :: u16) = unat ?c"
    using ones_norm_le [of "sum_list (words16 Data)"] by (simp add: unsigned_ucast_eq take_bit_nat_eq_self)
  then show ?thesis using result_bytes [of ?c] c by (simp add: CalculateChecksum_def Let_def unat_not)
qed

theorem checksum_is_rfc1071_witness:
  "256 * unat (ucast (CalculateChecksum [0x45, 0, 0, 0x73, 0, 0, 0x40, 0, 0x40, 0x11, 0, 0, 0xc0, 0xa8, 0, 1, 0xc0, 0xa8, 0, 0xc7]) :: u8) +
   unat (ucast (drop_bit 8 (CalculateChecksum [0x45, 0, 0, 0x73, 0, 0, 0x40, 0, 0x40, 0x11, 0, 0, 0xc0, 0xa8, 0, 1, 0xc0, 0xa8, 0, 0xc7])) :: u8) = 0xb861"
  using checksum_is_rfc1071 [of "[0x45, 0, 0, 0x73, 0, 0, 0x40, 0, 0x40, 0x11, 0, 0, 0xc0, 0xa8, 0, 1, 0xc0, 0xa8, 0, 0xc7]"]
  by (simp add: ones_norm_def)

end
