(* ===== verification/Inodes.thy ===== *)
theory Inodes
  imports Prelude
begin

unbundle bit_operations_syntax

section \<open>The interface of the file systems\<close>

text \<open>
  The types of src/Kernel/include/interface/fs.h: modes, \<open>kstat\<close>, \<open>kdirent\<close>, \<open>Inode\<close>, and the operations a file system
  registers, as functions on the state \<open>'s\<close> of the file system and its pointers \<open>'i\<close> to inodes. An operation that is a
  null pointer is \<open>None\<close>. A C string is the list of its characters without the terminator, \<open>off_t\<close> and \<open>ssize_t\<close> are
  integers. \<open>kmalloc\<close> is \<open>malloc\<close> of src/Kernel/core/memory/memory.cpp: it clears what the heap allocator returns, and
  faults on the null pointer of a heap without memory; which sizes the heap has memory for is a parameter.
\<close>

subsection \<open>Modes\<close>

definition S_IFMT :: u32 where "S_IFMT = 0xF000"
definition S_IFSOCK :: u32 where "S_IFSOCK = 0xC000"
definition S_IFLNK :: u32 where "S_IFLNK = 0xA000"
definition S_IFREG :: u32 where "S_IFREG = 0x8000"
definition S_IFBLK :: u32 where "S_IFBLK = 0x6000"
definition S_IFDIR :: u32 where "S_IFDIR = 0x4000"
definition S_IFCHR :: u32 where "S_IFCHR = 0x2000"
definition S_IFIFO :: u32 where "S_IFIFO = 0x1000"

definition S_IS :: "u32 \<Rightarrow> u32 \<Rightarrow> bool" where
  "S_IS type mode \<longleftrightarrow> mode AND S_IFMT = type"

lemmas mode_defs = S_IFMT_def S_IFSOCK_def S_IFLNK_def S_IFREG_def S_IFBLK_def S_IFDIR_def S_IFCHR_def S_IFIFO_def S_IS_def

datatype d_type = DT_UNKNOWN | DT_FIFO | DT_CHR | DT_DIR | DT_BLK | DT_REG | DT_LNK | DT_SOCK | DT_WHT

definition IFTODT :: "u32 \<Rightarrow> u32" where
  "IFTODT x = drop_bit 12 x AND 0xF"

subsection \<open>Structures\<close>

record kstat =
  st_Device :: u64
  st_Index :: u64
  st_Mode :: u32
  st_HardLinks :: u32
  st_UserID :: u32
  st_GroupID :: u32
  st_RawDevice :: u64
  st_Size :: int
  st_AccessTime :: int
  st_ModifyTime :: int
  st_ChangeTime :: int
  st_BlockSize :: int
  st_Blocks :: int
  st_Attribute :: u32

definition kstat_zero :: kstat where
  "kstat_zero = \<lparr>st_Device = 0, st_Index = 0, st_Mode = 0, st_HardLinks = 0, st_UserID = 0, st_GroupID = 0, st_RawDevice = 0,
     st_Size = 0, st_AccessTime = 0, st_ModifyTime = 0, st_ChangeTime = 0, st_BlockSize = 0, st_Blocks = 0, st_Attribute = 0\<rparr>"

record kdirent =
  d_ino :: u64
  d_off :: int
  d_reclen :: u16
  d_type :: u32
  d_name :: string

definition DT :: "d_type \<Rightarrow> u32" where
  "DT t = (case t of DT_UNKNOWN \<Rightarrow> 0x0 | DT_FIFO \<Rightarrow> 0x1 | DT_CHR \<Rightarrow> 0x2 | DT_DIR \<Rightarrow> 0x4 | DT_BLK \<Rightarrow> 0x6 | DT_REG \<Rightarrow> 0x8
     | DT_LNK \<Rightarrow> 0xA | DT_SOCK \<Rightarrow> 0xC | DT_WHT \<Rightarrow> 0xE)"

text \<open>\<open>offsetof(struct kdirent, d_name)\<close> and \<open>sizeof(struct kdirent)\<close>, which is padded to 8 bytes.\<close>

definition d_name_offset :: nat where "d_name_offset = 19"
definition kdirent_size :: nat where "kdirent_size = 24"

definition reclen :: "string \<Rightarrow> u16" where
  "reclen name = of_nat (d_name_offset + length name + 1)"

record Inode =
  i_Device :: u64
  i_RawDevice :: u64
  i_Index :: u64
  i_Mode :: u32
  i_Flags :: u32
  i_Offset :: int

definition Inode_zero :: Inode where
  "Inode_zero = \<lparr>i_Device = 0, i_RawDevice = 0, i_Index = 0, i_Mode = 0, i_Flags = 0, i_Offset = 0\<rparr>"

subsection \<open>Memory\<close>

definition kmalloc :: "(u64 \<Rightarrow> bool) \<Rightarrow> u64 \<Rightarrow> u8 list res" where
  "kmalloc heap n = (if heap (if n = 0 then 16 else n) then Inr (replicate (unat n) 0) else Inl NullPointer)"

text \<open>\<open>memcpy(dst + pos, src, n)\<close> between two buffers whose extents are known.\<close>

definition memcpy :: "'a list \<Rightarrow> int \<Rightarrow> 'a list \<Rightarrow> nat \<Rightarrow> 'a list res" where
  "memcpy dst pos src n =
     (if n \<le> length src \<and> 0 \<le> pos \<and> nat pos + n \<le> length dst
      then Inr (take (nat pos) dst @ take n src @ drop (nat pos + n) dst)
      else Inl OutOfBounds)"

lemma memcpy_eq: "n \<le> length src \<Longrightarrow> 0 \<le> pos \<Longrightarrow> nat pos + n \<le> length dst \<Longrightarrow>
    memcpy dst pos src n = Inr (take (nat pos) dst @ take n src @ drop (nat pos + n) dst)"
  by (simp add: memcpy_def)

lemma memcpy_length: "memcpy dst pos src n = Inr dst' \<Longrightarrow> length dst' = length dst"
  by (auto simp: memcpy_def split: if_splits)

subsection \<open>Operations\<close>

record ('s, 'i) InodeOperations =
  op_Lookup :: "('i \<Rightarrow> string \<Rightarrow> 's \<Rightarrow> (int \<times> 'i option \<times> 's) res) option"
  op_Create :: "('i \<Rightarrow> string \<Rightarrow> u32 \<Rightarrow> 's \<Rightarrow> (int \<times> 'i option \<times> 's) res) option"
  op_Remove :: "('i \<Rightarrow> string \<Rightarrow> 's \<Rightarrow> (int \<times> 's) res) option"
  op_Rename :: "('i \<Rightarrow> string \<Rightarrow> string \<Rightarrow> 's \<Rightarrow> (int \<times> 's) res) option"
  op_Read :: "('i \<Rightarrow> u8 list \<Rightarrow> u64 \<Rightarrow> int \<Rightarrow> 's \<Rightarrow> (int \<times> u8 list) res) option"
  op_Write :: "('i \<Rightarrow> u8 list \<Rightarrow> u64 \<Rightarrow> int \<Rightarrow> 's \<Rightarrow> (int \<times> 's) res) option"
  op_Truncate :: "('i \<Rightarrow> int \<Rightarrow> 's \<Rightarrow> (int \<times> 's) res) option"
  op_Open :: "('i \<Rightarrow> int \<Rightarrow> u32 \<Rightarrow> 's \<Rightarrow> (int \<times> 's) res) option"
  op_Close :: "('i \<Rightarrow> 's \<Rightarrow> (int \<times> 's) res) option"
  op_Ioctl :: "('i \<Rightarrow> u64 \<Rightarrow> u64 \<Rightarrow> 's \<Rightarrow> (int \<times> 's) res) option"
  op_ReadDir :: "('i \<Rightarrow> u64 \<Rightarrow> int \<Rightarrow> int \<Rightarrow> 's \<Rightarrow> (int \<times> kdirent list) res) option"
  op_MkDir :: "('i \<Rightarrow> string \<Rightarrow> u32 \<Rightarrow> 's \<Rightarrow> (int \<times> 'i option \<times> 's) res) option"
  op_RmDir :: "('i \<Rightarrow> string \<Rightarrow> 's \<Rightarrow> (int \<times> 's) res) option"
  op_SymLink :: "('i \<Rightarrow> string \<Rightarrow> string \<Rightarrow> 's \<Rightarrow> (int \<times> 'i option \<times> 's) res) option"
  op_ReadLink :: "('i \<Rightarrow> string \<Rightarrow> u64 \<Rightarrow> 's \<Rightarrow> (int \<times> string) res) option"
  op_Seek :: "('i \<Rightarrow> int \<Rightarrow> 's \<Rightarrow> (int \<times> 's) res) option"
  op_Stat :: "('i \<Rightarrow> kstat \<Rightarrow> 's \<Rightarrow> (int \<times> kstat) res) option"

definition no_operations :: "('s, 'i) InodeOperations" where
  "no_operations = \<lparr>op_Lookup = None, op_Create = None, op_Remove = None, op_Rename = None, op_Read = None, op_Write = None,
     op_Truncate = None, op_Open = None, op_Close = None, op_Ioctl = None, op_ReadDir = None, op_MkDir = None, op_RmDir = None,
     op_SymLink = None, op_ReadLink = None, op_Seek = None, op_Stat = None\<rparr>"

end
