(* ===== verification/InodeStore.thy ===== *)
theory InodeStore
  imports Inodes
begin

section \<open>What a file system promises for its names\<close>

text \<open>
  The locale \<open>inode_store\<close> is the contract between the virtual file system and the file systems it calls: a lookup of a name
  in a directory finds the inode that was created there under that name, and a creation changes the result of no
  other lookup. Its client makes the directories of a path one after the other and walks the path afterwards.
\<close>

definition missing :: "(int \<times> 'i option) res" where
  "missing = Inr (- ENOENT, None)"

text \<open>Following a list of names, and following it while making what is missing.\<close>

fun walk_names :: "('s \<Rightarrow> 'i \<Rightarrow> string \<Rightarrow> (int \<times> 'i option) res) \<Rightarrow> 's \<Rightarrow> 'i \<Rightarrow> string list \<Rightarrow> (int \<times> 'i option) res" where
  "walk_names lookup s p [] = Inr (0, Some p)"
| "walk_names lookup s p (x # xs) = rbind (lookup s p x) (\<lambda>(ret, r). case r of None \<Rightarrow> Inr (ret, None) | Some i \<Rightarrow> walk_names lookup s i xs)"

fun make_names :: "('s \<Rightarrow> 'i \<Rightarrow> string \<Rightarrow> (int \<times> 'i option) res) \<Rightarrow> ('s \<Rightarrow> 'i \<Rightarrow> string \<Rightarrow> u32 \<Rightarrow> (int \<times> 'i option \<times> 's) res) \<Rightarrow>
    u32 \<Rightarrow> 's \<Rightarrow> 'i \<Rightarrow> string list \<Rightarrow> ('i \<times> 's) res" where
  "make_names lookup create mode s p [] = Inr (p, s)"
| "make_names lookup create mode s p (x # xs) =
     rbind (lookup s p x) (\<lambda>(ret, r).
     case r of
       Some i \<Rightarrow> make_names lookup create mode s i xs
     | None \<Rightarrow> rbind (create s p x mode) (\<lambda>(ret, r, s). case r of None \<Rightarrow> Inl NullPointer | Some i \<Rightarrow> make_names lookup create mode s i xs))"

locale inode_store =
  fixes good :: "'s \<Rightarrow> bool"
    and room :: "nat \<Rightarrow> 's \<Rightarrow> bool"
    and live :: "'s \<Rightarrow> 'i \<Rightarrow> bool"
    and name_ok :: "string \<Rightarrow> bool"
    and lookup :: "'s \<Rightarrow> 'i \<Rightarrow> string \<Rightarrow> (int \<times> 'i option) res"
    and create :: "'s \<Rightarrow> 'i \<Rightarrow> string \<Rightarrow> u32 \<Rightarrow> (int \<times> 'i option \<times> 's) res"
  assumes room_less: "room (Suc n) s \<Longrightarrow> room n s"
    and lookup_cases: "good s \<Longrightarrow> live s p \<Longrightarrow> name_ok x \<Longrightarrow> lookup s p x = missing \<or> (\<exists>i. live s i \<and> lookup s p x = Inr (0, Some i))"
    and create_succeeds: "good s \<Longrightarrow> room (Suc n) s \<Longrightarrow> live s p \<Longrightarrow> name_ok x \<Longrightarrow> \<exists>i s'. create s p x mode = Inr (0, Some i, s')"
    and create_keeps: "good s \<Longrightarrow> room (Suc n) s \<Longrightarrow> live s p \<Longrightarrow> name_ok x \<Longrightarrow> create s p x mode = Inr (0, Some i, s') \<Longrightarrow>
      good s' \<and> room n s' \<and> live s' i \<and> \<not> live s i \<and> (\<forall>q. live s q \<longrightarrow> live s' q)"
    and create_found: "good s \<Longrightarrow> room (Suc n) s \<Longrightarrow> live s p \<Longrightarrow> name_ok x \<Longrightarrow> create s p x mode = Inr (0, Some i, s') \<Longrightarrow>
      lookup s p x = missing \<Longrightarrow> lookup s' p x = Inr (0, Some i)"
    and create_others: "good s \<Longrightarrow> room (Suc n) s \<Longrightarrow> live s p \<Longrightarrow> name_ok x \<Longrightarrow> create s p x mode = Inr (0, Some i, s') \<Longrightarrow>
      live s q \<Longrightarrow> name_ok y \<Longrightarrow> q \<noteq> p \<or> y \<noteq> x \<Longrightarrow> lookup s' q y = lookup s q y"
    and create_empty: "good s \<Longrightarrow> room (Suc n) s \<Longrightarrow> live s p \<Longrightarrow> name_ok x \<Longrightarrow> create s p x mode = Inr (0, Some i, s') \<Longrightarrow>
      name_ok y \<Longrightarrow> lookup s' i y = missing"
begin

lemma walk_kept:
  assumes "good s" "room (Suc n) s" "live s p" "name_ok x" "create s p x mode = Inr (0, Some i, s')" "lookup s p x = missing"
    and "live s q" "\<forall>y \<in> set ys. name_ok y" "walk_names lookup s q ys = Inr (0, Some k)"
  shows "walk_names lookup s' q ys = Inr (0, Some k)"
  using assms(7-9)
proof (induction ys arbitrary: q)
  case (Cons y ys)
  show ?case
  proof (cases "q = p \<and> y = x")
    case True
    then show ?thesis using Cons.prems(3) assms(6) by (simp add: missing_def ENOENT_def)
  next
    case False
    then have eq: "lookup s' q y = lookup s q y" using create_others [OF assms(1-5) Cons.prems(1)] Cons.prems(2) by auto
    from lookup_cases [OF assms(1) Cons.prems(1), of y] Cons.prems(2,3)
    obtain j where "live s j" "lookup s q y = Inr (0, Some j)" by (auto simp: missing_def ENOENT_def)
    then show ?thesis using Cons.IH [of j] Cons.prems(2,3) eq by simp
  qed
qed simp

text \<open>What is found in one state is found in the other.\<close>

definition keeps :: "'s \<Rightarrow> 's \<Rightarrow> bool" where
  "keeps s s' \<longleftrightarrow> (\<forall>q ys k. live s q \<longrightarrow> (\<forall>y \<in> set ys. name_ok y) \<longrightarrow> walk_names lookup s q ys = Inr (0, Some k) \<longrightarrow> live s' q \<and> walk_names lookup s' q ys = Inr (0, Some k))"

lemma keeps_lookup:
  assumes "keeps s s'" "live s p" "name_ok x" "lookup s p x = Inr (0, Some i)"
  shows "\<exists>ret. lookup s' p x = Inr (ret, Some i)"
proof -
  have "walk_names lookup s p [x] = Inr (0, Some i)" using assms(4) by simp
  then have "walk_names lookup s' p [x] = Inr (0, Some i)" using assms(1-3) unfolding keeps_def by (metis empty_set list.simps(15) singletonD empty_iff)
  then show ?thesis by (auto simp: rbind_def split: sum.splits option.splits)
qed

lemma make_walk:
  assumes "good s" "room (length xs) s" "live s p" "\<forall>x \<in> set xs. name_ok x"
  shows "\<exists>i s'. make_names lookup create mode s p xs = Inr (i, s') \<and> good s' \<and> live s' i \<and> walk_names lookup s' p xs = Inr (0, Some i) \<and> keeps s s'"
  using assms
proof (induction xs arbitrary: s p)
  case Nil
  then show ?case by (simp add: keeps_def)
next
  case (Cons x xs)
  then have x: "name_ok x" and room: "room (Suc (length xs)) s" by simp_all
  consider "lookup s p x = missing" | i where "live s i" "lookup s p x = Inr (0, Some i)"
    using lookup_cases [OF Cons.prems(1,3) x] by blast
  then show ?case
  proof cases
    case 1
    obtain i s1 where c: "create s p x mode = Inr (0, Some i, s1)" using create_succeeds [OF Cons.prems(1) room Cons.prems(3) x] by blast
    note k = create_keeps [OF Cons.prems(1) room Cons.prems(3) x c]
    have f: "lookup s1 p x = Inr (0, Some i)" by (rule create_found [OF Cons.prems(1) room Cons.prems(3) x c 1])
    have k1: "keeps s s1" unfolding keeps_def using walk_kept [OF Cons.prems(1) room Cons.prems(3) x c 1] k by blast
    obtain j s2 where j: "make_names lookup create mode s1 i xs = Inr (j, s2)" "good s2" "live s2 j" "walk_names lookup s2 i xs = Inr (0, Some j)" "keeps s1 s2"
      using Cons.IH [of s1 i] k Cons.prems(4) by auto
    obtain ret where "lookup s2 p x = Inr (ret, Some i)" using keeps_lookup [OF j(5) _ x f] k Cons.prems(3) by blast
    moreover have "keeps s s2" using k1 j(5) unfolding keeps_def by blast
    ultimately show ?thesis using 1 c j by (simp add: missing_def)
  next
    case 2
    obtain j s2 where j: "make_names lookup create mode s i xs = Inr (j, s2)" "good s2" "live s2 j" "walk_names lookup s2 i xs = Inr (0, Some j)" "keeps s s2"
      using Cons.IH [of s i] room_less [OF room] Cons.prems(1,4) 2(1) by auto
    obtain ret where "lookup s2 p x = Inr (ret, Some i)" using keeps_lookup [OF j(5) Cons.prems(3) x 2(2)] by blast
    then show ?thesis using 2 j by simp
  qed
qed

text \<open>
  Nothing else is found. A walk that succeeds after a creation succeeded before, or it is a walk to the directory
  followed by the new name.
\<close>

lemma walk_live:
  assumes "good s" "live s q" "\<forall>y \<in> set ys. name_ok y" "walk_names lookup s q ys = Inr (0, Some k)"
  shows "live s k"
  using assms(2-)
proof (induction ys arbitrary: q)
  case (Cons y ys)
  from lookup_cases [OF assms(1) Cons.prems(1), of y] Cons.prems(2,3)
  obtain j where "live s j" "lookup s q y = Inr (0, Some j)" by (auto simp: missing_def ENOENT_def)
  then show ?case using Cons by simp
qed simp

lemma walk_created:
  assumes "good s" "room (Suc n) s" "live s p" "name_ok x" "create s p x mode = Inr (0, Some i, s')" "lookup s p x = missing"
    and "live s q" "\<forall>y \<in> set ys. name_ok y" "walk_names lookup s' q ys = Inr (0, Some k)"
  shows "walk_names lookup s q ys = Inr (0, Some k) \<or> (\<exists>us. ys = us @ [x] \<and> walk_names lookup s q us = Inr (0, Some p) \<and> k = i)"
  using assms(7-9)
proof (induction ys arbitrary: q)
  case (Cons y ys)
  show ?case
  proof (cases "q = p \<and> y = x")
    case True
    then have w: "walk_names lookup s' i ys = Inr (0, Some k)" using Cons.prems(3) create_found [OF assms(1-6)] by simp
    have "ys = []"
    proof (rule ccontr)
      assume "ys \<noteq> []"
      then obtain z zs where "ys = z # zs" by (cases ys) auto
      then show False using w create_empty [OF assms(1-5), of z] Cons.prems(2) by (simp add: missing_def ENOENT_def)
    qed
    then show ?thesis using True w by (intro disjI2 exI [of _ "[]"]) simp
  next
    case False
    then have eq: "lookup s' q y = lookup s q y" using create_others [OF assms(1-5) Cons.prems(1)] Cons.prems(2) by auto
    from lookup_cases [OF assms(1) Cons.prems(1), of y] Cons.prems(2,3) eq
    obtain j where j: "live s j" "lookup s q y = Inr (0, Some j)" by (auto simp: missing_def ENOENT_def)
    from Cons.IH [OF j(1)] Cons.prems(2,3) eq j(2)
    consider "walk_names lookup s j ys = Inr (0, Some k)" | us where "ys = us @ [x]" "walk_names lookup s j us = Inr (0, Some p)" "k = i" by auto
    then show ?thesis
    proof cases
      case (2 us)
      then show ?thesis using j(2) by (intro disjI2 exI [of _ "y # us"]) simp
    qed (use j(2) in simp)
  qed
qed simp

text \<open>
  The walks that making the names \<open>xs\<close> from \<open>p\<close> on adds: the first \<open>m\<close> names led to \<open>r\<close> before, and a new walk is a
  walk to \<open>r\<close> followed by some of the names after them.
\<close>

definition only_adds :: "'s \<Rightarrow> 's \<Rightarrow> 'i \<Rightarrow> string list \<Rightarrow> bool" where
  "only_adds s s' r xs \<longleftrightarrow> (\<forall>q ys k. live s q \<longrightarrow> (\<forall>y \<in> set ys. name_ok y) \<longrightarrow> walk_names lookup s' q ys = Inr (0, Some k) \<longrightarrow>
     walk_names lookup s q ys = Inr (0, Some k) \<or>
     (\<exists>us vs ws. ys = us @ vs \<and> walk_names lookup s q us = Inr (0, Some r) \<and> vs \<noteq> [] \<and> xs = vs @ ws))"

lemma make_new_below:
  assumes g: "good s" "room (Suc n) s" "live s p" "name_ok x" and c: "create s p x mode = Inr (0, Some i, s1)" and x: "lookup s p x = missing"
    and xs: "\<forall>y \<in> set xs. name_ok y" and m: "m \<le> length xs" "walk_names lookup s1 i (take m xs) = Inr (0, Some r)"
    and a: "only_adds s1 s2 r (drop m xs)"
  shows "only_adds s s2 p (x # xs)"
  unfolding only_adds_def
proof (intro allI impI)
  fix q ys k assume q: "live s q" "\<forall>y \<in> set ys. name_ok y" "walk_names lookup s2 q ys = Inr (0, Some k)"
  note k = create_keeps [OF g c]
  have "take m xs = []"
  proof (rule ccontr)
    assume "take m xs \<noteq> []"
    then obtain z zs where z: "take m xs = z # zs" by (cases "take m xs") auto
    then have "name_ok z" using xs by (metis in_set_takeD list.set_intros(1))
    then show False using m(2) z create_empty [OF g c, of z] by (simp add: missing_def ENOENT_def)
  qed
  with m have m: "m = 0 \<or> xs = []" "r = i" by auto
  have "live s1 q" using k q(1) by blast
  with a q(2,3) consider "walk_names lookup s1 q ys = Inr (0, Some k)"
    | us vs ws where "ys = us @ vs" "walk_names lookup s1 q us = Inr (0, Some i)" "vs \<noteq> []" "drop m xs = vs @ ws"
    unfolding only_adds_def m(2) by blast
  then show "walk_names lookup s q ys = Inr (0, Some k) \<or>
     (\<exists>us vs ws. ys = us @ vs \<and> walk_names lookup s q us = Inr (0, Some p) \<and> vs \<noteq> [] \<and> x # xs = vs @ ws)"
  proof cases
    case 1
    from walk_created [OF g c x q(1,2) 1] show ?thesis by (metis append_Cons append_Nil list.distinct(1))
  next
    case (2 us vs ws)
    have "\<forall>y \<in> set us. name_ok y" using q(2) 2(1) by simp
    from walk_created [OF g c x q(1) this 2(2)] walk_live [OF g(1) q(1) this] k
    obtain us' where "us = us' @ [x]" "walk_names lookup s q us' = Inr (0, Some p)" by blast
    moreover have "xs = vs @ ws" using 2(3,4) m(1) by auto
    ultimately show ?thesis using 2(1) by (intro disjI2 exI [of _ us'] exI [of _ "x # vs"] exI [of _ ws]) simp
  qed
qed

lemma make_only_adds:
  assumes "good s" "room (length xs) s" "live s p" "\<forall>x \<in> set xs. name_ok x" "make_names lookup create mode s p xs = Inr (i, s')"
  shows "\<exists>m r. m \<le> length xs \<and> walk_names lookup s p (take m xs) = Inr (0, Some r) \<and> only_adds s s' r (drop m xs)"
  using assms
proof (induction xs arbitrary: s p)
  case Nil
  then show ?case by (auto simp: only_adds_def)
next
  case (Cons x xs)
  then have x: "name_ok x" and xs: "\<forall>y \<in> set xs. name_ok y" and room: "room (Suc (length xs)) s" by simp_all
  consider "lookup s p x = missing" | i where "live s i" "lookup s p x = Inr (0, Some i)"
    using lookup_cases [OF Cons.prems(1,3) x] by blast
  then show ?case
  proof cases
    case 1
    obtain j s1 where c: "create s p x mode = Inr (0, Some j, s1)" using create_succeeds [OF Cons.prems(1) room Cons.prems(3) x] by blast
    note k = create_keeps [OF Cons.prems(1) room Cons.prems(3) x c]
    have "make_names lookup create mode s1 j xs = Inr (i, s')" using Cons.prems(5) 1 c by (simp add: missing_def)
    with Cons.IH [of s1 j] k xs obtain m r where "m \<le> length xs" "walk_names lookup s1 j (take m xs) = Inr (0, Some r)" "only_adds s1 s' r (drop m xs)" by blast
    from make_new_below [OF Cons.prems(1) room Cons.prems(3) x c 1 xs this] show ?thesis by (intro exI [of _ 0] exI [of _ p]) simp
  next
    case (2 j)
    then have "make_names lookup create mode s j xs = Inr (i, s')" using Cons.prems(5) by simp
    with Cons.IH [of s j] 2(1) Cons.prems(1) room_less [OF room] xs
    obtain m r where "m \<le> length xs" "walk_names lookup s j (take m xs) = Inr (0, Some r)" "only_adds s s' r (drop m xs)" by blast
    then show ?thesis using 2(2) by (intro exI [of _ "Suc m"] exI [of _ r]) simp
  qed
qed

end

end
