(* ===== verification/Names.thy ===== *)
theory Names
  imports CwalkProofs
begin

section \<open>Names and normal paths\<close>

text \<open>
  A path that is written as a list of names is split into these names again, a path of one name is its own basename, and
  the names a stack of segments ends with are proper ones. The file systems need no more of the path library.
\<close>

subsection \<open>One name\<close>

text \<open>A name of one segment: neither empty nor with a separator.\<close>

definition plain :: "string \<Rightarrow> bool" where
  "plain name \<longleftrightarrow> name \<noteq> [] \<and> CHR ''/'' \<notin> set name \<and> NUL \<notin> set name"

lemma plain_char: "plain p \<Longrightarrow> i < length p \<Longrightarrow> char_at p i \<noteq> NUL \<and> \<not> cwk_path_is_separator CWK_STYLE_UNIX (char_at p i)"
  unfolding plain_def char_at_def cwk_path_is_separator_def by (metis nth_mem empty_set list.simps(15) separators.simps(2) singletonD)

lemma segpos_plain:
  assumes "plain p"
  shows "segpos CWK_STYLE_UNIX p 0 = [(0, length p)]"
proof -
  let ?stop = "cwk_path_find_next_stop CWK_STYLE_UNIX p 0"
  have 0: "char_at p 0 \<noteq> NUL" "\<not> cwk_path_is_separator CWK_STYLE_UNIX (char_at p 0)" using plain_char [OF assms, of 0] assms by (auto simp: plain_def)
  have "\<not> ?stop < length p" using find_next_stop_stop [of p CWK_STYLE_UNIX 0] plain_char [OF assms] by blast
  moreover have "\<not> length p < ?stop" using find_next_stop_over [of 0 "length p" CWK_STYLE_UNIX p] by (auto simp: char_at_def)
  ultimately have "?stop = length p" by simp
  moreover have "skip_separators CWK_STYLE_UNIX p 0 = 0" using 0 by (subst skip_separators.simps) simp
  moreover have "segpos CWK_STYLE_UNIX p (length p) = []" by (simp add: segpos_NUL char_at_def)
  ultimately show ?thesis using 0 by (subst segpos.simps) (simp add: Let_def)
qed

lemma basename_at:
  "cwk_path_get_basename CWK_STYLE_UNIX p =
     Inr (if segpos CWK_STYLE_UNIX p 0 = [] then None
          else let (b, e) = last (segpos CWK_STYLE_UNIX p 0) in Some (b, e - b))"
proof -
  obtain f s where f: "cwk_path_get_first_segment CWK_STYLE_UNIX p = (f, s)" by fastforce
  obtain s' where s': "cwk_path_get_last_segment CWK_STYLE_UNIX p = Inr (segpos CWK_STYLE_UNIX p 0 \<noteq> [], s')"
    "segpos CWK_STYLE_UNIX p 0 \<noteq> [] \<longrightarrow> at_seg CWK_STYLE_UNIX p (length (segpos CWK_STYLE_UNIX p 0) - 1) s'"
    using last_segment_at [OF f [unfolded cwk_path_get_first_segment_def] root_unix] f
    by (auto simp: cwk_path_get_last_segment_def)
  then show ?thesis by (auto simp: cwk_path_get_basename_def at_seg_def last_conv_nth)
qed

lemma basename_plain: "plain p \<Longrightarrow> cwk_path_get_basename CWK_STYLE_UNIX p = Inr (Some (0, length p))"
  by (simp add: basename_at segpos_plain)

subsection \<open>Paths of names\<close>

lemma char_at_shift [simp]: "char_at (pre @ p) (length pre + c) = char_at p c"
  by (simp add: char_at_def nth_append)

lemma skip_separators_shift: "skip_separators st (pre @ p) (length pre + c) = length pre + skip_separators st p c"
proof (induction st p c rule: skip_separators.induct)
  case (1 st p c)
  then show ?case by (subst (1 2) skip_separators.simps) (auto simp flip: add_Suc_right)
qed

lemma find_next_stop_shift: "cwk_path_find_next_stop st (pre @ p) (length pre + c) = length pre + cwk_path_find_next_stop st p c"
proof (induction st p c rule: cwk_path_find_next_stop.induct)
  case (1 st p c)
  then show ?case by (subst (1 2) cwk_path_find_next_stop.simps) (auto simp flip: add_Suc_right)
qed

lemma segpos_shift: "segpos st (pre @ p) (length pre + c) = map (\<lambda>(b, e). (length pre + b, length pre + e)) (segpos st p c)"
proof (induction st p c rule: segpos.induct)
  case (1 st p c)
  then show ?case by (subst (1 2) segpos.simps) (auto simp: Let_def skip_separators_shift find_next_stop_shift)
qed

lemma segs_shift: "map (\<lambda>(b, e). take (e - b) (drop b (pre @ p))) (segpos st (pre @ p) (length pre)) = segs st p"
  using segpos_shift [of st pre p 0] by (auto simp: segs_def comp_def)

lemma segs_separator: "segs CWK_STYLE_UNIX (CHR ''/'' # p) = segs CWK_STYLE_UNIX p"
proof -
  have "segpos CWK_STYLE_UNIX (CHR ''/'' # p) (Suc 0) = segpos CWK_STYLE_UNIX (CHR ''/'' # p) 0"
    by (rule segpos_skip) (simp add: char_at_def cwk_path_is_separator_def)
  then show ?thesis using segs_shift [of "''/''" p CWK_STYLE_UNIX] by (simp add: segs_def)
qed

lemma segpos_name:
  assumes "plain x"
  shows "segpos CWK_STYLE_UNIX (x @ CHR ''/'' # p) 0 = (0, length x) # map (\<lambda>(b, e). (Suc (length x) + b, Suc (length x) + e)) (segpos CWK_STYLE_UNIX p 0)"
proof -
  let ?q = "x @ CHR ''/'' # p" and ?st = CWK_STYLE_UNIX
  let ?stop = "cwk_path_find_next_stop ?st ?q 0"
  have in_x: "char_at ?q i \<noteq> NUL \<and> \<not> cwk_path_is_separator ?st (char_at ?q i)" if "i < length x" for i
    using plain_char [OF assms that] that by (simp add: char_at_def nth_append)
  have at: "cwk_path_is_separator ?st (char_at ?q (length x))" by (simp add: char_at_def cwk_path_is_separator_def)
  have x: "x \<noteq> []" using assms by (simp add: plain_def)
  have "\<not> ?stop < length x" using find_next_stop_stop [of ?q ?st 0] in_x by blast
  moreover have "\<not> length x < ?stop" using find_next_stop_over [of 0 "length x" ?st ?q] at by auto
  ultimately have "?stop = length x" by simp
  moreover have "skip_separators ?st ?q 0 = 0" using in_x [of 0] x by (subst skip_separators.simps) simp
  ultimately have "segpos ?st ?q 0 = (0, length x) # segpos ?st ?q (length x)" using in_x [of 0] x by (subst segpos.simps) (simp add: Let_def)
  moreover have "segpos ?st ?q (length x) = segpos ?st ?q (Suc (length x))" by (rule segpos_skip [symmetric]) (use at in simp)
  moreover have "segpos ?st ?q (Suc (length x)) = map (\<lambda>(b, e). (Suc (length x) + b, Suc (length x) + e)) (segpos ?st p 0)"
    using segpos_shift [of ?st "x @ ''/''" p 0] by simp
  ultimately show ?thesis by simp
qed

lemma segs_name: "plain x \<Longrightarrow> segs CWK_STYLE_UNIX (x @ CHR ''/'' # p) = x # segs CWK_STYLE_UNIX p"
  by (auto simp: segs_def segpos_name comp_def)

lemma segs_plain: "plain x \<Longrightarrow> segs CWK_STYLE_UNIX x = [x]"
  by (simp add: segs_def segpos_plain)

lemma segs_join: "\<forall>x \<in> set xs. plain x \<Longrightarrow> segs CWK_STYLE_UNIX (join_segs xs) = xs"
proof (induction xs rule: join_segs.induct)
  case 1
  show ?case by (simp add: segs_def segpos_NUL char_at_def)
next
  case (2 s)
  then show ?case by (simp add: segs_plain)
next
  case (3 s t ss)
  then show ?case using segs_name [of s "join_segs (t # ss)"] by simp
qed

lemma segs_are_plain:
  assumes "NUL \<notin> set p" "x \<in> set (segs CWK_STYLE_UNIX p)"
  shows "plain x"
proof -
  obtain b e where be: "(b, e) \<in> set (segpos CWK_STYLE_UNIX p 0)" "x = take (e - b) (drop b p)"
    using assms(2) by (auto simp: segs_def)
  then obtain i where i: "i < length (segpos CWK_STYLE_UNIX p 0)" "segpos CWK_STYLE_UNIX p 0 ! i = (b, e)" by (auto simp: in_set_conv_nth)
  have n: "b < e" "e = cwk_path_find_next_stop CWK_STYLE_UNIX p b" using segpos_nth [OF i] by blast+
  have ch: "char_at p k \<noteq> NUL \<and> \<not> cwk_path_is_separator CWK_STYLE_UNIX (char_at p k)" if "b \<le> k" "k < e" for k
    using find_next_stop_over [of b k CWK_STYLE_UNIX p] that n(2) by simp
  have "b < length p" using ch [of b] n(1) by (auto simp: char_at_def split: if_splits)
  moreover have "CHR ''/'' \<notin> set x"
  proof
    assume "CHR ''/'' \<in> set x"
    then obtain k where "k < length x" "x ! k = CHR ''/''" by (auto simp: in_set_conv_nth)
    then have k: "b + k < length p" "b + k < e" "p ! (b + k) = CHR ''/''" using be(2) by auto
    then show False using ch [of "b + k"] by (simp add: char_at_def cwk_path_is_separator_def)
  qed
  moreover have "NUL \<notin> set x" using assms(1) be(2) by (meson in_set_dropD in_set_takeD)
  ultimately show ?thesis using be(2) n(1) by (simp add: plain_def)
qed

lemma resolve_names:
  "\<forall>x \<in> set ss \<union> set stack. plain x \<Longrightarrow> \<forall>x \<in> set stack. x \<noteq> ''.'' \<and> x \<noteq> ''..'' \<Longrightarrow>
    x \<in> set (resolve True stack ss) \<Longrightarrow> plain x \<and> x \<noteq> ''.'' \<and> x \<noteq> ''..''"
proof (induction ss arbitrary: stack)
  case (Cons s ss)
  consider "s = ''.''" | "s = ''..''" "stack = []" | t st where "s = ''..''" "stack = t # st" | "s \<noteq> ''.''" "s \<noteq> ''..''" by (cases stack) auto
  then show ?case
  proof cases
    case 1
    then show ?thesis using Cons.IH [of stack] Cons.prems by simp
  next
    case 2
    then show ?thesis using Cons.IH [of "[]"] Cons.prems by simp
  next
    case 3
    then show ?thesis using Cons.IH [of st] Cons.prems by simp
  next
    case 4
    then show ?thesis using Cons.IH [of "s # stack"] Cons.prems by simp
  qed
qed simp

text \<open>The names an absolute path, or a path below an absolute one, leads through.\<close>

definition path_names :: "string \<Rightarrow> string \<Rightarrow> string list" where
  "path_names base Path =
     resolve True [] (if char_at Path 0 = CHR ''/'' then segs CWK_STYLE_UNIX Path else segs CWK_STYLE_UNIX base @ segs CWK_STYLE_UNIX Path)"

lemma path_names_plain:
  assumes "NUL \<notin> set base" "NUL \<notin> set Path" "x \<in> set (path_names base Path)"
  shows "plain x \<and> x \<noteq> ''.'' \<and> x \<noteq> ''..''"
  by (rule resolve_names [OF _ _ assms(3) [unfolded path_names_def]]) (use assms(1,2) segs_are_plain in auto)

end
