(* ===== verification/Ramfs.thy ===== *)
theory Ramfs
  imports Inodes Cwalk
begin

unbundle bit_operations_syntax

section \<open>The RAM file system\<close>

text \<open>
  A model of src/Kernel/fs/ramfs.cpp and src/Kernel/include/fs/ramfs.hpp. A pointer to a \<open>RAMFSInode\<close>, whose first member is
  the \<open>Inode\<close> the kernel sees, is the number \<open>Create\<close> gave it; \<open>rf_nodes\<close> are the objects that exist, \<open>rf_Files\<close> the keys
  of the hash map \<open>Files\<close>, whose order of iteration is the parameter \<open>walk\<close>. An \<open>InodeBuffer\<close> is its bytes, \<open>None\<close> the
  null pointer; its \<open>DataSize\<close> is their number.
\<close>

record RAMFSInode =
  r_Node :: Inode
  r_Parent :: "u64 option"
  r_Name :: string
  r_Stat :: kstat
  r_Mode :: u32
  r_Buffer :: "u8 list option"
  r_SymLink :: string
  r_Children :: "u64 list"

record RAMFS =
  rf_nodes :: "u64 \<Rightarrow> RAMFSInode option"
  rf_Files :: "u64 list"
  rf_DeviceID :: u64
  rf_NextInode :: u64
  rf_RootName :: string

definition RAMFS_new :: RAMFS where
  "RAMFS_new = \<lparr>rf_nodes = (\<lambda>_. None), rf_Files = [], rf_DeviceID = -1, rf_NextInode = 0, rf_RootName = ''''\<rparr>"

definition rf_node :: "RAMFS \<Rightarrow> u64 \<Rightarrow> RAMFSInode res" where
  "rf_node rf i = (case rf_nodes rf i of None \<Rightarrow> Inl DanglingPointer | Some n \<Rightarrow> Inr n)"

definition rf_put :: "u64 \<Rightarrow> RAMFSInode \<Rightarrow> RAMFS \<Rightarrow> RAMFS" where
  "rf_put i n rf = rf\<lparr>rf_nodes := (rf_nodes rf)(i \<mapsto> n)\<rparr>"

subsection \<open>Buffers\<close>

definition Allocate :: "(u64 \<Rightarrow> bool) \<Rightarrow> u8 list option \<Rightarrow> u64 \<Rightarrow> bool \<Rightarrow> bool \<Rightarrow> u8 list option res" where
  "Allocate heap Data n ext atEnd =
     (if \<not> ext then rbind (kmalloc heap n) (\<lambda>d. Inr (Some d))
      else
        case Data of
          None \<Rightarrow> rbind (kmalloc heap n) (\<lambda>d. Inr (Some d))
        | Some d \<Rightarrow>
            rbind (kmalloc heap (of_nat (length d) + n)) (\<lambda>newData.
            rbind (memcpy newData (if atEnd then 0 else uint n) d (length d)) (\<lambda>newData.
            Inr (Some newData))))"

subsection \<open>Lookup and creation\<close>

fun first_named :: "RAMFS \<Rightarrow> u64 list \<Rightarrow> string \<Rightarrow> u64 option res" where
  "first_named rf [] name = Inr None"
| "first_named rf (i # is) name =
     rbind (rf_node rf i) (\<lambda>n. if r_Name n \<noteq> name then first_named rf is name else Inr (Some i))"

definition found :: "u64 option \<Rightarrow> int \<times> u64 option" where
  "found r = (case r of None \<Rightarrow> (- ENOENT, None) | Some i \<Rightarrow> (0, Some i))"

definition RAMFS_Lookup :: "(u64 list \<Rightarrow> u64 list) \<Rightarrow> RAMFS \<Rightarrow> u64 option \<Rightarrow> string \<Rightarrow> (int \<times> u64 option) res" where
  "RAMFS_Lookup walk rf Parent Name =
     rbind (cwk_path_get_basename CWK_STYLE_UNIX Name) (\<lambda>basename.
     case basename of
       None \<Rightarrow>
         if Name = rf_RootName rf then
           if 0 \<in> set (rf_Files rf) then Inr (0, Some 0) else Inl OutOfBounds
         else Inr (- EINVAL, None)
     | Some (b, _) \<Rightarrow>
         case Parent of
           Some p \<Rightarrow> rbind (rf_node rf p) (\<lambda>pn. rbind (first_named rf (r_Children pn) (drop b Name)) (\<lambda>r. Inr (found r)))
         | None \<Rightarrow> rbind (first_named rf (walk (rf_Files rf)) (drop b Name)) (\<lambda>r. Inr (found r)))"

definition AddChild :: "u64 \<Rightarrow> u64 \<Rightarrow> RAMFS \<Rightarrow> RAMFS res" where
  "AddChild this child rf =
     rbind (rf_node rf this) (\<lambda>n.
     let rf = rf_put this (n\<lparr>r_Children := r_Children n @ [child]\<rparr>) rf in
     rbind (rf_node rf child) (\<lambda>c. Inr (rf_put child (c\<lparr>r_Parent := Some this\<rparr>) rf)))"

text \<open>\<open>std::find\<close> compares pointers; the child is not touched when it is not in the list.\<close>

definition RemoveChild :: "u64 \<Rightarrow> u64 \<Rightarrow> RAMFS \<Rightarrow> RAMFS res" where
  "RemoveChild this child rf =
     rbind (rf_node rf this) (\<lambda>n.
     if child \<notin> set (r_Children n) then Inr rf
     else
       let rf = rf_put this (n\<lparr>r_Children := remove1 child (r_Children n)\<rparr>) rf in
       rbind (rf_node rf child) (\<lambda>c. Inr (rf_put child (c\<lparr>r_Parent := None\<rparr>) rf)))"

definition RAMFS_Create :: "RAMFS \<Rightarrow> u64 option \<Rightarrow> string \<Rightarrow> u32 \<Rightarrow> (int \<times> u64 option \<times> RAMFS) res" where
  "RAMFS_Create rf Parent Name Mode =
     (let inode = Inode_zero\<lparr>i_Mode := Mode, i_Device := rf_DeviceID rf, i_RawDevice := 0, i_Index := rf_NextInode rf, i_Offset := 0\<rparr> in
      rbind (cwk_path_get_basename CWK_STYLE_UNIX Name) (\<lambda>basename.
      let node = \<lparr>r_Node = inode, r_Parent = None, r_Name = (case basename of None \<Rightarrow> '''' | Some (b, len) \<Rightarrow> take len (drop b Name)),
                  r_Stat = kstat_zero, r_Mode = Mode, r_Buffer = None, r_SymLink = '''', r_Children = []\<rparr> in
      rbind (assert_res (rf_NextInode rf \<notin> set (rf_Files rf))) (\<lambda>_.
      let rf' = rf_put (rf_NextInode rf) node (rf\<lparr>rf_Files := rf_Files rf @ [rf_NextInode rf]\<rparr>) in
      rbind (case Parent of None \<Rightarrow> Inr rf' | Some p \<Rightarrow> AddChild p (rf_NextInode rf) rf') (\<lambda>rf'.
      Inr (0, Some (rf_NextInode rf), rf'\<lparr>rf_NextInode := rf_NextInode rf' + 1\<rparr>)))))"

subsection \<open>Reading and writing\<close>

definition rf_find :: "RAMFS \<Rightarrow> u64 \<Rightarrow> RAMFSInode res" where
  "rf_find rf i = rbind (assert_res (i \<in> set (rf_Files rf))) (\<lambda>_. rf_node rf i)"

definition RAMFS_Read :: "RAMFS \<Rightarrow> u64 \<Rightarrow> u8 list \<Rightarrow> u64 \<Rightarrow> int \<Rightarrow> (int \<times> u8 list) res" where
  "RAMFS_Read rf Node Buffer Size Offset =
     rbind (rf_find rf Node) (\<lambda>node.
     let fileSize = word_of_int (st_Size (r_Stat node)) :: u64;
         Offset = word_of_int Offset;
         Size = (if Size = 0 then fileSize else Size) in
     if Offset > fileSize then Inr (0, Buffer)
     else if fileSize - Offset = 0 then Inr (0, Buffer)
     else
       let Size = (if Offset + Size > fileSize then fileSize else Size) in
       case r_Buffer node of
         None \<Rightarrow> Inl NullPointer
       | Some Data \<Rightarrow> rbind (memcpy Buffer 0 Data (unat Size)) (\<lambda>Buffer. Inr (sint Size, Buffer)))"

definition RAMFS_Write :: "(u64 \<Rightarrow> bool) \<Rightarrow> RAMFS \<Rightarrow> u64 \<Rightarrow> u8 list \<Rightarrow> u64 \<Rightarrow> int \<Rightarrow> (int \<times> RAMFS) res" where
  "RAMFS_Write heap rf Node Buffer Size Offset =
     rbind (rf_find rf Node) (\<lambda>node.
     let fileSize = word_of_int (st_Size (r_Stat node)) :: u64; offset = word_of_int Offset :: u64 in
     rbind (if r_Buffer node = None then Allocate heap (r_Buffer node) fileSize False True else Inr (r_Buffer node)) (\<lambda>Data.
     if Size = 0 then Inr (- EINVAL, rf_put Node (node\<lparr>r_Buffer := Data\<rparr>) rf)
     else
       rbind (if offset > fileSize then Allocate heap Data (offset + Size) True True else Inr Data) (\<lambda>Data.
       rbind (if fileSize - offset = 0 then Allocate heap Data Size True True else Inr Data) (\<lambda>Data.
       rbind (if offset + Size > fileSize then Allocate heap Data (offset + Size) True True else Inr Data) (\<lambda>Data.
       case Data of
         None \<Rightarrow> Inl NullPointer
       | Some d \<Rightarrow>
           rbind (memcpy d Offset Buffer (unat Size)) (\<lambda>d.
           Inr (sint Size, rf_put Node (node\<lparr>r_Buffer := Some d, r_Stat := (r_Stat node)\<lparr>st_Size := sint Size\<rparr>\<rparr>) rf)))))))"

subsection \<open>Directories\<close>

definition mode_type :: "u32 \<Rightarrow> u32" where
  "mode_type mode =
     (if S_IS S_IFREG mode then DT DT_REG else if S_IS S_IFDIR mode then DT DT_DIR
      else if S_IS S_IFLNK mode then DT DT_LNK else if S_IS S_IFCHR mode then DT DT_CHR
      else if S_IS S_IFBLK mode then DT DT_BLK else if S_IS S_IFIFO mode then DT DT_FIFO
      else if S_IS S_IFSOCK mode then DT DT_SOCK else DT DT_UNKNOWN)"

fun ReadDir_children :: "RAMFS \<Rightarrow> u64 list \<Rightarrow> u64 \<Rightarrow> int \<Rightarrow> int \<Rightarrow> int \<Rightarrow> nat \<Rightarrow> kdirent list \<Rightarrow> (nat \<times> kdirent list) res" where
  "ReadDir_children rf [] Size Offset Entries entries totalSize ents = Inr (totalSize, ents)"
| "ReadDir_children rf (i # is) Size Offset Entries entries totalSize ents =
     rbind (rf_node rf i) (\<lambda>var.
     if i_Offset (r_Node var) < Offset then ReadDir_children rf is Size Offset Entries entries totalSize ents
     else if entries \<ge> Entries then Inr (totalSize, ents)
     else if totalSize + unat (reclen (r_Name var)) \<ge> unat Size then Inr (totalSize, ents)
     else ReadDir_children rf is Size Offset Entries (entries + 1) (totalSize + unat (reclen (r_Name var)))
       (ents @ [\<lparr>d_ino = i_Index (r_Node var), d_off = i_Offset (r_Node var), d_reclen = reclen (r_Name var),
                 d_type = mode_type (st_Mode (r_Stat var)), d_name = r_Name var\<rparr>]))"

text \<open>The entries \<open>.\<close> and \<open>..\<close>: a result of the whole operation, or the state of its loop.\<close>

definition ReadDir_dot :: "RAMFSInode \<Rightarrow> u64 \<Rightarrow> int \<Rightarrow> int + (int \<times> nat \<times> kdirent list)" where
  "ReadDir_dot Node Size Offset =
     (if Offset = 0 then
        if unat (reclen ''.'') \<ge> unat Size then Inl (- EINVAL)
        else Inr (Offset + 1, unat (reclen ''.''),
          [\<lparr>d_ino = i_Index (r_Node Node), d_off = Offset, d_reclen = reclen ''.'', d_type = DT DT_DIR, d_name = ''.''\<rparr>])
      else Inr (Offset, 0, []))"

definition RAMFS_ReadDir :: "RAMFS \<Rightarrow> u64 \<Rightarrow> u64 \<Rightarrow> int \<Rightarrow> int \<Rightarrow> (int \<times> kdirent list) res" where
  "RAMFS_ReadDir rf i Size realOffset Entries =
     rbind (rf_node rf i) (\<lambda>Node.
     case ReadDir_dot Node Size realOffset of
       Inl err \<Rightarrow> Inr (err, [])
     | Inr (Offset, totalSize, ents) \<Rightarrow>
         rbind (if Offset \<le> 1 then
             if totalSize + unat (reclen ''..'') \<ge> unat Size then Inr (Inl (if realOffset = 1 then - EINVAL else int totalSize, ents))
             else
               rbind (case r_Parent Node of None \<Rightarrow> Inr (i_Index (r_Node Node))
                        | Some p \<Rightarrow> rbind (rf_node rf p) (\<lambda>pn. Inr (i_Index (r_Node pn)))) (\<lambda>ino.
               Inr (Inr (Offset + 1, totalSize + unat (reclen ''..''),
                 ents @ [\<lparr>d_ino = ino, d_off = Offset, d_reclen = reclen ''..'', d_type = DT DT_DIR, d_name = ''..''\<rparr>])))
           else Inr (Inr (Offset, totalSize, ents)))
         (\<lambda>r. case r of
            Inl ret \<Rightarrow> Inr ret
          | Inr (Offset, totalSize, ents) \<Rightarrow>
              if \<not> S_IS S_IFDIR (i_Mode (r_Node Node)) then Inr (- ENOTDIR, ents)
              else if (if Offset \<ge> 2 then Offset - 2 else Offset) > int (length (r_Children Node)) then Inr (- EINVAL, ents)
              else
                rbind (ReadDir_children rf (r_Children Node) Size Offset Entries 0 totalSize ents) (\<lambda>(totalSize, ents).
                Inr (int totalSize,
                  if totalSize + kdirent_size \<ge> unat Size then ents
                  else ents @ [\<lparr>d_ino = 0, d_off = 0, d_reclen = 0, d_type = DT DT_UNKNOWN, d_name = ''''\<rparr>]))))"

subsection \<open>Links, attributes, deletion\<close>

definition RAMFS_SymLink :: "RAMFS \<Rightarrow> u64 option \<Rightarrow> string \<Rightarrow> string \<Rightarrow> (int \<times> u64 option \<times> RAMFS) res" where
  "RAMFS_SymLink rf Node Name Target =
     rbind (RAMFS_Create rf Node Name S_IFLNK) (\<lambda>(ret, Result, rf).
     if ret < 0 then Inr (ret, Result, rf)
     else
       case Result of
         None \<Rightarrow> Inl NullPointer
       | Some i \<Rightarrow> rbind (rf_node rf i) (\<lambda>node. Inr (0, Result, rf_put i (node\<lparr>r_SymLink := Target\<rparr>) rf)))"

text \<open>\<open>strncpy\<close> copies at most \<open>num\<close> characters and always writes a terminator behind them.\<close>

definition strncpy :: "string \<Rightarrow> string \<Rightarrow> nat \<Rightarrow> string res" where
  "strncpy destination source num = (let s = take num source @ [NUL] in memcpy destination 0 s (length s))"

definition RAMFS_ReadLink :: "RAMFS \<Rightarrow> u64 \<Rightarrow> string \<Rightarrow> u64 \<Rightarrow> (int \<times> string) res" where
  "RAMFS_ReadLink rf Node Buffer Size =
     rbind (rf_find rf Node) (\<lambda>node.
     let Size = (if length (r_SymLink node) > unat Size then of_nat (length (r_SymLink node)) else Size) in
     rbind (strncpy Buffer (r_SymLink node) (unat Size)) (\<lambda>Buffer. Inr (sint Size, Buffer)))"

definition RAMFS_Stat :: "RAMFS \<Rightarrow> u64 \<Rightarrow> (int \<times> kstat) res" where
  "RAMFS_Stat rf Node = rbind (rf_find rf Node) (\<lambda>node. Inr (0, r_Stat node))"

text \<open>\<open>delete inode\<close>: the destructor deletes the children. The fuel is the number of inodes ever made; it runs out in a cycle only.\<close>

fun delete_inode :: "nat \<Rightarrow> u64 \<Rightarrow> RAMFS \<Rightarrow> RAMFS res" where
  "delete_inode 0 i rf = Inl Diverges"
| "delete_inode (Suc n) i rf =
     rbind (rf_node rf i) (\<lambda>node.
     rbind (each_res (delete_inode n) (r_Children node) rf) (\<lambda>rf.
     Inr (rf\<lparr>rf_nodes := (rf_nodes rf)(i := None)\<rparr>)))"

definition ramfs_DestroyInode :: "RAMFS \<Rightarrow> u64 \<Rightarrow> (int \<times> RAMFS) res" where
  "ramfs_DestroyInode rf Node = rbind (delete_inode (Suc (unat (rf_NextInode rf))) Node rf) (\<lambda>rf. Inr (0, rf))"

text \<open>The operations \<open>MountAndRootRAMFS\<close> registers.\<close>

definition ramfs_Ops :: "(u64 \<Rightarrow> bool) \<Rightarrow> (u64 list \<Rightarrow> u64 list) \<Rightarrow> (RAMFS, u64) InodeOperations" where
  "ramfs_Ops heap walk = no_operations\<lparr>
     op_Lookup := Some (\<lambda>i name rf. rbind (RAMFS_Lookup walk rf (Some i) name) (\<lambda>(ret, r). Inr (ret, r, rf))),
     op_Create := Some (\<lambda>i name mode rf. RAMFS_Create rf (Some i) name mode),
     op_Read := Some (\<lambda>i buf size off rf. RAMFS_Read rf i buf size off),
     op_Write := Some (\<lambda>i buf size off rf. RAMFS_Write heap rf i buf size off),
     op_ReadDir := Some (\<lambda>i size off ents rf. RAMFS_ReadDir rf i size off ents),
     op_SymLink := Some (\<lambda>i name target rf. RAMFS_SymLink rf (Some i) name target),
     op_ReadLink := Some (\<lambda>i buf size rf. RAMFS_ReadLink rf i buf size),
     op_Stat := Some (\<lambda>i st rf. RAMFS_Stat rf i)\<rparr>"

end
