(* ===== verification/RamfsProofs.thy ===== *)
theory RamfsProofs
  imports Ramfs InodeStore Names
begin

unbundle bit_operations_syntax

section \<open>What the RAM file system keeps\<close>

text \<open>
  The invariant \<open>ramfs_wf\<close> holds of an empty file system and after every creation, link and write. Creating a file makes it
  the result of the next lookup and of no other; what was written at the start of a file is read back; and no listing of
  a directory shows its files.
\<close>

subsection \<open>Invariant\<close>

definition size_ok :: "RAMFSInode \<Rightarrow> bool" where
  "size_ok n \<longleftrightarrow> 0 \<le> st_Size (r_Stat n) \<and> st_Size (r_Stat n) < 2 ^ 63 \<and>
     (case r_Buffer n of None \<Rightarrow> st_Size (r_Stat n) = 0 | Some d \<Rightarrow> st_Size (r_Stat n) \<le> int (length d))"

definition ramfs_wf :: "RAMFS \<Rightarrow> bool" where
  "ramfs_wf rf \<longleftrightarrow>
     (\<forall>i. i \<in> set (rf_Files rf) \<longleftrightarrow> rf_nodes rf i \<noteq> None) \<and> (\<forall>i \<in> set (rf_Files rf). i < rf_NextInode rf) \<and>
     (\<forall>i n. rf_nodes rf i = Some n \<longrightarrow>
        i_Index (r_Node n) = i \<and> i_Offset (r_Node n) = 0 \<and> size_ok n \<and>
        (\<forall>c \<in> set (r_Children n). i < c \<and> (\<exists>cn. rf_nodes rf c = Some cn \<and> r_Parent cn = Some i)))"

lemma size_ok_children [simp]: "size_ok (n\<lparr>r_Children := cs\<rparr>) = size_ok n"
  by (simp add: size_ok_def split: option.split)

lemma ramfs_wf_new: "ramfs_wf RAMFS_new"
  by (simp add: ramfs_wf_def RAMFS_new_def)

lemma ramfs_wf_node:
  assumes "ramfs_wf rf" "rf_nodes rf i = Some n"
  shows "i \<in> set (rf_Files rf)" "i < rf_NextInode rf" "i_Index (r_Node n) = i" "i_Offset (r_Node n) = 0" "size_ok n"
    "c \<in> set (r_Children n) \<Longrightarrow> i < c \<and> (\<exists>cn. rf_nodes rf c = Some cn \<and> r_Parent cn = Some i)"
  using assms by (auto simp: ramfs_wf_def)

text \<open>Replacing a node by one with the same place in the tree.\<close>

lemma ramfs_wf_put:
  assumes "ramfs_wf rf" "rf_nodes rf i = Some n" "r_Node n' = r_Node n" "r_Parent n' = r_Parent n" "r_Children n' = r_Children n" "size_ok n'"
  shows "ramfs_wf (rf_put i n' rf)"
  unfolding ramfs_wf_def
proof (intro conjI allI impI)
  show "j \<in> set (rf_Files (rf_put i n' rf)) \<longleftrightarrow> rf_nodes (rf_put i n' rf) j \<noteq> None" for j
    using assms(1,2) by (auto simp: rf_put_def ramfs_wf_def)
  show "\<forall>j \<in> set (rf_Files (rf_put i n' rf)). j < rf_NextInode (rf_put i n' rf)" using assms(1) by (simp add: rf_put_def ramfs_wf_def)
  fix j m assume j: "rf_nodes (rf_put i n' rf) j = Some m"
  then obtain m0 where m0: "rf_nodes rf j = Some m0" "r_Node m = r_Node m0" "r_Children m = r_Children m0" "size_ok m"
    using assms ramfs_wf_node(5) by (auto simp: rf_put_def split: if_splits)
  note w = ramfs_wf_node [OF assms(1) m0(1)]
  show "i_Index (r_Node m) = j" "i_Offset (r_Node m) = 0" "size_ok m" using w m0 by simp_all
  show "\<forall>c \<in> set (r_Children m). j < c \<and> (\<exists>cn. rf_nodes (rf_put i n' rf) c = Some cn \<and> r_Parent cn = Some j)"
    using w(6) m0(3) assms(2,4) by (fastforce simp: rf_put_def)
qed

text \<open>The new file system after \<open>Create\<close>.\<close>

definition new_node :: "RAMFS \<Rightarrow> u64 option \<Rightarrow> string \<Rightarrow> u32 \<Rightarrow> RAMFSInode" where
  "new_node rf Parent base Mode =
     \<lparr>r_Node = Inode_zero\<lparr>i_Mode := Mode, i_Device := rf_DeviceID rf, i_RawDevice := 0, i_Index := rf_NextInode rf, i_Offset := 0\<rparr>,
      r_Parent = Parent, r_Name = base, r_Stat = kstat_zero, r_Mode = Mode, r_Buffer = None, r_SymLink = '''', r_Children = []\<rparr>"

definition created :: "RAMFS \<Rightarrow> u64 \<Rightarrow> RAMFSInode \<Rightarrow> string \<Rightarrow> u32 \<Rightarrow> RAMFS" where
  "created rf p pn base Mode =
     rf\<lparr>rf_Files := rf_Files rf @ [rf_NextInode rf],
        rf_nodes := (rf_nodes rf)(p \<mapsto> pn\<lparr>r_Children := r_Children pn @ [rf_NextInode rf]\<rparr>,
                                  rf_NextInode rf \<mapsto> new_node rf (Some p) base Mode),
        rf_NextInode := rf_NextInode rf + 1\<rparr>"

lemma RAMFS_Create_created:
  assumes "ramfs_wf rf" "rf_nodes rf p = Some pn" "cwk_path_get_basename CWK_STYLE_UNIX Name = Inr (Some (b, len))"
  shows "RAMFS_Create rf (Some p) Name Mode = Inr (0, Some (rf_NextInode rf), created rf p pn (take len (drop b Name)) Mode)"
proof -
  have fresh: "rf_NextInode rf \<notin> set (rf_Files rf)" "p \<noteq> rf_NextInode rf" using assms(1,2) by (auto simp: ramfs_wf_def)
  then show ?thesis
    using assms(2,3) by (simp add: RAMFS_Create_def AddChild_def rf_node_def rf_put_def created_def new_node_def fun_upd_twist)
qed

lemma ramfs_wf_created:
  assumes "ramfs_wf rf" "rf_nodes rf p = Some pn" "unat (rf_NextInode rf) + 1 < 2 ^ 64"
  shows "ramfs_wf (created rf p pn base Mode)"
proof -
  let ?k = "rf_NextInode rf"
  have inc: "?k < ?k + 1" using assms(3) by (simp add: word_less_nat_alt unat_word_ariths)
  have fresh: "rf_nodes rf ?k = None" using assms(1) by (metis option.exhaust ramfs_wf_node(2) order.irrefl)
  have p: "p < ?k" "p \<noteq> ?k" using ramfs_wf_node(2) [OF assms(1,2)] by auto
  show ?thesis
    unfolding ramfs_wf_def
  proof (intro conjI allI impI)
    show "j \<in> set (rf_Files (created rf p pn base Mode)) \<longleftrightarrow> rf_nodes (created rf p pn base Mode) j \<noteq> None" for j
      using assms(1,2) by (auto simp: created_def ramfs_wf_def)
    show "\<forall>j \<in> set (rf_Files (created rf p pn base Mode)). j < rf_NextInode (created rf p pn base Mode)"
      using assms(1) inc by (auto simp: created_def ramfs_wf_def dest: less_trans)
    fix j m assume j: "rf_nodes (created rf p pn base Mode) j = Some m"
    consider "j = ?k" "m = new_node rf (Some p) base Mode" | "j = p" "m = pn\<lparr>r_Children := r_Children pn @ [?k]\<rparr>"
      | "j \<noteq> ?k" "j \<noteq> p" "rf_nodes rf j = Some m"
      using j by (auto simp: created_def split: if_splits)
    note j_cases = this
    have "i_Index (r_Node m) = j \<and> i_Offset (r_Node m) = 0 \<and> size_ok m"
    proof (rule j_cases)
      assume "j = p" "m = pn\<lparr>r_Children := r_Children pn @ [?k]\<rparr>"
      then show ?thesis using ramfs_wf_node(3,4,5) [OF assms(1,2)] by simp
    next
      assume "rf_nodes rf j = Some m"
      then show ?thesis using ramfs_wf_node(3,4,5) [OF assms(1)] by simp
    qed (simp add: new_node_def size_ok_def kstat_zero_def)
    then show "i_Index (r_Node m) = j" "i_Offset (r_Node m) = 0" "size_ok m" by simp_all
    have old: "\<exists>cn'. rf_nodes (created rf p pn base Mode) c = Some cn' \<and> r_Parent cn' = q"
      if "rf_nodes rf c = Some cn" "r_Parent cn = q" for c cn q
      using that assms(2) fresh p(2) by (auto simp: created_def)
    show "\<forall>c \<in> set (r_Children m). j < c \<and> (\<exists>cn. rf_nodes (created rf p pn base Mode) c = Some cn \<and> r_Parent cn = Some j)"
    proof (rule j_cases)
      assume "j = p" "m = pn\<lparr>r_Children := r_Children pn @ [?k]\<rparr>"
      then show ?thesis using ramfs_wf_node(6) [OF assms(1,2)] old p by (auto simp: created_def new_node_def)
    next
      assume "rf_nodes rf j = Some m"
      then show ?thesis using ramfs_wf_node(6) [OF assms(1)] old by blast
    qed (simp add: new_node_def)
  qed
qed

subsection \<open>Lookup and creation\<close>

lemma first_named_find:
  "\<forall>c \<in> set cs. rf_nodes rf c \<noteq> None \<Longrightarrow> first_named rf cs name = Inr (find (\<lambda>c. r_Name (the (rf_nodes rf c)) = name) cs)"
  by (induction cs) (auto simp: rf_node_def)

lemma ramfs_lookup_eq:
  assumes "ramfs_wf rf" "rf_nodes rf p = Some pn" "plain name"
  shows "RAMFS_Lookup walk rf (Some p) name = Inr (found (find (\<lambda>c. r_Name (the (rf_nodes rf c)) = name) (r_Children pn)))"
proof -
  have "\<forall>c \<in> set (r_Children pn). rf_nodes rf c \<noteq> None" using ramfs_wf_node(6) [OF assms(1,2)] by blast
  then show ?thesis using assms(2,3) by (simp add: RAMFS_Lookup_def basename_plain rf_node_def first_named_find)
qed

lemma find_append: "find P (xs @ ys) = (case find P xs of None \<Rightarrow> find P ys | Some x \<Rightarrow> Some x)"
  by (induction xs) auto

lemma find_cong_set: "(\<And>x. x \<in> set xs \<Longrightarrow> P x = Q x) \<Longrightarrow> find P xs = find Q xs"
  by (induction xs) auto

lemma created_names:
  assumes "ramfs_wf rf" "rf_nodes rf p = Some pn" "rf_nodes rf c = Some cn"
  shows "r_Name (the (rf_nodes (created rf p pn base Mode) c)) = r_Name cn"
proof -
  have "c \<noteq> rf_NextInode rf" using ramfs_wf_node(2) [OF assms(1,3)] by auto
  then show ?thesis using assms(2,3) by (auto simp: created_def)
qed

lemma created_lookup:
  assumes wf: "ramfs_wf rf" "rf_nodes rf p = Some pn" "unat (rf_NextInode rf) + 1 < 2 ^ 64" "plain base" "plain y"
    and q: "rf_nodes (created rf p pn base Mode) q = Some qn"
  shows "RAMFS_Lookup walk (created rf p pn base Mode) (Some q) y =
    (if q = rf_NextInode rf then missing
     else if q = p \<and> y = base \<and> RAMFS_Lookup walk rf (Some p) base = missing then Inr (0, Some (rf_NextInode rf))
     else RAMFS_Lookup walk rf (Some q) y)"
proof -
  let ?rf = "created rf p pn base Mode" and ?k = "rf_NextInode rf"
  let ?P = "\<lambda>rf c. r_Name (the (rf_nodes rf c)) = y"
  have wf': "ramfs_wf ?rf" by (rule ramfs_wf_created [OF wf(1-3)])
  have p: "p \<noteq> ?k" using ramfs_wf_node(2) [OF wf(1,2)] by auto
  note look = ramfs_lookup_eq [OF wf' q wf(5)]
  have same: "find (?P ?rf) cs = find (?P rf) cs" if "\<forall>c \<in> set cs. rf_nodes rf c \<noteq> None" for cs
    using that created_names [OF wf(1,2)] by (intro find_cong_set) force
  show ?thesis
  proof (cases "q = ?k")
    case True
    then have "r_Children qn = []" using q by (auto simp: created_def new_node_def)
    then show ?thesis using True look by (simp add: found_def missing_def)
  next
    case False
    then obtain qo where qo: "rf_nodes rf q = Some qo" using q wf(2) by (auto simp: created_def split: if_splits)
    have live: "\<forall>c \<in> set (r_Children qo). rf_nodes rf c \<noteq> None" using ramfs_wf_node(6) [OF wf(1) qo] by blast
    note old = ramfs_lookup_eq [OF wf(1) qo wf(5)]
    show ?thesis
    proof (cases "q = p")
      case True
      then have "r_Children qn = r_Children qo @ [?k]" using q qo False wf(2) by (auto simp: created_def)
      moreover have "r_Name (the (rf_nodes ?rf ?k)) = base" by (simp add: created_def new_node_def)
      ultimately show ?thesis
        using False True look old same [OF live] p ramfs_lookup_eq [OF wf(1,2,4)] qo wf(2)
        by (auto simp: find_append found_def missing_def ENOENT_def split: option.splits)
    next
      case q: False
      then have "r_Children qn = r_Children qo" using \<open>rf_nodes ?rf q = Some qn\<close> qo False by (simp add: created_def)
      then show ?thesis using False q look old same [OF live] by simp
    qed
  qed
qed

definition ramfs_room :: "nat \<Rightarrow> RAMFS \<Rightarrow> bool" where
  "ramfs_room n rf \<longleftrightarrow> unat (rf_NextInode rf) + n < 2 ^ 64"

lemma RAMFS_Create_plain:
  assumes "ramfs_wf rf" "rf_nodes rf p = Some pn" "plain Name"
  shows "RAMFS_Create rf (Some p) Name Mode = Inr (0, Some (rf_NextInode rf), created rf p pn Name Mode)"
  using RAMFS_Create_created [OF assms(1,2) basename_plain [OF assms(3)]] by simp

interpretation ramfs_store: inode_store ramfs_wf ramfs_room "\<lambda>rf i. rf_nodes rf i \<noteq> None" plain
  "\<lambda>rf p. RAMFS_Lookup id rf (Some p)" "\<lambda>rf p. RAMFS_Create rf (Some p)"
proof
  fix s n p x mode i s' q y
  show "ramfs_room (Suc n) s \<Longrightarrow> ramfs_room n s" by (simp add: ramfs_room_def)
  assume g: "ramfs_wf s" and p: "rf_nodes s p \<noteq> None" and x: "plain x"
  then obtain pn where pn: "rf_nodes s p = Some pn" by blast
  show "RAMFS_Lookup id s (Some p) x = missing \<or> (\<exists>i. rf_nodes s i \<noteq> None \<and> RAMFS_Lookup id s (Some p) x = Inr (0, Some i))"
  proof (cases "find (\<lambda>c. r_Name (the (rf_nodes s c)) = x) (r_Children pn)")
    case (Some i)
    then have "i \<in> set (r_Children pn)" by (auto simp: find_Some_iff)
    then have "rf_nodes s i \<noteq> None" using ramfs_wf_node(6) [OF g pn] by blast
    then show ?thesis using ramfs_lookup_eq [OF g pn x] Some by (simp add: found_def)
  qed (simp add: ramfs_lookup_eq [OF g pn x] found_def missing_def)
  show "\<exists>i s'. RAMFS_Create s (Some p) x mode = Inr (0, Some i, s')" using RAMFS_Create_plain [OF g pn x] by simp
  assume r: "ramfs_room (Suc n) s" and c: "RAMFS_Create s (Some p) x mode = Inr (0, Some i, s')"
  have lt: "unat (rf_NextInode s) + 1 < 2 ^ 64" using r by (simp add: ramfs_room_def)
  have eq: "i = rf_NextInode s" "s' = created s p pn x mode" using c RAMFS_Create_plain [OF g pn x] by auto
  have fresh: "rf_nodes s (rf_NextInode s) = None" using g by (metis option.exhaust ramfs_wf_node(2) order.irrefl)
  show "ramfs_wf s' \<and> ramfs_room n s' \<and> rf_nodes s' i \<noteq> None \<and> \<not> rf_nodes s i \<noteq> None \<and> (\<forall>q. rf_nodes s q \<noteq> None \<longrightarrow> rf_nodes s' q \<noteq> None)"
    using ramfs_wf_created [OF g pn lt] r lt fresh by (auto simp: eq created_def ramfs_room_def unat_word_ariths)
  have look: "RAMFS_Lookup id s' (Some q) y = (if q = i then missing
      else if q = p \<and> y = x \<and> RAMFS_Lookup id s (Some p) x = missing then Inr (0, Some i) else RAMFS_Lookup id s (Some q) y)"
    if "plain y" "rf_nodes s q \<noteq> None \<or> q = i" for q y
  proof -
    have "rf_nodes s' q \<noteq> None" using that(2) by (auto simp: eq created_def)
    then obtain qn where "rf_nodes s' q = Some qn" by blast
    then show ?thesis using created_lookup [OF g pn lt x that(1), of mode q qn id] by (simp add: eq)
  qed
  show "RAMFS_Lookup id s (Some p) x = missing \<Longrightarrow> RAMFS_Lookup id s' (Some p) x = Inr (0, Some i)"
    using look [OF x, of p] p fresh by (auto simp: eq)
  show "rf_nodes s q \<noteq> None \<Longrightarrow> plain y \<Longrightarrow> q \<noteq> p \<or> y \<noteq> x \<Longrightarrow> RAMFS_Lookup id s' (Some q) y = RAMFS_Lookup id s (Some q) y"
    using look [of y q] fresh by (auto simp: eq)
  show "plain y \<Longrightarrow> RAMFS_Lookup id s' (Some i) y = missing" using look [of y i] by simp
qed

text \<open>
  C30. Directories made one inside the other, in any reachable RAM file system with enough inode numbers left, are found
  again by following their names. Every path that led somewhere before still leads there, and no other path comes to
  lead somewhere: let \<open>r\<close> be the last directory on the way that existed before, reached by the first \<open>m\<close> names; a path that
  is new leads to \<open>r\<close> and goes on with names that were made, in their order.
\<close>

theorem ramfs_made_path_is_found:
  fixes lookup create
  defines "lookup \<equiv> \<lambda>rf p. RAMFS_Lookup id rf (Some p)" and "create \<equiv> \<lambda>rf p. RAMFS_Create rf (Some p)"
  assumes "ramfs_wf rf" "unat (rf_NextInode rf) + length names < 2 ^ 64" "rf_nodes rf p \<noteq> None" "\<forall>x \<in> set names. plain x"
  shows "\<exists>i rf' m r. make_names lookup create Mode rf p names = Inr (i, rf') \<and> ramfs_wf rf' \<and>
    walk_names lookup rf' p names = Inr (0, Some i) \<and>
    (\<forall>q ys k. rf_nodes rf q \<noteq> None \<longrightarrow> (\<forall>y \<in> set ys. plain y) \<longrightarrow>
       walk_names lookup rf q ys = Inr (0, Some k) \<longrightarrow> walk_names lookup rf' q ys = Inr (0, Some k)) \<and>
    m \<le> length names \<and> walk_names lookup rf p (take m names) = Inr (0, Some r) \<and>
    (\<forall>q ys k. rf_nodes rf q \<noteq> None \<longrightarrow> (\<forall>y \<in> set ys. plain y) \<longrightarrow>
       walk_names lookup rf' q ys = Inr (0, Some k) \<longrightarrow> walk_names lookup rf q ys = Inr (0, Some k) \<or>
       (\<exists>us vs ws. ys = us @ vs \<and> walk_names lookup rf q us = Inr (0, Some r) \<and> vs \<noteq> [] \<and> drop m names = vs @ ws))"
proof -
  have room: "ramfs_room (length names) rf" using assms(4) by (simp add: ramfs_room_def)
  obtain i rf' where i: "make_names lookup create Mode rf p names = Inr (i, rf')" "ramfs_wf rf'"
    "walk_names lookup rf' p names = Inr (0, Some i)" "ramfs_store.keeps rf rf'"
    using ramfs_store.make_walk [OF assms(3) room assms(5,6), of Mode] unfolding lookup_def create_def by blast
  obtain m r where m: "m \<le> length names" "walk_names lookup rf p (take m names) = Inr (0, Some r)"
    "ramfs_store.only_adds rf rf' r (drop m names)"
    using ramfs_store.make_only_adds [OF assms(3) room assms(5,6) i(1) [unfolded lookup_def create_def]] unfolding lookup_def by blast
  show ?thesis
    using i m unfolding ramfs_store.keeps_def ramfs_store.only_adds_def lookup_def
    by (intro exI [of _ i] exI [of _ rf'] exI [of _ m] exI [of _ r]) blast
qed

text \<open>An empty file system with its root directory.\<close>

definition root_only :: RAMFS where
  "root_only = RAMFS_new\<lparr>rf_Files := [0], rf_nodes := [0 \<mapsto> new_node RAMFS_new None ''linux'' S_IFDIR], rf_NextInode := 1\<rparr>"

lemma root_only_created: "RAMFS_Create RAMFS_new None ''linux'' S_IFDIR = Inr (0, Some 0, root_only)"
  by (simp add: RAMFS_Create_def basename_plain plain_def root_only_def RAMFS_new_def rf_put_def new_node_def)

lemma root_only_wf: "ramfs_wf root_only"
  by (auto simp: ramfs_wf_def root_only_def RAMFS_new_def new_node_def size_ok_def kstat_zero_def)

theorem ramfs_made_path_is_found_witness:
  "\<exists>i rf'. make_names (\<lambda>rf p. RAMFS_Lookup id rf (Some p)) (\<lambda>rf p. RAMFS_Create rf (Some p)) S_IFDIR root_only 0 [''usr'', ''bin''] = Inr (i, rf') \<and>
     walk_names (\<lambda>rf p. RAMFS_Lookup id rf (Some p)) rf' 0 [''usr'', ''bin''] = Inr (0, Some i)"
  using ramfs_made_path_is_found [of root_only "[''usr'', ''bin'']" 0 S_IFDIR] root_only_wf
  by (auto simp: plain_def root_only_def)

subsection \<open>Contents\<close>

lemma Allocate_extend:
  assumes "\<forall>n. heap n" "length d + unat n < 2 ^ 64"
  shows "Allocate heap (Some d) n True True = Inr (Some (d @ replicate (unat n) 0))"
proof -
  have "unat (of_nat (length d) + n) = length d + unat n" using assms(2) by (simp add: unat_word_ariths unat_of_nat_less)
  then show ?thesis using assms(1) by (simp add: Allocate_def kmalloc_def memcpy_eq replicate_add)
qed

lemma Allocate_fresh: "\<forall>n. heap n \<Longrightarrow> Allocate heap None n False True = Inr (Some (replicate (unat n) 0))"
  by (simp add: Allocate_def kmalloc_def)

text \<open>The buffer a write goes to: the old contents and enough zeros.\<close>

definition contents :: "RAMFSInode \<Rightarrow> u8 list" where
  "contents n = (case r_Buffer n of None \<Rightarrow> [] | Some d \<Rightarrow> d)"

lemma unat_word_of_int: "0 \<le> x \<Longrightarrow> x < 2 ^ 63 \<Longrightarrow> unat (word_of_int x :: u64) = nat x"
  by (simp add: unsigned_of_int nat_take_bit_eq take_bit_nat_eq_self)

lemma write_buffer:
  assumes heap: "\<forall>n. heap n" and size: "size_ok node" and off: "0 \<le> Offset" and pos: "0 < unat Size"
    and small: "length (contents node) + 2 * (nat Offset + unat Size) < 2 ^ 63"
  defines "f \<equiv> word_of_int (st_Size (r_Stat node)) :: u64" and "w \<equiv> word_of_int Offset :: u64"
  shows "\<exists>z. (\<forall>k. rbind (if r_Buffer node = None then Allocate heap (r_Buffer node) f False True else Inr (r_Buffer node)) (\<lambda>Data.
      rbind (if w > f then Allocate heap Data (w + Size) True True else Inr Data) (\<lambda>Data.
      rbind (if f - w = 0 then Allocate heap Data Size True True else Inr Data) (\<lambda>Data.
      rbind (if w + Size > f then Allocate heap Data (w + Size) True True else Inr Data) k))) =
    k (Some (contents node @ replicate z 0))) \<and> nat Offset + unat Size \<le> length (contents node) + z"
proof -
  let ?c = "contents node" and ?E = "nat Offset + unat Size"
  have f: "unat f = nat (st_Size (r_Stat node))" "unat f \<le> length ?c"
    using size by (auto simp: f_def size_ok_def contents_def unat_word_of_int split: option.splits)
  have w: "unat w = nat Offset" using off small by (simp add: w_def unat_word_of_int)
  have E: "unat (w + Size) = ?E" using small by (simp add: unat_word_ariths w)
  have start: "(if r_Buffer node = None then Allocate heap (r_Buffer node) f False True else Inr (r_Buffer node)) = Inr (Some ?c)"
    using f heap by (auto simp: contents_def Allocate_fresh split: option.splits)
  have ext: "Allocate heap (Some (?c @ replicate z 0)) n True True = Inr (Some (?c @ replicate (z + unat n) 0))"
    if "z \<le> ?E" "unat n \<le> ?E" for z n
    using that small by (subst Allocate_extend [OF heap]) (simp_all add: replicate_add)
  consider "nat Offset > unat f" | "nat Offset = unat f" | "nat Offset < unat f" "?E > unat f" | "nat Offset < unat f" "?E \<le> unat f" by linarith
  then show ?thesis
  proof cases
    case 1
    then have "w > f" "f - w \<noteq> 0" "w + Size > f" using w E by (auto simp: word_less_nat_alt)
    then show ?thesis using ext [of 0 "w + Size"] ext [of ?E "w + Size"] start E by (intro exI [of _ "?E + ?E"]) simp
  next
    case 2
    then have "w = f" using w by (simp add: word_unat_eq_iff)
    then have "\<not> w > f" "f - w = 0" "w + Size > f" using 2 E pos by (simp_all add: word_less_nat_alt)
    then show ?thesis using ext [of 0 Size] ext [of "unat Size" "w + Size"] start E by (intro exI [of _ "unat Size + ?E"]) simp
  next
    case 3
    then have "\<not> w > f" "f - w \<noteq> 0" "w + Size > f" using w E by (auto simp: word_less_nat_alt)
    then show ?thesis using ext [of 0 "w + Size"] start E by (intro exI [of _ ?E]) simp
  next
    case 4
    then have "\<not> w > f" "f - w \<noteq> 0" "\<not> w + Size > f" using w E by (auto simp: word_less_nat_alt)
    then show ?thesis using start f 4 by (intro exI [of _ 0]) simp
  qed
qed

lemma sint_small:
  assumes "unat (x :: u64) < 2 ^ 63"
  shows "sint x = int (unat x)"
proof -
  have "int (unat x) < int (2 ^ 63)" using assms by (rule iffD2 [OF of_nat_less_iff])
  moreover have "- (2 ^ 63) \<le> uint x" using uint_ge_0 [of x] by (rule order_trans [rotated]) simp
  ultimately show ?thesis by (simp add: sint_uint signed_take_bit_int_eq_self)
qed

lemma ramfs_write_eq:
  assumes wf: "ramfs_wf rf" "rf_nodes rf i = Some node" and heap: "\<forall>n. heap n"
    and args: "0 \<le> Offset" "0 < unat Size" "unat Size \<le> length Buffer"
    and small: "length (contents node) + 2 * (nat Offset + unat Size) < 2 ^ 63"
  shows "\<exists>z. let c = contents node @ replicate z 0; d = take (nat Offset) c @ take (unat Size) Buffer @ drop (nat Offset + unat Size) c in
    nat Offset + unat Size \<le> length c \<and>
    RAMFS_Write heap rf i Buffer Size Offset =
      Inr (int (unat Size), rf_put i (node\<lparr>r_Buffer := Some d, r_Stat := (r_Stat node)\<lparr>st_Size := int (unat Size)\<rparr>\<rparr>) rf)"
proof -
  note node = ramfs_wf_node [OF wf]
  have find: "rf_find rf i = Inr node" using node(1) wf(2) by (simp add: rf_find_def rf_node_def)
  have Size: "Size \<noteq> 0" "sint Size = int (unat Size)" using args small by (auto simp: sint_small)
  obtain z where z: "nat Offset + unat Size \<le> length (contents node @ replicate z 0)"
    and w: "\<And>k :: u8 list option \<Rightarrow> (int \<times> RAMFS) res. rbind (if r_Buffer node = None then Allocate heap (r_Buffer node) (word_of_int (st_Size (r_Stat node))) False True else Inr (r_Buffer node)) (\<lambda>Data.
      rbind (if word_of_int Offset > (word_of_int (st_Size (r_Stat node)) :: u64) then Allocate heap Data (word_of_int Offset + Size) True True else Inr Data) (\<lambda>Data.
      rbind (if word_of_int (st_Size (r_Stat node)) - (word_of_int Offset :: u64) = 0 then Allocate heap Data Size True True else Inr Data) (\<lambda>Data.
      rbind (if word_of_int Offset + Size > word_of_int (st_Size (r_Stat node)) then Allocate heap Data (word_of_int Offset + Size) True True else Inr Data) k))) =
    k (Some (contents node @ replicate z 0))"
    using write_buffer [OF heap node(5) args(1,2) small] by auto
  show ?thesis
    unfolding RAMFS_Write_def Let_def find rbind_Inr if_not_P [OF Size(1)] w
    using z args by (intro exI [of _ z]) (simp add: memcpy_eq Size(2))
qed

lemma ramfs_write_wf:
  assumes "ramfs_wf rf" "rf_nodes rf i = Some node" "\<forall>n. heap n" "0 \<le> Offset" "0 < unat Size" "unat Size \<le> length Buffer"
    "length (contents node) + 2 * (nat Offset + unat Size) < 2 ^ 63"
  shows "\<exists>rf'. RAMFS_Write heap rf i Buffer Size Offset = Inr (int (unat Size), rf') \<and> ramfs_wf rf'"
proof -
  obtain z where z: "nat Offset + unat Size \<le> length (contents node @ replicate z 0)"
    and w: "RAMFS_Write heap rf i Buffer Size Offset = Inr (int (unat Size), rf_put i (node\<lparr>r_Buffer := Some (take (nat Offset) (contents node @ replicate z 0) @
        take (unat Size) Buffer @ drop (nat Offset + unat Size) (contents node @ replicate z 0)), r_Stat := (r_Stat node)\<lparr>st_Size := int (unat Size)\<rparr>\<rparr>) rf)"
    using ramfs_write_eq [OF assms] by (auto simp: Let_def)
  have "int (unat Size) < int (2 ^ 63)" using assms(7) by (intro iffD2 [OF of_nat_less_iff]) simp
  then show ?thesis using z assms(6) unfolding w by (auto simp: size_ok_def intro!: ramfs_wf_put [OF assms(1,2)])
qed

text \<open>
  C31. What is written to the start of a file is what is read from it: after a write of \<open>Size\<close> bytes at offset 0 a read of
  at most as many bytes at offset 0 returns them, whatever the file held before.
\<close>

theorem ramfs_write_read:
  assumes "ramfs_wf rf" "rf_nodes rf i = Some node" "\<forall>n. heap n" "0 < unat Size" "unat Size = length Buffer"
    "length (contents node) + 2 * unat Size < 2 ^ 63"
  shows "\<exists>rf'. RAMFS_Write heap rf i Buffer Size 0 = Inr (int (length Buffer), rf') \<and> ramfs_wf rf' \<and>
    (\<forall>n out. 0 < unat n \<and> n \<le> Size \<and> length out = unat n \<longrightarrow> RAMFS_Read rf' i out n 0 = Inr (int (unat n), take (unat n) Buffer))"
proof -
  have ex: "\<exists>rf'. RAMFS_Write heap rf i Buffer Size 0 = Inr (int (unat Size), rf') \<and> ramfs_wf rf'"
    by (rule ramfs_write_wf [OF assms(1,2,3)]) (use assms in simp_all)
  obtain z where z: "unat Size \<le> length (contents node @ replicate z 0)"
    and w: "RAMFS_Write heap rf i Buffer Size 0 = Inr (int (unat Size), rf_put i (node\<lparr>r_Buffer := Some (Buffer @ drop (unat Size) (contents node @ replicate z 0)),
        r_Stat := (r_Stat node)\<lparr>st_Size := int (unat Size)\<rparr>\<rparr>) rf)"
    using ramfs_write_eq [OF assms(1,2,3), of 0 Size Buffer] assms(4-6) by (auto simp: Let_def)
  have f: "(of_nat (length Buffer) :: u64) = Size" by (simp add: assms(5) [symmetric])
  have "i \<in> set (rf_Files rf)" using ramfs_wf_node(1) [OF assms(1,2)] .
  then have "RAMFS_Read (rf_put i (node\<lparr>r_Buffer := Some (Buffer @ drop (unat Size) (contents node @ replicate z 0)),
        r_Stat := (r_Stat node)\<lparr>st_Size := int (unat Size)\<rparr>\<rparr>) rf) i out n 0 = Inr (int (unat n), take (unat n) Buffer)"
    if "0 < unat n" "n \<le> Size" "length out = unat n" for n out
    using that assms(4-6) z
    by (auto simp: RAMFS_Read_def rf_find_def rf_node_def rf_put_def Let_def memcpy_eq f sint_small word_le_nat_alt word_less_nat_alt)
  then show ?thesis using w ex assms(5) by auto
qed

definition one_file :: RAMFS where
  "one_file = created root_only 0 (new_node RAMFS_new None ''linux'' S_IFDIR) ''a'' S_IFREG"

lemma one_file_wf: "ramfs_wf one_file"
  unfolding one_file_def by (rule ramfs_wf_created [OF root_only_wf]) (simp_all add: root_only_def)

lemma one_file_node: "rf_nodes one_file 1 = Some (new_node root_only (Some 0) ''a'' S_IFREG)"
  by (simp add: one_file_def created_def root_only_def)

theorem ramfs_write_read_witness:
  "\<exists>rf'. RAMFS_Write (\<lambda>_. True) one_file 1 [104, 105] 2 0 = Inr (2, rf') \<and> RAMFS_Read rf' 1 [0, 0] 2 0 = Inr (2, [104, 105])"
  using ramfs_write_read [OF one_file_wf one_file_node, of "\<lambda>_. True" 2 "[104, 105]"]
  by (fastforce simp: contents_def new_node_def)

text \<open>
  C32. A read that reaches beyond the end of the file, into a buffer smaller than the file, copies the whole file and
  writes past the end of the buffer.
\<close>

theorem ramfs_read_past_end_overruns:
  assumes "ramfs_wf rf" "rf_nodes rf i = Some node" "0 \<le> Offset" "Offset < st_Size (r_Stat node)"
    "0 < unat Size" "int (unat Size) < st_Size (r_Stat node)" "st_Size (r_Stat node) < Offset + int (unat Size)" "length Buffer = unat Size"
  shows "RAMFS_Read rf i Buffer Size Offset = Inl OutOfBounds"
proof -
  define F where "F = nat (st_Size (r_Stat node))"
  have ok: "size_ok node" "i \<in> set (rf_Files rf)" using ramfs_wf_node [OF assms(1,2)] by blast+
  then obtain d where d: "r_Buffer node = Some d" "F \<le> length d" using assms(3,4) by (auto simp: size_ok_def F_def split: option.splits)
  have f: "unat (word_of_int (st_Size (r_Stat node)) :: u64) = F" using ok(1) by (simp add: size_ok_def F_def unat_word_of_int)
  have w: "unat (word_of_int Offset :: u64) = nat Offset" using ok(1) assms(3,4) by (simp add: size_ok_def unat_word_of_int)
  have "int F = st_Size (r_Stat node)" using assms(3,4) by (simp add: F_def)
  then have lt: "nat Offset < F" "unat Size < F" "F < nat Offset + unat Size" using assms(3-7) by linarith+
  moreover have "F < 2 ^ 63" using ok(1) by (auto simp: F_def size_ok_def nat_less_iff)
  ultimately have lt: "nat Offset < F" "unat Size < F" "F < nat Offset + unat Size" "F < 2 ^ 63" by simp_all
  have s: "unat (word_of_int Offset + Size) = nat Offset + unat Size" using lt by (simp add: unat_word_ariths w)
  have "Size \<noteq> 0" using assms(5) by auto
  moreover have "\<not> (word_of_int Offset :: u64) > word_of_int (st_Size (r_Stat node))"
    "word_of_int (st_Size (r_Stat node)) - (word_of_int Offset :: u64) \<noteq> 0"
    "word_of_int Offset + Size > (word_of_int (st_Size (r_Stat node)) :: u64)"
    using lt f w s by (auto simp: word_less_nat_alt)
  ultimately show ?thesis
    using d ok(2) assms(2,8) lt(2) f by (simp add: RAMFS_Read_def rf_find_def rf_node_def Let_def memcpy_def)
qed

definition four_bytes :: RAMFSInode where
  "four_bytes = (new_node root_only (Some 0) ''a'' S_IFREG)\<lparr>r_Buffer := Some [1, 2, 3, 4], r_Stat := kstat_zero\<lparr>st_Size := 4\<rparr>\<rparr>"

theorem ramfs_read_past_end_overruns_witness:
  "RAMFS_Read (rf_put 1 four_bytes one_file) 1 [0, 0] 2 3 = Inl OutOfBounds"
proof -
  have n: "st_Size (r_Stat four_bytes) = 4" "size_ok four_bytes" by (simp_all add: four_bytes_def size_ok_def)
  have "ramfs_wf (rf_put 1 four_bytes one_file)"
    by (rule ramfs_wf_put [OF one_file_wf one_file_node]) (simp_all add: n(2), simp_all add: four_bytes_def)
  moreover have "rf_nodes (rf_put 1 four_bytes one_file) 1 = Some four_bytes" by (simp add: rf_put_def)
  ultimately show ?thesis by (rule ramfs_read_past_end_overruns) (simp_all add: n)
qed

text \<open>
  C33. No listing of a directory from the offset 0 or a later one shows the files in it: the entries are at most \<open>.\<close>,
  \<open>..\<close> and the empty one at the end. The loop over the children skips those whose own offset is below the one that
  counts the entries; the former is 0 in every reachable file system, the latter is at least 1 when the loop
  begins. (With a negative offset, which a failed seek may leave in a descriptor, the children are listed.)
\<close>

theorem ramfs_listing_is_empty:
  assumes "ramfs_wf rf" "0 \<le> Offset" "RAMFS_ReadDir rf i Size Offset Entries = Inr (ret, ents)"
  shows "d_name ` set ents \<subseteq> {''.'', ''..'', []}"
proof -
  have children: "ReadDir_children rf cs Size off Entries e t es = Inr (t', es') \<Longrightarrow> 0 < off \<Longrightarrow> es' = es" for cs off e t es t' es'
  proof (induction cs)
    case (Cons c cs)
    then obtain n where n: "rf_nodes rf c = Some n" by (auto simp: rf_node_def rbind_def split: sum.splits option.splits)
    then have "i_Offset (r_Node n) = 0" using ramfs_wf_node(4) [OF assms(1)] by blast
    then show ?case using Cons n by (simp add: rf_node_def)
  qed simp
  obtain node where node: "rf_nodes rf i = Some node" using assms(3) by (auto simp: RAMFS_ReadDir_def rf_node_def rbind_def split: sum.splits option.splits)
  show ?thesis
    using assms(2,3) node
    by (auto simp: RAMFS_ReadDir_def ReadDir_dot_def rf_node_def rbind_def split: sum.splits option.splits if_splits dest!: children)
qed

theorem ramfs_listing_is_empty_witness:
  "\<exists>ret ents. RAMFS_ReadDir one_file 0 4096 0 100 = Inr (ret, ents) \<and> r_Children (the (rf_nodes one_file 0)) = [1] \<and>
     d_name ` set ents \<subseteq> {''.'', ''..'', []}"
proof -
  obtain ret ents where r: "RAMFS_ReadDir one_file 0 4096 0 100 = Inr (ret, ents)"
    by (simp add: RAMFS_ReadDir_def ReadDir_dot_def one_file_def created_def root_only_def rf_node_def new_node_def reclen_def d_name_offset_def mode_defs)
  moreover have "r_Children (the (rf_nodes one_file 0)) = [1]" by (simp add: one_file_def created_def root_only_def new_node_def)
  ultimately show ?thesis using ramfs_listing_is_empty [OF one_file_wf _ r] by blast
qed

end
