(* ===== verification/Vfs.thy ===== *)
theory Vfs
  imports Inodes Cwalk
begin

unbundle bit_operations_syntax

section \<open>The virtual file system\<close>

text \<open>
  A model of src/Kernel/fs/vfs.cpp, src/Kernel/include/fs/vfs.hpp and src/Kernel/include/fs/node.hpp. The nodes of the cache
  are objects of a heap, \<open>v_nodes\<close>, and a \<open>Node\<close>, a shared pointer, is the number of its object. An object is not deleted
  when its last reference goes. The file systems are the state \<open>v_fs\<close>, which their operations change; \<open>deref\<close> is the
  \<open>Inode\<close> behind a pointer of theirs, and a device to mount is a pointer to its inode.
\<close>

record 'i NodeCache =
  n_inode :: 'i
  n_fsi :: "nat option"
  n_MountPoint :: bool
  n_Name :: string
  n_Path :: string
  n_Link :: string
  n_Parent :: "nat option"
  n_Children :: "nat list"

record ('s, 'i) SuperBlockOperations =
  so_Synchronize :: "('i option \<Rightarrow> 's \<Rightarrow> (int \<times> 's) res) option"
  so_Destroy :: "('s \<Rightarrow> (int \<times> 's) res) option"
  so_Probe :: "('i \<Rightarrow> 's \<Rightarrow> int res) option"
  so_Mount :: "('i \<Rightarrow> 's \<Rightarrow> (int \<times> 'i option \<times> 's) res) option"

record ('s, 'i) FileSystemInfo =
  f_Name :: string
  f_SuperOps :: "('s, 'i) SuperBlockOperations"
  f_Ops :: "('s, 'i) InodeOperations"

record ('s, 'i) Virtual =
  v_nodes :: "nat \<Rightarrow> 'i NodeCache option"
  v_next :: nat
  v_Roots :: "(u64 \<times> nat) list"
  v_FileSystems :: "(u64 \<times> nat) list"
  v_fsis :: "nat \<Rightarrow> ('s, 'i) FileSystemInfo option"
  v_deref :: "'s \<Rightarrow> 'i \<Rightarrow> Inode option"
  v_fs :: 's

type_synonym eNode = "nat option \<times> int"

definition vfs_node :: "('s, 'i) Virtual \<Rightarrow> nat \<Rightarrow> 'i NodeCache res" where
  "vfs_node v i = (case v_nodes v i of None \<Rightarrow> Inl DanglingPointer | Some n \<Rightarrow> Inr n)"

definition vfs_put :: "nat \<Rightarrow> 'i NodeCache \<Rightarrow> ('s, 'i) Virtual \<Rightarrow> ('s, 'i) Virtual" where
  "vfs_put i n v = v\<lparr>v_nodes := (v_nodes v)(i \<mapsto> n)\<rparr>"

text \<open>\<open>node->fsi->\<close> and \<open>node->inode->\<close>\<close>

definition node_fsi :: "('s, 'i) Virtual \<Rightarrow> 'i NodeCache \<Rightarrow> ('s, 'i) FileSystemInfo res" where
  "node_fsi v n =
     (case n_fsi n of None \<Rightarrow> Inl NullPointer
      | Some f \<Rightarrow> case v_fsis v f of None \<Rightarrow> Inl DanglingPointer | Some i \<Rightarrow> Inr i)"

definition node_inode :: "('s, 'i) Virtual \<Rightarrow> 'i NodeCache \<Rightarrow> Inode res" where
  "node_inode v n = (case v_deref v (v_fs v) (n_inode n) of None \<Rightarrow> Inl DanglingPointer | Some i \<Rightarrow> Inr i)"

subsection \<open>Nodes\<close>

definition new_cache :: "'i \<Rightarrow> 'i NodeCache" where
  "new_cache inode = \<lparr>n_inode = inode, n_fsi = None, n_MountPoint = False, n_Name = [], n_Path = [], n_Link = [], n_Parent = None, n_Children = []\<rparr>"

definition Convert :: "'i \<Rightarrow> ('s, 'i) Virtual \<Rightarrow> nat \<times> ('s, 'i) Virtual" where
  "Convert inode v = (v_next v, (vfs_put (v_next v) (new_cache inode) v)\<lparr>v_next := Suc (v_next v)\<rparr>)"

definition Convert_child :: "nat \<Rightarrow> 'i \<Rightarrow> ('s, 'i) Virtual \<Rightarrow> (nat \<times> ('s, 'i) Virtual) res" where
  "Convert_child Parent inode v =
     rbind (vfs_node v Parent) (\<lambda>p.
     let cache = v_next v;
         v = vfs_put cache ((new_cache inode)\<lparr>n_fsi := n_fsi p, n_Parent := Some Parent\<rparr>) v in
     Inr (cache, (vfs_put Parent (p\<lparr>n_Children := n_Children p @ [cache]\<rparr>) v)\<lparr>v_next := Suc cache\<rparr>))"

fun search_children :: "('s, 'i) Virtual \<Rightarrow> nat list \<Rightarrow> string \<Rightarrow> nat option res" where
  "search_children v [] Name = Inr None"
| "search_children v (c # cs) Name =
     rbind (vfs_node v c) (\<lambda>n. if n_Name n = Name then Inr (Some c) else search_children v cs Name)"

definition CachedSearch :: "('s, 'i) Virtual \<Rightarrow> nat \<Rightarrow> string \<Rightarrow> eNode res" where
  "CachedSearch v i Name =
     rbind (vfs_node v i) (\<lambda>n.
     rbind (search_children v (n_Children n) Name) (\<lambda>r.
     Inr (case r of None \<Rightarrow> (None, ENOENT) | Some c \<Rightarrow> (Some c, 0))))"

text \<open>\<open>operator bool\<close> of \<open>eNode\<close>\<close>

definition eNode_ok :: "eNode \<Rightarrow> bool" where
  "eNode_ok e \<longleftrightarrow> snd e = 0 \<and> fst e \<noteq> None"

subsection \<open>Paths\<close>

text \<open>
  \<open>reserve\<close> leaves a cleared buffer and the size 0, and \<open>resize\<close> of a string of size 0 takes over what the buffer holds
  up to its terminator (src/Kernel/include_std/string).
\<close>

definition string_resize :: "string \<Rightarrow> nat \<Rightarrow> string" where
  "string_resize buffer count =
     (let s = takeWhile (\<lambda>c. c \<noteq> NUL) buffer in
      if count < length s then take count s else s @ replicate (count - length s) NUL)"

definition NormalizePath :: "('s, 'i) Virtual \<Rightarrow> nat \<Rightarrow> string \<Rightarrow> bool \<Rightarrow> string res" where
  "NormalizePath v Parent Path Join =
     (if Join then
        rbind (vfs_node v Parent) (\<lambda>p.
        let len = length Path + length (n_Path p) + 2 in
        rbind (cwk_path_join CWK_STYLE_UNIX (n_Path p) Path (replicate len NUL)) (\<lambda>(len, result).
        Inr (string_resize result len)))
      else
        let len = length Path + 2 in
        rbind (cwk_path_normalize CWK_STYLE_UNIX Path (replicate len NUL)) (\<lambda>(len, result).
        Inr (string_resize result len)))"

definition PathIsAbsolute :: "string \<Rightarrow> bool" where
  "PathIsAbsolute Path \<longleftrightarrow> \<not> cwk_path_is_relative CWK_STYLE_UNIX Path"

subsection \<open>Roots and file systems\<close>

definition RootExists :: "('s, 'i) Virtual \<Rightarrow> u64 \<Rightarrow> bool" where
  "RootExists v Index \<longleftrightarrow> map_of (v_Roots v) Index \<noteq> None"

definition GetRoot :: "('s, 'i) Virtual \<Rightarrow> u64 \<Rightarrow> eNode" where
  "GetRoot v Index = (case map_of (v_Roots v) Index of None \<Rightarrow> (None, ENOENT) | Some r \<Rightarrow> (Some r, 0))"

definition GetRoot_index :: "('s, 'i) Virtual \<Rightarrow> nat \<Rightarrow> int" where
  "GetRoot_index v Node = (case find (\<lambda>(_, r). r = Node) (v_Roots v) of None \<Rightarrow> - ENOENT | Some (i, _) \<Rightarrow> sint i)"

definition AddRoot :: "u64 \<Rightarrow> nat option \<Rightarrow> bool \<Rightarrow> ('s, 'i) Virtual \<Rightarrow> (int \<times> ('s, 'i) Virtual) res" where
  "AddRoot Index Root Replace v =
     (case Root of
        None \<Rightarrow> Inl AssertFailed
      | Some r \<Rightarrow>
          if map_of (v_Roots v) Index = None then Inr (0, v\<lparr>v_Roots := v_Roots v @ [(Index, r)]\<rparr>)
          else if Replace then Inr (0, v\<lparr>v_Roots := map (\<lambda>(i, n). if i = Index then (i, r) else (i, n)) (v_Roots v)\<rparr>)
          else Inr (EEXIST, v))"

definition RegisterFileSystem :: "nat \<Rightarrow> ('s, 'i) Virtual \<Rightarrow> u64 \<times> ('s, 'i) Virtual" where
  "RegisterFileSystem fsi v =
     (let key = of_nat (length (v_FileSystems v));
          fss = (if map_of (v_FileSystems v) key = None then v_FileSystems v @ [(key, fsi)] else v_FileSystems v) in
      (of_nat (length fss) - 1, v\<lparr>v_FileSystems := fss\<rparr>))"

definition super_op :: "('s \<Rightarrow> (int \<times> 's) res) option \<Rightarrow> ('s, 'i) Virtual \<Rightarrow> ('s, 'i) Virtual res" where
  "super_op f v = (case f of None \<Rightarrow> Inr v | Some g \<Rightarrow> rbind (g (v_fs v)) (\<lambda>(_, s). Inr (v\<lparr>v_fs := s\<rparr>)))"

definition UnregisterFileSystem :: "u64 \<Rightarrow> ('s, 'i) Virtual \<Rightarrow> (int \<times> ('s, 'i) Virtual) res" where
  "UnregisterFileSystem Device v =
     (case map_of (v_FileSystems v) Device of
        None \<Rightarrow> Inr (- ENOENT, v)
      | Some f \<Rightarrow>
          case v_fsis v f of
            None \<Rightarrow> Inl DanglingPointer
          | Some fsi \<Rightarrow>
              rbind (super_op (map_option (\<lambda>g. g None) (so_Synchronize (f_SuperOps fsi))) v) (\<lambda>v.
              rbind (super_op (so_Destroy (f_SuperOps fsi)) v) (\<lambda>v.
              Inr (0, v\<lparr>v_FileSystems := filter (\<lambda>(d, _). d \<noteq> Device) (v_FileSystems v)\<rparr>))))"

subsection \<open>Lookup and creation\<close>

text \<open>\<open>while (base->Parent) base = base->Parent;\<close> The fuel is the number of nodes: it runs out in a cycle only.\<close>

fun to_root :: "nat \<Rightarrow> ('s, 'i) Virtual \<Rightarrow> nat \<Rightarrow> nat res" where
  "to_root 0 v i = Inl Diverges"
| "to_root (Suc n) v i = rbind (vfs_node v i) (\<lambda>node. case n_Parent node of None \<Rightarrow> Inr i | Some p \<Rightarrow> to_root n v p)"

definition extend_path :: "string \<Rightarrow> string \<Rightarrow> string" where
  "extend_path currentPath segmentStr = (if currentPath = ''/'' then currentPath @ segmentStr else currentPath @ ''/'' @ segmentStr)"

text \<open>One segment: the child with that name, from the cache or from the file system, or the error to return.\<close>

definition lookup_segment :: "nat \<Rightarrow> string \<Rightarrow> string \<Rightarrow> ('s, 'i) Virtual \<Rightarrow> ((int + nat) \<times> ('s, 'i) Virtual) res" where
  "lookup_segment node currentPath segmentStr v =
     rbind (CachedSearch v node segmentStr) (\<lambda>ret.
     if eNode_ok ret then Inr (Inr (the (fst ret)), v)
     else
       rbind (vfs_node v node) (\<lambda>n.
       rbind (node_fsi v n) (\<lambda>fsi.
       case op_Lookup (f_Ops fsi) of
         None \<Rightarrow> Inr (Inl ENOTSUP, v)
       | Some f \<Rightarrow>
           rbind (f (n_inode n) segmentStr (v_fs v)) (\<lambda>(ret, inode, s).
           let v = v\<lparr>v_fs := s\<rparr> in
           if ret \<noteq> 0 then Inr (Inl ret, v)
           else
             case inode of
               None \<Rightarrow> Inl DanglingPointer
             | Some inode \<Rightarrow>
                 rbind (Convert_child node inode v) (\<lambda>(c, v).
                 rbind (vfs_node v c) (\<lambda>cn.
                 Inr (Inr c, vfs_put c (cn\<lparr>n_Name := segmentStr, n_Path := extend_path currentPath segmentStr\<rparr>) v)))))))"

definition segment_str :: "cwk_segment \<Rightarrow> string" where
  "segment_str segment = take (s_size segment) (drop (s_begin segment) (s_path segment))"

function lookup_loop :: "nat \<Rightarrow> string \<Rightarrow> cwk_segment \<Rightarrow> ('s, 'i) Virtual \<Rightarrow> (eNode \<times> ('s, 'i) Virtual) res" where
  "lookup_loop node currentPath segment v =
     rbind (lookup_segment node currentPath (segment_str segment) v) (\<lambda>(r, v).
     case r of
       Inl err \<Rightarrow> Inr ((None, err), v)
     | Inr node \<Rightarrow>
         case cwk_path_get_next_segment CWK_STYLE_UNIX segment of
           Inl f \<Rightarrow> Inl f
         | Inr (again, segment') \<Rightarrow>
             if again then lookup_loop node (extend_path currentPath (segment_str segment)) segment' v else Inr ((Some node, 0), v))"
  by auto
termination
proof (relation "measure (\<lambda>(_, _, segment, _). length (s_path segment) - s_begin segment)", goal_cases)
  case (2 node currentPath segment v x r v' node' y again segment')
  then have "cwk_path_get_next_segment CWK_STYLE_UNIX segment = Inr (True, segment')" by simp
  from next_segment_moves [OF this] show ?case by simp
qed simp

declare lookup_loop.simps [simp del]

definition Lookup :: "nat option \<Rightarrow> string \<Rightarrow> ('s, 'i) Virtual \<Rightarrow> (eNode \<times> ('s, 'i) Virtual) res" where
  "Lookup Parent Path v =
     (case Parent of
        None \<Rightarrow> Inl AssertFailed
      | Some Parent \<Rightarrow>
          rbind (vfs_node v Parent) (\<lambda>p.
          if Path = ''.'' then Inr ((Some Parent, 0), v)
          else if Path = ''..'' then Inr ((Some (case n_Parent p of None \<Rightarrow> Parent | Some q \<Rightarrow> q), 0), v)
          else
            let absolute = PathIsAbsolute Path in
            rbind (if absolute then to_root (Suc (v_next v)) v Parent else Inr Parent) (\<lambda>base.
            rbind (NormalizePath v base Path (\<not> absolute)) (\<lambda>Path.
            case cwk_path_get_first_segment CWK_STYLE_UNIX Path of
              (found, segment) \<Rightarrow>
                if \<not> found then if Path = ''/'' then Inr ((Some base, 0), v) else Inl AssertFailed
                else
                  rbind (if \<not> absolute then to_root (Suc (v_next v)) v base else Inr base) (\<lambda>node.
                  rbind (vfs_node v node) (\<lambda>n.
                  lookup_loop node (if n_Path n = [] then ''/'' else n_Path n) segment v))))))"

definition child_path :: "string \<Rightarrow> string \<Rightarrow> string" where
  "child_path parent Name = (if parent = ''/'' then ''/'' @ Name else parent @ ''/'' @ Name)"

definition Create :: "nat option \<Rightarrow> string \<Rightarrow> u32 \<Rightarrow> bool \<Rightarrow> ('s, 'i) Virtual \<Rightarrow> (eNode \<times> ('s, 'i) Virtual) res" where
  "Create Parent Name Mode ErrorIfExists v =
     rbind (Lookup Parent Name v) (\<lambda>(ex, v).
     if eNode_ok ex then
       if ErrorIfExists then Inr ((None, EEXIST), v)
       else
         rbind (vfs_node v (the (fst ex))) (\<lambda>n.
         rbind (node_inode v n) (\<lambda>inode.
         rbind (assert_res (i_Mode inode AND S_IFMT = Mode AND S_IFMT)) (\<lambda>_.
         Inr (ex, v))))
     else
       case Parent of
         None \<Rightarrow> Inr ((None, EINVAL), v)
       | Some Parent \<Rightarrow>
           rbind (vfs_node v Parent) (\<lambda>p.
           rbind (node_fsi v p) (\<lambda>fsi.
           case op_Create (f_Ops fsi) of
             None \<Rightarrow> Inr ((None, ENOTSUP), v)
           | Some f \<Rightarrow>
               rbind (f (n_inode p) Name Mode (v_fs v)) (\<lambda>(ret, inode, s).
               let v = v\<lparr>v_fs := s\<rparr> in
               if ret \<noteq> 0 then Inr ((None, ret), v)
               else
                 case inode of
                   None \<Rightarrow> Inl DanglingPointer
                 | Some inode \<Rightarrow>
                     rbind (Convert_child Parent inode v) (\<lambda>(c, v).
                     rbind (NormalizePath v Parent (child_path (n_Path p) Name) False) (\<lambda>path.
                     rbind (vfs_node v c) (\<lambda>cn.
                     Inr ((Some c, 0), vfs_put c (cn\<lparr>n_Name := Name, n_Path := path\<rparr>) v))))))))"

subsection \<open>Removal and renaming\<close>

fun erase_named :: "('s, 'i) Virtual \<Rightarrow> string \<Rightarrow> nat list \<Rightarrow> nat list res" where
  "erase_named v Name [] = Inr []"
| "erase_named v Name (c # cs) =
     rbind (vfs_node v c) (\<lambda>n. if n_Name n \<noteq> Name then rbind (erase_named v Name cs) (\<lambda>cs. Inr (c # cs)) else Inr cs)"

definition Remove_named :: "nat option \<Rightarrow> string \<Rightarrow> ('s, 'i) Virtual \<Rightarrow> (int \<times> ('s, 'i) Virtual) res" where
  "Remove_named Parent Name v =
     (case Parent of
        None \<Rightarrow> Inr (- EINVAL, v)
      | Some Parent \<Rightarrow>
          rbind (vfs_node v Parent) (\<lambda>p.
          rbind (node_fsi v p) (\<lambda>fsi.
          case op_Remove (f_Ops fsi) of
            None \<Rightarrow> Inr (- ENOTSUP, v)
          | Some f \<Rightarrow>
              rbind (f (n_inode p) Name (v_fs v)) (\<lambda>(ret, s).
              let v = v\<lparr>v_fs := s\<rparr> in
              if ret \<noteq> 0 then Inr (ret, v)
              else rbind (erase_named v Name (n_Children p)) (\<lambda>cs. Inr (ret, vfs_put Parent (p\<lparr>n_Children := cs\<rparr>) v))))))"

definition Remove :: "nat \<Rightarrow> ('s, 'i) Virtual \<Rightarrow> (int \<times> ('s, 'i) Virtual) res" where
  "Remove node v =
     rbind (vfs_node v node) (\<lambda>n.
     case n_Parent n of
       None \<Rightarrow> Inr (- EINVAL, v)
     | Some Parent \<Rightarrow>
         rbind (vfs_node v Parent) (\<lambda>p.
         rbind (node_fsi v p) (\<lambda>fsi.
         case op_Remove (f_Ops fsi) of
           None \<Rightarrow> Inr (- ENOTSUP, v)
         | Some f \<Rightarrow>
             rbind (f (n_inode n) (n_Name n) (v_fs v)) (\<lambda>(ret, s).
             let v = v\<lparr>v_fs := s\<rparr> in
             if ret \<noteq> 0 then Inr (ret, v)
             else Inr (ret, vfs_put Parent (p\<lparr>n_Children := remove1 node (n_Children p)\<rparr>) v)))))"

definition Rename :: "nat \<Rightarrow> string \<Rightarrow> ('s, 'i) Virtual \<Rightarrow> (int \<times> ('s, 'i) Virtual) res" where
  "Rename node NewName v =
     rbind (vfs_node v node) (\<lambda>n.
     rbind (node_fsi v n) (\<lambda>fsi.
     case op_Rename (f_Ops fsi) of
       None \<Rightarrow> Inr (- ENOTSUP, v)
     | Some f \<Rightarrow>
         rbind (f (n_inode n) (n_Name n) NewName (v_fs v)) (\<lambda>(ret, s).
         let v = v\<lparr>v_fs := s\<rparr> in
         Inr (ret, if ret = 0 then vfs_put node (n\<lparr>n_Name := NewName\<rparr>) v else v))))"

subsection \<open>Files\<close>

text \<open>\<open>__check_op\<close>: the error when the file system does not have the operation.\<close>

definition check_op :: "('s, 'i) Virtual \<Rightarrow> nat \<Rightarrow> (('s, 'i) InodeOperations \<Rightarrow> 'f option) \<Rightarrow> 'r \<Rightarrow> ('f \<Rightarrow> 'i \<Rightarrow> 'r res) \<Rightarrow> 'r res" where
  "check_op v node op missing call =
     rbind (vfs_node v node) (\<lambda>n.
     rbind (node_fsi v n) (\<lambda>fsi.
     case op (f_Ops fsi) of None \<Rightarrow> Inr missing | Some f \<Rightarrow> call f (n_inode n)))"

text \<open>What \<open>Read\<close>, \<open>Write\<close> and \<open>Truncate\<close> refuse: directories and links, or everything but regular files.\<close>

definition Read :: "nat \<Rightarrow> u8 list \<Rightarrow> u64 \<Rightarrow> int \<Rightarrow> ('s, 'i) Virtual \<Rightarrow> (int \<times> u8 list) res" where
  "Read Target Buffer Size Offset v =
     rbind (vfs_node v Target) (\<lambda>n.
     rbind (node_inode v n) (\<lambda>inode.
     if S_IS S_IFDIR (i_Mode inode) \<or> n_MountPoint n then Inr (- EISDIR, Buffer)
     else if S_IS S_IFLNK (i_Mode inode) then Inr (- EINVAL, Buffer)
     else check_op v Target op_Read (- ENOTSUP, Buffer) (\<lambda>f i. f i Buffer Size Offset (v_fs v))))"

definition with_fs :: "('s, 'i) Virtual \<Rightarrow> (int \<times> 's) res \<Rightarrow> (int \<times> ('s, 'i) Virtual) res" where
  "with_fs v r = rbind r (\<lambda>(ret, s). Inr (ret, v\<lparr>v_fs := s\<rparr>))"

definition Write :: "nat \<Rightarrow> u8 list \<Rightarrow> u64 \<Rightarrow> int \<Rightarrow> ('s, 'i) Virtual \<Rightarrow> (int \<times> ('s, 'i) Virtual) res" where
  "Write Target Buffer Size Offset v =
     rbind (vfs_node v Target) (\<lambda>n.
     rbind (node_inode v n) (\<lambda>inode.
     if S_IS S_IFDIR (i_Mode inode) \<or> n_MountPoint n then Inr (- EISDIR, v)
     else if S_IS S_IFLNK (i_Mode inode) then Inr (- EINVAL, v)
     else check_op v Target op_Write (- ENOTSUP, v) (\<lambda>f i. with_fs v (f i Buffer Size Offset (v_fs v)))))"

definition Truncate :: "nat \<Rightarrow> int \<Rightarrow> ('s, 'i) Virtual \<Rightarrow> (int \<times> ('s, 'i) Virtual) res" where
  "Truncate Target Size v =
     rbind (vfs_node v Target) (\<lambda>n.
     rbind (node_inode v n) (\<lambda>inode.
     if S_IS S_IFDIR (i_Mode inode) \<or> n_MountPoint n then Inr (- EISDIR, v)
     else if \<not> S_IS S_IFREG (i_Mode inode) then Inr (- EINVAL, v)
     else check_op v Target op_Truncate (- ENOTSUP, v) (\<lambda>f i. with_fs v (f i Size (v_fs v)))))"

definition Stat :: "nat \<Rightarrow> kstat \<Rightarrow> ('s, 'i) Virtual \<Rightarrow> (int \<times> kstat) res" where
  "Stat Target st v = check_op v Target op_Stat (- ENOTSUP, st) (\<lambda>f i. f i st (v_fs v))"

definition ReadLink :: "nat \<Rightarrow> string \<Rightarrow> u64 \<Rightarrow> ('s, 'i) Virtual \<Rightarrow> (int \<times> string) res" where
  "ReadLink Target Buffer Size v = check_op v Target op_ReadLink (- ENOTSUP, Buffer) (\<lambda>f i. f i Buffer Size (v_fs v))"

definition Seek :: "nat \<Rightarrow> int \<Rightarrow> ('s, 'i) Virtual \<Rightarrow> (int \<times> ('s, 'i) Virtual) res" where
  "Seek Target Offset v = check_op v Target op_Seek (- ENOTSUP, v) (\<lambda>f i. with_fs v (f i Offset (v_fs v)))"

definition Open :: "nat \<Rightarrow> int \<Rightarrow> u32 \<Rightarrow> ('s, 'i) Virtual \<Rightarrow> (int \<times> ('s, 'i) Virtual) res" where
  "Open Target Flags Mode v = check_op v Target op_Open (- ENOTSUP, v) (\<lambda>f i. with_fs v (f i Flags Mode (v_fs v)))"

definition Close :: "nat \<Rightarrow> ('s, 'i) Virtual \<Rightarrow> (int \<times> ('s, 'i) Virtual) res" where
  "Close Target v = check_op v Target op_Close (- ENOTSUP, v) (\<lambda>f i. with_fs v (f i (v_fs v)))"

definition Ioctl :: "nat \<Rightarrow> u64 \<Rightarrow> u64 \<Rightarrow> ('s, 'i) Virtual \<Rightarrow> (int \<times> ('s, 'i) Virtual) res" where
  "Ioctl Target Request Argp v = check_op v Target op_Ioctl (- ENOTSUP, v) (\<lambda>f i. with_fs v (f i Request Argp (v_fs v)))"

subsection \<open>Directories\<close>

text \<open>The entries a file system has written to the temporary buffer, as long as they fit; behind them the buffer is zero.\<close>

fun copy_entries :: "kdirent list \<Rightarrow> int \<Rightarrow> int \<Rightarrow> u64 \<Rightarrow> nat \<times> kdirent list \<Rightarrow> nat \<times> kdirent list" where
  "copy_entries [] pos n Size (tot, out) = (tot, out)"
| "copy_entries (ent # ents) pos n Size (tot, out) =
     (if pos \<ge> n \<or> d_reclen ent = 0 then (tot, out)
      else if tot + unat (d_reclen ent) > unat Size then (tot, out)
      else copy_entries ents (pos + int (unat (d_reclen ent))) n Size (tot + unat (d_reclen ent), out @ [ent]))"

fun list_children :: "('s, 'i) Virtual \<Rightarrow> nat list \<Rightarrow> string list \<Rightarrow> int \<Rightarrow> u64 \<Rightarrow> int \<Rightarrow> nat \<times> kdirent list \<Rightarrow> (nat \<times> kdirent list) res" where
  "list_children v [] seen Offset Size entryIndex (tot, out) = Inr (tot, out)"
| "list_children v (c # cs) seen Offset Size entryIndex (tot, out) =
     rbind (vfs_node v c) (\<lambda>child.
     if n_Name child \<in> set seen then list_children v cs seen Offset Size entryIndex (tot, out)
     else if entryIndex < Offset then list_children v cs seen Offset Size (entryIndex + 1) (tot, out)
     else if int (tot + unat (reclen (n_Name child))) > sint Size then Inr (tot, out)
     else
       rbind (node_inode v child) (\<lambda>inode.
       list_children v cs (seen @ [n_Name child]) Offset Size (entryIndex + 1)
         (tot + unat (reclen (n_Name child)),
          out @ [\<lparr>d_ino = i_Index inode, d_off = entryIndex, d_reclen = reclen (n_Name child), d_type = IFTODT (i_Mode inode),
                  d_name = n_Name child\<rparr>])))"

definition ReadDirectory :: "nat \<Rightarrow> u64 \<Rightarrow> int \<Rightarrow> int \<Rightarrow> ('s, 'i) Virtual \<Rightarrow> (int \<times> kdirent list) res" where
  "ReadDirectory Target Size Offset Entries v =
     rbind (vfs_node v Target) (\<lambda>n.
     rbind (node_inode v n) (\<lambda>inode.
     if \<not> S_IS S_IFDIR (i_Mode inode) \<and> \<not> n_MountPoint n then Inr (- ENOTDIR, [])
     else
       rbind (if n_fsi n = None then Inr (0, [])
              else
                rbind (node_fsi v n) (\<lambda>fsi.
                case op_ReadDir (f_Ops fsi) of
                  None \<Rightarrow> Inr (0, [])
                | Some f \<Rightarrow>
                    rbind (f (n_inode n) 4096 Offset Entries (v_fs v)) (\<lambda>(n, ents).
                    Inr (if n > 0 then copy_entries ents 0 n Size (0, []) else (0, []))))) (\<lambda>(tot, out).
       rbind (list_children v (n_Children n) (map d_name out) Offset Size (int (length out)) (tot, out)) (\<lambda>(tot, out).
       Inr (int tot, out)))))"

fun find_child :: "('s, 'i) Virtual \<Rightarrow> string \<Rightarrow> nat list \<Rightarrow> nat option res" where
  "find_child v Name [] = Inr None"
| "find_child v Name (c # cs) = rbind (vfs_node v c) (\<lambda>n. if n_Name n = Name then Inr (Some c) else find_child v Name cs)"

text \<open>One batch of entries: the nodes of the list so far, and the names seen.\<close>

fun list_entries :: "nat \<Rightarrow> kdirent list \<Rightarrow> int \<Rightarrow> int \<Rightarrow> nat list \<times> string list \<Rightarrow> ('s, 'i) Virtual \<Rightarrow>
    ((nat list \<times> string list) \<times> ('s, 'i) Virtual) res" where
  "list_entries Target [] pos n acc v = Inr (acc, v)"
| "list_entries Target (ent # ents) pos n (ret, seen) v =
     (if pos \<ge> n \<or> d_reclen ent = 0 then Inr ((ret, seen), v)
      else if d_name ent = ''.'' \<or> d_name ent = ''..'' then list_entries Target ents (pos + int (unat (d_reclen ent))) n (ret, seen) v
      else
        rbind (vfs_node v Target) (\<lambda>t.
        rbind (find_child v (d_name ent) (n_Children t)) (\<lambda>child.
        rbind (case child of
                 Some c \<Rightarrow> Inr (ret @ [c], v)
               | None \<Rightarrow>
                   rbind (Lookup (Some Target) (d_name ent) v) (\<lambda>(result, v).
                   if eNode_ok result then
                     let c = the (fst result) in
                     rbind (vfs_node v Target) (\<lambda>t.
                     let v = vfs_put Target (t\<lparr>n_Children := n_Children t @ [c]\<rparr>) v in
                     rbind (vfs_node v c) (\<lambda>cn.
                     Inr (ret @ [c], vfs_put c (cn\<lparr>n_Parent := Some Target\<rparr>) v)))
                   else Inr (ret, v))) (\<lambda>(ret, v).
        list_entries Target ents (pos + int (unat (d_reclen ent))) n (ret, seen @ [d_name ent]) v))))"

text \<open>The loop ends when the file system returns no more bytes; the fuel bounds the number of calls.\<close>

fun list_batches :: "nat \<Rightarrow> nat \<Rightarrow> int \<Rightarrow> nat list \<times> string list \<Rightarrow> ('s, 'i) Virtual \<Rightarrow> ((nat list \<times> string list) \<times> ('s, 'i) Virtual) res" where
  "list_batches 0 Target offset acc v = Inl Diverges"
| "list_batches (Suc k) Target offset acc v =
     rbind (vfs_node v Target) (\<lambda>n.
     rbind (node_fsi v n) (\<lambda>fsi.
     case op_ReadDir (f_Ops fsi) of
       None \<Rightarrow> Inl NullPointer
     | Some f \<Rightarrow>
         rbind (f (n_inode n) 4096 offset (2 ^ 63 - 1) (v_fs v)) (\<lambda>(n, ents).
         if n \<le> 0 then Inr (acc, v)
         else rbind (list_entries Target ents 0 n acc v) (\<lambda>(acc, v). list_batches k Target (offset + n) acc v))))"

fun list_cached :: "('s, 'i) Virtual \<Rightarrow> nat list \<Rightarrow> nat list \<times> string list \<Rightarrow> nat list res" where
  "list_cached v [] (ret, seen) = Inr ret"
| "list_cached v (c # cs) (ret, seen) =
     rbind (vfs_node v c) (\<lambda>n.
     if n_Name n \<in> set seen \<or> n_Name n = ''.'' \<or> n_Name n = ''..'' then list_cached v cs (ret, seen)
     else list_cached v cs (ret @ [c], seen @ [n_Name n]))"

definition ReadDirectory_nodes :: "nat \<Rightarrow> nat \<Rightarrow> ('s, 'i) Virtual \<Rightarrow> (nat list \<times> ('s, 'i) Virtual) res" where
  "ReadDirectory_nodes fuel Target v =
     rbind (vfs_node v Target) (\<lambda>n.
     rbind (node_inode v n) (\<lambda>inode.
     if \<not> S_IS S_IFDIR (i_Mode inode) \<and> \<not> n_MountPoint n then Inr ([], v)
     else
       rbind (if n_fsi n = None then Inr (([], []), v)
              else
                rbind (node_fsi v n) (\<lambda>fsi.
                if op_ReadDir (f_Ops fsi) = None then Inr (([], []), v) else list_batches fuel Target 0 ([], []) v)) (\<lambda>(acc, v).
       rbind (vfs_node v Target) (\<lambda>n.
       rbind (list_cached v (n_Children n) acc) (\<lambda>ret.
       Inr (ret, v))))))"

definition CreateLink :: "nat option \<Rightarrow> string \<Rightarrow> string \<Rightarrow> ('s, 'i) Virtual \<Rightarrow> (eNode \<times> ('s, 'i) Virtual) res" where
  "CreateLink Parent Name Target v =
     rbind (Create Parent Name (0x1FF OR S_IFLNK) True v) (\<lambda>(enode, v).
     if \<not> eNode_ok enode then Inr (enode, v)
     else
       let node = the (fst enode) in
       rbind (vfs_node v node) (\<lambda>n. Inr ((Some node, 0), vfs_put node (n\<lparr>n_Link := Target\<rparr>) v)))"

subsection \<open>Mounting\<close>

fun probe_loop :: "('s, 'i) Virtual \<Rightarrow> 'i \<Rightarrow> (u64 \<times> nat) list \<Rightarrow> nat option res" where
  "probe_loop v Device [] = Inr None"
| "probe_loop v Device ((_, f) # fss) =
     (case v_fsis v f of
        None \<Rightarrow> Inl DanglingPointer
      | Some fsi \<Rightarrow>
          case so_Probe (f_SuperOps fsi) of
            None \<Rightarrow> probe_loop v Device fss
          | Some g \<Rightarrow> rbind (g Device (v_fs v)) (\<lambda>ret. if ret = 0 then Inr (Some f) else probe_loop v Device fss))"

definition Probe :: "'i \<Rightarrow> ('s, 'i) Virtual \<Rightarrow> nat option res" where
  "Probe Device v = probe_loop v Device (v_FileSystems v)"

definition Mount_inode :: "nat option \<Rightarrow> 'i option \<Rightarrow> string \<Rightarrow> nat \<Rightarrow> ('s, 'i) Virtual \<Rightarrow> (eNode \<times> ('s, 'i) Virtual) res" where
  "Mount_inode Parent inode Name fsi v =
     (case (Parent, inode) of
        (Some Parent, Some inode) \<Rightarrow>
          (case Convert inode v of
             (r, v) \<Rightarrow>
               rbind (vfs_node v Parent) (\<lambda>p.
               rbind (NormalizePath v Parent (child_path (n_Path p) Name) False) (\<lambda>path.
               rbind (vfs_node v r) (\<lambda>n.
               let v = vfs_put r (n\<lparr>n_fsi := Some fsi, n_Name := Name, n_Path := path, n_Parent := Some Parent\<rparr>) v in
               rbind (vfs_node v Parent) (\<lambda>p.
               Inr ((Some r, 0), vfs_put Parent (p\<lparr>n_Children := n_Children p @ [r]\<rparr>) v))))))
      | _ \<Rightarrow> Inl AssertFailed)"

definition Mount_device :: "nat option \<Rightarrow> string \<Rightarrow> nat \<Rightarrow> 'i \<Rightarrow> ('s, 'i) Virtual \<Rightarrow> (eNode \<times> ('s, 'i) Virtual) res" where
  "Mount_device Parent Name f Device v =
     (case v_fsis v f of
        None \<Rightarrow> Inl DanglingPointer
      | Some fsi \<Rightarrow>
          case so_Mount (f_SuperOps fsi) of
            None \<Rightarrow> Inl NullPointer
          | Some g \<Rightarrow>
              rbind (g Device (v_fs v)) (\<lambda>(ret, inode, s).
              let v = v\<lparr>v_fs := s\<rparr> in
              if ret \<noteq> 0 then Inr ((None, ret), v) else Mount_inode Parent inode Name f v))"

definition Umount :: "nat \<Rightarrow> ('s, 'i) Virtual \<Rightarrow> int res" where
  "Umount node v = rbind (vfs_node v node) (\<lambda>n. Inr (if \<not> n_MountPoint n then - EINVAL else 0))"

definition Umount_named :: "nat \<Rightarrow> string \<Rightarrow> ('s, 'i) Virtual \<Rightarrow> int res" where
  "Umount_named Parent Name v =
     rbind (CachedSearch v Parent Name) (\<lambda>node.
     if \<not> eNode_ok node then Inr (- snd node) else Umount (the (fst node)) v)"

definition Initialize :: "('s, 'i) Virtual \<Rightarrow> ('s, 'i) Virtual res" where
  "Initialize v =
     rbind (Create (fst (GetRoot v 0)) ''var'' (0x1FF OR S_IFDIR) False v) (\<lambda>(var, v).
     rbind (Create (fst var) ''log'' (0x1FF OR S_IFDIR) False v) (\<lambda>(_, v). Inr v))"

end
