(* ===== verification/VfsPaths.thy ===== *)
theory VfsPaths
  imports Vfs Names
begin

unbundle bit_operations_syntax

section \<open>Normalised paths of the virtual file system\<close>

text \<open>
  \<open>NormalizePath\<close> reserves a buffer that is always large enough, so that its result is the whole normal form of the
  path: a separator and the names that are left when the dots are resolved.
\<close>

lemma absolute_normal_form:
  assumes "char_at (hd paths) 0 = CHR ''/''"
  shows "normal_form paths = CHR ''/'' # join_segs (resolve True [] (all_segs paths))"
  using assms unix_absolute(1) [of "hd paths"] by (simp add: normal_form_def cwk_path_is_absolute_def)

definition weight :: "string list \<Rightarrow> nat" where
  "weight ss = (\<Sum>s\<leftarrow>ss. Suc (length s))"

lemma weight_simps [simp]: "weight [] = 0" "weight (s # ss) = Suc (length s) + weight ss" "weight (xs @ ys) = weight xs + weight ys" "weight (rev xs) = weight xs"
  by (simp_all add: weight_def rev_map [symmetric])

lemma join_weight: "length (join_segs ss) \<le> weight ss - 1"
  by (induction ss rule: join_segs.induct) auto

lemma resolve_weight: "weight (resolve True stack ss) \<le> weight stack + weight ss"
proof (induction ss arbitrary: stack)
  case (Cons s ss)
  show ?case
  proof (cases stack)
    case Nil
    then show ?thesis using Cons.IH [of "[]"] Cons.IH [of "[s]"] by simp
  next
    case (Cons t st)
    then show ?thesis using Cons.IH [of stack] Cons.IH [of st] Cons.IH [of "''..'' # stack"] Cons.IH [of "s # stack"] by auto
  qed
qed simp

lemma segpos_weight:
  "segpos st p c \<noteq> [] \<Longrightarrow> (\<Sum>(b, e)\<leftarrow>segpos st p c. Suc (length (take (e - b) (drop b p)))) \<le> Suc (length p) - skip_separators st p c"
proof (induction st p c rule: segpos.induct)
  case (1 st p c)
  let ?b = "skip_separators st p c"
  let ?e = "cwk_path_find_next_stop st p ?b"
  have nul: "char_at p ?b \<noteq> NUL" using 1(2) by (subst (asm) segpos.simps) (auto simp: Let_def split: if_splits)
  have b: "?b < length p" using nul by (auto simp: char_at_def split: if_splits)
  have be: "?b < ?e" using find_next_stop_less [OF nul skip_separators_stop] .
  have e: "?e \<le> length p" using find_next_stop_over [of ?b "length p" st p] b by (force simp: char_at_def)
  have step: "segpos st p c = (?b, ?e) # segpos st p ?e" using nul by (subst segpos.simps) (simp add: Let_def)
  show ?case
  proof (cases "segpos st p ?e = []")
    case True
    then show ?thesis using step b be e by simp
  next
    case False
    have "char_at p ?e \<noteq> NUL" using False segpos_NUL by blast
    then have "cwk_path_is_separator st (char_at p ?e)" using find_next_stop_stop [of p st ?b] by blast
    then have "Suc ?e \<le> skip_separators st p ?e" using skip_separators_ge [of "Suc ?e" st p] by (subst skip_separators.simps) simp
    then show ?thesis using step b be e 1(1) [OF refl refl nul False] by simp
  qed
qed

lemma segs_weight: "weight (segs st p) \<le> Suc (length p) - skip_separators st p 0"
  using segpos_weight [of st p 0] by (cases "segpos st p 0 = []") (simp_all add: weight_def segs_def comp_def case_prod_unfold)

lemma join_segs_set: "set (join_segs ss) \<subseteq> {CHR ''/''} \<union> (\<Union>s \<in> set ss. set s)"
  by (induction ss rule: join_segs.induct) auto

lemma takeWhile_prefix:
  assumes "k < length b" "take k b = txt" "b ! k = NUL" "NUL \<notin> set txt"
  shows "takeWhile (\<lambda>c. c \<noteq> NUL) b = txt"
proof -
  have "takeWhile (\<lambda>c. c \<noteq> NUL) (take k b @ NUL # drop (Suc k) b) = take k b"
    using assms(2,4) by (subst takeWhile_append2) auto
  then show ?thesis using id_take_nth_drop [OF assms(1)] assms(2,3) by simp
qed

lemma normalized:
  assumes "paths \<noteq> []" "\<forall>p \<in> set paths. NUL \<notin> set p" "NUL \<notin> set (normal_form paths)" "length (normal_form paths) < n"
  shows "\<exists>b. cwk_path_join_and_normalize_multiple CWK_STYLE_UNIX paths (replicate n NUL) = Inr (length (normal_form paths), b) \<and>
    string_resize b (length (normal_form paths)) = normal_form paths"
proof -
  let ?nf = "normal_form paths"
  obtain out where o: "written n ?nf (fst out, snd out)"
    "cwk_path_join_and_normalize_multiple CWK_STYLE_UNIX paths (replicate n NUL) = Inr (fst out, cwk_path_terminate_output (snd out) (fst out))"
    using join_and_normalize_written [OF assms(1,2), of "replicate n NUL"] by auto
  let ?b = "cwk_path_terminate_output (snd out) (fst out)"
  have "fst out = length ?nf" using o(1) by (auto simp: written_def)
  moreover have "min (length ?nf) (n - 1) = length ?nf" using assms(4) by simp
  then have "length ?b = n" "take (length ?nf) ?b = ?nf" "?b ! length ?nf = NUL"
    using written_terminate [OF o(1)] assms(4) by (simp_all add: Let_def)
  then have "takeWhile (\<lambda>c. c \<noteq> NUL) ?b = ?nf" using takeWhile_prefix assms(3,4) by metis
  ultimately show ?thesis using o(2) by (simp add: string_resize_def)
qed

lemma PathIsAbsolute_iff: "PathIsAbsolute Path \<longleftrightarrow> char_at Path 0 = CHR ''/''"
  by (simp add: PathIsAbsolute_def cwk_path_is_relative_def cwk_path_is_absolute_def unix_absolute(1))

lemma absolute_weight: "char_at p 0 = CHR ''/'' \<Longrightarrow> weight (segs CWK_STYLE_UNIX p) \<le> length p"
  using segs_weight [of CWK_STYLE_UNIX p] skip_separators_ge [of "Suc 0" CWK_STYLE_UNIX p]
  by (subst (asm) skip_separators.simps) (simp add: cwk_path_is_separator_def)

lemma NormalizePath_names:
  assumes "v_nodes v i = Some n" "char_at (n_Path n) 0 = CHR ''/''" "NUL \<notin> set (n_Path n)" "NUL \<notin> set Path"
  shows "NormalizePath v i Path (\<not> PathIsAbsolute Path) = Inr (CHR ''/'' # join_segs (path_names (n_Path n) Path))"
proof -
  let ?paths = "if PathIsAbsolute Path then [Path] else [n_Path n, Path]"
  let ?names = "path_names (n_Path n) Path"
  have nf: "normal_form ?paths = CHR ''/'' # join_segs ?names"
    using assms(2) by (subst absolute_normal_form) (auto simp: PathIsAbsolute_iff path_names_def all_segs_def)
  have nul: "NUL \<notin> set (normal_form ?paths)"
    using join_segs_set [of ?names] path_names_plain [OF assms(3,4)] unfolding nf by (auto simp: plain_def)
  have w: "length (join_segs ?names) \<le> weight (segs CWK_STYLE_UNIX Path) + (if PathIsAbsolute Path then 0 else length (n_Path n)) - 1"
    using join_weight [of ?names] absolute_weight [OF assms(2)] resolve_weight [of "[]" "segs CWK_STYLE_UNIX Path"]
      resolve_weight [of "[]" "segs CWK_STYLE_UNIX (n_Path n) @ segs CWK_STYLE_UNIX Path"]
    by (auto simp: path_names_def PathIsAbsolute_iff)
  have l: "length (normal_form ?paths) < length Path + (if PathIsAbsolute Path then 0 else length (n_Path n)) + 2"
    using w segs_weight [of CWK_STYLE_UNIX Path] unfolding nf by simp
  from normalized [OF _ _ nul l] assms(1,3,4) show ?thesis
    by (auto simp: NormalizePath_def vfs_node_def cwk_path_join_def cwk_path_normalize_def nf)
qed

end
