(* ===== verification/VfsTree.thy ===== *)
theory VfsTree
  imports VfsPaths InodeStore
begin

section \<open>The tree of nodes\<close>

text \<open>
  What the nodes of the virtual file system cache is a tree: \<open>placed v i ns r\<close> says that the node \<open>i\<close> is reached from the root
  \<open>r\<close> by the names \<open>ns\<close>. Every operation that makes a node adds a leaf to it, \<open>add_child\<close>. The tree is right when each of its
  nodes is what the names lead to in the file systems themselves, with the mounted ones in their place (\<open>walk_ns\<close>).
\<close>

subsection \<open>Name spaces\<close>

text \<open>Following names in a file system in which others are mounted: a mounted directory hides the name.\<close>

fun walk_ns :: "(string list \<Rightarrow> 'p option) \<Rightarrow> ('p \<Rightarrow> string \<Rightarrow> (int \<times> 'p option) res) \<Rightarrow> string list \<Rightarrow> 'p \<Rightarrow> string list \<Rightarrow> (int \<times> 'p option) res" where
  "walk_ns mt lookup pre p [] = Inr (0, Some p)"
| "walk_ns mt lookup pre p (x # xs) =
     (case mt (pre @ [x]) of
        Some q \<Rightarrow> walk_ns mt lookup (pre @ [x]) q xs
      | None \<Rightarrow> rbind (lookup p x) (\<lambda>(ret, r). case r of None \<Rightarrow> Inr (ret, None) | Some q \<Rightarrow> walk_ns mt lookup (pre @ [x]) q xs))"

lemma walk_ns_append:
  "walk_ns mt lookup pre p (xs @ ys) =
     rbind (walk_ns mt lookup pre p xs) (\<lambda>(ret, r). case r of None \<Rightarrow> Inr (ret, None) | Some q \<Rightarrow> walk_ns mt lookup (pre @ xs) q ys)"
  by (induction mt lookup pre p xs rule: walk_ns.induct) (auto simp: rbind_def split: option.splits sum.splits)

lemma walk_ns_nothing_mounted: "walk_ns (\<lambda>_. None) (lookup s) pre p xs = walk_names lookup s p xs"
  by (induction xs arbitrary: pre p) (auto simp: rbind_def split: sum.splits option.splits)

text \<open>Mounting at a place that was not passed through changes no walk.\<close>

lemma walk_ns_mount:
  assumes "\<forall>k \<le> length xs. k \<noteq> 0 \<longrightarrow> pre @ take k xs \<noteq> ms"
  shows "walk_ns (mt(ms \<mapsto> q)) lookup pre p xs = walk_ns mt lookup pre p xs"
  using assms
proof (induction xs arbitrary: pre p)
  case (Cons x xs)
  have "pre @ [x] \<noteq> ms" using Cons.prems [rule_format, of "Suc 0"] by simp
  moreover have "\<forall>k \<le> length xs. k \<noteq> 0 \<longrightarrow> (pre @ [x]) @ take k xs \<noteq> ms" using Cons.prems by (metis Suc_le_mono append.assoc append_Cons append_Nil length_Cons nat.distinct(1) take_Suc_Cons)
  ultimately show ?case using Cons.IH by (auto simp: rbind_def split: option.splits sum.splits)
qed simp

subsection \<open>Places\<close>

text \<open>The names a node may have.\<close>

definition proper :: "string \<Rightarrow> bool" where
  "proper x \<longleftrightarrow> plain x \<and> x \<noteq> ''.'' \<and> x \<noteq> ''..''"

text \<open>A node that belongs to a file system; a node without one is not part of any tree.\<close>

definition attached :: "('s, 'i) Virtual \<Rightarrow> nat \<Rightarrow> 'i NodeCache \<Rightarrow> bool" where
  "attached v i n \<longleftrightarrow> v_nodes v i = Some n \<and> n_fsi n \<noteq> None"

lemma attached_functional: "attached v i n \<Longrightarrow> attached v i m \<Longrightarrow> m = n"
  by (simp add: attached_def)

inductive placed :: "('s, 'i) Virtual \<Rightarrow> nat \<Rightarrow> string list \<Rightarrow> nat \<Rightarrow> bool" for v where
  placed_root: "attached v i n \<Longrightarrow> n_Parent n = None \<Longrightarrow> placed v i [] i"
| placed_child: "placed v p ns r \<Longrightarrow> attached v i n \<Longrightarrow> n_Parent n = Some p \<Longrightarrow> placed v i (ns @ [n_Name n]) r"

inductive_cases placed_NilE: "placed v i [] r"
inductive_cases placed_snocE: "placed v i (ns @ [x]) r"

definition node_ok :: "('s, 'i) Virtual \<Rightarrow> nat \<Rightarrow> 'i NodeCache \<Rightarrow> bool" where
  "node_ok v i n \<longleftrightarrow>
     (case n_Parent n of
        None \<Rightarrow> n_Path n = ''/''
      | Some p \<Rightarrow> p < i \<and> proper (n_Name n) \<and>
          (\<exists>q. attached v p q \<and> i \<in> set (n_Children q) \<and> n_Path n = extend_path (n_Path q) (n_Name n))) \<and>
     (\<forall>c \<in> set (n_Children n). \<exists>m. attached v c m \<and> n_Parent m = Some i) \<and>
     inj_on (\<lambda>c. n_Name (the (v_nodes v c))) (set (n_Children n))"

definition tree_ok :: "('s, 'i) Virtual \<Rightarrow> bool" where
  "tree_ok v \<longleftrightarrow> (\<forall>i n. v_nodes v i = Some n \<longrightarrow> i < v_next v) \<and> (\<forall>i n. attached v i n \<longrightarrow> node_ok v i n)"

lemma tree_node:
  assumes "tree_ok v" "attached v i n"
  shows "i < v_next v" "n_Parent n = None \<Longrightarrow> n_Path n = ''/''"
    "c \<in> set (n_Children n) \<Longrightarrow> \<exists>m. attached v c m \<and> n_Parent m = Some i"
    "n_Parent n = Some p \<Longrightarrow> p < i \<and> proper (n_Name n) \<and> (\<exists>q. attached v p q \<and> i \<in> set (n_Children q) \<and> n_Path n = extend_path (n_Path q) (n_Name n))"
    "inj_on (\<lambda>c. n_Name (the (v_nodes v c))) (set (n_Children n))"
proof -
  have "node_ok v i n" using assms by (simp add: tree_ok_def)
  then show "n_Parent n = None \<Longrightarrow> n_Path n = ''/''" "c \<in> set (n_Children n) \<Longrightarrow> \<exists>m. attached v c m \<and> n_Parent m = Some i"
    "n_Parent n = Some p \<Longrightarrow> p < i \<and> proper (n_Name n) \<and> (\<exists>q. attached v p q \<and> i \<in> set (n_Children q) \<and> n_Path n = extend_path (n_Path q) (n_Name n))"
    "inj_on (\<lambda>c. n_Name (the (v_nodes v c))) (set (n_Children n))"
    by (auto simp: node_ok_def)
  show "i < v_next v" using assms by (auto simp: tree_ok_def attached_def)
qed

lemma same_name:
  assumes "tree_ok v" "attached v i n" "attached v j m" "n_Parent n = Some p" "n_Parent m = Some p" "n_Name n = n_Name m"
  shows "i = j"
proof -
  obtain q where q: "attached v p q" "i \<in> set (n_Children q)" "j \<in> set (n_Children q)"
    using tree_node(4) [OF assms(1,2,4)] tree_node(4) [OF assms(1,3,5)] by (auto dest: attached_functional)
  from inj_onD [OF tree_node(5) [OF assms(1) q(1)] _ q(2,3)] show ?thesis using assms(2,3,6) by (simp add: attached_def)
qed

lemma placed_exists:
  assumes "tree_ok v" "attached v i n"
  shows "\<exists>ns r. placed v i ns r"
  using assms(2)
proof (induction i arbitrary: n rule: less_induct)
  case (less i)
  show ?case
  proof (cases "n_Parent n")
    case None
    then show ?thesis using less.prems placed_root by blast
  next
    case (Some p)
    then obtain q ns r where "p < i" "attached v p q" "placed v p ns r" using tree_node(4) [OF assms(1) less.prems] less.IH by blast
    then show ?thesis using placed_child less.prems Some by blast
  qed
qed

lemma placed_live: "placed v i ns r \<Longrightarrow> \<exists>n. attached v i n"
  by (cases rule: placed.cases) auto

lemma placed_is_root: "placed v i ns r \<Longrightarrow> \<exists>n. attached v r n \<and> n_Parent n = None"
  by (induction rule: placed.induct) auto

lemma placed_functional: "placed v i ns r \<Longrightarrow> placed v i ms s \<Longrightarrow> ns = ms \<and> r = s"
proof (induction arbitrary: ms s rule: placed.induct)
  case (placed_root i n)
  from placed_root.prems show ?case using placed_root.hyps by (cases rule: placed.cases) (auto dest: attached_functional)
next
  case (placed_child p ns r i n)
  from placed_child.prems show ?case using placed_child.hyps(2,3) placed_child.IH by (cases rule: placed.cases) (auto dest: attached_functional)
qed

lemma placed_unique: "tree_ok v \<Longrightarrow> placed v i ns r \<Longrightarrow> placed v j ns r \<Longrightarrow> i = j"
proof (induction ns arbitrary: i j rule: rev_induct)
  case Nil
  then show ?case by (auto elim!: placed_NilE)
next
  case (snoc x ns)
  obtain p n where p: "placed v p ns r" "attached v i n" "n_Parent n = Some p" "n_Name n = x" using snoc.prems(2) by (auto elim: placed_snocE)
  obtain q m where q: "placed v q ns r" "attached v j m" "n_Parent m = Some q" "n_Name m = x" using snoc.prems(3) by (auto elim: placed_snocE)
  have "p = q" using snoc.IH snoc.prems(1) p(1) q(1) by blast
  then show ?case using same_name [OF snoc.prems(1) p(2) q(2)] p q by simp
qed

lemma join_segs_Nil: "\<forall>x \<in> set ns. x \<noteq> [] \<Longrightarrow> join_segs ns = [] \<longleftrightarrow> ns = []"
  by (cases ns rule: join_segs.cases) auto

lemma extend_path_join:
  assumes "\<forall>x \<in> set ns. proper x"
  shows "extend_path (CHR ''/'' # join_segs ns) x = CHR ''/'' # join_segs (ns @ [x])"
  using join_segs_Nil [of ns] join_segs_snoc [of ns x] assms by (auto simp: extend_path_def proper_def plain_def)

lemma placed_path:
  assumes "tree_ok v"
  shows "placed v i ns r \<Longrightarrow> attached v i n \<Longrightarrow> n_Path n = CHR ''/'' # join_segs ns \<and> (\<forall>x \<in> set ns. proper x)"
proof (induction arbitrary: n rule: placed.induct)
  case (placed_root i m)
  then have "m = n" by (auto dest: attached_functional)
  then show ?case using placed_root tree_node(2) [OF assms] by simp
next
  case (placed_child p ns r i m)
  have "m = n" using placed_child.hyps(2) placed_child.prems by (auto dest: attached_functional)
  then obtain q where "attached v p q" "n_Path n = extend_path (n_Path q) (n_Name n)" "proper (n_Name n)"
    using tree_node(4) [OF assms placed_child.prems] placed_child.hyps(3) by auto
  then show ?case using placed_child.IH \<open>m = n\<close> extend_path_join by auto
qed

lemma placed_to_root:
  assumes "tree_ok v"
  shows "placed v i ns r \<Longrightarrow> i < k \<Longrightarrow> to_root k v i = Inr r"
proof (induction arbitrary: k rule: placed.induct)
  case (placed_root i n)
  then show ?case by (cases k) (auto simp: vfs_node_def attached_def)
next
  case (placed_child p ns r i n)
  then obtain k' where "k = Suc k'" "p < k'" using tree_node(4) [OF assms, of i n p] by (cases k) auto
  then show ?case using placed_child by (auto simp: vfs_node_def attached_def)
qed

subsection \<open>Growth\<close>

text \<open>A new node below \<open>p\<close>, under a name no child of \<open>p\<close> has.\<close>

definition added :: "nat \<Rightarrow> 'i NodeCache \<Rightarrow> 'i NodeCache \<Rightarrow> ('s, 'i) Virtual \<Rightarrow> ('s, 'i) Virtual \<Rightarrow> bool" where
  "added p pn n v v' \<longleftrightarrow> attached v p pn \<and>
     v_nodes v' = (v_nodes v)(v_next v \<mapsto> n, p \<mapsto> pn\<lparr>n_Children := n_Children pn @ [v_next v]\<rparr>) \<and> v_next v' = Suc (v_next v) \<and>
     n_Parent n = Some p \<and> n_Children n = [] \<and> n_fsi n \<noteq> None \<and> proper (n_Name n) \<and> n_Path n = extend_path (n_Path pn) (n_Name n) \<and>
     (\<forall>c m. c \<in> set (n_Children pn) \<longrightarrow> v_nodes v c = Some m \<longrightarrow> n_Name m \<noteq> n_Name n)"

lemma added_nodes:
  assumes "tree_ok v" "added p pn n v v'"
  shows "p < v_next v" "v_nodes v (v_next v) = None"
    "attached v' i m \<longleftrightarrow> (if i = v_next v then m = n else if i = p then m = pn\<lparr>n_Children := n_Children pn @ [v_next v]\<rparr> else attached v i m)"
proof -
  show p: "p < v_next v" using assms tree_node(1) by (auto simp: added_def)
  show "v_nodes v (v_next v) = None" using assms(1) unfolding tree_ok_def by (metis less_irrefl not_None_eq)
  show "attached v' i m \<longleftrightarrow> (if i = v_next v then m = n else if i = p then m = pn\<lparr>n_Children := n_Children pn @ [v_next v]\<rparr> else attached v i m)"
    using assms(2) p by (auto simp: added_def attached_def)
qed

text \<open>The nodes that were there before keep everything but their children.\<close>

definition grows :: "('s, 'i) Virtual \<Rightarrow> ('s, 'i) Virtual \<Rightarrow> bool" where
  "grows v v' \<longleftrightarrow> (\<forall>i n. v_nodes v i = Some n \<longrightarrow> (\<exists>cs. v_nodes v' i = Some (n\<lparr>n_Children := cs\<rparr>)))"

lemma grows_refl [simp]: "grows v v"
  unfolding grows_def by (metis NodeCache.surjective NodeCache.update_convs(8))

lemma grows_trans: "grows v w \<Longrightarrow> grows w u \<Longrightarrow> grows v u"
  unfolding grows_def by (metis NodeCache.fold_congs(8) NodeCache.unfold_congs(8) NodeCache.surjective NodeCache.update_convs(8))

lemma grows_attached:
  assumes "grows v v'" "attached v i n"
  shows "\<exists>cs. attached v' i (n\<lparr>n_Children := cs\<rparr>)"
  using assms by (fastforce simp: grows_def attached_def)

lemma grows_placed: "placed v i ns r \<Longrightarrow> grows v v' \<Longrightarrow> placed v' i ns r"
proof (induction rule: placed.induct)
  case (placed_root i n)
  from grows_attached [OF placed_root(3,1)] obtain cs where "attached v' i (n\<lparr>n_Children := cs\<rparr>)" by blast
  then show ?case using placed.placed_root placed_root(2) by fastforce
next
  case (placed_child p ns r i n)
  from grows_attached [OF placed_child.prems placed_child.hyps(2)] obtain cs where "attached v' i (n\<lparr>n_Children := cs\<rparr>)" by blast
  from placed.placed_child [OF placed_child.IH [OF placed_child.prems] this] show ?case using placed_child.hyps(3) by simp
qed

lemma added_grows:
  assumes "tree_ok v" "added p pn n v v'"
  shows "grows v v'"
  unfolding grows_def
proof (intro allI impI)
  fix i m assume i: "v_nodes v i = Some m"
  then have "i \<noteq> v_next v" using added_nodes(2) [OF assms] by auto
  moreover have "v_nodes v p = Some pn" using assms(2) by (simp add: added_def attached_def)
  moreover have "m = m\<lparr>n_Children := n_Children m\<rparr>" by simp
  ultimately show "\<exists>cs. v_nodes v' i = Some (m\<lparr>n_Children := cs\<rparr>)" using i assms(2) by (auto simp: added_def intro: exI [of _ "n_Children m"])
qed

lemma added_placed_new: "tree_ok v \<Longrightarrow> added p pn n v v' \<Longrightarrow> placed v p ns r \<Longrightarrow> placed v' (v_next v) (ns @ [n_Name n]) r"
  using added_nodes(1,3) [of v p pn n v'] by (intro placed_child [OF grows_placed [OF _ added_grows]]) (auto simp: added_def)

lemma added_placed:
  assumes "tree_ok v" "added p pn n v v'"
  shows "placed v' i ns r \<Longrightarrow> placed v i ns r \<or> (\<exists>ms. i = v_next v \<and> ns = ms @ [n_Name n] \<and> placed v p ms r)"
proof (induction rule: placed.induct)
  case (placed_root i m)
  then show ?case using added_nodes(3) [OF assms, of i m] assms(2) placed.placed_root by (fastforce simp: added_def split: if_splits)
next
  case (placed_child q ns r i m)
  have q: "placed v q ns r" if "q \<noteq> v_next v" using placed_child.IH that by blast
  have "q \<noteq> v_next v"
  proof
    assume "q = v_next v"
    then have "i \<noteq> v_next v" "i \<noteq> p \<Longrightarrow> attached v i m" "i = p \<Longrightarrow> n_Parent pn = Some (v_next v)"
      using placed_child.hyps(2,3) added_nodes(1,3) [OF assms] assms(2) by (auto simp: added_def split: if_splits)
    moreover have "n_Parent w \<noteq> Some (v_next v)" if "attached v j w" for j w
      using tree_node(1,4) [OF assms(1)] that by (metis less_irrefl)
    ultimately show False using placed_child.hyps(3) \<open>q = v_next v\<close> assms(2) by (metis added_def)
  qed
  with q have q: "placed v q ns r" by blast
  consider "i = v_next v" | "i = p" "i \<noteq> v_next v" | "i \<noteq> p" "i \<noteq> v_next v" by blast
  then show ?case
  proof cases
    case 1
    then show ?thesis using placed_child.hyps(2,3) added_nodes(3) [OF assms] assms(2) q by (auto simp: added_def)
  next
    case 2
    then have m: "m = pn\<lparr>n_Children := n_Children pn @ [v_next v]\<rparr>" using placed_child.hyps(2) added_nodes(3) [OF assms] by auto
    have "attached v i pn" using 2 assms(2) by (simp add: added_def)
    from placed.placed_child [OF q this] show ?thesis using m placed_child.hyps(3) by simp
  next
    case 3
    then show ?thesis using placed.placed_child [OF q] placed_child.hyps(2,3) added_nodes(3) [OF assms] by simp
  qed
qed

lemma added_node_ok:
  assumes "tree_ok v" "added p pn n v v'" and m: "attached v i m" and cs: "(i = p \<and> cs = [v_next v]) \<or> cs = []"
  shows "node_ok v' i (m\<lparr>n_Children := n_Children m @ cs\<rparr>)"
proof -
  note nodes = added_nodes [OF assms(1,2)]
  have a: "attached v p pn" using assms(2) by (simp add: added_def)
  have names: "n_Name (the (v_nodes v' c)) = n_Name (the (v_nodes v c))" if "attached v c m" for c m
    using that nodes(1,2) assms(2) by (auto simp: added_def attached_def)
  have par: "\<exists>q'. attached v' j q' \<and> set (n_Children q) \<subseteq> set (n_Children q') \<and> n_Path q' = n_Path q" if "attached v j q" for j q
    using that nodes a by (cases "j = p") (auto simp: attached_def)
  have "\<exists>w. attached v' c w \<and> n_Parent w = Some i" if "c \<in> set (n_Children m)" for c
    using tree_node(3) [OF assms(1) m that] grows_attached [OF added_grows [OF assms(1,2)], of c] by fastforce
  moreover have "inj_on (\<lambda>c. n_Name (the (v_nodes v' c))) (set (n_Children m @ cs))"
  proof -
    have "inj_on (\<lambda>c. n_Name (the (v_nodes v' c))) (set (n_Children m))"
      using tree_node(5) [OF assms(1) m] names tree_node(3) [OF assms(1) m] by (metis (mono_tags, lifting) inj_on_cong)
    moreover have "n_Name (the (v_nodes v' c)) \<noteq> n_Name n" if c: "c \<in> set (n_Children m)" "cs \<noteq> []" for c
    proof -
      obtain w where w: "attached v c w" using tree_node(3) [OF assms(1) m c(1)] by blast
      have "m = pn" "i = p" using cs c(2) m a by (auto dest: attached_functional)
      then show ?thesis using assms(2) w c(1) names [OF w] by (auto simp: added_def attached_def)
    qed
    moreover have "n_Name (the (v_nodes v' (v_next v))) = n_Name n" using assms(2) nodes(1) by (auto simp: added_def)
    ultimately show ?thesis using cs by (auto, blast)
  qed
  moreover have "\<exists>w. attached v' c w \<and> n_Parent w = Some i" if "c \<in> set cs" for c
    using that cs nodes(1,3) assms(2) by (auto simp: added_def)
  moreover have "\<exists>q. attached v' p' q \<and> i \<in> set (n_Children q) \<and> n_Path m = extend_path (n_Path q) (n_Name m)" if "n_Parent m = Some p'" for p'
    using tree_node(4) [OF assms(1) m that] par by (metis subset_iff)
  ultimately show ?thesis using tree_node(2,4) [OF assms(1) m] by (auto simp: node_ok_def split: option.splits)
qed

lemma added_tree:
  assumes "tree_ok v" "added p pn n v v'"
  shows "tree_ok v'"
proof -
  note nodes = added_nodes [OF assms]
  have "node_ok v' i m" if m: "attached v' i m" for i m
  proof -
    consider "i = v_next v" "m = n" | "i = p" "m = pn\<lparr>n_Children := n_Children pn @ [v_next v]\<rparr>" | "attached v i m"
      using nodes(3) [of i m] m by metis
    then show ?thesis
    proof cases
      case 1
      then show ?thesis using assms(2) nodes by (auto simp: node_ok_def added_def)
    next
      case 2
      then show ?thesis using added_node_ok [OF assms, of p pn "[v_next v]"] assms(2) by (simp add: added_def)
    next
      case 3
      then show ?thesis using added_node_ok [OF assms 3, of "[]"] by simp
    qed
  qed
  moreover have "i < v_next v'" if "v_nodes v' i = Some m" for i m
    using that assms nodes(1) by (fastforce simp: added_def tree_ok_def split: if_splits)
  ultimately show ?thesis by (simp add: tree_ok_def)
qed

end
