(* ===== verification/VfsLookup.thy ===== *)
theory VfsLookup
  imports VfsTree
begin

section \<open>Lookup through the cache\<close>

text \<open>
  The locale \<open>vfs_store\<close> is what the virtual file system relies on: file systems that keep the contract \<open>inode_store\<close> and
  answer for their own inodes only. Its lemmas show that the cache never lies. A lookup finds what following the names of
  the normalised path in the file systems finds, with the mounted ones in their place; a creation and a mount add one node.
\<close>

subsection \<open>A cache that agrees with the file systems\<close>

text \<open>The file system \<open>f\<close> answers for the inodes it owns.\<close>

definition serves :: "('s \<Rightarrow> 'i \<Rightarrow> string \<Rightarrow> (int \<times> 'i option) res) \<Rightarrow> ('s \<Rightarrow> 'i \<Rightarrow> string \<Rightarrow> u32 \<Rightarrow> (int \<times> 'i option \<times> 's) res) \<Rightarrow>
    ('i \<Rightarrow> nat) \<Rightarrow> ('s, 'i) Virtual \<Rightarrow> bool" where
  "serves lookup create owner v \<longleftrightarrow> (\<forall>f fsi. v_fsis v f = Some fsi \<longrightarrow>
     (\<exists>L C. op_Lookup (f_Ops fsi) = Some L \<and> op_Create (f_Ops fsi) = Some C \<and>
       (\<forall>i x s. owner i = f \<longrightarrow> L i x s = rbind (lookup s i x) (\<lambda>(ret, r). Inr (ret, r, s))) \<and>
       (\<forall>i x mode s. owner i = f \<longrightarrow> C i x mode s = create s i x mode)))"

definition root_inode :: "('s, 'i) Virtual \<Rightarrow> nat \<Rightarrow> 'i" where
  "root_inode v r = n_inode (the (v_nodes v r))"

text \<open>Each node is what its names lead to, and whatever is mounted, at the places \<open>mt\<close>, stays in the cache.\<close>

definition cached :: "('s \<Rightarrow> 'i \<Rightarrow> bool) \<Rightarrow> ('s \<Rightarrow> 'i \<Rightarrow> string \<Rightarrow> (int \<times> 'i option) res) \<Rightarrow> ('i \<Rightarrow> nat) \<Rightarrow> (nat \<Rightarrow> string list \<Rightarrow> 'i option) \<Rightarrow>
    ('s, 'i) Virtual \<Rightarrow> bool" where
  "cached live lookup owner mt v \<longleftrightarrow>
     (\<forall>i n ns r. placed v i ns r \<longrightarrow> attached v i n \<longrightarrow>
        n_fsi n = Some (owner (n_inode n)) \<and> v_fsis v (owner (n_inode n)) \<noteq> None \<and> live (v_fs v) (n_inode n) \<and>
        walk_ns (mt r) (lookup (v_fs v)) [] (root_inode v r) ns = Inr (0, Some (n_inode n))) \<and>
     (\<forall>r ms q. mt r ms = Some q \<longrightarrow> (\<exists>i n. placed v i ms r \<and> attached v i n \<and> n_inode n = q))"

lemma cached_node:
  assumes "cached live lookup owner mt v" "placed v i ns r" "attached v i n"
  shows "n_fsi n = Some (owner (n_inode n))" "v_fsis v (owner (n_inode n)) \<noteq> None" "live (v_fs v) (n_inode n)"
    "walk_ns (mt r) (lookup (v_fs v)) [] (root_inode v r) ns = Inr (0, Some (n_inode n))"
  using assms by (auto simp: cached_def)

lemma cached_mount: "cached live lookup owner mt v \<Longrightarrow> mt r ms = Some q \<Longrightarrow> \<exists>i n. placed v i ms r \<and> attached v i n \<and> n_inode n = q"
  by (simp add: cached_def)

lemma grows_root_inode:
  assumes "grows v v'" "placed v i ns r"
  shows "root_inode v' r = root_inode v r"
proof -
  obtain n where "attached v r n" using placed_is_root [OF assms(2)] by blast
  then show ?thesis using grows_attached [OF assms(1)] by (fastforce simp: root_inode_def attached_def)
qed

text \<open>A new leaf that is what its names lead to.\<close>

lemma cached_added:
  assumes c: "cached live lookup owner mt v" and t: "tree_ok v" and a: "added p pn n v v'" and f: "v_fsis v' = v_fsis v" and p: "placed v p ms r"
    and walks: "\<And>i m ns r'. placed v i ns r' \<Longrightarrow> attached v i m \<Longrightarrow> walk_ns (mt' r') (lookup (v_fs v')) [] (root_inode v r') ns = Inr (0, Some (n_inode m))"
    and new: "walk_ns (mt' r) (lookup (v_fs v')) [] (root_inode v r) (ms @ [n_Name n]) = Inr (0, Some (n_inode n))"
    and live: "live (v_fs v') (n_inode n)" "\<And>q. live (v_fs v) q \<Longrightarrow> live (v_fs v') q"
    and fsi: "n_fsi n = Some (owner (n_inode n))" "v_fsis v (owner (n_inode n)) \<noteq> None"
    and mt: "\<And>r' ms' q. mt' r' ms' = Some q \<Longrightarrow> mt r' ms' = Some q \<or> (r' = r \<and> ms' = ms @ [n_Name n] \<and> q = n_inode n)"
  shows "cached live lookup owner mt' v'"
proof -
  note g = added_grows [OF t a] and nodes = added_nodes [OF t a]
  have n': "attached v' (v_next v) n" using nodes(1,3) by simp
  have "n_fsi m' = Some (owner (n_inode m')) \<and> v_fsis v' (owner (n_inode m')) \<noteq> None \<and> live (v_fs v') (n_inode m') \<and>
      walk_ns (mt' r') (lookup (v_fs v')) [] (root_inode v' r') ns = Inr (0, Some (n_inode m'))"
    if i: "placed v' i ns r'" "attached v' i m'" for i m' ns r'
  proof (cases "placed v i ns r'")
    case True
    then obtain m where m: "attached v i m" using placed_live by blast
    then obtain cs where "m' = m\<lparr>n_Children := cs\<rparr>" using grows_attached [OF g m] i(2) attached_functional by metis
    then show ?thesis using cached_node [OF c True m] walks [OF True m] live(2) f grows_root_inode [OF g True] by simp
  next
    case False
    then have new': "i = v_next v" "ns = ms @ [n_Name n]" "r' = r" using added_placed [OF t a i(1)] placed_functional [OF p] by auto
    then have "m' = n" using n' i(2) attached_functional by metis
    then show ?thesis using new' new live(1) fsi f grows_root_inode [OF g p] by simp
  qed
  moreover have "\<exists>i m. placed v' i ms' r' \<and> attached v' i m \<and> n_inode m = q" if "mt' r' ms' = Some q" for r' ms' q
    using mt [OF that]
  proof
    assume "mt r' ms' = Some q"
    then obtain i m where "placed v i ms' r'" "attached v i m" "n_inode m = q" using cached_mount [OF c] by blast
    then show ?thesis using grows_placed [OF _ g] grows_attached [OF g] by fastforce
  next
    assume "r' = r \<and> ms' = ms @ [n_Name n] \<and> q = n_inode n"
    then show ?thesis using added_placed_new [OF t a p] n' by blast
  qed
  ultimately show ?thesis by (auto simp: cached_def)
qed

subsection \<open>Searching the children of a node\<close>

lemma search_children_find:
  "\<forall>c \<in> set cs. v_nodes v c \<noteq> None \<Longrightarrow> search_children v cs x = Inr (find (\<lambda>c. n_Name (the (v_nodes v c)) = x) cs)"
  by (induction v cs x rule: search_children.induct) (auto simp: vfs_node_def)

lemma CachedSearch_cases:
  assumes "tree_ok v" "attached v i n"
  obtains (hit) c m where "CachedSearch v i x = Inr (Some c, 0)" "attached v c m" "n_Name m = x" "n_Parent m = Some i"
  | (miss) "CachedSearch v i x = Inr (None, ENOENT)" "\<forall>c m. c \<in> set (n_Children n) \<longrightarrow> v_nodes v c = Some m \<longrightarrow> n_Name m \<noteq> x"
proof -
  have ch: "\<exists>m. attached v c m \<and> n_Parent m = Some i" if "c \<in> set (n_Children n)" for c using tree_node(3) [OF assms that] .
  then have s: "CachedSearch v i x = Inr (case find (\<lambda>c. n_Name (the (v_nodes v c)) = x) (n_Children n) of None \<Rightarrow> (None, ENOENT) | Some c \<Rightarrow> (Some c, 0))"
    using assms(2) search_children_find [of "n_Children n" v x] by (fastforce simp: CachedSearch_def vfs_node_def attached_def)
  show ?thesis
  proof (cases "find (\<lambda>c. n_Name (the (v_nodes v c)) = x) (n_Children n)")
    case None
    then have "\<forall>c \<in> set (n_Children n). n_Name (the (v_nodes v c)) \<noteq> x" by (auto simp: find_None_iff)
    then show ?thesis using s None by (intro miss) auto
  next
    case (Some c)
    then have c: "c \<in> set (n_Children n)" "n_Name (the (v_nodes v c)) = x" by (auto simp: find_Some_iff)
    then obtain m where "attached v c m" "n_Parent m = Some i" using ch by blast
    then show ?thesis using s Some c(2) hit by (auto simp: attached_def)
  qed
qed

lemma not_cached_not_mounted:
  assumes "cached live lookup owner mt v" "tree_ok v" "placed v i ns r" "attached v i n"
    "\<forall>c m. c \<in> set (n_Children n) \<longrightarrow> v_nodes v c = Some m \<longrightarrow> n_Name m \<noteq> x"
  shows "mt r (ns @ [x]) = None"
proof (rule ccontr)
  assume "mt r (ns @ [x]) \<noteq> None"
  then obtain j where "placed v j (ns @ [x]) r" using cached_mount [OF assms(1)] by blast
  then obtain p m where j: "placed v p ns r" "attached v j m" "n_Parent m = Some p" "n_Name m = x" by (auto elim: placed_snocE)
  then have "p = i" using placed_unique [OF assms(2) _ assms(3)] by blast
  then have "j \<in> set (n_Children n)" using tree_node(4) [OF assms(2) j(2,3)] assms(4) attached_functional by metis
  then show False using assms(5) j(2,4) by (auto simp: attached_def)
qed

subsection \<open>Names that are proper\<close>

lemma resolve_proper: "\<forall>x \<in> set xs. proper x \<Longrightarrow> resolve True stack xs = rev stack @ xs"
  by (induction xs arbitrary: stack) (auto simp: proper_def)

lemma segs_proper: "\<forall>x \<in> set ns. proper x \<Longrightarrow> segs CWK_STYLE_UNIX (CHR ''/'' # join_segs ns) = ns"
  using segs_join [of ns] by (auto simp: segs_separator proper_def)

lemma path_names_absolute: "\<forall>x \<in> set ns. proper x \<Longrightarrow> path_names base (CHR ''/'' # join_segs ns) = ns"
  using segs_proper [of ns] resolve_proper [of ns "[]"] by (simp add: path_names_def char_at_def)

lemma path_names_child:
  assumes "\<forall>x \<in> set ns. proper x" "proper x"
  shows "path_names (CHR ''/'' # join_segs ns) x = ns @ [x]"
proof -
  have "char_at x 0 \<noteq> CHR ''/''" using assms(2) by (cases x) (auto simp: proper_def plain_def char_at_def)
  moreover have "segs CWK_STYLE_UNIX x = [x]" using assms(2) segs_plain [of x] by (simp add: proper_def)
  ultimately show ?thesis using segs_proper [OF assms(1)] resolve_proper [of "ns @ [x]" "[]"] assms by (simp add: path_names_def)
qed

lemma join_segs_NUL: "\<forall>x \<in> set ns. proper x \<Longrightarrow> NUL \<notin> set (CHR ''/'' # join_segs ns)"
  using join_segs_set [of ns] by (auto simp: proper_def plain_def)

lemma NormalizePath_absolute:
  assumes "v_nodes v p = Some q" "n_Path q = CHR ''/'' # join_segs ms" "\<forall>x \<in> set ms. proper x" "\<forall>x \<in> set ns. proper x"
  shows "NormalizePath v p (CHR ''/'' # join_segs ns) False = Inr (CHR ''/'' # join_segs ns)"
  using NormalizePath_names [OF assms(1), of "CHR ''/'' # join_segs ns"] join_segs_NUL [OF assms(3)] join_segs_NUL [OF assms(4)]
    path_names_absolute [OF assms(4)] assms(2) by (simp add: PathIsAbsolute_iff char_at_def)

subsection \<open>Following names\<close>

text \<open>What a lookup changes: the nodes of the cache.\<close>

definition refills :: "('s, 'i) Virtual \<Rightarrow> ('s, 'i) Virtual \<Rightarrow> bool" where
  "refills v v' \<longleftrightarrow> grows v v' \<and> v' = v\<lparr>v_nodes := v_nodes v', v_next := v_next v'\<rparr>"

lemma refills_refl [simp]: "refills v v"
  by (simp add: refills_def)

lemma refills_eq:
  assumes "refills v v'"
  shows "grows v v'" "v_fs v' = v_fs v" "v_fsis v' = v_fsis v" "v_deref v' = v_deref v" "v_Roots v' = v_Roots v" "v_FileSystems v' = v_FileSystems v"
  using assms unfolding refills_def by (metis Virtual.select_convs Virtual.update_convs Virtual.surjective)+

lemma refills_trans:
  assumes "refills v w" "refills w u"
  shows "refills v u"
  using assms refills_eq [OF assms(1)] refills_eq [OF assms(2)] grows_trans by (simp add: refills_def)

text \<open>Making a node for a name the cache does not have.\<close>

lemma lookup_segment_miss:
  assumes "tree_ok v" "attached v i n" "proper x" "CachedSearch v i x = Inr (None, ENOENT)"
    "\<forall>c m. c \<in> set (n_Children n) \<longrightarrow> v_nodes v c = Some m \<longrightarrow> n_Name m \<noteq> x"
    "node_fsi v n = Inr fsi" "op_Lookup (f_Ops fsi) = Some L" "L (n_inode n) x (v_fs v) = Inr (0, Some j, v_fs v)"
  defines "nn \<equiv> (new_cache j)\<lparr>n_fsi := n_fsi n, n_Parent := Some i, n_Name := x, n_Path := extend_path (n_Path n) x\<rparr>"
  shows "\<exists>v'. lookup_segment i (n_Path n) x v = Inr (Inr (v_next v), v') \<and> added i n nn v v' \<and> v' = v\<lparr>v_nodes := v_nodes v', v_next := v_next v'\<rparr>"
proof -
  have i: "i < v_next v" by (rule tree_node(1) [OF assms(1,2)])
  show ?thesis using assms i
    by (simp add: lookup_segment_def eNode_ok_def ENOENT_def vfs_node_def attached_def Convert_child_def Let_def vfs_put_def added_def new_cache_def fun_upd_twist)
qed

subsection \<open>Where a lookup starts\<close>

lemma resolve_proper_append: "\<forall>x \<in> set xs. proper x \<Longrightarrow> resolve True stack (xs @ ys) = resolve True (rev xs @ stack) ys"
  by (induction xs arbitrary: stack) (auto simp: proper_def)

text \<open>The two names \<open>Lookup\<close> answers at once.\<close>

lemma lookup_dots:
  assumes t: "tree_ok v" and i: "placed v i ns r" "attached v i n" and dots: "Path = ''.'' \<or> Path = ''..''"
  shows "\<exists>c. Lookup (Some i) Path v = Inr ((Some c, 0), v) \<and> placed v c (path_names (n_Path n) Path) r"
proof -
  have p: "n_Path n = CHR ''/'' # join_segs ns" "\<forall>x \<in> set ns. proper x" using placed_path [OF t i] by blast+
  have s: "segs CWK_STYLE_UNIX Path = [Path]" using dots by (auto simp: segs_plain plain_def)
  have "path_names (n_Path n) Path = resolve True [] (ns @ [Path])"
    unfolding path_names_def p(1) segs_proper [OF p(2)] s using dots by (auto simp: char_at_def)
  also have "\<dots> = resolve True (rev ns) [Path]" using resolve_proper_append [OF p(2), of "[]" "[Path]"] by simp
  also have "\<dots> = (if Path = ''.'' then ns else butlast ns)" using dots p(2) by (cases ns rule: rev_cases) (auto simp: proper_def)
  finally have names: "path_names (n_Path n) Path = (if Path = ''.'' then ns else butlast ns)" .
  have live: "vfs_node v i = Inr n" using i(2) by (simp add: vfs_node_def attached_def)
  show ?thesis
  proof (cases "Path = ''.''")
    case True
    then show ?thesis using names i(1) live by (simp add: Lookup_def)
  next
    case False
    from i(1) show ?thesis
    proof (cases rule: placed.cases)
      case (placed_root m)
      then have "n_Parent n = None" using i(2) attached_functional by blast
      then show ?thesis using names False dots live i(1) placed_root by (simp add: Lookup_def)
    next
      case (placed_child q ms m)
      then have "n_Parent n = Some q" using i(2) attached_functional by blast
      then show ?thesis using names False dots live placed_child by (simp add: Lookup_def)
    qed
  qed
qed

text \<open>Every other path: normalised, from the root on.\<close>

lemma lookup_starts:
  assumes t: "tree_ok v" and i: "placed v i ns r" "attached v i n" and nul: "NUL \<notin> set Path" and dots: "Path \<noteq> ''.''" "Path \<noteq> ''..''"
  defines "names \<equiv> path_names (n_Path n) Path"
  shows "\<forall>x \<in> set names. proper x"
    "names \<noteq> [] \<Longrightarrow> \<exists>seg rn. at_seg CWK_STYLE_UNIX (CHR ''/'' # join_segs names) 0 seg \<and> attached v r rn \<and> placed v r [] r \<and>
      Lookup (Some i) Path v = lookup_loop r (n_Path rn) seg v"
    "names = [] \<Longrightarrow> Lookup (Some i) Path v = Inr ((Some (if PathIsAbsolute Path then r else i), 0), v)"
proof -
  let ?P = "CHR ''/'' # join_segs names"
  have p: "n_Path n = CHR ''/'' # join_segs ns" "\<forall>x \<in> set ns. proper x" using placed_path [OF t i] by blast+
  show pr: "\<forall>x \<in> set names. proper x"
    using path_names_plain [of "n_Path n" Path] join_segs_NUL [OF p(2)] nul p(1) by (auto simp: names_def proper_def)
  obtain rn where rn: "attached v r rn" "n_Parent rn = None" using placed_is_root [OF i(1)] by blast
  have r: "placed v r [] r" by (rule placed_root [OF rn])
  have rp: "n_Path rn = ''/''" by (rule tree_node(2) [OF t rn])
  have live: "vfs_node v i = Inr n" "vfs_node v r = Inr rn" using i(2) rn(1) by (simp_all add: vfs_node_def attached_def)
  have up: "to_root (Suc (v_next v)) v j = Inr r" if "placed v j ms r" for j ms
    using placed_to_root [OF t that] placed_live [OF that] tree_node(1) [OF t] by (metis less_SucI)
  define base where "base = (if PathIsAbsolute Path then r else i)"
  define bn where "bn = (if PathIsAbsolute Path then rn else n)"
  have bn: "v_nodes v base = Some bn" "n_Path bn = (if PathIsAbsolute Path then ''/'' else n_Path n)"
    using i(2) rn(1) rp by (simp_all add: base_def bn_def attached_def)
  have "NormalizePath v base Path (\<not> PathIsAbsolute Path) = Inr (CHR ''/'' # join_segs (path_names (n_Path bn) Path))"
    by (rule NormalizePath_names [OF bn(1)]) (use bn(2) p(1) join_segs_NUL [OF p(2)] nul in \<open>auto simp: char_at_def\<close>)
  moreover have "path_names (n_Path bn) Path = names" using bn(2) by (auto simp: names_def path_names_def PathIsAbsolute_iff)
  ultimately have nf: "NormalizePath v base Path (\<not> PathIsAbsolute Path) = Inr ?P" by simp
  obtain found seg where fs: "cwk_path_get_first_segment CWK_STYLE_UNIX ?P = (found, seg)" by fastforce
  note first = first_segment_at [OF root_unix fs [unfolded cwk_path_get_first_segment_def]]
  have ne: "segpos CWK_STYLE_UNIX ?P 0 = [] \<longleftrightarrow> names = []" using segs_proper [OF pr] segs_Nil [of CWK_STYLE_UNIX ?P] by simp
  have base: "(if PathIsAbsolute Path then to_root (Suc (v_next v)) v i else Inr i) = Inr base" using up [OF i(1)] by (simp add: base_def)
  show "names = [] \<Longrightarrow> Lookup (Some i) Path v = Inr ((Some (if PathIsAbsolute Path then r else i), 0), v)"
    using live dots nf fs first(1) ne base by (simp add: Lookup_def Let_def base_def)
  assume "names \<noteq> []"
  moreover have "(if \<not> PathIsAbsolute Path then to_root (Suc (v_next v)) v base else Inr base) = Inr r" using up [OF i(1)] by (simp add: base_def)
  ultimately have "Lookup (Some i) Path v = lookup_loop r (n_Path rn) seg v"
    using live dots nf fs first(1) ne base rp by (simp add: Lookup_def Let_def)
  then show "\<exists>seg rn. at_seg CWK_STYLE_UNIX ?P 0 seg \<and> attached v r rn \<and> placed v r [] r \<and> Lookup (Some i) Path v = lookup_loop r (n_Path rn) seg v"
    using first ne \<open>names \<noteq> []\<close> rn(1) r by blast
qed

subsection \<open>The contract and its client\<close>

locale vfs_store = inode_store good room live plain lookup create
  for good :: "'s \<Rightarrow> bool" and room :: "nat \<Rightarrow> 's \<Rightarrow> bool" and live :: "'s \<Rightarrow> 'i \<Rightarrow> bool"
    and lookup :: "'s \<Rightarrow> 'i \<Rightarrow> string \<Rightarrow> (int \<times> 'i option) res"
    and create :: "'s \<Rightarrow> 'i \<Rightarrow> string \<Rightarrow> u32 \<Rightarrow> (int \<times> 'i option \<times> 's) res" +
  fixes owner :: "'i \<Rightarrow> nat"
  assumes lookup_owner: "lookup s p x = Inr (0, Some i) \<Longrightarrow> owner i = owner p"
    and create_owner: "create s p x mode = Inr (0, Some i, s') \<Longrightarrow> owner i = owner p"
begin

definition vfs_ok :: "(nat \<Rightarrow> string list \<Rightarrow> 'i option) \<Rightarrow> ('s, 'i) Virtual \<Rightarrow> bool" where
  "vfs_ok mt v \<longleftrightarrow> good (v_fs v) \<and> tree_ok v \<and> serves lookup create owner v \<and> cached live lookup owner mt v"

lemma served:
  assumes "vfs_ok mt v" "placed v i ns r" "attached v i n"
  obtains fsi L C where "node_fsi v n = Inr fsi" "op_Lookup (f_Ops fsi) = Some L" "op_Create (f_Ops fsi) = Some C"
    "L (n_inode n) x s = rbind (lookup s (n_inode n) x) (\<lambda>(ret, r). Inr (ret, r, s))" "C (n_inode n) x mode s = create s (n_inode n) x mode"
proof -
  have c: "cached live lookup owner mt v" "serves lookup create owner v" using assms(1) by (simp_all add: vfs_ok_def)
  obtain fsi where fsi: "v_fsis v (owner (n_inode n)) = Some fsi" using cached_node(2) [OF c(1) assms(2,3)] by blast
  then have "node_fsi v n = Inr fsi" using cached_node(1) [OF c(1) assms(2,3)] by (simp add: node_fsi_def)
  then show ?thesis using that c(2) [unfolded serves_def, rule_format, OF fsi] by blast
qed

text \<open>What following more names from a node finds.\<close>

lemma walk_from:
  assumes "vfs_ok mt v" "placed v i ns r" "attached v i n"
  shows "walk_ns (mt r) (lookup (v_fs v)) [] (root_inode v r) (ns @ xs) = walk_ns (mt r) (lookup (v_fs v)) ns (n_inode n) xs"
  using cached_node(4) [of live lookup owner mt v i ns r n] assms by (simp add: walk_ns_append vfs_ok_def)

lemma segment_new:
  assumes ok: "vfs_ok mt v" and i: "placed v i ns r" "attached v i n" and x: "proper x"
    and miss: "CachedSearch v i x = Inr (None, ENOENT)" "\<forall>c m. c \<in> set (n_Children n) \<longrightarrow> v_nodes v c = Some m \<longrightarrow> n_Name m \<noteq> x"
    and j: "live (v_fs v) j" "lookup (v_fs v) (n_inode n) x = Inr (0, Some j)"
  obtains c m v' where "lookup_segment i (n_Path n) x v = Inr (Inr c, v')" "vfs_ok mt v'" "refills v v'" "placed v' c (ns @ [x]) r" "attached v' c m" "n_inode m = j"
proof -
  have t: "tree_ok v" and c: "cached live lookup owner mt v" and g: "good (v_fs v)" and s: "serves lookup create owner v" using ok by (simp_all add: vfs_ok_def)
  obtain fsi L C where f: "node_fsi v n = Inr fsi" "op_Lookup (f_Ops fsi) = Some L"
    "L (n_inode n) x (v_fs v) = rbind (lookup (v_fs v) (n_inode n) x) (\<lambda>(ret, r). Inr (ret, r, v_fs v))" by (rule served [OF ok i])
  let ?nn = "(new_cache j)\<lparr>n_fsi := n_fsi n, n_Parent := Some i, n_Name := x, n_Path := extend_path (n_Path n) x\<rparr>"
  obtain v' where v': "lookup_segment i (n_Path n) x v = Inr (Inr (v_next v), v')" "added i n ?nn v v'" "v' = v\<lparr>v_nodes := v_nodes v', v_next := v_next v'\<rparr>"
    using lookup_segment_miss [OF t i(2) x miss f(1,2)] f(3) j(2) by auto
  have w: "walk_ns (mt r) (lookup (v_fs v)) ns (n_inode n) [x] = Inr (0, Some j)" using not_cached_not_mounted [OF c t i miss(2)] j(2) by simp
  have fs: "v_fs v' = v_fs v" "v_fsis v' = v_fsis v" using v'(3) by (metis Virtual.select_convs Virtual.update_convs Virtual.surjective)+
  have o: "owner j = owner (n_inode n)" by (rule lookup_owner [OF j(2)])
  have "cached live lookup owner mt v'"
    by (rule cached_added [OF c t v'(2) fs(2) i(1)])
      (use cached_node [OF c] i j(1) w o walk_from [OF ok i, of "[x]"] fs in \<open>auto simp: new_cache_def\<close>)
  then have "vfs_ok mt v'" using g s added_tree [OF t v'(2)] fs by (simp add: vfs_ok_def serves_def)
  moreover have "placed v' (v_next v) (ns @ [x]) r" using added_placed_new [OF t v'(2) i(1)] by (simp add: new_cache_def)
  moreover have "attached v' (v_next v) ?nn" using added_nodes(1,3) [OF t v'(2)] by simp
  moreover have "refills v v'" using added_grows [OF t v'(2)] v'(3) by (simp add: refills_def)
  ultimately show ?thesis using that v'(1) by (simp add: new_cache_def)
qed

lemma segment_walk:
  assumes ok: "vfs_ok mt v" and i: "placed v i ns r" "attached v i n" and x: "proper x"
  obtains (found) c m v' where "lookup_segment i (n_Path n) x v = Inr (Inr c, v')" "vfs_ok mt v'" "refills v v'" "placed v' c (ns @ [x]) r" "attached v' c m"
    "walk_ns (mt r) (lookup (v_fs v)) ns (n_inode n) [x] = Inr (0, Some (n_inode m))"
  | (none) "lookup_segment i (n_Path n) x v = Inr (Inl (- ENOENT), v)" "walk_ns (mt r) (lookup (v_fs v)) ns (n_inode n) [x] = missing"
proof -
  have t: "tree_ok v" and c: "cached live lookup owner mt v" and g: "good (v_fs v)" using ok by (simp_all add: vfs_ok_def)
  have pl: "plain x" using x by (simp add: proper_def)
  show ?thesis
  proof (cases rule: CachedSearch_cases [OF t i(2), of x])
    case (1 d m)
    have d: "placed v d (ns @ [x]) r" using placed_child [OF i(1) 1(2,4)] 1(3) by simp
    have "walk_ns (mt r) (lookup (v_fs v)) ns (n_inode n) [x] = Inr (0, Some (n_inode m))"
      using cached_node(4) [OF c d 1(2)] walk_from [OF ok i, of "[x]"] by simp
    moreover have "lookup_segment i (n_Path n) x v = Inr (Inr d, v)" using 1(1) by (simp add: lookup_segment_def eNode_ok_def)
    ultimately show ?thesis using found ok d 1(2) by simp
  next
    case 2
    note miss = this and nm = not_cached_not_mounted [OF c t i this(2)]
    obtain fsi L C where f: "node_fsi v n = Inr fsi" "op_Lookup (f_Ops fsi) = Some L"
      "L (n_inode n) x (v_fs v) = rbind (lookup (v_fs v) (n_inode n) x) (\<lambda>(ret, r). Inr (ret, r, v_fs v))" by (rule served [OF ok i])
    consider "lookup (v_fs v) (n_inode n) x = missing" | j where "live (v_fs v) j" "lookup (v_fs v) (n_inode n) x = Inr (0, Some j)"
      using lookup_cases [OF g cached_node(3) [OF c i] pl] by blast
    then show ?thesis
    proof cases
      case 1
      then show ?thesis using none nm miss(1) f i(2)
        by (simp add: lookup_segment_def eNode_ok_def vfs_node_def attached_def missing_def ENOENT_def)
    next
      case (2 j)
      obtain d m v' where "lookup_segment i (n_Path n) x v = Inr (Inr d, v')" "vfs_ok mt v'" "refills v v'" "placed v' d (ns @ [x]) r" "attached v' d m" "n_inode m = j"
        by (rule segment_new [OF ok i x miss 2])
      then show ?thesis using found nm 2(2) by simp
    qed
  qed
qed

text \<open>The loop over the segments of a path from the \<open>j\<close>-th on.\<close>

lemma loop_walk:
  assumes "at_seg CWK_STYLE_UNIX p j seg" "vfs_ok mt v" "placed v i ns r" "attached v i n" "\<forall>x \<in> set (segs CWK_STYLE_UNIX p). proper x"
  defines "xs \<equiv> drop j (segs CWK_STYLE_UNIX p)"
  shows "(\<exists>c m v'. lookup_loop i (n_Path n) seg v = Inr ((Some c, 0), v') \<and> vfs_ok mt v' \<and> refills v v' \<and> placed v' c (ns @ xs) r \<and> attached v' c m \<and>
      walk_ns (mt r) (lookup (v_fs v)) ns (n_inode n) xs = Inr (0, Some (n_inode m))) \<or>
    (\<exists>v'. lookup_loop i (n_Path n) seg v = Inr ((None, - ENOENT), v') \<and> vfs_ok mt v' \<and> refills v v' \<and>
      walk_ns (mt r) (lookup (v_fs v)) ns (n_inode n) xs = missing)"
  using assms(1-5) unfolding xs_def
proof (induction "length (segpos CWK_STYLE_UNIX p 0) - j" arbitrary: j seg v i ns n)
  case 0
  then show ?case by (simp add: at_seg_def)
next
  case (Suc k)
  let ?ss = "segs CWK_STYLE_UNIX p" and ?x = "segment_str seg"
  have j: "j < length ?ss" and x: "?x = ?ss ! j" using Suc.prems(1) by (auto simp: at_seg_def segs_def segment_str_def)
  then have drop: "drop j ?ss = ?x # drop (Suc j) ?ss" by (simp add: Cons_nth_drop_Suc)
  have px: "proper ?x" using Suc.prems(5) j x by simp
  show ?case
  proof (cases rule: segment_walk [OF Suc.prems(2-4) px])
    case (1 c m v')
    have path: "n_Path m = extend_path (n_Path n) ?x"
      using placed_path [of v' c "ns @ [?x]" r m] placed_path [of v i ns r n] 1 Suc.prems(2-4) extend_path_join [of ns ?x]
      by (auto simp: vfs_ok_def)
    have w: "walk_ns (mt r) (lookup (v_fs v)) ns (n_inode n) (drop j ?ss) = walk_ns (mt r) (lookup (v_fs v)) (ns @ [?x]) (n_inode m) (drop (Suc j) ?ss)"
      unfolding drop using walk_ns_append [of "mt r" "lookup (v_fs v)" ns "n_inode n" "[?x]" "drop (Suc j) ?ss"] 1(6) by simp
    show ?thesis
    proof (cases "Suc j < length (segpos CWK_STYLE_UNIX p 0)")
      case True
      obtain seg' where nx: "cwk_path_get_next_segment CWK_STYLE_UNIX seg = Inr (True, seg')" "at_seg CWK_STYLE_UNIX p (Suc j) seg'"
        using next_segment_at(1) [OF Suc.prems(1) True] by blast
      have l: "lookup_loop i (n_Path n) seg v = lookup_loop c (n_Path m) seg' v'" using 1(1) nx(1) path by (subst lookup_loop.simps) simp
      have "k = length (segpos CWK_STYLE_UNIX p 0) - Suc j" using Suc.hyps(2) by simp
      note IH = Suc.hyps(1) [OF this nx(2) 1(2,4,5) Suc.prems(5), unfolded refills_eq(2) [OF 1(3)]]
      have app: "ns @ drop j ?ss = (ns @ [?x]) @ drop (Suc j) ?ss" by (simp add: drop)
      show ?thesis unfolding l w app using IH refills_trans [OF 1(3)] by blast
    next
      case False
      then have "lookup_loop i (n_Path n) seg v = Inr ((Some c, 0), v')" using 1(1) next_segment_at(2) [OF Suc.prems(1)] by (subst lookup_loop.simps) simp
      moreover have "drop (Suc j) ?ss = []" using False by simp
      ultimately show ?thesis using 1 w unfolding drop by auto
    qed
  next
    case 2
    then have "lookup_loop i (n_Path n) seg v = Inr ((None, - ENOENT), v)" by (subst lookup_loop.simps) simp
    moreover have "walk_ns (mt r) (lookup (v_fs v)) ns (n_inode n) (drop j ?ss) = missing"
      unfolding drop using walk_ns_append [of "mt r" "lookup (v_fs v)" ns "n_inode n" "[?x]" "drop (Suc j) ?ss"] 2(2) by (simp add: missing_def)
    ultimately show ?thesis using Suc.prems(2) by auto
  qed
qed

lemma lookup_walk:
  assumes ok: "vfs_ok mt v" and i: "placed v i ns r" "attached v i n" and nul: "NUL \<notin> set Path"
    and root: "PathIsAbsolute Path \<or> path_names (n_Path n) Path \<noteq> []"
  defines "names \<equiv> path_names (n_Path n) Path"
  obtains (found) c m v' where "Lookup (Some i) Path v = Inr ((Some c, 0), v')" "vfs_ok mt v'" "refills v v'" "placed v' c names r" "attached v' c m"
    "walk_ns (mt r) (lookup (v_fs v)) [] (root_inode v r) names = Inr (0, Some (n_inode m))"
  | (none) v' where "Lookup (Some i) Path v = Inr ((None, - ENOENT), v')" "vfs_ok mt v'" "refills v v'"
    "walk_ns (mt r) (lookup (v_fs v)) [] (root_inode v r) names = missing"
proof -
  have t: "tree_ok v" and c: "cached live lookup owner mt v" using ok by (simp_all add: vfs_ok_def)
  have at_once: thesis if "Lookup (Some i) Path v = Inr ((Some d, 0), v)" "placed v d names r" for d
    using placed_live [OF that(2)] cached_node(4) [OF c that(2)] found [OF that(1) ok _ that(2)] by auto
  consider "Path = ''.'' \<or> Path = ''..''" | "Path \<noteq> ''.''" "Path \<noteq> ''..''" "names = []" | "Path \<noteq> ''.''" "Path \<noteq> ''..''" "names \<noteq> []" by blast
  then show thesis
  proof cases
    case 1
    from lookup_dots [OF t i this] at_once show thesis by (auto simp: names_def)
  next
    case 2
    then have "PathIsAbsolute Path" using root by (simp add: names_def)
    moreover have "placed v r [] r" using placed_is_root [OF i(1)] placed_root by blast
    ultimately show thesis using lookup_starts(3) [OF t i nul 2(1,2)] 2(3) at_once [of r] by (simp add: names_def)
  next
    case 3
    note start = lookup_starts [OF t i nul 3(1,2), folded names_def]
    obtain seg rn where s: "at_seg CWK_STYLE_UNIX (CHR ''/'' # join_segs names) 0 seg" "attached v r rn" "placed v r [] r"
      "Lookup (Some i) Path v = lookup_loop r (n_Path rn) seg v" using start(2) [OF 3(3)] by blast
    have ss: "segs CWK_STYLE_UNIX (CHR ''/'' # join_segs names) = names" by (rule segs_proper [OF start(1)])
    have "n_inode rn = root_inode v r" using s(2) by (simp add: root_inode_def attached_def)
    with loop_walk [OF s(1) ok s(3,2)] start(1) show thesis unfolding s(4) [symmetric] ss using found none by auto
  qed
qed

end

end
