(* ===== verification/VfsCreate.thy ===== *)
theory VfsCreate
  imports VfsLookup
begin

section \<open>Creation and mounting\<close>

text \<open>
  A creation adds one inode to a file system and one node to the cache, a mount adds one node; both keep the cache in
  agreement with the file systems, and what was found before is found again.
\<close>

subsection \<open>What the operations add\<close>

lemma only_nodes_and_files:
  fixes v v' :: "('s, 'i) Virtual"
  shows "v' = v\<lparr>v_nodes := v_nodes v', v_next := v_next v', v_fs := v_fs v'\<rparr> \<longleftrightarrow>
    v_Roots v' = v_Roots v \<and> v_FileSystems v' = v_FileSystems v \<and> v_fsis v' = v_fsis v \<and> v_deref v' = v_deref v"
  by (cases v, cases v') auto

lemma child_path_extend: "child_path = extend_path"
  by (intro ext) (simp add: child_path_def extend_path_def)

lemma create_added:
  assumes t: "tree_ok v" and i: "placed v i ns r" "attached v i n" and x: "proper x"
    and names: "\<forall>c m. c \<in> set (n_Children n) \<longrightarrow> v_nodes v c = Some m \<longrightarrow> n_Name m \<noteq> x"
    and look: "Lookup (Some i) x u = Inr ((None, err), v)"
    and ops: "node_fsi v n = Inr fsi" "op_Create (f_Ops fsi) = Some C" "C (n_inode n) x Mode (v_fs v) = Inr (0, Some j, s)"
  defines "nn \<equiv> (new_cache j)\<lparr>n_fsi := n_fsi n, n_Parent := Some i, n_Name := x, n_Path := extend_path (n_Path n) x\<rparr>"
  shows "\<exists>v'. Create (Some i) x Mode e u = Inr ((Some (v_next v), 0), v') \<and> added i n nn v v' \<and> v' = v\<lparr>v_nodes := v_nodes v', v_next := v_next v', v_fs := s\<rparr>"
proof -
  have lt: "i < v_next v" by (rule tree_node(1) [OF t i(2)])
  have p: "n_Path n = CHR ''/'' # join_segs ns" "\<forall>y \<in> set ns. proper y" using placed_path [OF t i] by blast+
  let ?n' = "n\<lparr>n_Children := n_Children n @ [v_next v]\<rparr>"
  let ?w = "v\<lparr>v_nodes := (v_nodes v)(v_next v \<mapsto> (new_cache j)\<lparr>n_fsi := n_fsi n, n_Parent := Some i\<rparr>, i \<mapsto> ?n'), v_next := Suc (v_next v), v_fs := s\<rparr>"
  have conv: "Convert_child i j (v\<lparr>v_fs := s\<rparr>) = Inr (v_next v, ?w)"
    using i(2) by (simp add: Convert_child_def vfs_node_def attached_def vfs_put_def Let_def)
  have norm: "NormalizePath ?w i (child_path (n_Path n) x) False = Inr (extend_path (n_Path n) x)"
    unfolding child_path_extend p(1) extend_path_join [OF p(2)]
    by (rule NormalizePath_absolute [of _ i ?n' ns]) (use p x in auto)
  show ?thesis using look ops conv norm lt i(2) names x
    by (simp add: Create_def eNode_ok_def vfs_node_def attached_def vfs_put_def added_def nn_def new_cache_def fun_upd_twist)
qed

lemma mount_added:
  fixes v :: "('s, 'i) Virtual" and j :: 'i and f :: nat
  assumes t: "tree_ok v" and i: "placed v i ns r" "attached v i n" and x: "proper x"
    and names: "\<forall>c m. c \<in> set (n_Children n) \<longrightarrow> v_nodes v c = Some m \<longrightarrow> n_Name m \<noteq> x"
  defines "nn \<equiv> (new_cache j)\<lparr>n_fsi := Some f, n_Parent := Some i, n_Name := x, n_Path := extend_path (n_Path n) x\<rparr>"
  shows "\<exists>v'. Mount_inode (Some i) (Some j) x f v = Inr ((Some (v_next v), 0), v') \<and> added i n nn v v' \<and> v' = v\<lparr>v_nodes := v_nodes v', v_next := v_next v'\<rparr>"
proof -
  have lt: "i < v_next v" by (rule tree_node(1) [OF t i(2)])
  have p: "n_Path n = CHR ''/'' # join_segs ns" "\<forall>y \<in> set ns. proper y" using placed_path [OF t i] by blast+
  let ?w = "v\<lparr>v_nodes := (v_nodes v)(v_next v \<mapsto> new_cache j), v_next := Suc (v_next v)\<rparr>"
  have norm: "NormalizePath ?w i (child_path (n_Path n) x) False = Inr (extend_path (n_Path n) x)"
    unfolding child_path_extend p(1) extend_path_join [OF p(2)]
    by (rule NormalizePath_absolute [of _ i n ns]) (use p x lt i(2) in \<open>auto simp: attached_def\<close>)
  show ?thesis using norm lt i(2) names x
    by (simp add: Mount_inode_def Convert_def vfs_node_def attached_def vfs_put_def Let_def added_def nn_def new_cache_def fun_upd_twist)
qed

lemma placed_prefix: "placed v i (ns @ ms) r \<Longrightarrow> \<exists>j. placed v j ns r"
proof (induction ms arbitrary: i rule: rev_induct)
  case (snoc x ms)
  then have "placed v i ((ns @ ms) @ [x]) r" by simp
  then obtain p where "placed v p (ns @ ms) r" by (rule placed_snocE)
  then show ?case by (rule snoc.IH)
qed auto

lemma no_child_not_placed:
  assumes "tree_ok v" "placed v i ns r" "attached v i n" "\<forall>c m. c \<in> set (n_Children n) \<longrightarrow> v_nodes v c = Some m \<longrightarrow> n_Name m \<noteq> x"
  shows "\<not> placed v j (ns @ [x]) r"
proof
  assume "placed v j (ns @ [x]) r"
  then obtain p m where j: "placed v p ns r" "attached v j m" "n_Parent m = Some p" "n_Name m = x" by (auto elim: placed_snocE)
  then have "p = i" using placed_unique [OF assms(1) _ assms(2)] by blast
  then have "j \<in> set (n_Children n)" using tree_node(4) [OF assms(1) j(2,3)] assms(3) attached_functional by metis
  then show False using assms(4) j(2,4) by (auto simp: attached_def)
qed

lemma child_placed:
  assumes "tree_ok v" "placed v i ns r" "attached v i n" "c \<in> set (n_Children n)" "v_nodes v c = Some m"
  shows "placed v c (ns @ [n_Name m]) r \<and> attached v c m"
proof -
  obtain m' where m: "attached v c m'" "n_Parent m' = Some i" using tree_node(3) [OF assms(1,3,4)] by blast
  then have "m' = m" using assms(5) by (simp add: attached_def)
  then show ?thesis using placed_child [OF assms(2) m] m(1) by simp
qed

subsection \<open>What the contract gives\<close>

context inode_store
begin

lemma walk_ns_mono:
  assumes "good s" and mt: "\<And>ms q. mt ms = Some q \<Longrightarrow> live s q"
    and more: "\<And>q y j. live s q \<Longrightarrow> name_ok y \<Longrightarrow> lookup s q y = Inr (0, Some j) \<Longrightarrow> lookup s' q y = Inr (0, Some j)"
    and "live s q" "\<forall>y \<in> set ys. name_ok y" "walk_ns mt (lookup s) pre q ys = Inr (0, Some k)"
  shows "walk_ns mt (lookup s') pre q ys = Inr (0, Some k)"
  using assms(4-6)
proof (induction ys arbitrary: pre q)
  case (Cons y ys)
  show ?case
  proof (cases "mt (pre @ [y])")
    case (Some w)
    then show ?thesis using Cons mt by simp
  next
    case None
    from lookup_cases [OF assms(1) Cons.prems(1), of y] Cons.prems(2,3) None
    obtain j where "live s j" "lookup s q y = Inr (0, Some j)" by (auto simp: missing_def ENOENT_def)
    then show ?thesis using Cons.IH [of j "pre @ [y]"] Cons.prems more None by simp
  qed
qed simp

lemma create_more:
  assumes "good s" "room (Suc n) s" "live s p" "name_ok x" "create s p x mode = Inr (0, Some i, s')" "lookup s p x = missing"
    and "live s q" "name_ok y" "lookup s q y = Inr (0, Some j)"
  shows "lookup s' q y = Inr (0, Some j)"
  using create_others [OF assms(1-5,7,8)] assms(6,9) by (cases "q = p \<and> y = x") (auto simp: missing_def)

end

context vfs_store
begin

text \<open>A name that leads nowhere is looked up in vain, and no node is in its place.\<close>

lemma lookup_absent:
  assumes ok: "vfs_ok mt v" and i: "placed v i ns r" "attached v i n" and x: "proper x"
    and none: "walk_ns (mt r) (lookup (v_fs v)) [] (root_inode v r) (ns @ [x]) = missing"
  obtains u cs where "Lookup (Some i) x v = Inr ((None, - ENOENT), u)" "vfs_ok mt u" "refills v u" "placed u i ns r" "attached u i (n\<lparr>n_Children := cs\<rparr>)"
    "\<forall>c m. c \<in> set cs \<longrightarrow> v_nodes u c = Some m \<longrightarrow> n_Name m \<noteq> x" "lookup (v_fs u) (n_inode n) x = missing" "mt r (ns @ [x]) = None"
proof -
  have t: "tree_ok v" using ok by (simp add: vfs_ok_def)
  have p: "n_Path n = CHR ''/'' # join_segs ns" "\<forall>y \<in> set ns. proper y" using placed_path [OF t i] by blast+
  have names: "path_names (n_Path n) x = ns @ [x]" unfolding p(1) by (rule path_names_child [OF p(2) x])
  have nul: "NUL \<notin> set x" and pl: "plain x" using x by (simp_all add: proper_def plain_def)
  obtain u where u: "Lookup (Some i) x v = Inr ((None, - ENOENT), u)" "vfs_ok mt u" "refills v u"
    by (rule lookup_walk [OF ok i nul]) (use names none in \<open>auto simp: missing_def\<close>)
  note eq = refills_eq [OF u(3)]
  obtain cs where ui: "attached u i (n\<lparr>n_Children := cs\<rparr>)" (is "attached u i ?n") using grows_attached [OF eq(1) i(2)] by blast
  have up: "placed u i ns r" by (rule grows_placed [OF i(1) eq(1)])
  have ut: "tree_ok u" and uc: "cached live lookup owner mt u" and g: "good (v_fs u)" using u(2) by (simp_all add: vfs_ok_def)
  have none': "walk_ns (mt r) (lookup (v_fs u)) [] (root_inode u r) (ns @ [x]) = missing" using none eq(2) grows_root_inode [OF eq(1) i(1)] by simp
  have absent: "n_Name m \<noteq> x" if "c \<in> set (n_Children ?n)" "v_nodes u c = Some m" for c m
    using child_placed [OF ut up ui that] cached_node(4) [OF uc, of c "ns @ [x]" r m] none' by (auto simp: missing_def)
  then have nm: "mt r (ns @ [x]) = None" using not_cached_not_mounted [OF uc ut up ui] by blast
  have "lookup (v_fs u) (n_inode n) x = missing"
    using none' cached_node(3,4) [OF uc up ui] nm lookup_cases [OF g _ pl, of "n_inode n"] by (auto simp: walk_ns_append missing_def)
  then show ?thesis using that u up ui absent nm by simp
qed

text \<open>The walks to the nodes of the cache after a creation.\<close>

lemma created_walks:
  assumes ok: "vfs_ok mt u" and room: "room (Suc k) (v_fs u)" and p: "live (v_fs u) p" "plain x"
    and cr: "create (v_fs u) p x mode = Inr (0, Some j, s)" "lookup (v_fs u) p x = missing" and c: "placed u c ms r" "attached u c m"
  shows "walk_ns (mt r) (lookup s) [] (root_inode u r) ms = Inr (0, Some (n_inode m))"
proof -
  have ut: "tree_ok u" and uc: "cached live lookup owner mt u" and g: "good (v_fs u)" using ok by (simp_all add: vfs_ok_def)
  obtain rn where rn: "attached u r rn" "n_Parent rn = None" using placed_is_root [OF c(1)] by blast
  have "live (v_fs u) (root_inode u r)" using cached_node(3) [OF uc placed_root [OF rn] rn(1)] rn(1) by (simp add: root_inode_def attached_def)
  moreover have "\<forall>y \<in> set ms. plain y" using placed_path [OF ut c] by (auto simp: proper_def)
  moreover have "live (v_fs u) q" if "mt r ms = Some q" for ms q using cached_mount [OF uc that] cached_node(3) [OF uc] by blast
  ultimately show ?thesis using walk_ns_mono [OF g, of "mt r"] create_more [OF g room p cr] cached_node(4) [OF uc c] by blast
qed

lemma create_new:
  assumes ok: "vfs_ok mt v" and i: "placed v i ns r" "attached v i n" and x: "proper x" and room: "room (Suc k) (v_fs v)"
    and none: "walk_ns (mt r) (lookup (v_fs v)) [] (root_inode v r) (ns @ [x]) = missing"
  obtains c m v' where "Create (Some i) x Mode e v = Inr ((Some c, 0), v')" "vfs_ok mt v'" "grows v v'" "placed v' c (ns @ [x]) r" "attached v' c m"
    "room k (v_fs v')" "create (v_fs v) (n_inode n) x Mode = Inr (0, Some (n_inode m), v_fs v')"
    "v' = v\<lparr>v_nodes := v_nodes v', v_next := v_next v', v_fs := v_fs v'\<rparr>"
proof -
  obtain u cs where u: "Lookup (Some i) x v = Inr ((None, - ENOENT), u)" "vfs_ok mt u" "refills v u" and up: "placed u i ns r"
    and ui: "attached u i (n\<lparr>n_Children := cs\<rparr>)" (is "attached u i ?n") and absent: "\<forall>c m. c \<in> set cs \<longrightarrow> v_nodes u c = Some m \<longrightarrow> n_Name m \<noteq> x"
    and lm: "lookup (v_fs u) (n_inode n) x = missing" and nm: "mt r (ns @ [x]) = None" by (rule lookup_absent [OF ok i x none])
  note eq = refills_eq [OF u(3)]
  have ut: "tree_ok u" and uc: "cached live lookup owner mt u" and us: "serves lookup create owner u" and g: "good (v_fs u)" using u(2) by (simp_all add: vfs_ok_def)
  have pl: "plain x" and live: "live (v_fs u) (n_inode n)" and room': "room (Suc k) (v_fs u)"
    using x cached_node(3) [OF uc up ui] room eq(2) by (auto simp: proper_def)
  obtain j s where cr: "create (v_fs u) (n_inode n) x Mode = Inr (0, Some j, s)" using create_succeeds [OF g room' live pl] by blast
  note k = create_keeps [OF g room' live pl cr]
  obtain fsi L C where f: "node_fsi u ?n = Inr fsi" "op_Create (f_Ops fsi) = Some C" "C (n_inode ?n) x Mode (v_fs u) = create (v_fs u) (n_inode ?n) x Mode"
    by (rule served [OF u(2) up ui])
  let ?nn = "(new_cache j)\<lparr>n_fsi := n_fsi ?n, n_Parent := Some i, n_Name := x, n_Path := extend_path (n_Path ?n) x\<rparr>"
  obtain v' where v': "Create (Some i) x Mode e v = Inr ((Some (v_next u), 0), v')" "added i ?n ?nn u v'" "v' = u\<lparr>v_nodes := v_nodes v', v_next := v_next v', v_fs := s\<rparr>"
    using create_added [OF ut up ui x _ u(1) f(1,2), of Mode j s e] absent f(3) cr by auto
  have fs: "v_fs v' = s" "v_fsis v' = v_fsis u" using v'(3) by (metis Virtual.select_convs Virtual.update_convs Virtual.surjective)+
  note kept = created_walks [OF u(2) room' live pl cr lm]
  have new: "walk_ns (mt r) (lookup s) [] (root_inode u r) (ns @ [x]) = Inr (0, Some j)"
    using kept [OF up ui] nm create_found [OF g room' live pl cr lm] by (simp add: walk_ns_append)
  have "cached live lookup owner mt v'"
    by (rule cached_added [OF uc ut v'(2) fs(2) up])
      (use kept new k fs cached_node [OF uc up ui] create_owner [OF cr] in \<open>auto simp: new_cache_def\<close>)
  then have "vfs_ok mt v'" using k fs added_tree [OF ut v'(2)] us by (simp add: vfs_ok_def serves_def)
  moreover have "placed v' (v_next u) (ns @ [x]) r" using added_placed_new [OF ut v'(2) up] by (simp add: new_cache_def)
  moreover have "attached v' (v_next u) ?nn" using added_nodes(1,3) [OF ut v'(2)] by simp
  moreover have "grows v v'" using grows_trans [OF eq(1) added_grows [OF ut v'(2)]] .
  moreover have "v' = v\<lparr>v_nodes := v_nodes v', v_next := v_next v', v_fs := v_fs v'\<rparr>"
    using v'(3) eq(3-6) unfolding fs(1) [symmetric] only_nodes_and_files by simp
  ultimately show ?thesis using that [of "v_next u" v' ?nn] v'(1) k fs(1) cr eq(2) by (simp add: new_cache_def)
qed

text \<open>A file system is mounted at a place the cache does not have.\<close>

lemma mount_new:
  assumes ok: "vfs_ok mt v" and i: "placed v i ns r" "attached v i n" and x: "proper x"
    and absent: "\<forall>c m. c \<in> set (n_Children n) \<longrightarrow> v_nodes v c = Some m \<longrightarrow> n_Name m \<noteq> x"
    and j: "live (v_fs v) j" "owner j = f" "v_fsis v f \<noteq> None"
  obtains c m v' where "Mount_inode (Some i) (Some j) x f v = Inr ((Some c, 0), v')" "vfs_ok (mt(r := (mt r)(ns @ [x] \<mapsto> j))) v'" "refills v v'"
    "placed v' c (ns @ [x]) r" "attached v' c m" "n_inode m = j"
proof -
  have t: "tree_ok v" and c: "cached live lookup owner mt v" and g: "good (v_fs v)" and s: "serves lookup create owner v" using ok by (simp_all add: vfs_ok_def)
  let ?nn = "(new_cache j)\<lparr>n_fsi := Some f, n_Parent := Some i, n_Name := x, n_Path := extend_path (n_Path n) x\<rparr>"
  let ?mt = "mt(r := (mt r)(ns @ [x] \<mapsto> j))"
  obtain v' where v': "Mount_inode (Some i) (Some j) x f v = Inr ((Some (v_next v), 0), v')" "added i n ?nn v v'" "v' = v\<lparr>v_nodes := v_nodes v', v_next := v_next v'\<rparr>"
    using mount_added [OF t i x absent, of j f] by blast
  have fs: "v_fs v' = v_fs v" "v_fsis v' = v_fsis v" using v'(3) by (metis Virtual.select_convs Virtual.update_convs Virtual.surjective)+
  have kept: "walk_ns (?mt r') (lookup (v_fs v')) [] (root_inode v r') ms = Inr (0, Some (n_inode m))" if d: "placed v d ms r'" "attached v d m" for d m ms r'
  proof (cases "r' = r")
    case True
    have "take k ms \<noteq> ns @ [x]" for k using placed_prefix [of v d "take k ms" "drop k ms" r] no_child_not_placed [OF t i absent] d(1) True by auto
    then show ?thesis using walk_ns_mount [of ms "[]" "ns @ [x]" "mt r" j] cached_node(4) [OF c d] fs(1) True by simp
  next
    case False
    then show ?thesis using cached_node(4) [OF c d] fs(1) by simp
  qed
  have new: "walk_ns (?mt r) (lookup (v_fs v')) [] (root_inode v r) (ns @ [x]) = Inr (0, Some j)" using kept [OF i] by (simp add: walk_ns_append)
  have "cached live lookup owner ?mt v'"
    by (rule cached_added [OF c t v'(2) fs(2) i(1)])
      (use kept new fs j in \<open>auto simp: new_cache_def split: if_splits\<close>)
  then have "vfs_ok ?mt v'" using g s added_tree [OF t v'(2)] fs by (simp add: vfs_ok_def serves_def)
  moreover have "placed v' (v_next v) (ns @ [x]) r" using added_placed_new [OF t v'(2) i(1)] by (simp add: new_cache_def)
  moreover have "attached v' (v_next v) ?nn" using added_nodes(1,3) [OF t v'(2)] by simp
  moreover have "refills v v'" using added_grows [OF t v'(2)] v'(3) by (simp add: refills_def)
  ultimately show ?thesis using that v'(1) by (simp add: new_cache_def)
qed

text \<open>The state with a root only.\<close>

lemma only_root:
  assumes "good (v_fs v)" "serves lookup create owner v" "v_nodes v = [0 \<mapsto> n]" "v_next v = 1" "n_fsi n = Some (owner (n_inode n))"
    "v_fsis v (owner (n_inode n)) \<noteq> None" "live (v_fs v) (n_inode n)" "n_Path n = ''/''" "n_Parent n = None" "n_Children n = []"
  shows "vfs_ok (\<lambda>_ _. None) v" "placed v 0 [] 0" "attached v 0 n"
proof -
  have a: "attached v i m \<longleftrightarrow> i = 0 \<and> m = n" for i m using assms(3,5) by (auto simp: attached_def split: if_splits)
  then show "attached v 0 n" "placed v 0 [] 0" using assms(9) placed_root by blast+
  have p: "i = 0 \<and> ns = [] \<and> r = 0" if "placed v i ns r" for i ns r using that assms(9) by (induction rule: placed.induct) (auto simp: a)
  have "tree_ok v" using assms(3,4,8-10) by (auto simp: tree_ok_def node_ok_def a split: if_splits)
  moreover have "cached live lookup owner (\<lambda>_ _. None) v" using assms(3,5-7) p unfolding cached_def by (auto simp: a root_inode_def dest!: p)
  ultimately show "vfs_ok (\<lambda>_ _. None) v" using assms(1,2) by (simp add: vfs_ok_def)
qed

end

end
