(* ===== verification/VfsRamfs.thy ===== *)
theory VfsRamfs
  imports VfsCreate RamfsProofs
begin

unbundle bit_operations_syntax

section \<open>RAM file systems in the virtual file system\<close>

text \<open>
  The composition of the virtual file system with its RAM file systems, and \<open>MountAndRootRAMFS\<close> of src/Kernel/fs/ramfs.cpp.
  The state behind the virtual file system is a heap of \<open>RAMFS\<close> objects, \<open>None\<close> when deleted; a pointer to an inode is the
  object it is of, its \<open>PrivateData\<close>, and its number in it. The \<open>FileSystemInfo\<close> made with the object \<open>k\<close> has the number \<open>k\<close>.
\<close>

subsection \<open>Objects\<close>

definition obj :: "'o option list \<Rightarrow> nat \<Rightarrow> 'o option" where
  "obj ss k = (if k < length ss then ss ! k else None)"

definition on_obj :: "'o option list \<Rightarrow> nat \<Rightarrow> ('o \<Rightarrow> 'a res) \<Rightarrow> 'a res" where
  "on_obj ss k f = (case obj ss k of None \<Rightarrow> Inl DanglingPointer | Some s \<Rightarrow> f s)"

text \<open>The casts of \<open>__ramfs_Lookup\<close> and \<open>__ramfs_Create\<close>, for any file system behind \<open>PrivateData\<close>.\<close>

definition obj_lookup :: "('o \<Rightarrow> 'j \<Rightarrow> string \<Rightarrow> (int \<times> 'j option) res) \<Rightarrow> 'o option list \<Rightarrow> nat \<times> 'j \<Rightarrow> string \<Rightarrow> (int \<times> (nat \<times> 'j) option) res" where
  "obj_lookup lookup ss p x = on_obj ss (fst p) (\<lambda>s. rbind (lookup s (snd p) x) (\<lambda>(ret, r). Inr (ret, map_option (Pair (fst p)) r)))"

definition obj_create :: "('o \<Rightarrow> 'j \<Rightarrow> string \<Rightarrow> u32 \<Rightarrow> (int \<times> 'j option \<times> 'o) res) \<Rightarrow> 'o option list \<Rightarrow> nat \<times> 'j \<Rightarrow> string \<Rightarrow> u32 \<Rightarrow>
    (int \<times> (nat \<times> 'j) option \<times> 'o option list) res" where
  "obj_create create ss p x mode =
     on_obj ss (fst p) (\<lambda>s. rbind (create s (snd p) x mode) (\<lambda>(ret, r, s). Inr (ret, map_option (Pair (fst p)) r, ss[fst p := Some s])))"

text \<open>The other operations; those neither file system has are null pointers.\<close>

definition obj_Ops :: "('o, 'j) InodeOperations \<Rightarrow> ('o option list, nat \<times> 'j) InodeOperations" where
  "obj_Ops ops = no_operations\<lparr>
     op_Lookup := map_option (\<lambda>f p x ss. on_obj ss (fst p) (\<lambda>s. rbind (f (snd p) x s) (\<lambda>(ret, r, s). Inr (ret, map_option (Pair (fst p)) r, ss[fst p := Some s])))) (op_Lookup ops),
     op_Create := map_option (\<lambda>f p x mode ss. on_obj ss (fst p) (\<lambda>s. rbind (f (snd p) x mode s) (\<lambda>(ret, r, s). Inr (ret, map_option (Pair (fst p)) r, ss[fst p := Some s])))) (op_Create ops),
     op_Read := map_option (\<lambda>f p buf size off ss. on_obj ss (fst p) (\<lambda>s. f (snd p) buf size off s)) (op_Read ops),
     op_Write := map_option (\<lambda>f p buf size off ss. on_obj ss (fst p) (\<lambda>s. rbind (f (snd p) buf size off s) (\<lambda>(ret, s). Inr (ret, ss[fst p := Some s])))) (op_Write ops),
     op_ReadDir := map_option (\<lambda>f p size off ents ss. on_obj ss (fst p) (\<lambda>s. f (snd p) size off ents s)) (op_ReadDir ops),
     op_SymLink := map_option (\<lambda>f p x target ss. on_obj ss (fst p) (\<lambda>s. rbind (f (snd p) x target s) (\<lambda>(ret, r, s). Inr (ret, map_option (Pair (fst p)) r, ss[fst p := Some s])))) (op_SymLink ops),
     op_ReadLink := map_option (\<lambda>f p buf size ss. on_obj ss (fst p) (\<lambda>s. f (snd p) buf size s)) (op_ReadLink ops),
     op_Stat := map_option (\<lambda>f p st ss. on_obj ss (fst p) (\<lambda>s. f (snd p) st s)) (op_Stat ops)\<rparr>"

subsection \<open>Mounting a RAM file system\<close>

definition ramfs_Destroy :: "nat \<Rightarrow> RAMFS option list \<Rightarrow> (int \<times> RAMFS option list) res" where
  "ramfs_Destroy k ss = on_obj ss k (\<lambda>_. Inr (0, ss[k := None]))"

definition ramfs_fsi :: "(u64 \<Rightarrow> bool) \<Rightarrow> (u64 list \<Rightarrow> u64 list) \<Rightarrow> nat \<Rightarrow> (RAMFS option list, nat \<times> u64) FileSystemInfo" where
  "ramfs_fsi heap walk k = \<lparr>f_Name = ''ramfs'',
     f_SuperOps = \<lparr>so_Synchronize = None, so_Destroy = Some (ramfs_Destroy k), so_Probe = None, so_Mount = None\<rparr>,
     f_Ops = obj_Ops (ramfs_Ops heap walk)\<rparr>"

definition MountAndRootRAMFS :: "(u64 \<Rightarrow> bool) \<Rightarrow> (u64 list \<Rightarrow> u64 list) \<Rightarrow> nat option \<Rightarrow> string \<Rightarrow> u64 \<Rightarrow> (RAMFS option list, nat \<times> u64) Virtual \<Rightarrow>
    (bool \<times> (RAMFS option list, nat \<times> u64) Virtual) res" where
  "MountAndRootRAMFS heap walk Parent Name Index v =
     (let k = length (v_fs v);
          ramfs = RAMFS_new\<lparr>rf_RootName := Name\<rparr>;
          (DeviceID, v) = RegisterFileSystem k (v\<lparr>v_fsis := (v_fsis v)(k \<mapsto> ramfs_fsi heap walk k)\<rparr>) in
      rbind (RAMFS_Create (ramfs\<lparr>rf_DeviceID := DeviceID\<rparr>) None Name (S_IFDIR OR 0x1ED)) (\<lambda>(_, root, ramfs).
      let v = v\<lparr>v_fs := v_fs v @ [Some ramfs]\<rparr>; root = map_option (Pair k) root in
      rbind (Mount_inode Parent root Name k v) (\<lambda>(_, v).
      case root of
        None \<Rightarrow> Inl NullPointer
      | Some root \<Rightarrow> case Convert root v of (r, v) \<Rightarrow> rbind (AddRoot Index (Some r) False v) (\<lambda>(_, v). Inr (True, v)))))"

subsection \<open>Objects that keep the contract\<close>

lemma obj_update: "obj (ss[k := Some s]) j = (if j = k \<and> k < length ss then Some s else obj ss j)"
  by (simp add: obj_def)

lemma obj_length: "obj ss k = Some s \<Longrightarrow> k < length ss"
  by (simp add: obj_def split: if_splits)

lemma obj_append: "obj (ss @ [s]) j = (if j = length ss then s else obj ss j)"
  by (auto simp: obj_def nth_append)

text \<open>Several file systems that keep the contract keep it together.\<close>

context inode_store
begin

lemma objects_created:
  assumes "\<forall>k s. obj ss k = Some s \<longrightarrow> good s" "\<forall>k s. obj ss k = Some s \<longrightarrow> room (Suc n) s"
    "\<exists>s. obj ss (fst p) = Some s \<and> live s (snd p)" "name_ok x" "obj_create create ss p x mode = Inr (0, Some i, ss')"
  obtains s j s' where "obj ss (fst p) = Some s" "fst p < length ss" "good s" "room (Suc n) s" "live s (snd p)"
    "create s (snd p) x mode = Inr (0, Some j, s')" "i = (fst p, j)" "ss' = ss[fst p := Some s']"
proof -
  obtain s where s: "obj ss (fst p) = Some s" "live s (snd p)" "good s" "room (Suc n) s" using assms(1-3) by blast
  then show ?thesis using that obj_length [OF s(1)] assms(4,5) create_succeeds [OF s(3,4,2), of x mode] by (auto simp: obj_create_def on_obj_def)
qed

lemma objects_store:
  "inode_store (\<lambda>ss. \<forall>k s. obj ss k = Some s \<longrightarrow> good s) (\<lambda>n ss. \<forall>k s. obj ss k = Some s \<longrightarrow> room n s)
    (\<lambda>ss p. \<exists>s. obj ss (fst p) = Some s \<and> live s (snd p)) name_ok (obj_lookup lookup) (obj_create create)"
proof (standard, goal_cases)
  case (1 n s)
  then show ?case using room_less by blast
next
  case (2 ss p x)
  then show ?case using lookup_cases [of _ "snd p" x] by (fastforce simp: obj_lookup_def on_obj_def missing_def)
next
  case (3 ss n p x mode)
  then obtain s where s: "obj ss (fst p) = Some s" "live s (snd p)" "good s" "room (Suc n) s" by blast
  then show ?case using create_succeeds [OF s(3,4,2), of x mode] 3 by (auto simp: obj_create_def on_obj_def)
next
  case (4 ss n p x mode i ss')
  from 4(1-5) show ?case
  proof (rule objects_created)
    fix s j s' assume c: "obj ss (fst p) = Some s" "fst p < length ss" "good s" "room (Suc n) s" "live s (snd p)"
      "create s (snd p) x mode = Inr (0, Some j, s')" "i = (fst p, j)" "ss' = ss[fst p := Some s']"
    show ?thesis using create_keeps [OF c(3-5) 4(4) c(6)] 4(1,2) c room_less by (auto simp: obj_update split: if_splits)
  qed
next
  case (5 ss n p x mode i ss')
  from 5(1-5) show ?case
  proof (rule objects_created)
    fix s j s' assume c: "obj ss (fst p) = Some s" "fst p < length ss" "good s" "room (Suc n) s" "live s (snd p)"
      "create s (snd p) x mode = Inr (0, Some j, s')" "i = (fst p, j)" "ss' = ss[fst p := Some s']"
    have "lookup s (snd p) x = missing" using 5(6) c(1) lookup_cases [OF c(3,5) 5(4)] by (auto simp: obj_lookup_def on_obj_def missing_def)
    then show ?thesis using create_found [OF c(3-5) 5(4) c(6)] c by (simp add: obj_lookup_def on_obj_def obj_update)
  qed
next
  case (6 ss n p x mode i ss' q y)
  from 6(1-5) show ?case
  proof (rule objects_created)
    fix s j s' assume c: "obj ss (fst p) = Some s" "fst p < length ss" "good s" "room (Suc n) s" "live s (snd p)"
      "create s (snd p) x mode = Inr (0, Some j, s')" "i = (fst p, j)" "ss' = ss[fst p := Some s']"
    have "lookup s' (snd q) y = lookup s (snd q) y" if "fst q = fst p"
      using create_others [OF c(3-5) 6(4) c(6) _ 6(7), of "snd q"] 6(6,8) c(1) that by (auto simp: prod_eq_iff)
    then show ?thesis using c by (simp add: obj_lookup_def on_obj_def obj_update)
  qed
next
  case (7 ss n p x mode i ss' y)
  from 7(1-5) show ?case
  proof (rule objects_created)
    fix s j s' assume c: "obj ss (fst p) = Some s" "fst p < length ss" "good s" "room (Suc n) s" "live s (snd p)"
      "create s (snd p) x mode = Inr (0, Some j, s')" "i = (fst p, j)" "ss' = ss[fst p := Some s']"
    show ?thesis using create_empty [OF c(3-5) 7(4) c(6) 7(6)] c by (simp add: obj_lookup_def on_obj_def obj_update missing_def)
  qed
qed

end

subsection \<open>The RAM file systems\<close>

definition ram_lookup :: "RAMFS option list \<Rightarrow> nat \<times> u64 \<Rightarrow> string \<Rightarrow> (int \<times> (nat \<times> u64) option) res" where
  "ram_lookup = obj_lookup (\<lambda>rf p. RAMFS_Lookup id rf (Some p))"

definition ram_create :: "RAMFS option list \<Rightarrow> nat \<times> u64 \<Rightarrow> string \<Rightarrow> u32 \<Rightarrow> (int \<times> (nat \<times> u64) option \<times> RAMFS option list) res" where
  "ram_create = obj_create (\<lambda>rf p. RAMFS_Create rf (Some p))"

definition ram_deref :: "RAMFS option list \<Rightarrow> nat \<times> u64 \<Rightarrow> Inode option" where
  "ram_deref ss p = (case obj ss (fst p) of None \<Rightarrow> None | Some rf \<Rightarrow> map_option r_Node (rf_nodes rf (snd p)))"

definition ram_good :: "RAMFS option list \<Rightarrow> bool" where
  "ram_good ss \<longleftrightarrow> (\<forall>k rf. obj ss k = Some rf \<longrightarrow> ramfs_wf rf)"

definition ram_room :: "nat \<Rightarrow> RAMFS option list \<Rightarrow> bool" where
  "ram_room n ss \<longleftrightarrow> (\<forall>k rf. obj ss k = Some rf \<longrightarrow> ramfs_room n rf)"

definition ram_live :: "RAMFS option list \<Rightarrow> nat \<times> u64 \<Rightarrow> bool" where
  "ram_live ss p \<longleftrightarrow> (\<exists>rf. obj ss (fst p) = Some rf \<and> rf_nodes rf (snd p) \<noteq> None)"

interpretation ram_vfs: vfs_store ram_good ram_room ram_live ram_lookup ram_create fst
proof (rule vfs_store.intro)
  show "inode_store ram_good ram_room ram_live plain ram_lookup ram_create"
    using ramfs_store.objects_store unfolding ram_good_def ram_room_def ram_live_def ram_lookup_def ram_create_def .
  show "vfs_store_axioms ram_lookup ram_create fst"
    by standard (auto simp: ram_lookup_def obj_lookup_def ram_create_def obj_create_def on_obj_def rbind_def split: option.splits sum.splits)
qed

text \<open>The virtual file system with the file systems \<open>mt\<close> mounted.\<close>

definition ram_tree :: "(nat \<Rightarrow> string list \<Rightarrow> (nat \<times> u64) option) \<Rightarrow> (RAMFS option list, nat \<times> u64) Virtual \<Rightarrow> bool" where
  "ram_tree mt v \<longleftrightarrow> ram_good (v_fs v) \<and> tree_ok v \<and> serves ram_lookup ram_create fst v \<and> cached ram_live ram_lookup fst mt v"

lemma ram_tree_ok: "ram_tree = ram_vfs.vfs_ok"
  by (intro ext) (simp add: ram_tree_def ram_vfs.vfs_ok_def)

subsection \<open>States with more objects\<close>

lemma attached_cong: "v_nodes v' = v_nodes v \<Longrightarrow> attached v' = attached v"
  by (intro ext) (simp add: attached_def)

lemma placed_mono: "placed v i ns r \<Longrightarrow> (\<And>j n. attached v j n \<Longrightarrow> attached v' j n) \<Longrightarrow> placed v' i ns r"
  by (induction rule: placed.induct) (auto intro: placed.intros)

lemma placed_cong: "attached v' = attached v \<Longrightarrow> placed v' = placed v"
  by (intro ext iffI) (auto elim: placed_mono)

lemma tree_cong:
  assumes "v_nodes v' = v_nodes v" "v_next v' = v_next v"
  shows "tree_ok v' = tree_ok v"
  unfolding tree_ok_def node_ok_def attached_cong [OF assms(1)] assms ..

text \<open>A node without a file system is not part of the tree.\<close>

lemma Convert_detached:
  assumes "tree_ok v" "Convert i v = (c, v')"
  shows "attached v' = attached v" "placed v' = placed v" "tree_ok v'"
proof -
  have none: "v_nodes v (v_next v) = None" using assms(1) unfolding tree_ok_def by (metis less_irrefl not_None_eq)
  have v': "v_nodes v' = (v_nodes v)(v_next v \<mapsto> new_cache i)" "v_next v' = Suc (v_next v)" using assms(2) by (auto simp: Convert_def vfs_put_def)
  show a: "attached v' = attached v" using v'(1) none by (intro ext) (auto simp: attached_def new_cache_def)
  show "placed v' = placed v" by (rule placed_cong [OF a])
  have names: "n_Name (the (v_nodes v' c)) = n_Name (the (v_nodes v c))" if "attached v c m" for c m
    using that none v'(1) by (auto simp: attached_def)
  have "node_ok v' j n" if "attached v j n" for j n
  proof -
    have "inj_on (\<lambda>c. n_Name (the (v_nodes v' c))) (set (n_Children n))"
      using tree_node(3,5) [OF assms(1) that] names by (metis (mono_tags, lifting) inj_on_cong)
    moreover have "node_ok v j n" using assms(1) that by (simp add: tree_ok_def)
    ultimately show ?thesis unfolding node_ok_def a by blast
  qed
  then show "tree_ok v'" using assms(1) v' a by (auto simp: tree_ok_def less_Suc_eq split: if_splits)
qed

lemma ram_lookup_append:
  assumes "ram_live ss p"
  shows "ram_lookup (ss @ [s]) p x = ram_lookup ss p x"
  using assms by (auto simp: ram_live_def ram_lookup_def obj_lookup_def on_obj_def obj_append dest: obj_length)

lemma lookup_keeps_objects:
  "on_obj ss k (\<lambda>s. rbind (rbind (F s) (\<lambda>(ret, r). Inr (ret, r, s))) (\<lambda>(ret, r, s). Inr (ret, g r, ss[k := Some s]))) =
     rbind (on_obj ss k (\<lambda>s. rbind (F s) (\<lambda>(ret, r). Inr (ret, g r)))) (\<lambda>(ret, r). Inr (ret, r, ss))"
proof (cases "obj ss k")
  case (Some s)
  then have "ss[k := Some s] = ss" by (metis list_update_id obj_def option.distinct(1))
  then show ?thesis using Some by (auto simp: on_obj_def rbind_def split: sum.splits)
qed (simp add: on_obj_def)

lemma ramfs_fsi_serves:
  assumes "serves ram_lookup ram_create fst v" "v_fsis v' = (v_fsis v)(k \<mapsto> ramfs_fsi heap id k)"
  shows "serves ram_lookup ram_create fst v'"
proof -
  have "\<exists>L C. op_Lookup (f_Ops (ramfs_fsi heap id k)) = Some L \<and> op_Create (f_Ops (ramfs_fsi heap id k)) = Some C \<and>
      (\<forall>i x s. L i x s = rbind (ram_lookup s i x) (\<lambda>(ret, r). Inr (ret, r, s))) \<and> (\<forall>i x mode s. C i x mode s = ram_create s i x mode)"
    by (simp add: ramfs_fsi_def obj_Ops_def ramfs_Ops_def lookup_keeps_objects ram_lookup_def obj_lookup_def ram_create_def obj_create_def)
  then show ?thesis using assms unfolding serves_def by auto
qed

text \<open>Another object, and a new \<open>FileSystemInfo\<close>.\<close>

lemma ram_tree_more:
  assumes ok: "ram_tree mt v" and rf: "ramfs_wf rf" and v': "v_nodes v' = v_nodes v" "v_next v' = v_next v" "v_fs v' = v_fs v @ [Some rf]"
    "v_fsis v' = (v_fsis v)(length (v_fs v) \<mapsto> ramfs_fsi heap id (length (v_fs v)))"
  shows "ram_tree mt v'"
proof -
  have g: "ram_good (v_fs v)" and t: "tree_ok v" and s: "serves ram_lookup ram_create fst v" and c: "cached ram_live ram_lookup fst mt v"
    using ok by (simp_all add: ram_tree_def)
  have a: "attached v' = attached v" by (rule attached_cong [OF v'(1)])
  have p: "placed v' = placed v" by (rule placed_cong [OF a])
  have live: "ram_live (v_fs v') q" if "ram_live (v_fs v) q" for q
    using that by (auto simp: ram_live_def v'(3) obj_append dest: obj_length)
  have ri: "root_inode v' = root_inode v" by (intro ext) (simp add: root_inode_def v'(1))
  have "walk_ns (mt r) (ram_lookup (v_fs v')) [] (root_inode v r) ns = Inr (0, Some (n_inode n))" if i: "placed v i ns r" "attached v i n" for i ns r n
  proof (rule ram_vfs.walk_ns_mono [OF g])
    show "\<And>ms q. mt r ms = Some q \<Longrightarrow> ram_live (v_fs v) q" using cached_mount [OF c] cached_node(3) [OF c] by blast
    show "\<And>q y j. ram_live (v_fs v) q \<Longrightarrow> ram_lookup (v_fs v) q y = Inr (0, Some j) \<Longrightarrow> ram_lookup (v_fs v') q y = Inr (0, Some j)"
      by (simp add: v'(3) ram_lookup_append)
    obtain rn where rn: "attached v r rn" "n_Parent rn = None" using placed_is_root [OF i(1)] by blast
    show "ram_live (v_fs v) (root_inode v r)" using cached_node(3) [OF c placed_root [OF rn] rn(1)] rn(1) by (simp add: root_inode_def attached_def)
    show "\<forall>y \<in> set ns. plain y" using placed_path [OF t i] by (auto simp: proper_def)
  qed (rule cached_node(4) [OF c i])
  then have "cached ram_live ram_lookup fst mt v'" using c live v'(4) unfolding cached_def a p ri by auto
  moreover have "tree_ok v'" using t tree_cong [OF v'(1,2)] by simp
  moreover have "ram_good (v_fs v')" using g rf by (auto simp: ram_good_def v'(3) obj_append split: if_splits)
  ultimately show ?thesis using ramfs_fsi_serves [OF s v'(4)] by (simp add: ram_tree_def)
qed

subsection \<open>Lookup, creation and mounting\<close>

text \<open>
  C34. Lookup refines the walk. In a virtual file system of RAM file systems whose cache agrees with them, let a path be
  absolute, or relative and not leading to the root (for these the lookup stays where it is). Looking it up
  from a node in the tree returns the node of the inode that the names of the normalised path lead to from the root, passing mounted
  file systems in their place; when they lead nowhere it returns the error of the file system. The file systems do not change,
  and the cache agrees with them afterwards.
\<close>

theorem vfs_lookup_refines_walk:
  assumes "ram_tree mt v" "placed v i ns r" "attached v i n" "NUL \<notin> set Path" "PathIsAbsolute Path \<or> path_names (n_Path n) Path \<noteq> []"
  shows "\<exists>e v'. Lookup (Some i) Path v = Inr (e, v') \<and> ram_tree mt v' \<and> v_fs v' = v_fs v \<and>
    (\<forall>j m ms q. placed v j ms q \<longrightarrow> attached v j m \<longrightarrow> placed v' j ms q) \<and>
    (case walk_ns (mt r) (ram_lookup (v_fs v)) [] (root_inode v r) (path_names (n_Path n) Path) of
       Inl f \<Rightarrow> False
     | Inr (ret, None) \<Rightarrow> e = (None, ret)
     | Inr (ret, Some inode) \<Rightarrow> ret = 0 \<and> (\<exists>c m. e = (Some c, 0) \<and> placed v' c (path_names (n_Path n) Path) r \<and> v_nodes v' c = Some m \<and>
         n_inode m = inode \<and> n_Path m = CHR ''/'' # join_segs (path_names (n_Path n) Path)))"
proof (rule ram_vfs.lookup_walk [OF assms(1) [unfolded ram_tree_ok] assms(2-5)], goal_cases)
  case (1 c m v')
  have "n_Path m = CHR ''/'' # join_segs (path_names (n_Path n) Path)" using placed_path [OF _ 1(4,5)] 1(2) by (simp add: ram_vfs.vfs_ok_def)
  then show ?case using 1 refills_eq [OF 1(3)] grows_placed by (auto simp: ram_tree_ok attached_def)
next
  case (2 v')
  then show ?case using refills_eq [OF 2(3)] grows_placed by (auto simp: ram_tree_ok missing_def)
qed

text \<open>
  C35. A created file is found. Creating a new name in a directory succeeds, and looking up its path from any node of the same
  tree afterwards returns the very node that was created; every node that was there before is still in its place.
\<close>

theorem vfs_create_then_lookup:
  assumes "ram_tree mt v" "placed v i ns r" "attached v i n" "proper Name" "ram_room 1 (v_fs v)"
    and "walk_ns (mt r) (ram_lookup (v_fs v)) [] (root_inode v r) (ns @ [Name]) = missing" and j: "placed v j ms r" "attached v j m"
  shows "\<exists>c v'. Create (Some i) Name Mode ErrorIfExists v = Inr ((Some c, 0), v') \<and> ram_tree mt v' \<and>
    (\<exists>v''. Lookup (Some j) (CHR ''/'' # join_segs (ns @ [Name])) v' = Inr ((Some c, 0), v'')) \<and>
    (\<forall>k ks q. placed v k ks q \<longrightarrow> placed v' k ks q)"
proof -
  obtain c cn v' where c: "Create (Some i) Name Mode ErrorIfExists v = Inr ((Some c, 0), v')" "ram_vfs.vfs_ok mt v'" "grows v v'" "placed v' c (ns @ [Name]) r" "attached v' c cn"
    using ram_vfs.create_new [OF assms(1) [unfolded ram_tree_ok] assms(2-4), of 0 Mode ErrorIfExists] assms(5,6) by (metis One_nat_def)
  let ?P = "CHR ''/'' # join_segs (ns @ [Name])"
  have t: "tree_ok v'" "cached ram_live ram_lookup fst mt v'" using c(2) by (simp_all add: ram_vfs.vfs_ok_def)
  obtain cs where jn: "attached v' j (m\<lparr>n_Children := cs\<rparr>)" using grows_attached [OF c(3) j(2)] by blast
  have p: "\<forall>x \<in> set (ns @ [Name]). proper x" using placed_path [OF t(1) c(4,5)] by blast
  have names: "path_names base ?P = ns @ [Name]" for base by (rule path_names_absolute [OF p])
  have "\<exists>v''. Lookup (Some j) ?P v' = Inr ((Some c, 0), v'')"
  proof (rule ram_vfs.lookup_walk [OF c(2) grows_placed [OF j(1) c(3)] jn join_segs_NUL [OF p]], unfold names, goal_cases)
    case (2 d k v'')
    have "placed v'' c (ns @ [Name]) r" by (rule grows_placed [OF c(4) refills_eq(1) [OF 2(3)]])
    then have "d = c" using placed_unique [of v'' d "ns @ [Name]" r c] 2(2,4) by (simp add: ram_vfs.vfs_ok_def)
    then show ?case using 2(1) by blast
  next
    case (3 v'')
    then show ?case using cached_node(4) [OF t(2) c(4,5)] by (simp add: missing_def)
  qed simp
  then show ?thesis using c(1,2) grows_placed [OF _ c(3)] by (auto simp: ram_tree_ok)
qed

text \<open>A root directory with the file \<open>a\<close>, as the virtual file system first sees it.\<close>

definition one_root :: "(RAMFS option list, nat \<times> u64) Virtual" where
  "one_root = \<lparr>v_nodes = [0 \<mapsto> (new_cache (0, 0))\<lparr>n_fsi := Some 0, n_Name := ''/'', n_Path := ''/''\<rparr>], v_next = 1, v_Roots = [(0, 0)],
     v_FileSystems = [(0, 0)], v_fsis = [0 \<mapsto> ramfs_fsi (\<lambda>_. True) id 0], v_deref = ram_deref, v_fs = [Some one_file]\<rparr>"

lemma one_root_attached: "attached one_root i n \<longleftrightarrow> i = 0 \<and> n = (new_cache (0, 0))\<lparr>n_fsi := Some 0, n_Name := ''/'', n_Path := ''/''\<rparr>"
  by (auto simp: attached_def one_root_def new_cache_def split: if_splits)

lemma one_root_placed: "placed one_root i ns r \<longleftrightarrow> i = 0 \<and> ns = [] \<and> r = 0"
proof
  show "placed one_root i ns r \<Longrightarrow> i = 0 \<and> ns = [] \<and> r = 0" by (induction rule: placed.induct) (auto simp: one_root_attached new_cache_def)
  show "i = 0 \<and> ns = [] \<and> r = 0 \<Longrightarrow> placed one_root i ns r" using placed_root [of one_root 0] by (auto simp: one_root_attached new_cache_def)
qed

lemma one_root_ok: "ram_tree (\<lambda>_ _. None) one_root"
proof -
  have "serves ram_lookup ram_create fst one_root"
    by (rule ramfs_fsi_serves [of "one_root\<lparr>v_fsis := Map.empty\<rparr>" _ 0 "\<lambda>_. True"]) (simp_all add: serves_def one_root_def)
  moreover have "ram_good (v_fs one_root)" using one_file_wf by (auto simp: ram_good_def one_root_def obj_def split: if_splits)
  ultimately show ?thesis unfolding ram_tree_ok
    by (intro ram_vfs.only_root(1)) (auto simp: one_root_def new_cache_def ram_live_def obj_def one_file_def created_def root_only_def)
qed

theorem vfs_lookup_refines_walk_witness:
  "\<exists>c m v'. Lookup (Some 0) ''/a'' one_root = Inr ((Some c, 0), v') \<and> v_nodes v' c = Some m \<and> n_inode m = (0, 1) \<and> n_Path m = ''/a''"
proof -
  let ?n = "(new_cache (0 :: nat, 0 :: u64))\<lparr>n_fsi := Some 0, n_Name := ''/'', n_Path := ''/''\<rparr>"
  have names: "path_names (n_Path ?n) ''/a'' = [''a'']" using path_names_absolute [of "[''a'']"] by (simp add: proper_def plain_def)
  have w: "walk_ns (\<lambda>_. None) (ram_lookup (v_fs one_root)) [] (root_inode one_root 0) [''a''] = Inr (0, Some (0, 1))"
    using ramfs_lookup_eq [OF one_file_wf, of 0 _ "''a''" id]
    by (simp add: ram_lookup_def obj_lookup_def on_obj_def one_root_def root_inode_def new_cache_def obj_def one_file_def created_def root_only_def new_node_def plain_def found_def)
  show ?thesis
    using vfs_lookup_refines_walk [OF one_root_ok, of 0 "[]" 0 ?n "''/a''"] names w
    by (auto simp: one_root_placed one_root_attached PathIsAbsolute_iff char_at_def)
qed

theorem vfs_create_then_lookup_witness:
  "\<exists>c v'. Create (Some 0) ''b'' S_IFREG True one_root = Inr ((Some c, 0), v') \<and> (\<exists>v''. Lookup (Some 0) ''/b'' v' = Inr ((Some c, 0), v''))"
proof -
  let ?n = "(new_cache (0 :: nat, 0 :: u64))\<lparr>n_fsi := Some 0, n_Name := ''/'', n_Path := ''/''\<rparr>"
  have w: "walk_ns (\<lambda>_. None) (ram_lookup (v_fs one_root)) [] (root_inode one_root 0) ([] @ [''b'']) = missing"
    using ramfs_lookup_eq [OF one_file_wf, of 0 _ "''b''" id]
    by (simp add: ram_lookup_def obj_lookup_def on_obj_def one_root_def root_inode_def new_cache_def obj_def one_file_def created_def root_only_def new_node_def plain_def found_def missing_def)
  have "ram_room 1 (v_fs one_root)" by (auto simp: ram_room_def one_root_def obj_def ramfs_room_def one_file_def created_def root_only_def split: if_splits)
  then show ?thesis
    using vfs_create_then_lookup [OF one_root_ok, of 0 "[]" 0 ?n "''b''" 0 "[]" ?n S_IFREG True] w
    by (auto simp: one_root_placed one_root_attached proper_def plain_def)
qed

lemma new_ramfs:
  assumes "plain Name"
  shows "\<exists>rf. RAMFS_Create (RAMFS_new\<lparr>rf_RootName := Name, rf_DeviceID := d\<rparr>) None Name Mode = Inr (0, Some 0, rf) \<and> ramfs_wf rf \<and> rf_nodes rf 0 \<noteq> None"
  using assms by (simp add: RAMFS_Create_def basename_plain RAMFS_new_def rf_put_def ramfs_wf_def size_ok_def kstat_zero_def)

lemma mount_and_root:
  assumes ok: "ram_tree mt v" and i: "placed v i ns r" "attached v i n" and x: "proper Name"
    and absent: "\<forall>c m. c \<in> set (n_Children n) \<longrightarrow> v_nodes v c = Some m \<longrightarrow> n_Name m \<noteq> Name"
  defines "k \<equiv> length (v_fs v)"
  obtains c m d w v' where "MountAndRootRAMFS heap id (Some i) Name Index v = Inr (True, v')"
    "ram_tree (mt(r := (mt r)(ns @ [Name] \<mapsto> (k, 0)))) w" "placed w c (ns @ [Name]) r" "attached w c m" "n_inode m = (k, 0)" "grows v w"
    "v_Roots w = v_Roots v" "Convert (k, 0) w = (v_next w, d)"
    "v' = (if map_of (v_Roots v) Index = None then d\<lparr>v_Roots := v_Roots v @ [(Index, v_next w)]\<rparr> else d)"
proof -
  obtain dev u where u: "RegisterFileSystem k (v\<lparr>v_fsis := (v_fsis v)(k \<mapsto> ramfs_fsi heap id k)\<rparr>) = (dev, u)" by fastforce
  obtain rf where rf: "RAMFS_Create (RAMFS_new\<lparr>rf_RootName := Name, rf_DeviceID := dev\<rparr>) None Name (S_IFDIR OR 0x1ED) = Inr (0, Some 0, rf)" "ramfs_wf rf" "rf_nodes rf 0 \<noteq> None"
    using new_ramfs [of Name dev "S_IFDIR OR 0x1ED"] x unfolding proper_def by blast
  define t where "t = u\<lparr>v_fs := v_fs u @ [Some rf]\<rparr>"
  have u': "v_nodes t = v_nodes v" "v_next t = v_next v" "v_fs t = v_fs v @ [Some rf]" "v_fsis t = (v_fsis v)(k \<mapsto> ramfs_fsi heap id k)" "v_Roots t = v_Roots v"
    using u by (auto simp: RegisterFileSystem_def Let_def t_def)
  have uo: "ram_tree mt t" by (rule ram_tree_more [OF ok rf(2) u'(1-4) [unfolded k_def]])
  have a: "attached t = attached v" by (rule attached_cong [OF u'(1)])
  have ti: "placed t i ns r" "attached t i n" using i by (simp_all add: placed_cong [OF a] a)
  have absent': "\<forall>c m. c \<in> set (n_Children n) \<longrightarrow> v_nodes t c = Some m \<longrightarrow> n_Name m \<noteq> Name" using absent u'(1) by simp
  have live: "ram_live (v_fs t) (k, 0)" using rf(3) unfolding u'(3) by (simp add: ram_live_def obj_append k_def)
  obtain c m w where w: "Mount_inode (Some i) (Some (k, 0)) Name k t = Inr ((Some c, 0), w)" "ram_tree (mt(r := (mt r)(ns @ [Name] \<mapsto> (k, 0)))) w" "refills t w"
      "placed w c (ns @ [Name]) r" "attached w c m" "n_inode m = (k, 0)"
    by (rule ram_vfs.mount_new [OF uo [unfolded ram_tree_ok] ti x absent' live, of k]) (auto simp: u'(4) ram_tree_ok)
  obtain d where d: "Convert (k, 0) w = (v_next w, d)" by (simp add: Convert_def)
  have roots: "v_Roots w = v_Roots v" "v_Roots d = v_Roots v" using refills_eq(5) [OF w(3)] u'(5) d by (auto simp: Convert_def vfs_put_def)
  have gr: "grows v w" using refills_eq(1) [OF w(3)] u'(1) by (simp add: grows_def)
  have eq: "MountAndRootRAMFS heap id (Some i) Name Index v = Inr (True, if map_of (v_Roots v) Index = None then d\<lparr>v_Roots := v_Roots v @ [(Index, v_next w)]\<rparr> else d)"
    using u rf(1) w(1) d roots unfolding k_def t_def by (simp add: MountAndRootRAMFS_def Let_def AddRoot_def)
  show ?thesis by (rule that [OF eq w(2,4-6) gr roots(1) d refl])
qed

text \<open>
  C36. A mounted RAM file system is found in its place. \<open>MountAndRootRAMFS\<close> on a directory that has no node of that name yet
  makes a new file system, and afterwards lookups in the whole tree follow the names with the root of the new file system
  at the mount point; the nodes that were there before stay in their places.
\<close>

theorem mounted_ramfs_is_in_place:
  assumes "ram_tree mt v" "placed v i ns r" "attached v i n" "proper Name"
    and "\<forall>c m. c \<in> set (n_Children n) \<longrightarrow> v_nodes v c = Some m \<longrightarrow> n_Name m \<noteq> Name"
  shows "\<exists>v' c m. MountAndRootRAMFS heap id (Some i) Name Index v = Inr (True, v') \<and>
    ram_tree (mt(r := (mt r)(ns @ [Name] \<mapsto> (length (v_fs v), 0)))) v' \<and>
    placed v' c (ns @ [Name]) r \<and> attached v' c m \<and> n_inode m = (length (v_fs v), 0) \<and> (\<forall>j ms q. placed v j ms q \<longrightarrow> placed v' j ms q)"
proof (rule mount_and_root [OF assms, of heap Index])
  fix c m d w v'
  assume w: "MountAndRootRAMFS heap id (Some i) Name Index v = Inr (True, v')" "ram_tree (mt(r := (mt r)(ns @ [Name] \<mapsto> (length (v_fs v), 0)))) w" (is "ram_tree ?mt w")
    "placed w c (ns @ [Name]) r" "attached w c m" "n_inode m = (length (v_fs v), 0)" "grows v w" "Convert (length (v_fs v), 0) w = (v_next w, d)"
    "v' = (if map_of (v_Roots v) Index = None then d\<lparr>v_Roots := v_Roots v @ [(Index, v_next w)]\<rparr> else d)"
  have t: "tree_ok w" using w(2) by (simp add: ram_tree_def)
  note det = Convert_detached [OF t w(7)]
  have eq: "v_nodes v' = v_nodes d" "v_next v' = v_next d" "v_fs v' = v_fs w" "v_fsis v' = v_fsis w" using w(7,8) by (auto simp: Convert_def vfs_put_def)
  have a: "attached v' = attached w" using attached_cong [OF eq(1)] det(1) by simp
  have p: "placed v' = placed w" by (rule placed_cong [OF a])
  have "root_inode v' q = root_inode w q" if pq: "placed w j ms q" for j ms q
  proof -
    obtain rn where "attached w q rn" using placed_is_root [OF pq] by blast
    moreover have "attached v' q rn" unfolding a by (rule calculation)
    ultimately show ?thesis by (simp add: root_inode_def attached_def)
  qed
  then have "cached ram_live ram_lookup fst ?mt v'" using w(2) unfolding ram_tree_def cached_def a p eq by simp
  moreover have "tree_ok v'" using det(3) tree_cong [OF eq(1,2)] by simp
  ultimately have "ram_tree ?mt v'" using w(2) eq by (simp add: ram_tree_def serves_def)
  then show ?thesis using w(1,3-5) a p grows_placed [OF _ w(6)] by auto
qed

theorem mounted_ramfs_is_in_place_witness:
  "\<exists>v' c m. MountAndRootRAMFS (\<lambda>_. True) id (Some 0) ''linux'' 1 one_root = Inr (True, v') \<and> placed v' c [''linux''] 0 \<and> attached v' c m \<and> n_inode m = (1, 0)"
proof -
  let ?n = "(new_cache (0 :: nat, 0 :: u64))\<lparr>n_fsi := Some 0, n_Name := ''/'', n_Path := ''/''\<rparr>"
  have "length (v_fs one_root) = 1" by (simp add: one_root_def)
  then show ?thesis
    using mounted_ramfs_is_in_place [OF one_root_ok, of 0 "[]" 0 ?n "''linux''" "\<lambda>_. True" 1]
    by (auto simp: one_root_placed one_root_attached proper_def plain_def new_cache_def)
qed

subsection \<open>What goes wrong\<close>

lemma lookup_detached:
  assumes c: "v_nodes v c = Some (new_cache i)" and x: "proper x"
  shows "Lookup (Some c) x v = Inl NullPointer"
proof -
  have nm: "plain x" "x \<noteq> ''.''" "x \<noteq> ''..''" "NUL \<notin> set x" using x by (simp_all add: proper_def plain_def)
  have rel: "\<not> PathIsAbsolute x" using nm(1) by (cases x) (auto simp: PathIsAbsolute_iff char_at_def plain_def)
  have "segs CWK_STYLE_UNIX [] = []" by (simp add: segs_def segpos_NUL char_at_def)
  then have "all_segs [[], x] = [x]" unfolding all_segs_def using segs_plain [OF nm(1)] by (simp del: segs_Nil)
  then have nf: "normal_form [[], x] = x" using nm(2,3) unix_absolute(1) [of "[]"]
    by (simp add: normal_form_def cwk_path_is_absolute_def char_at_def)
  obtain b where "cwk_path_join_and_normalize_multiple CWK_STYLE_UNIX [[], x] (replicate (length x + 2) NUL) = Inr (length x, b)" "string_resize b (length x) = x"
    using normalized [of "[[], x]" "length x + 2"] nm(4) nf by auto
  then have norm: "NormalizePath v c x True = Inr x" using c by (simp add: NormalizePath_def vfs_node_def new_cache_def cwk_path_join_def)
  obtain found seg where fs: "cwk_path_get_first_segment CWK_STYLE_UNIX x = (found, seg)" by fastforce
  have found using first_segment_at(1) [OF root_unix fs [unfolded cwk_path_get_first_segment_def]] segpos_plain [OF nm(1)] by simp
  moreover have "lookup_loop c ''/'' seg v = Inl NullPointer"
    using c by (subst lookup_loop.simps) (simp add: lookup_segment_def CachedSearch_def vfs_node_def new_cache_def eNode_ok_def node_fsi_def)
  ultimately show ?thesis using c rel norm fs nm(2,3) by (simp add: Lookup_def vfs_node_def Let_def new_cache_def)
qed

text \<open>
  C37. The root that \<open>MountAndRootRAMFS\<close> registers is not the mounted node but a second one, made from the same inode without
  file system, name and path: looking up or creating any name in it dereferences the null pointer.
\<close>

theorem registered_ramfs_root_is_unusable:
  assumes "ram_tree mt v" "placed v i ns r" "attached v i n" "proper Name"
    and "\<forall>c m. c \<in> set (n_Children n) \<longrightarrow> v_nodes v c = Some m \<longrightarrow> n_Name m \<noteq> Name" and "\<not> RootExists v Index" "proper x"
  shows "\<exists>v' c. MountAndRootRAMFS heap id (Some i) Name Index v = Inr (True, v') \<and> GetRoot v' Index = (Some c, 0) \<and>
    Lookup (Some c) x v' = Inl NullPointer \<and> Create (Some c) x Mode ErrorIfExists v' = Inl NullPointer"
proof (rule mount_and_root [OF assms(1-5), of heap Index])
  fix c m d w v'
  assume w: "MountAndRootRAMFS heap id (Some i) Name Index v = Inr (True, v')" "Convert (length (v_fs v), 0) w = (v_next w, d)"
    "v' = (if map_of (v_Roots v) Index = None then d\<lparr>v_Roots := v_Roots v @ [(Index, v_next w)]\<rparr> else d)"
  have "v_nodes v' (v_next w) = Some (new_cache (length (v_fs v), 0))" using w(2,3) by (auto simp: Convert_def vfs_put_def)
  from lookup_detached [OF this assms(7)] have "Lookup (Some (v_next w)) x v' = Inl NullPointer" .
  moreover have "GetRoot v' Index = (Some (v_next w), 0)" using w(3) assms(6) by (simp add: RootExists_def GetRoot_def map_of_append map_add_def)
  ultimately show ?thesis using w(1) by (auto simp: Create_def)
qed

theorem registered_ramfs_root_is_unusable_witness:
  "\<exists>v' c. MountAndRootRAMFS (\<lambda>_. True) id (Some 0) ''linux'' 1 one_root = Inr (True, v') \<and> GetRoot v' 1 = (Some c, 0) \<and>
     Create (Some c) ''bin'' 0x1ED True v' = Inl NullPointer"
proof -
  have "\<not> RootExists one_root 1" by (simp add: RootExists_def one_root_def)
  then show ?thesis
    using registered_ramfs_root_is_unusable [OF one_root_ok, of 0 "[]" 0 "(new_cache (0, 0))\<lparr>n_fsi := Some 0, n_Name := ''/'', n_Path := ''/''\<rparr>" "''linux''" 1 "''bin''" "\<lambda>_. True" "0x1ED" True]
    by (auto simp: one_root_placed one_root_attached proper_def plain_def new_cache_def)
qed

text \<open>
  A relative path other than \<open>..\<close> that leads up to the root, such as \<open>../..\<close> from \<open>/a/b\<close>, is looked up wrongly: the result
  is the node the lookup started from and not the root. (The path \<open>..\<close> itself gives the parent.)
\<close>

theorem relative_path_to_the_root_stays:
  assumes "tree_ok v" "placed v i ns r" "attached v i n" "NUL \<notin> set Path" "\<not> PathIsAbsolute Path" "Path \<noteq> ''..''"
    and "path_names (n_Path n) Path = []" "ns \<noteq> []"
  shows "Lookup (Some i) Path v = Inr ((Some i, 0), v) \<and> i \<noteq> r"
proof -
  have "Path \<noteq> ''.''"
  proof
    assume "Path = ''.''"
    then obtain c where "placed v c [] r" "Lookup (Some i) Path v = Inr ((Some c, 0), v)" using lookup_dots [OF assms(1-3), of Path] assms(7) by auto
    moreover have "Lookup (Some i) Path v = Inr ((Some i, 0), v)" using \<open>Path = ''.''\<close> assms(3) by (simp add: Lookup_def vfs_node_def attached_def)
    ultimately have "placed v i [] r" by simp
    then show False using placed_functional [OF assms(2)] assms(8) by blast
  qed
  then have "Lookup (Some i) Path v = Inr ((Some i, 0), v)" using lookup_starts(3) [OF assms(1-4) _ assms(6,7)] assms(5) by simp
  moreover have "placed v r [] r" using placed_is_root [OF assms(2)] placed_root by blast
  then have "i \<noteq> r" using placed_functional [OF assms(2)] assms(8) by blast
  ultimately show ?thesis by blast
qed

text \<open>The node of \<open>/a\<close> below the root.\<close>

definition one_child :: "(RAMFS option list, nat \<times> u64) Virtual" where
  "one_child = one_root\<lparr>v_next := 2, v_nodes :=
     [0 \<mapsto> (new_cache (0, 0))\<lparr>n_fsi := Some 0, n_Name := ''/'', n_Path := ''/'', n_Children := [1]\<rparr>,
      1 \<mapsto> (new_cache (0, 1))\<lparr>n_fsi := Some 0, n_Name := ''a'', n_Path := ''/a'', n_Parent := Some 0\<rparr>]\<rparr>"

theorem relative_path_to_the_root_stays_witness:
  "Lookup (Some 1) ''../'' one_child = Inr ((Some 1, 0), one_child) \<and> (1 :: nat) \<noteq> 0"
proof -
  let ?r = "(new_cache (0 :: nat, 0 :: u64))\<lparr>n_fsi := Some 0, n_Name := ''/'', n_Path := ''/'', n_Children := [1]\<rparr>"
  let ?n = "(new_cache (0 :: nat, 1 :: u64))\<lparr>n_fsi := Some 0, n_Name := ''a'', n_Path := ''/a'', n_Parent := Some 0\<rparr>"
  have at: "attached one_child i m \<longleftrightarrow> (i = 0 \<and> m = ?r) \<or> (i = 1 \<and> m = ?n)" for i m by (auto simp: attached_def one_child_def new_cache_def split: if_splits)
  have t: "tree_ok one_child" unfolding tree_ok_def
    by (auto simp: at node_ok_def new_cache_def proper_def plain_def extend_path_def) (simp add: one_child_def split: if_splits)
  have "placed one_child 0 [] 0" by (rule placed_root [of _ _ ?r]) (simp_all add: at new_cache_def)
  then have p: "placed one_child 1 [''a''] 0" using placed_child [of one_child 0 "[]" 0 1 ?n] by (simp add: at new_cache_def)
  have "segs CWK_STYLE_UNIX ''../'' = [''..'']" using segs_name [of "''..''" "[]"] by (simp add: plain_def segs_def segpos_NUL char_at_def)
  moreover have "segs CWK_STYLE_UNIX ''/a'' = [''a'']" using segs_separator [of "''a''"] segs_plain [of "''a''"] by (simp add: plain_def)
  ultimately have "path_names (n_Path ?n) ''../'' = []" by (simp add: path_names_def char_at_def del: segs_Nil)
  then show ?thesis using relative_path_to_the_root_stays [OF t p, of ?n "''../''"] by (simp add: at PathIsAbsolute_iff char_at_def)
qed

end
