(* ===== verification/Ustar.thy ===== *)
theory Ustar
  imports Inodes Cwalk Ramfs
begin

unbundle bit_operations_syntax

section \<open>The archive file system\<close>

text \<open>
  A model of src/Kernel/fs/ustar.cpp and src/Kernel/include/fs/ustar.hpp: the file system of the boot archive. The archive is the
  memory \<open>us_mem\<close> the boot loader has mapped, from the address the file system is given on; an address is an offset in it, and
  an address behind it is not mapped. A pointer to a \<open>USTARInode\<close> is its number, as in \<open>Ramfs\<close>; a pointer to a header is a
  place in the archive or, for a created file, the header itself. \<open>char\<close> is signed, and \<open>int\<close> arithmetic on the digits of a
  field wraps.
\<close>

subsection \<open>Headers\<close>

datatype TypeFlag = AREGTYPE | REGTYPE | LNKTYPE | SYMTYPE | CHRTYPE | BLKTYPE | DIRTYPE | FIFOTYPE | CONTTYPE

definition type_char :: "TypeFlag \<Rightarrow> char" where
  "type_char t = (case t of AREGTYPE \<Rightarrow> NUL | REGTYPE \<Rightarrow> CHR ''0'' | LNKTYPE \<Rightarrow> CHR ''1'' | SYMTYPE \<Rightarrow> CHR ''2'' | CHRTYPE \<Rightarrow> CHR ''3''
     | BLKTYPE \<Rightarrow> CHR ''4'' | DIRTYPE \<Rightarrow> CHR ''5'' | FIFOTYPE \<Rightarrow> CHR ''6'' | CONTTYPE \<Rightarrow> CHR ''7'')"

definition TSUID :: u32 where "TSUID = 0x800"
definition TSGID :: u32 where "TSGID = 0x400"
definition TSVTX :: u32 where "TSVTX = 0x200"
definition TUREAD :: u32 where "TUREAD = 0x100"
definition TUWRITE :: u32 where "TUWRITE = 0x80"
definition TUEXEC :: u32 where "TUEXEC = 0x40"
definition TGREAD :: u32 where "TGREAD = 0x20"
definition TGWRITE :: u32 where "TGWRITE = 0x10"
definition TGEXEC :: u32 where "TGEXEC = 0x8"
definition TOREAD :: u32 where "TOREAD = 0x4"
definition TOWRITE :: u32 where "TOWRITE = 0x2"
definition TOEXEC :: u32 where "TOEXEC = 0x1"

definition S_ISUID :: u32 where "S_ISUID = 0x800"
definition S_ISGID :: u32 where "S_ISGID = 0x400"
definition S_ISVTX :: u32 where "S_ISVTX = 0x200"
definition S_IRUSR :: u32 where "S_IRUSR = 0x100"
definition S_IWUSR :: u32 where "S_IWUSR = 0x80"
definition S_IXUSR :: u32 where "S_IXUSR = 0x40"
definition S_IRGRP :: u32 where "S_IRGRP = 0x20"
definition S_IWGRP :: u32 where "S_IWGRP = 0x10"
definition S_IXGRP :: u32 where "S_IXGRP = 0x8"
definition S_IROTH :: u32 where "S_IROTH = 0x4"
definition S_IWOTH :: u32 where "S_IWOTH = 0x2"
definition S_IXOTH :: u32 where "S_IXOTH = 0x1"

text \<open>\<open>struct FileHeader\<close>: where its fields begin, and its size.\<close>

datatype header_field = h_name | h_mode | h_uid | h_gid | h_size | h_mtime | h_chksum | h_typeflag | h_link | h_signature | h_version
  | h_owner | h_group | h_dev_maj | h_dev_min | h_prefix | h_pad

fun field_offset :: "header_field \<Rightarrow> nat" where
  "field_offset h_name = 0"
| "field_offset h_mode = 100"
| "field_offset h_uid = 108"
| "field_offset h_gid = 116"
| "field_offset h_size = 124"
| "field_offset h_mtime = 136"
| "field_offset h_chksum = 148"
| "field_offset h_typeflag = 156"
| "field_offset h_link = 157"
| "field_offset h_signature = 257"
| "field_offset h_version = 263"
| "field_offset h_owner = 265"
| "field_offset h_group = 297"
| "field_offset h_dev_maj = 329"
| "field_offset h_dev_min = 337"
| "field_offset h_prefix = 345"
| "field_offset h_pad = 500"

definition header_size :: nat where "header_size = 512"

datatype header = InArchive nat | OnHeap string

record USTARInode =
  u_Node :: Inode
  u_Header :: header
  u_Parent :: "u64 option"
  u_Name :: string
  u_Path :: string
  u_Children :: "u64 list"
  u_Deleted :: bool

record USTAR =
  us_nodes :: "u64 \<Rightarrow> USTARInode option"
  us_Files :: "u64 list"
  us_DeviceID :: u64
  us_NextInode :: u64
  us_mem :: string

definition USTAR_new :: USTAR where
  "USTAR_new = \<lparr>us_nodes = (\<lambda>_. None), us_Files = [], us_DeviceID = -1, us_NextInode = 0, us_mem = []\<rparr>"

definition us_node :: "USTAR \<Rightarrow> u64 \<Rightarrow> USTARInode res" where
  "us_node us i = (case us_nodes us i of None \<Rightarrow> Inl DanglingPointer | Some n \<Rightarrow> Inr n)"

definition us_put :: "u64 \<Rightarrow> USTARInode \<Rightarrow> USTAR \<Rightarrow> USTAR" where
  "us_put i n us = us\<lparr>us_nodes := (us_nodes us)(i \<mapsto> n)\<rparr>"

text \<open>The memory from a header on.\<close>

definition header_bytes :: "USTAR \<Rightarrow> header \<Rightarrow> string" where
  "header_bytes us h = (case h of InArchive a \<Rightarrow> drop a (us_mem us) | OnHeap b \<Rightarrow> b)"

definition byte_at :: "string \<Rightarrow> nat \<Rightarrow> char res" where
  "byte_at bytes i = (if i < length bytes then Inr (bytes ! i) else Inl OutOfBounds)"

text \<open>A C string at an offset.\<close>

definition cstr :: "string \<Rightarrow> nat \<Rightarrow> string res" where
  "cstr bytes i =
     (if NUL \<in> set (drop i bytes) then Inr (takeWhile (\<lambda>c. c \<noteq> NUL) (drop i bytes)) else Inl OutOfBounds)"

definition char_int :: "char \<Rightarrow> u32" where
  "char_int c = scast (of_char c :: u8)"

definition GetSize :: "string \<Rightarrow> u32" where
  "GetSize String = foldl (\<lambda>ret c. ret * 8 + (char_int c - 48)) 0 String"

definition StringToInt :: "string \<Rightarrow> u32" where
  "StringToInt String = foldl (\<lambda>ret c. ret * 10 + char_int c - 48) 0 String"

text \<open>\<open>strncmp(l, r, n) == 0\<close>, where \<open>r\<close> is a literal.\<close>

fun strncmp_eq :: "string \<Rightarrow> string \<Rightarrow> nat \<Rightarrow> bool res" where
  "strncmp_eq l r 0 = Inr True"
| "strncmp_eq [] r (Suc n) = Inl OutOfBounds"
| "strncmp_eq (c # l) [] (Suc n) = Inr (c = NUL)"
| "strncmp_eq (c # l) (d # r) (Suc n) = (if c = d then strncmp_eq l r n else Inr False)"

definition strncpy_at :: "string \<Rightarrow> nat \<Rightarrow> string \<Rightarrow> nat \<Rightarrow> string res" where
  "strncpy_at destination pos source num = (let s = take num source @ [NUL] in memcpy destination (int pos) s (length s))"

subsection \<open>Modes\<close>

text \<open>The \<open>else if\<close> chains: the mode of the first bit that is set.\<close>

definition mode_bits :: "(u32 \<times> u32) list" where
  "mode_bits = [(TSUID, S_ISUID), (TSGID, S_ISGID), (TSVTX, S_ISVTX), (TUREAD, S_IRUSR), (TUWRITE, S_IWUSR), (TUEXEC, S_IXUSR),
     (TGREAD, S_IRGRP), (TGWRITE, S_IWGRP), (TGEXEC, S_IXGRP), (TOREAD, S_IROTH), (TOWRITE, S_IWOTH), (TOEXEC, S_IXOTH)]"

definition first_bit :: "(u32 \<times> u32) list \<Rightarrow> u32 \<Rightarrow> u32" where
  "first_bit bits mode = (case find (\<lambda>(b, _). mode AND b \<noteq> 0) bits of None \<Rightarrow> 0 | Some (_, s) \<Rightarrow> s)"

definition type_mode :: "char \<Rightarrow> u32" where
  "type_mode c =
     (if c = type_char AREGTYPE \<or> c = type_char REGTYPE then S_IFREG
      else if c = type_char LNKTYPE then S_IFLNK else if c = type_char SYMTYPE then S_IFLNK
      else if c = type_char CHRTYPE then S_IFCHR else if c = type_char BLKTYPE then S_IFBLK
      else if c = type_char DIRTYPE then S_IFDIR else if c = type_char FIFOTYPE then S_IFIFO else 0)"

text \<open>\<open>SetMode\<close> of \<open>ReadArchive\<close>, and the end of \<open>Stat\<close>: what is added to the mode.\<close>

definition header_mode :: "string \<Rightarrow> u32 res" where
  "header_mode hdr =
     rbind (cstr hdr (field_offset h_mode)) (\<lambda>m.
     rbind (byte_at hdr (field_offset h_typeflag)) (\<lambda>t.
     Inr (first_bit mode_bits (StringToInt m) OR type_mode t)))"

text \<open>\<open>SetMode\<close> of \<open>Create\<close>: the type flag, if one is chosen, and the mode in seven octal digits.\<close>

definition mode_type_char :: "u32 \<Rightarrow> char option" where
  "mode_type_char Mode =
     (if Mode AND S_IFREG \<noteq> 0 then Some (type_char REGTYPE) else if Mode AND S_IFLNK \<noteq> 0 then Some (type_char SYMTYPE)
      else if Mode AND S_IFCHR \<noteq> 0 then Some (type_char CHRTYPE) else if Mode AND S_IFBLK \<noteq> 0 then Some (type_char BLKTYPE)
      else if Mode AND S_IFDIR \<noteq> 0 then Some (type_char DIRTYPE) else if Mode AND S_IFIFO \<noteq> 0 then Some (type_char FIFOTYPE) else None)"

definition octal_digits :: "nat \<Rightarrow> nat \<Rightarrow> string" where
  "octal_digits n x = map (\<lambda>i. char_of (48 + (x div 8 ^ i) mod 8)) (rev [0..<n])"

definition SetMode :: "u32 \<Rightarrow> string \<Rightarrow> string res" where
  "SetMode Mode hdr =
     (let hdr = (case mode_type_char Mode of None \<Rightarrow> hdr | Some c \<Rightarrow> hdr[field_offset h_typeflag := c]) in
      strncpy_at hdr (field_offset h_mode) (octal_digits 7 (unat (first_bit (map (\<lambda>(t, s). (s, t)) mode_bits) Mode))) 7)"

subsection \<open>Lookup and creation\<close>

fun us_first_named :: "USTAR \<Rightarrow> u64 list \<Rightarrow> string \<Rightarrow> u64 option res" where
  "us_first_named us [] name = Inr None"
| "us_first_named us (i # is) name =
     rbind (us_node us i) (\<lambda>n. if u_Deleted n \<or> u_Name n \<noteq> name then us_first_named us is name else Inr (Some i))"

definition USTAR_Lookup :: "(u64 list \<Rightarrow> u64 list) \<Rightarrow> USTAR \<Rightarrow> u64 option \<Rightarrow> string \<Rightarrow> (int \<times> u64 option) res" where
  "USTAR_Lookup walk us Parent Name =
     rbind (cwk_path_get_basename CWK_STYLE_UNIX Name) (\<lambda>basename.
     case basename of
       None \<Rightarrow>
         if Name = ''/'' then
           if 0 \<in> set (us_Files us) then Inr (0, Some 0) else Inl OutOfBounds
         else Inr (- EINVAL, None)
     | Some (b, _) \<Rightarrow>
         case Parent of
           Some p \<Rightarrow> rbind (us_node us p) (\<lambda>pn. rbind (us_first_named us (u_Children pn) (drop b Name)) (\<lambda>r. Inr (found r)))
         | None \<Rightarrow> rbind (us_first_named us (walk (us_Files us)) (drop b Name)) (\<lambda>r. Inr (found r)))"

definition us_attach :: "u64 \<Rightarrow> u64 \<Rightarrow> USTAR \<Rightarrow> USTAR res" where
  "us_attach parent file us =
     rbind (us_node us parent) (\<lambda>p.
     let us = us_put parent (p\<lparr>u_Children := u_Children p @ [file]\<rparr>) us in
     rbind (us_node us file) (\<lambda>f. Inr (us_put file (f\<lparr>u_Parent := Some parent\<rparr>) us)))"

definition TMAGIC :: string where "TMAGIC = ''ustar''"
definition TMAGLEN :: nat where "TMAGLEN = 6"
definition TVERSION :: string where "TVERSION = ''00''"
definition TVERSLEN :: nat where "TVERSLEN = 2"

definition USTAR_Create :: "USTAR \<Rightarrow> u64 option \<Rightarrow> string \<Rightarrow> u32 \<Rightarrow> (int \<times> u64 option \<times> USTAR) res" where
  "USTAR_Create us Parent Name Mode =
     (let inode = Inode_zero\<lparr>i_Mode := Mode, i_Device := us_DeviceID us, i_RawDevice := 0, i_Index := us_NextInode us, i_Offset := 0\<rparr> in
      rbind (cwk_path_get_basename CWK_STYLE_UNIX Name) (\<lambda>basename.
      rbind (SetMode Mode (replicate header_size NUL)) (\<lambda>hdr.
      case basename of
        None \<Rightarrow> Inl NullPointer
      | Some (b, len) \<Rightarrow>
          rbind (strncpy_at hdr (field_offset h_name) (drop b Name) 100) (\<lambda>hdr.
          rbind (strncpy_at hdr (field_offset h_signature) TMAGIC TMAGLEN) (\<lambda>hdr.
          rbind (strncpy_at hdr (field_offset h_version) TVERSION TVERSLEN) (\<lambda>hdr.
          let node = \<lparr>u_Node = inode, u_Header = OnHeap hdr, u_Parent = Parent, u_Name = take len (drop b Name), u_Path = Name,
                      u_Children = [], u_Deleted = False\<rparr> in
          rbind (assert_res (us_NextInode us \<notin> set (us_Files us))) (\<lambda>_.
          let us' = us_put (us_NextInode us) node (us\<lparr>us_Files := us_Files us @ [us_NextInode us]\<rparr>) in
          rbind (case Parent of None \<Rightarrow> Inr us' | Some p \<Rightarrow> us_attach p (us_NextInode us) us') (\<lambda>us'.
          Inr (0, Some (us_NextInode us), us'\<lparr>us_NextInode := us_NextInode us' + 1\<rparr>)))))))))"

subsection \<open>Reading\<close>

definition us_find :: "USTAR \<Rightarrow> u64 \<Rightarrow> USTARInode res" where
  "us_find us i = rbind (assert_res (i \<in> set (us_Files us))) (\<lambda>_. us_node us i)"

definition USTAR_Read :: "USTAR \<Rightarrow> u64 \<Rightarrow> u8 list \<Rightarrow> u64 \<Rightarrow> int \<Rightarrow> (int \<times> u8 list) res" where
  "USTAR_Read us Node Buffer Size Offset =
     rbind (us_find us Node) (\<lambda>node.
     if u_Deleted node then Inr (- ENOENT, Buffer)
     else
       let hdr = header_bytes us (u_Header node) in
       rbind (cstr hdr (field_offset h_size)) (\<lambda>digits.
       let fileSize = ucast (GetSize digits) :: u64;
           Offset = word_of_int Offset;
           Size = (if Size = 0 then fileSize else Size) in
       if Offset > fileSize then Inr (0, Buffer)
       else if fileSize - Offset = 0 then Inr (0, Buffer)
       else
         let Size = (if Offset + Size > fileSize then fileSize else Size) in
         rbind (memcpy Buffer 0 (map of_char (drop (header_size + unat Offset) hdr)) (unat Size)) (\<lambda>Buffer.
         Inr (sint Size, Buffer))))"

definition type_d_type :: "char \<Rightarrow> u32" where
  "type_d_type c =
     (if c = type_char AREGTYPE \<or> c = type_char REGTYPE then DT DT_REG
      else if c = type_char LNKTYPE then DT DT_LNK else if c = type_char SYMTYPE then DT DT_LNK
      else if c = type_char CHRTYPE then DT DT_CHR else if c = type_char BLKTYPE then DT DT_BLK
      else if c = type_char DIRTYPE then DT DT_DIR else if c = type_char FIFOTYPE then DT DT_FIFO else 0)"

fun us_ReadDir_children :: "USTAR \<Rightarrow> u64 list \<Rightarrow> u64 \<Rightarrow> int \<Rightarrow> int \<Rightarrow> int \<Rightarrow> nat \<Rightarrow> kdirent list \<Rightarrow> (nat \<times> kdirent list) res" where
  "us_ReadDir_children us [] Size Offset Entries entries totalSize ents = Inr (totalSize, ents)"
| "us_ReadDir_children us (i # is) Size Offset Entries entries totalSize ents =
     rbind (us_node us i) (\<lambda>var.
     if i_Offset (u_Node var) < Offset then us_ReadDir_children us is Size Offset Entries entries totalSize ents
     else if entries \<ge> Entries then Inr (totalSize, ents)
     else if u_Deleted var then us_ReadDir_children us is Size Offset Entries entries totalSize ents
     else if totalSize + unat (reclen (u_Name var)) > unat Size then Inr (totalSize, ents)
     else
       rbind (byte_at (header_bytes us (u_Header var)) (field_offset h_typeflag)) (\<lambda>t.
       us_ReadDir_children us is Size Offset Entries (entries + 1) (totalSize + unat (reclen (u_Name var)))
         (ents @ [\<lparr>d_ino = i_Index (u_Node var), d_off = i_Offset (u_Node var), d_reclen = reclen (u_Name var),
                   d_type = type_d_type t, d_name = u_Name var\<rparr>])))"

definition us_ReadDir_dot :: "USTARInode \<Rightarrow> u64 \<Rightarrow> int \<Rightarrow> int + (int \<times> nat \<times> kdirent list)" where
  "us_ReadDir_dot Node Size Offset =
     (if Offset = 0 then
        if unat (reclen ''.'') \<ge> unat Size then Inl (- EINVAL)
        else Inr (Offset + 1, unat (reclen ''.''),
          [\<lparr>d_ino = i_Index (u_Node Node), d_off = Offset, d_reclen = reclen ''.'', d_type = DT DT_DIR, d_name = ''.''\<rparr>])
      else Inr (Offset, 0, []))"

definition USTAR_ReadDir :: "USTAR \<Rightarrow> u64 \<Rightarrow> u64 \<Rightarrow> int \<Rightarrow> int \<Rightarrow> (int \<times> kdirent list) res" where
  "USTAR_ReadDir us i Size realOffset Entries =
     rbind (us_node us i) (\<lambda>Node.
     case us_ReadDir_dot Node Size realOffset of
       Inl err \<Rightarrow> Inr (err, [])
     | Inr (Offset, totalSize, ents) \<Rightarrow>
         rbind (if Offset \<le> 1 then
             if totalSize + unat (reclen ''..'') \<ge> unat Size then Inr (Inl (if realOffset = 1 then - EINVAL else int totalSize, ents))
             else
               rbind (case u_Parent Node of None \<Rightarrow> Inr (i_Index (u_Node Node))
                        | Some p \<Rightarrow> rbind (us_node us p) (\<lambda>pn. Inr (i_Index (u_Node pn)))) (\<lambda>ino.
               Inr (Inr (Offset + 1, totalSize + unat (reclen ''..''),
                 ents @ [\<lparr>d_ino = ino, d_off = Offset, d_reclen = reclen ''..'', d_type = DT DT_DIR, d_name = ''..''\<rparr>])))
           else Inr (Inr (Offset, totalSize, ents)))
         (\<lambda>r. case r of
            Inl ret \<Rightarrow> Inr ret
          | Inr (Offset, totalSize, ents) \<Rightarrow>
              if \<not> S_IS S_IFDIR (i_Mode (u_Node Node)) then Inr (- ENOTDIR, ents)
              else if (if Offset \<ge> 2 then Offset - 2 else Offset) > int (length (u_Children Node)) then Inr (- EINVAL, ents)
              else
                rbind (us_ReadDir_children us (u_Children Node) Size Offset Entries 0 totalSize ents) (\<lambda>(totalSize, ents).
                Inr (int totalSize,
                  if totalSize + kdirent_size \<ge> unat Size then ents
                  else ents @ [\<lparr>d_ino = 0, d_off = 0, d_reclen = 0, d_type = DT DT_UNKNOWN, d_name = []\<rparr>]))))"

subsection \<open>Links and attributes\<close>

definition USTAR_SymLink :: "USTAR \<Rightarrow> u64 option \<Rightarrow> string \<Rightarrow> string \<Rightarrow> (int \<times> u64 option \<times> USTAR) res" where
  "USTAR_SymLink us Node Name Target =
     rbind (USTAR_Create us Node Name S_IFLNK) (\<lambda>(ret, Result, us).
     if ret < 0 then Inr (ret, Result, us)
     else
       case Result of
         None \<Rightarrow> Inl NullPointer
       | Some i \<Rightarrow>
           rbind (us_node us i) (\<lambda>node.
           rbind (strncpy_at (header_bytes us (u_Header node)) (field_offset h_link) Target (min 99 (length Target))) (\<lambda>hdr.
           Inr (0, Result, us_put i (node\<lparr>u_Header := OnHeap hdr\<rparr>) us))))"

definition USTAR_ReadLink :: "USTAR \<Rightarrow> u64 \<Rightarrow> string \<Rightarrow> u64 \<Rightarrow> (int \<times> string) res" where
  "USTAR_ReadLink us Node Buffer Size =
     rbind (us_find us Node) (\<lambda>node.
     if u_Deleted node then Inr (- ENOENT, Buffer)
     else
       rbind (cstr (header_bytes us (u_Header node)) (field_offset h_link)) (\<lambda>link.
       let Size = (if length link > unat Size then of_nat (length link) else Size) in
       rbind (strncpy Buffer link (unat Size)) (\<lambda>Buffer. Inr (sint Size, Buffer))))"

definition MakeDevice :: "u32 \<Rightarrow> u32 \<Rightarrow> u64" where
  "MakeDevice Major Minor = ucast (push_bit 8 (Major AND 0xFFF) OR (Minor AND 0xFF))"

definition USTAR_Stat :: "USTAR \<Rightarrow> u64 \<Rightarrow> kstat \<Rightarrow> (int \<times> kstat) res" where
  "USTAR_Stat us Node st =
     rbind (us_find us Node) (\<lambda>node.
     if u_Deleted node then Inr (- ENOENT, st)
     else
       let hdr = header_bytes us (u_Header node); field = (\<lambda>f. rbind (cstr hdr (field_offset f)) (\<lambda>s. Inr (GetSize s))) in
       rbind (field h_size) (\<lambda>fileSize.
       rbind (field h_uid) (\<lambda>uid.
       rbind (field h_gid) (\<lambda>gid.
       rbind (field h_dev_maj) (\<lambda>dev_maj.
       rbind (field h_dev_min) (\<lambda>dev_min.
       rbind (field h_mtime) (\<lambda>mtime.
       rbind (header_mode hdr) (\<lambda>mode.
       Inr (0, st\<lparr>st_Device := us_DeviceID us, st_Index := Node, st_Mode := st_Mode st OR mode, st_HardLinks := 1, st_UserID := uid,
         st_GroupID := gid, st_RawDevice := MakeDevice dev_maj dev_min, st_Size := uint fileSize, st_AccessTime := uint mtime,
         st_ModifyTime := uint mtime, st_ChangeTime := uint mtime, st_BlockSize := 512, st_Blocks := (uint fileSize + 511) div 512,
         st_Attribute := 0\<rparr>)))))))))"

definition ustar_DestroyInode :: "USTAR \<Rightarrow> u64 \<Rightarrow> (int \<times> USTAR) res" where
  "ustar_DestroyInode us Node = rbind (us_node us Node) (\<lambda>node. Inr (0, us_put Node (node\<lparr>u_Deleted := True\<rparr>) us))"

subsection \<open>Reading the archive\<close>

definition TestArchive :: "string \<Rightarrow> bool res" where
  "TestArchive mem =
     (if mem = [] then Inr False
      else
        rbind (strncmp_eq (drop (field_offset h_signature) mem) TMAGIC TMAGLEN) (\<lambda>eq.
        if eq then Inr True else strncmp_eq (drop (field_offset h_signature) mem) TMAGIC (TMAGLEN - 1)))"

text \<open>\<open>memmove(header->name, header->name + 1, strlen(header->name))\<close> when the name begins with \<open>./\<close>\<close>

definition strip_dot :: "nat \<Rightarrow> string \<Rightarrow> string res" where
  "strip_dot header mem =
     rbind (byte_at mem header) (\<lambda>c.
     if c \<noteq> CHR ''.'' then Inr mem
     else
       rbind (byte_at mem (header + 1)) (\<lambda>d.
       if d \<noteq> CHR ''/'' then Inr mem
       else
         rbind (cstr mem header) (\<lambda>name.
         memcpy mem (int header) (drop (header + 1) mem) (length name))))"

text \<open>One header of the archive: its inode, and the size of its file.\<close>

definition add_header :: "nat \<Rightarrow> USTAR \<Rightarrow> (u64 \<times> u32 \<times> USTAR) res" where
  "add_header header us =
     rbind (strip_dot header (us_mem us)) (\<lambda>mem.
     let hdr = drop header mem in
     rbind (header_mode hdr) (\<lambda>mode.
     rbind (cstr hdr (field_offset h_name)) (\<lambda>name.
     rbind (cwk_path_get_basename CWK_STYLE_UNIX name) (\<lambda>basename.
     let uNode = Inode_zero\<lparr>i_Device := us_DeviceID us, i_RawDevice := 0, i_Index := us_NextInode us, i_Mode := mode, i_Offset := 0\<rparr>;
         node = \<lparr>u_Node = uNode, u_Header = InArchive header, u_Parent = None,
                 u_Name = (case basename of None \<Rightarrow> name | Some (b, len) \<Rightarrow> take len (drop b name)), u_Path = name,
                 u_Children = [], u_Deleted = False\<rparr>;
         i = us_NextInode us in
     rbind (cstr hdr (field_offset h_size)) (\<lambda>size.
     Inr (i, GetSize size, us_put i node (us\<lparr>us_mem := mem, us_Files := us_Files us @ [i], us_NextInode := i + 1\<rparr>)))))))"

definition next_header :: "nat \<Rightarrow> u32 \<Rightarrow> nat" where
  "next_header Address fsize = Address + (unat fsize div 512 + 1) * 512 + (if unat fsize mod 512 \<noteq> 0 then 512 else 0)"

lemma next_header_moves: "Address < next_header Address fsize"
  by (simp add: next_header_def)

lemma add_header_length: "add_header header us = Inr (i, fsize, us') \<Longrightarrow> length (us_mem us') = length (us_mem us)"
  by (auto simp: add_header_def strip_dot_def us_put_def rbind_def memcpy_length Let_def split: sum.splits if_splits)

text \<open>The headers one after the other, with the inodes made for them; \<open>False\<close> when the archive runs into memory that is not mapped.\<close>

function read_headers :: "nat \<Rightarrow> u64 list \<Rightarrow> USTAR \<Rightarrow> (bool \<times> u64 list \<times> USTAR) res" where
  "read_headers Address tmpNodes us =
     (if \<not> Address < length (us_mem us) then Inr (False, tmpNodes, us)
      else
        case strncmp_eq (drop (Address + field_offset h_signature) (us_mem us)) TMAGIC (TMAGLEN - 1) of
          Inl f \<Rightarrow> Inl f
        | Inr sig \<Rightarrow>
            if \<not> sig then Inr (True, tmpNodes, us)
            else
              case add_header Address us of
                Inl f \<Rightarrow> Inl f
              | Inr (i, fsize, us') \<Rightarrow> read_headers (next_header Address fsize) (tmpNodes @ [i]) us')"
  by auto
termination
proof (relation "measure (\<lambda>(Address, _, us). length (us_mem us) - Address)", goal_cases)
  case (2 Address tmpNodes us sig r i z fsize us')
  then have "length (us_mem us') = length (us_mem us)" using add_header_length by metis
  then show ?case using next_header_moves [of Address fsize] 2(1) by simp
qed simp

declare read_headers.simps [simp del]

subsection \<open>The tree of the archive\<close>

text \<open>
  The directories that are open, outermost first: \<open>parentStack\<close> with its \<open>pathStack\<close>. \<open>pop_levels\<close> is the loop that pops both
  until the path on top is the wanted one.
\<close>

type_synonym levels = "(u64 \<times> string) list"

definition pop_levels :: "string \<Rightarrow> levels \<Rightarrow> levels" where
  "pop_levels dirName st = rev (dropWhile (\<lambda>(_, p). dirName \<noteq> p) (rev st))"

text \<open>Files go below the level with their directory. The loop over the levels goes on after it has found one.\<close>

fun file_levels :: "nat \<Rightarrow> nat \<Rightarrow> string \<Rightarrow> u64 \<Rightarrow> levels \<Rightarrow> USTAR \<Rightarrow> (levels \<times> USTAR) res" where
  "file_levels 0 i dirName file st us = Inr (st, us)"
| "file_levels (Suc n) i dirName file st us =
     (if \<not> i < length st then Inr (st, us)
      else if dirName \<noteq> snd (st ! i) then file_levels n (Suc i) dirName file st us
      else
        let st = pop_levels dirName st in
        if st = [] then Inl OutOfBounds
        else rbind (us_attach (fst (last st)) file us) (\<lambda>us. file_levels n (Suc i) dirName file st us))"

definition link_file :: "u64 \<Rightarrow> levels \<times> USTAR \<Rightarrow> (levels \<times> USTAR) res" where
  "link_file file = (\<lambda>(st, us).
     rbind (us_node us file) (\<lambda>node.
     let path = u_Path node in
     if path = ''/'' then Inr (st @ [(file, path)], us)
     else if path = [] then Inl OutOfBounds
     else
       rbind (cwk_path_get_dirname CWK_STYLE_UNIX path) (\<lambda>length.
       let dirName = take length path in
       if last path = CHR ''/'' then
         if st = [] then Inl OutOfBounds
         else
           let st = (if dirName = snd (last st) then st
                     else if \<exists>l \<in> set st. snd l = dirName then pop_levels dirName st
                     else butlast st) in
           if st = [] then Inl OutOfBounds
           else rbind (us_attach (fst (last st)) file us) (\<lambda>us. Inr (st @ [(file, path)], us))
       else
         if st = [] then Inl OutOfBounds
         else if dirName = snd (last st) then rbind (us_attach (fst (last st)) file us) (\<lambda>us. Inr (st, us))
         else file_levels (List.length st) 0 dirName file st us)))"

text \<open>\<open>ustarTree\<close> numbers the children of a directory from 2 on. The fuel bounds the depth of the tree.\<close>

definition set_offset :: "u64 \<Rightarrow> int \<Rightarrow> USTAR \<Rightarrow> USTAR res" where
  "set_offset i off us = rbind (us_node us i) (\<lambda>n. Inr (us_put i (n\<lparr>u_Node := (u_Node n)\<lparr>i_Offset := off\<rparr>\<rparr>) us))"

fun ustarTree :: "nat \<Rightarrow> u64 \<Rightarrow> USTAR \<Rightarrow> USTAR res" where
  "ustarTree 0 node us = Inl Diverges"
| "ustarTree (Suc n) node us =
     rbind (us_node us node) (\<lambda>un.
     each_res (\<lambda>(child, off) us. rbind (set_offset child off us) (ustarTree n child))
       (zip (u_Children un) (map int [2..<2 + length (u_Children un)])) us)"

definition ReadArchive :: "string \<Rightarrow> USTAR \<Rightarrow> USTAR res" where
  "ReadArchive mem us =
     rbind (read_headers 0 [] (us\<lparr>us_mem := mem\<rparr>)) (\<lambda>(ended, tmpNodes, us).
     if \<not> ended then Inr us
     else
       rbind (each_res link_file tmpNodes ([], us)) (\<lambda>(_, us).
       case tmpNodes of [] \<Rightarrow> Inl OutOfBounds | first # _ \<Rightarrow> ustarTree (Suc (length tmpNodes)) first us))"

text \<open>The operations \<open>TestAndInitializeUSTAR\<close> registers.\<close>

definition ustar_Ops :: "(u64 list \<Rightarrow> u64 list) \<Rightarrow> (USTAR, u64) InodeOperations" where
  "ustar_Ops walk = no_operations\<lparr>
     op_Lookup := Some (\<lambda>i name us. rbind (USTAR_Lookup walk us (Some i) name) (\<lambda>(ret, r). Inr (ret, r, us))),
     op_Create := Some (\<lambda>i name mode us. USTAR_Create us (Some i) name mode),
     op_Read := Some (\<lambda>i buf size off us. USTAR_Read us i buf size off),
     op_ReadDir := Some (\<lambda>i size off ents us. USTAR_ReadDir us i size off ents),
     op_SymLink := Some (\<lambda>i name target us. USTAR_SymLink us (Some i) name target),
     op_ReadLink := Some (\<lambda>i buf size us. USTAR_ReadLink us i buf size),
     op_Stat := Some (\<lambda>i st us. USTAR_Stat us i st)\<rparr>"

end
