(* ===== verification/UstarProofs.thy ===== *)
theory UstarProofs
  imports Ustar InodeStore Names
begin

unbundle bit_operations_syntax

section \<open>Properties of the archive file system\<close>

text \<open>
  The archive keeps the contract of a file system for the files that are created in it. The entries of a directory are the
  children that are not deleted; a lookup is the first of that name.
\<close>

subsection \<open>Invariant\<close>

definition ustar_wf :: "USTAR \<Rightarrow> bool" where
  "ustar_wf us \<longleftrightarrow> (\<forall>i. i \<in> set (us_Files us) \<longleftrightarrow> us_nodes us i \<noteq> None) \<and> (\<forall>i \<in> set (us_Files us). i < us_NextInode us) \<and>
     (\<forall>i n. us_nodes us i = Some n \<longrightarrow> (\<forall>c \<in> set (u_Children n). us_nodes us c \<noteq> None))"

lemma ustar_wf_node:
  assumes "ustar_wf us" "us_nodes us i = Some n"
  shows "i \<in> set (us_Files us)" "i < us_NextInode us" "c \<in> set (u_Children n) \<Longrightarrow> us_nodes us c \<noteq> None"
  using assms by (auto simp: ustar_wf_def)

lemma ustar_wf_fresh: "ustar_wf us \<Longrightarrow> us_nodes us (us_NextInode us) = None"
  by (metis option.exhaust ustar_wf_node(2) order.irrefl)

definition us_entries :: "USTAR \<Rightarrow> u64 list \<Rightarrow> (string \<times> u64) list" where
  "us_entries us cs = [(u_Name (the (us_nodes us c)), c). c \<leftarrow> cs, \<not> u_Deleted (the (us_nodes us c))]"

lemma us_entries_append: "us_entries us (xs @ ys) = us_entries us xs @ us_entries us ys"
  by (simp add: us_entries_def)

lemma us_entries_cong:
  "(\<And>c. c \<in> set cs \<Longrightarrow> u_Name (the (us_nodes us' c)) = u_Name (the (us_nodes us c)) \<and> u_Deleted (the (us_nodes us' c)) = u_Deleted (the (us_nodes us c))) \<Longrightarrow>
    us_entries us' cs = us_entries us cs"
  by (induction cs) (auto simp: us_entries_def)

lemma us_first_named_entries:
  "\<forall>c \<in> set cs. us_nodes us c \<noteq> None \<Longrightarrow>
    us_first_named us cs name = Inr (map_of (us_entries us cs) name)"
  by (induction us cs name rule: us_first_named.induct) (auto simp: us_node_def us_entries_def)

lemma ustar_lookup_eq:
  assumes "ustar_wf us" "us_nodes us p = Some pn" "plain name"
  shows "USTAR_Lookup walk us (Some p) name = Inr (found (map_of (us_entries us (u_Children pn)) name))"
proof -
  have "\<forall>c \<in> set (u_Children pn). us_nodes us c \<noteq> None" using ustar_wf_node(3) [OF assms(1,2)] by blast
  then show ?thesis using assms(2,3) by (simp add: USTAR_Lookup_def basename_plain us_node_def us_first_named_entries)
qed

subsection \<open>Creation\<close>

lemma strncpy_at_eq:
  assumes "pos + num < length destination"
  shows "\<exists>d. strncpy_at destination pos source num = Inr d \<and> length d = length destination"
  using assms by (auto simp: strncpy_at_def Let_def memcpy_def min_def)

lemma SetMode_eq: "length hdr = header_size \<Longrightarrow> \<exists>d. SetMode Mode hdr = Inr d \<and> length d = header_size"
  unfolding SetMode_def Let_def
  using strncpy_at_eq [of 100 7 hdr] strncpy_at_eq [of 100 7 "hdr[156 := c]" for c] by (auto simp: header_size_def split: option.splits)

definition us_created :: "USTAR \<Rightarrow> u64 \<Rightarrow> USTARInode \<Rightarrow> USTARInode \<Rightarrow> USTAR" where
  "us_created us p pn n =
     us\<lparr>us_Files := us_Files us @ [us_NextInode us],
        us_nodes := (us_nodes us)(p \<mapsto> pn\<lparr>u_Children := u_Children pn @ [us_NextInode us]\<rparr>, us_NextInode us \<mapsto> n),
        us_NextInode := us_NextInode us + 1\<rparr>"

lemma USTAR_Create_eq:
  assumes "ustar_wf us" "us_nodes us p = Some pn" "plain Name"
  shows "\<exists>n h1 h2 h3 h4. USTAR_Create us (Some p) Name Mode = Inr (0, Some (us_NextInode us), us_created us p pn n) \<and>
    u_Name n = Name \<and> u_Children n = [] \<and> \<not> u_Deleted n \<and> u_Header n = OnHeap h4 \<and>
    SetMode Mode (replicate header_size NUL) = Inr h1 \<and> length h1 = 512 \<and> strncpy_at h1 0 Name 100 = Inr h2 \<and> length h2 = 512 \<and>
    strncpy_at h2 257 TMAGIC TMAGLEN = Inr h3 \<and> length h3 = 512 \<and> strncpy_at h3 263 TVERSION TVERSLEN = Inr h4 \<and> length h4 = 512"
proof -
  have fresh: "us_NextInode us \<notin> set (us_Files us)" "p \<noteq> us_NextInode us" using assms(1,2) by (auto simp: ustar_wf_def)
  obtain h1 where h1: "SetMode Mode (replicate header_size NUL) = Inr h1" "length h1 = 512" using SetMode_eq [of "replicate header_size NUL" Mode] by (auto simp: header_size_def)
  obtain h2 where h2: "strncpy_at h1 0 Name 100 = Inr h2" "length h2 = 512" using strncpy_at_eq [of 0 100 h1 Name] h1(2) by auto
  obtain h3 where h3: "strncpy_at h2 257 TMAGIC TMAGLEN = Inr h3" "length h3 = 512" using strncpy_at_eq [of 257 TMAGLEN h2 TMAGIC] h2(2) by (auto simp: TMAGIC_def TMAGLEN_def)
  obtain h4 where h4: "strncpy_at h3 263 TVERSION TVERSLEN = Inr h4" "length h4 = 512" using strncpy_at_eq [of 263 TVERSLEN h3 TVERSION] h3(2) by (auto simp: TVERSION_def TVERSLEN_def)
  let ?inode = "Inode_zero\<lparr>i_Mode := Mode, i_Device := us_DeviceID us, i_RawDevice := 0, i_Index := us_NextInode us, i_Offset := 0\<rparr>"
  let ?n = "\<lparr>u_Node = ?inode, u_Header = OnHeap h4, u_Parent = Some p, u_Name = Name, u_Path = Name, u_Children = [], u_Deleted = False\<rparr>"
  have "USTAR_Create us (Some p) Name Mode = Inr (0, Some (us_NextInode us), us_created us p pn ?n)"
    using assms(2,3) fresh h1(1) h2(1) h3(1) h4(1)
    by (simp add: USTAR_Create_def basename_plain us_attach_def us_node_def us_put_def us_created_def fun_upd_twist)
  then show ?thesis using h1 h2 h3 h4 by (intro exI [of _ ?n] exI [of _ h1] exI [of _ h2] exI [of _ h3] exI [of _ h4]) simp
qed

lemma USTAR_Create_created:
  assumes "ustar_wf us" "us_nodes us p = Some pn" "plain Name"
  shows "\<exists>n. USTAR_Create us (Some p) Name Mode = Inr (0, Some (us_NextInode us), us_created us p pn n) \<and> u_Name n = Name \<and> u_Children n = [] \<and> \<not> u_Deleted n"
  using USTAR_Create_eq [OF assms, of Mode] by blast

lemma ustar_wf_created:
  assumes "ustar_wf us" "us_nodes us p = Some pn" "unat (us_NextInode us) + 1 < 2 ^ 64" "u_Children n = []"
  shows "ustar_wf (us_created us p pn n)"
proof -
  have inc: "us_NextInode us < us_NextInode us + 1" using assms(3) by (simp add: word_less_nat_alt unat_word_ariths)
  show ?thesis using assms(1,2,4) inc ustar_wf_node(2,3) [OF assms(1)] unfolding ustar_wf_def us_created_def
    by (auto split: if_splits dest: less_trans)
qed

lemma us_created_entries:
  assumes "ustar_wf us" "us_nodes us p = Some pn" "us_nodes us q = Some qn" "\<not> u_Deleted n"
  defines "us' \<equiv> us_created us p pn n"
  shows "us_entries us' (u_Children (the (us_nodes us' q))) = us_entries us (u_Children qn) @ (if q = p then [(u_Name n, us_NextInode us)] else [])"
proof -
  have ne: "p \<noteq> us_NextInode us" "q \<noteq> us_NextInode us" using ustar_wf_node(2) [OF assms(1)] assms(2,3) by auto
  have "us_entries us' (u_Children qn) = us_entries us (u_Children qn)"
  proof (rule us_entries_cong)
    fix c assume "c \<in> set (u_Children qn)"
    then have "us_nodes us c \<noteq> None" by (rule ustar_wf_node(3) [OF assms(1,3)])
    then show "u_Name (the (us_nodes us' c)) = u_Name (the (us_nodes us c)) \<and> u_Deleted (the (us_nodes us' c)) = u_Deleted (the (us_nodes us c))"
      using assms(2) ustar_wf_fresh [OF assms(1)] by (auto simp: us'_def us_created_def)
  qed
  moreover have "u_Children (the (us_nodes us' q)) = u_Children qn @ (if q = p then [us_NextInode us] else [])"
    using ne assms(2,3) by (auto simp: us'_def us_created_def)
  moreover have "us_entries us' [us_NextInode us] = [(u_Name n, us_NextInode us)]" using assms(4) by (simp add: us_entries_def us'_def us_created_def)
  ultimately show ?thesis by (simp add: us_entries_append) (simp add: us_entries_def)
qed

definition ustar_room :: "nat \<Rightarrow> USTAR \<Rightarrow> bool" where
  "ustar_room n us \<longleftrightarrow> unat (us_NextInode us) + n < 2 ^ 64"

interpretation ustar_store: inode_store ustar_wf ustar_room "\<lambda>us i. us_nodes us i \<noteq> None" plain
  "\<lambda>us p. USTAR_Lookup id us (Some p)" "\<lambda>us p. USTAR_Create us (Some p)"
proof
  fix s n p x mode i s' q y
  show "ustar_room (Suc n) s \<Longrightarrow> ustar_room n s" by (simp add: ustar_room_def)
  assume g: "ustar_wf s" and p: "us_nodes s p \<noteq> None" and x: "plain x"
  then obtain pn where pn: "us_nodes s p = Some pn" by blast
  note look = ustar_lookup_eq [OF g, of _ _ _ id]
  show "USTAR_Lookup id s (Some p) x = missing \<or> (\<exists>i. us_nodes s i \<noteq> None \<and> USTAR_Lookup id s (Some p) x = Inr (0, Some i))"
  proof (cases "map_of (us_entries s (u_Children pn)) x")
    case (Some i)
    then have "i \<in> set (u_Children pn)" by (auto simp: us_entries_def dest: map_of_SomeD)
    then show ?thesis using look [OF pn x] Some ustar_wf_node(3) [OF g pn] by (simp add: found_def)
  qed (simp add: look [OF pn x] found_def missing_def)
  obtain m where m: "USTAR_Create s (Some p) x mode = Inr (0, Some (us_NextInode s), us_created s p pn m)" "u_Name m = x" "u_Children m = []" "\<not> u_Deleted m"
    using USTAR_Create_created [OF g pn x] by blast
  show "\<exists>i s'. USTAR_Create s (Some p) x mode = Inr (0, Some i, s')" using m(1) by blast
  assume r: "ustar_room (Suc n) s" and c: "USTAR_Create s (Some p) x mode = Inr (0, Some i, s')"
  have lt: "unat (us_NextInode s) + 1 < 2 ^ 64" using r by (simp add: ustar_room_def)
  have eq: "i = us_NextInode s" "s' = us_created s p pn m" using c m(1) by auto
  have g': "ustar_wf s'" unfolding eq by (rule ustar_wf_created [OF g pn lt m(3)])
  show "ustar_wf s' \<and> ustar_room n s' \<and> us_nodes s' i \<noteq> None \<and> \<not> us_nodes s i \<noteq> None \<and> (\<forall>q. us_nodes s q \<noteq> None \<longrightarrow> us_nodes s' q \<noteq> None)"
    using g' r lt ustar_wf_fresh [OF g] by (auto simp: eq us_created_def ustar_room_def unat_word_ariths)
  have old: "USTAR_Lookup id s' (Some q) y = Inr (found (map_of (us_entries s (u_Children qn) @ (if q = p then [(x, i)] else [])) y))" if "us_nodes s q = Some qn" "plain y" for q qn y
  proof -
    have "us_nodes s' q \<noteq> None" using that(1) by (auto simp: eq us_created_def)
    then obtain qn' where "us_nodes s' q = Some qn'" by blast
    then show ?thesis using ustar_lookup_eq [OF g' _ that(2), of q qn' id] us_created_entries [OF g pn that(1) m(4)] m(2) by (simp add: eq)
  qed
  show "USTAR_Lookup id s (Some p) x = missing \<Longrightarrow> USTAR_Lookup id s' (Some p) x = Inr (0, Some i)"
    using look [OF pn x] old [OF pn x] by (auto simp: found_def missing_def map_add_def split: option.splits)
  show "us_nodes s q \<noteq> None \<Longrightarrow> plain y \<Longrightarrow> q \<noteq> p \<or> y \<noteq> x \<Longrightarrow> USTAR_Lookup id s' (Some q) y = USTAR_Lookup id s (Some q) y"
    using look old by (auto simp: map_add_def split: option.splits if_splits)
  show "plain y \<Longrightarrow> USTAR_Lookup id s' (Some i) y = missing"
    using ustar_lookup_eq [OF g', of i m y id] m(3) by (simp add: eq us_created_def us_entries_def found_def missing_def)
qed

end
