(* ===== verification/UstarArchive.thy ===== *)
theory UstarArchive
  imports UstarProofs
begin

unbundle bit_operations_syntax

section \<open>Archives are read back\<close>

text \<open>
  What a \<open>tar\<close> program writes, file by file with every directory before its files, is what the kernel finds: the headers are
  read one after the other, the files are put below their directories, and looking up a path and reading the file returns
  what was archived.
\<close>

subsection \<open>Blocks of an archive\<close>

text \<open>
  The block of a file: a header with the path after a dot, the number of bytes in octal and the signature, and the bytes
  of the file, filled up to the next multiple of 512.
\<close>

definition tar_block :: "string \<Rightarrow> string \<Rightarrow> string \<Rightarrow> bool" where
  "tar_block path content blk \<longleftrightarrow>
     length content < 2 ^ 32 \<and> length blk = next_header 0 (of_nat (length content)) \<and>
     take (length path + 2) blk = CHR ''.'' # path @ [NUL] \<and> length path + 2 \<le> 100 \<and> NUL \<notin> set path \<and> path \<noteq> [] \<and> hd path = CHR ''/'' \<and>
     NUL \<in> set (drop 100 blk) \<and>
     NUL \<in> set (drop 124 blk) \<and> GetSize (takeWhile (\<lambda>c. c \<noteq> NUL) (drop 124 blk)) = of_nat (length content) \<and>
     take 5 (drop 257 blk) = TMAGIC \<and> take (length content) (drop 512 blk) = content"

definition stripped :: "string \<Rightarrow> string \<Rightarrow> string" where
  "stripped path blk = path @ [NUL] @ drop (length path + 1) blk"

lemma cstr_append: "NUL \<in> set (drop i xs) \<Longrightarrow> cstr (xs @ ys) i = Inr (takeWhile (\<lambda>c. c \<noteq> NUL) (drop i xs))"
  by (auto simp: cstr_def takeWhile_append1)

lemma byte_at_append: "i < length xs \<Longrightarrow> byte_at (xs @ ys) i = Inr (xs ! i)"
  by (simp add: byte_at_def nth_append)

lemma strncmp_eq_take: "n \<le> length l \<Longrightarrow> n \<le> length r \<Longrightarrow> strncmp_eq l r n = Inr (take n l = take n r)"
  by (induction l r n rule: strncmp_eq.induct) auto

lemma next_header_content:
  assumes "length content < 2 ^ 32"
  shows "512 + length content \<le> next_header 0 (of_nat (length content))"
proof -
  have "unat (of_nat (length content) :: u32) = length content" by (rule unat_of_nat_less) (use assms in simp)
  moreover have "length content \<le> (length content div 512) * 512 + (if length content mod 512 \<noteq> 0 then 512 else 0)"
    using div_mult_mod_eq [of "length content" 512] mod_less_divisor [of 512 "length content"] by (auto simp del: div_mult_mod_eq mod_less_divisor)
  ultimately show ?thesis by (simp add: next_header_def)
qed

lemma tar_block_length:
  assumes "tar_block path content blk"
  shows "512 \<le> length blk" "length path + 2 \<le> length blk" "512 + length content \<le> length blk"
proof -
  show "512 + length content \<le> length blk" using assms next_header_content [of content] by (simp add: tar_block_def)
  then show "512 \<le> length blk" "length path + 2 \<le> length blk" using assms by (auto simp: tar_block_def)
qed

lemma stripped_length [simp]: "tar_block path content blk \<Longrightarrow> length (stripped path blk) = length blk"
  using tar_block_length [of path content blk] by (simp add: stripped_def)

lemma stripped_drop:
  assumes "length path + 1 \<le> n"
  shows "drop n (stripped path blk) = drop n blk"
proof -
  obtain k where "n = length path + 1 + k" using le_Suc_ex assms by blast
  then show ?thesis by (simp add: stripped_def add.commute)
qed

lemma strip_dot_block:
  assumes "tar_block path content blk"
  shows "strip_dot (length pre) (pre @ blk @ post) = Inr (pre @ stripped path blk @ post)"
proof -
  note len = tar_block_length [OF assms]
  have t: "take (length path + 2) blk = CHR ''.'' # path @ [NUL]" and p: "NUL \<notin> set path" "path \<noteq> []" "hd path = CHR ''/''" using assms by (simp_all add: tar_block_def)
  have blk: "blk = CHR ''.'' # path @ NUL # drop (length path + 2) blk" using t append_take_drop_id [of "length path + 2" blk] by (metis append_Cons append_assoc append_Nil)
  obtain q where q: "path = CHR ''/'' # q" using p(2,3) by (cases path) auto
  let ?rest = "drop (length path + 2) blk"
  have c: "byte_at (pre @ blk @ post) (length pre) = Inr CHR ''.''" "byte_at (pre @ blk @ post) (length pre + 1) = Inr CHR ''/''"
    by (subst blk, simp add: byte_at_def q nth_append)+
  have "cstr (pre @ blk @ post) (length pre) = Inr (CHR ''.'' # path)" using p(1) by (subst blk) (simp add: cstr_def takeWhile_append)
  moreover have "memcpy (pre @ blk @ post) (int (length pre)) (drop (length pre + 1) (pre @ blk @ post)) (length (CHR ''.'' # path)) = Inr (pre @ stripped path blk @ post)"
    using len by (subst (1 2) blk) (simp add: memcpy_def stripped_def blk [symmetric] drop_Cons')
  ultimately show ?thesis using c by (simp add: strip_dot_def)
qed

subsection \<open>Reading the headers\<close>

definition base_name :: "string \<Rightarrow> string" where
  "base_name path = (if segs CWK_STYLE_UNIX path = [] then path else last (segs CWK_STYLE_UNIX path))"

lemma basename_segs:
  "cwk_path_get_basename CWK_STYLE_UNIX path = Inr b \<Longrightarrow> (case b of None \<Rightarrow> path | Some (b, len) \<Rightarrow> take len (drop b path)) = base_name path"
  by (auto simp: basename_at base_name_def segs_def last_map split: if_splits prod.splits)

text \<open>The inode of an archived file, before it is put below its directory.\<close>

definition archived :: "USTAR \<Rightarrow> u64 \<Rightarrow> nat \<Rightarrow> string \<Rightarrow> string \<Rightarrow> u32 \<Rightarrow> USTARInode" where
  "archived us i a path blk mode =
     \<lparr>u_Node = Inode_zero\<lparr>i_Device := us_DeviceID us, i_RawDevice := 0, i_Index := i,
        i_Mode := first_bit mode_bits mode OR type_mode (blk ! field_offset h_typeflag), i_Offset := 0\<rparr>, u_Header = InArchive a,
      u_Parent = None, u_Name = base_name path, u_Path = path, u_Children = [], u_Deleted = False\<rparr>"

lemma add_header_block:
  assumes b: "tar_block path content blk" and mem: "us_mem us = pre @ blk @ post"
  shows "\<exists>mode. add_header (length pre) us = Inr (us_NextInode us, of_nat (length content),
    us_put (us_NextInode us) (archived us (us_NextInode us) (length pre) path blk mode)
      (us\<lparr>us_mem := pre @ stripped path blk @ post, us_Files := us_Files us @ [us_NextInode us], us_NextInode := us_NextInode us + 1\<rparr>))"
proof -
  note len = tar_block_length [OF b]
  have pl: "length path + 2 \<le> 100" "NUL \<notin> set path" using b by (simp_all add: tar_block_def)
  let ?blk = "stripped path blk"
  have d: "drop k ?blk = drop k blk" if "100 \<le> k" for k using that pl(1) by (intro stripped_drop) simp
  have name: "cstr (?blk @ post) 0 = Inr path" using pl(2) by (subst cstr_append) (simp_all add: stripped_def takeWhile_append)
  have sz: "cstr (?blk @ post) 124 = Inr (takeWhile (\<lambda>c. c \<noteq> NUL) (drop 124 blk))" using b by (subst cstr_append) (simp_all add: d tar_block_def)
  have m: "cstr (?blk @ post) 100 = Inr (takeWhile (\<lambda>c. c \<noteq> NUL) (drop 100 blk))" using b by (subst cstr_append) (simp_all add: d tar_block_def)
  have "?blk ! 156 = blk ! 156" using len(1) stripped_length [OF b] hd_drop_conv_nth [of 156 ?blk] hd_drop_conv_nth [of 156 blk] d [of 156] by simp
  then have t: "byte_at (?blk @ post) 156 = Inr (blk ! 156)" using len(1) stripped_length [OF b] byte_at_append [of 156 ?blk post] by simp
  obtain base where bn: "cwk_path_get_basename CWK_STYLE_UNIX path = Inr base" by (simp add: basename_at)
  obtain mode where "header_mode (?blk @ post) = Inr (first_bit mode_bits mode OR type_mode (blk ! 156))" using m t by (simp add: header_mode_def)
  moreover have "GetSize (takeWhile (\<lambda>c. c \<noteq> NUL) (drop 124 blk)) = of_nat (length content)" using b by (simp add: tar_block_def)
  ultimately show ?thesis
    using strip_dot_block [OF b, of pre post] mem name sz bn basename_segs [OF bn] by (intro exI [of _ mode]) (simp add: add_header_def archived_def Let_def)
qed

text \<open>What is archived: a list of paths, contents and blocks.\<close>

definition tar_blocks :: "(string \<times> string \<times> string) list \<Rightarrow> bool" where
  "tar_blocks es \<longleftrightarrow> (\<forall>(path, content, blk) \<in> set es. tar_block path content blk)"

definition tar_image :: "(string \<times> string \<times> string) list \<Rightarrow> string" where
  "tar_image es = concat (map (\<lambda>(_, _, blk). blk) es)"

definition tar_stripped :: "(string \<times> string \<times> string) list \<Rightarrow> string" where
  "tar_stripped es = concat (map (\<lambda>(path, _, blk). stripped path blk) es)"

definition tar_end :: "string \<Rightarrow> bool" where
  "tar_end post \<longleftrightarrow> 262 \<le> length post \<and> take 5 (drop 257 post) \<noteq> TMAGIC"

text \<open>The inodes \<open>n\<close>, \<open>n + 1\<close> and so on of the files, whose headers begin at \<open>a\<close>.\<close>

definition has_archived :: "USTAR \<Rightarrow> nat \<Rightarrow> nat \<Rightarrow> (string \<times> string \<times> string) list \<Rightarrow> bool" where
  "has_archived us n a es \<longleftrightarrow> (\<forall>k < length es. \<exists>mode. us_nodes us (of_nat (n + k)) =
     Some (archived us (of_nat (n + k)) (a + length (tar_image (take k es))) (fst (es ! k)) (snd (snd (es ! k))) mode))"

lemma read_headers_archive:
  assumes "tar_blocks es" "tar_end post" "us_mem us = pre @ tar_image es @ post" "us_NextInode us = of_nat n" "n + length es < 2 ^ 64"
  shows "\<exists>us'. read_headers (length pre) tmp us = Inr (True, tmp @ map of_nat [n..<n + length es], us') \<and>
    us_mem us' = pre @ tar_stripped es @ post \<and> us_Files us' = us_Files us @ map of_nat [n..<n + length es] \<and> us_NextInode us' = of_nat (n + length es) \<and>
    us_DeviceID us' = us_DeviceID us \<and> has_archived us' n (length pre) es \<and> (\<forall>i. (\<forall>k < length es. i \<noteq> of_nat (n + k)) \<longrightarrow> us_nodes us' i = us_nodes us i)"
  using assms
proof (induction es arbitrary: pre tmp us n)
  case Nil
  then show ?case
    by (subst read_headers.simps) (auto simp: tar_image_def tar_stripped_def tar_end_def strncmp_eq_take TMAGLEN_def TMAGIC_def has_archived_def)
next
  case (Cons e es)
  obtain path content blk where e: "e = (path, content, blk)" by (cases e)
  have b: "tar_block path content blk" and bs: "tar_blocks es" using Cons.prems(1) by (auto simp: tar_blocks_def e)
  note len = tar_block_length [OF b]
  have mem: "us_mem us = pre @ blk @ tar_image es @ post" using Cons.prems(3) by (simp add: tar_image_def e)
  obtain mode where ah: "add_header (length pre) us = Inr (us_NextInode us, of_nat (length content),
      us_put (us_NextInode us) (archived us (us_NextInode us) (length pre) path blk mode)
        (us\<lparr>us_mem := pre @ stripped path blk @ tar_image es @ post, us_Files := us_Files us @ [us_NextInode us], us_NextInode := us_NextInode us + 1\<rparr>))"
    (is "_ = Inr (_, _, ?us)") using add_header_block [OF b mem] by blast
  have sig: "strncmp_eq (drop (length pre + 257) (us_mem us)) TMAGIC 5 = Inr True"
    using b len by (subst strncmp_eq_take) (auto simp: mem TMAGIC_def tar_block_def)
  have next_pre: "next_header (length pre) (of_nat (length content)) = length (pre @ stripped path blk)"
    using b by (simp add: stripped_length [OF b] tar_block_def next_header_def)
  have ne0: "blk \<noteq> []" using len(1) by auto
  have step: "read_headers (length pre) tmp us = read_headers (length (pre @ stripped path blk)) (tmp @ [of_nat n]) ?us"
    using mem sig ah ne0 next_pre Cons.prems(4) by (subst read_headers.simps) (simp add: TMAGLEN_def)
  have inc: "us_NextInode ?us = of_nat (Suc n)" using Cons.prems(4) by (simp add: us_put_def)
  have lt: "Suc n + length es < 2 ^ 64" using Cons.prems(5) by simp
  obtain us' where us': "read_headers (length (pre @ stripped path blk)) (tmp @ [of_nat n]) ?us = Inr (True, (tmp @ [of_nat n]) @ map of_nat [Suc n..<Suc n + length es], us')"
    "us_mem us' = (pre @ stripped path blk) @ tar_stripped es @ post" "us_Files us' = us_Files ?us @ map of_nat [Suc n..<Suc n + length es]"
    "us_NextInode us' = of_nat (Suc n + length es)" "us_DeviceID us' = us_DeviceID us" "has_archived us' (Suc n) (length (pre @ stripped path blk)) es"
    "\<forall>i. (\<forall>k < length es. i \<noteq> of_nat (Suc n + k)) \<longrightarrow> us_nodes us' i = us_nodes ?us i"
    using Cons.IH [OF bs Cons.prems(2) _ inc lt, of "pre @ stripped path blk" "tmp @ [of_nat n]"] by (auto simp: us_put_def)
  have ne: "(of_nat n :: u64) \<noteq> of_nat (Suc n + k)" if "k < length es" for k
  proof -
    have "unat (of_nat n :: u64) = n" by (rule unat_of_nat_less) (use lt in simp)
    moreover have "unat (of_nat (Suc n + k) :: u64) = Suc n + k" by (rule unat_of_nat_less) (use that lt in simp)
    ultimately show ?thesis by (metis Suc_n_not_le_n le_add1)
  qed
  have split: "map of_nat [n..<n + length (e # es)] = (of_nat n :: u64) # map of_nat [Suc n..<Suc n + length es]" by (simp add: upt_conv_Cons del: upt_Suc)
  have "has_archived us' n (length pre) (e # es)"
    unfolding has_archived_def
  proof (intro allI impI)
    fix k assume "k < length (e # es)"
    show "\<exists>mode. us_nodes us' (of_nat (n + k)) = Some (archived us' (of_nat (n + k)) (length pre + length (tar_image (take k (e # es)))) (fst ((e # es) ! k)) (snd (snd ((e # es) ! k))) mode)"
    proof (cases k)
      case 0
      then show ?thesis using us'(5,7) ne Cons.prems(4) by (auto simp: us_put_def e tar_image_def archived_def)
    next
      case (Suc k')
      then show ?thesis using us'(6) \<open>k < length (e # es)\<close> stripped_length [OF b] by (auto simp: has_archived_def tar_image_def e add.assoc)
    qed
  qed
  moreover have "us_nodes us' i = us_nodes us i" if "\<forall>k < length (e # es). i \<noteq> of_nat (n + k)" for i
  proof -
    have "i \<noteq> of_nat n" "\<forall>k < length es. i \<noteq> of_nat (Suc n + k)" using that by force+
    then show ?thesis using us'(7) Cons.prems(4) by (simp add: us_put_def)
  qed
  ultimately show ?case using step us' split Cons.prems(4) by (simp add: tar_stripped_def e us_put_def)
qed

end
