(* ===== verification/UstarTree.thy ===== *)
theory UstarTree
  imports UstarArchive "HOL-Library.Sublist"
begin

section \<open>The tree of an archive\<close>

text \<open>
  The names of the archived files, in the order of the archive: a list of names and whether it is a directory. The stack of
  open directories \<open>ReadArchive\<close> keeps is the current directory with all that contain it.
\<close>

subsection \<open>Paths of directories\<close>

definition dir_path :: "string list \<Rightarrow> string" where
  "dir_path ns = CHR ''/'' # concat (map (\<lambda>x. x @ ''/'') ns)"

definition tar_path :: "string list \<times> bool \<Rightarrow> string" where
  "tar_path e = (if snd e then dir_path (fst e) else dir_path (butlast (fst e)) @ last (fst e))"

lemma dir_path_snoc: "dir_path (ns @ [x]) = dir_path ns @ x @ ''/''"
  by (simp add: dir_path_def)

lemma dir_path_ne [simp]: "dir_path ns \<noteq> []"
  by (simp add: dir_path_def)

lemma segpos_dirs:
  "\<forall>x \<in> set ns. plain x \<Longrightarrow> \<exists>L. length L = length ns \<and> segpos CWK_STYLE_UNIX (dir_path ns @ q) 0 =
     L @ map (\<lambda>(b, e). (length (dir_path ns) + b, length (dir_path ns) + e)) (segpos CWK_STYLE_UNIX q 0)"
proof (induction ns arbitrary: q rule: rev_induct)
  case Nil
  have "segpos CWK_STYLE_UNIX (CHR ''/'' # q) 0 = segpos CWK_STYLE_UNIX (CHR ''/'' # q) (Suc 0)"
    by (rule segpos_skip [symmetric]) (simp add: char_at_def cwk_path_is_separator_def)
  then show ?case using segpos_shift [of CWK_STYLE_UNIX "''/''" q 0] by (simp add: dir_path_def)
next
  case (snoc x ns)
  from snoc.IH [of "x @ CHR ''/'' # q"] snoc.prems obtain L where L: "length L = length ns"
    "segpos CWK_STYLE_UNIX (dir_path ns @ x @ CHR ''/'' # q) 0 = L @ map (\<lambda>(b, e). (length (dir_path ns) + b, length (dir_path ns) + e)) (segpos CWK_STYLE_UNIX (x @ CHR ''/'' # q) 0)"
    by auto
  show ?case
    by (rule exI [of _ "L @ [(length (dir_path ns), length (dir_path ns) + length x)]"])
      (use L segpos_name [of x q] snoc.prems in \<open>auto simp: dir_path_snoc\<close>)
qed

lemma tar_path_snoc: "tar_path (ns @ [x], d) = dir_path ns @ x @ (if d then ''/'' else [])"
  by (simp add: tar_path_def dir_path_snoc)

lemma segpos_tar_path:
  assumes "\<forall>y \<in> set (ns @ [x]). plain y"
  shows "\<exists>L. length L = length ns \<and> segpos CWK_STYLE_UNIX (tar_path (ns @ [x], d)) 0 = L @ [(length (dir_path ns), length (dir_path ns) + length x)]"
proof -
  have "segpos CWK_STYLE_UNIX (x @ (if d then ''/'' else [])) 0 = [(0, length x)]"
    using segpos_name [of x "[]"] segpos_plain [of x] assms by (auto simp: segpos_NUL char_at_def)
  then show ?thesis using segpos_dirs [of ns "x @ (if d then ''/'' else [])"] assms by (auto simp: tar_path_snoc)
qed

lemma dirname_tar_path:
  assumes "\<forall>y \<in> set (ns @ [x]). plain y"
  shows "cwk_path_get_dirname CWK_STYLE_UNIX (tar_path (ns @ [x], d)) = Inr (length (dir_path ns))"
proof -
  let ?p = "tar_path (ns @ [x], d)"
  obtain f s where f: "cwk_path_get_first_segment CWK_STYLE_UNIX ?p = (f, s)" by fastforce
  obtain L where L: "segpos CWK_STYLE_UNIX ?p 0 = L @ [(length (dir_path ns), length (dir_path ns) + length x)]" using segpos_tar_path [OF assms] by blast
  obtain s' where s': "cwk_path_get_last_segment CWK_STYLE_UNIX ?p = Inr (True, s')" "at_seg CWK_STYLE_UNIX ?p (length L) s'"
    using last_segment_at [OF f [unfolded cwk_path_get_first_segment_def] root_unix] f L by (auto simp: cwk_path_get_last_segment_def)
  then show ?thesis using L by (simp add: cwk_path_get_dirname_def at_seg_def)
qed

lemma tar_path_base:
  assumes "\<forall>y \<in> set (ns @ [x]). plain y"
  shows "base_name (tar_path (ns @ [x], d)) = x" "take (length (dir_path ns)) (tar_path (ns @ [x], d)) = dir_path ns"
    "tar_path (ns @ [x], d) \<noteq> ''/''" "last (tar_path (ns @ [x], d)) = CHR ''/'' \<longleftrightarrow> d"
proof -
  obtain L where L: "segpos CWK_STYLE_UNIX (tar_path (ns @ [x], d)) 0 = L @ [(length (dir_path ns), length (dir_path ns) + length x)]" using segpos_tar_path [OF assms] by blast
  then show "base_name (tar_path (ns @ [x], d)) = x" by (simp add: base_name_def segs_def tar_path_snoc)
  show "take (length (dir_path ns)) (tar_path (ns @ [x], d)) = dir_path ns" by (simp add: tar_path_snoc)
  have x: "x \<noteq> []" "CHR ''/'' \<notin> set x" using assms by (auto simp: plain_def)
  then show "last (tar_path (ns @ [x], d)) = CHR ''/'' \<longleftrightarrow> d" by (cases d) (simp_all add: tar_path_snoc, metis last_in_set)
  show "tar_path (ns @ [x], d) \<noteq> ''/''" using x(1) by (simp add: tar_path_snoc dir_path_def)
qed

subsection \<open>The open directories\<close>

text \<open>
  What is archived, in the order of a \<open>tar\<close> program: the root first, and every file below the current directory or one that
  contains it.
\<close>

fun dfs_order :: "string list \<Rightarrow> (string list \<times> bool) list \<Rightarrow> bool" where
  "dfs_order cur [] \<longleftrightarrow> True"
| "dfs_order cur (e # es) \<longleftrightarrow> fst e \<noteq> [] \<and> butlast (fst e) = take (length (fst e) - 1) cur \<and> dfs_order (if snd e then fst e else butlast (fst e)) es"

definition tar_order :: "(string list \<times> bool) list \<Rightarrow> bool" where
  "tar_order es \<longleftrightarrow> es \<noteq> [] \<and> hd es = ([], True) \<and> dfs_order [] (tl es) \<and> distinct (map fst es) \<and>
     (\<forall>e \<in> set es. \<forall>x \<in> set (fst e). plain x) \<and> length es < 2 ^ 64"

text \<open>The place of a file in the archive, which is its inode number.\<close>

definition pos :: "(string list \<times> bool) list \<Rightarrow> string list \<Rightarrow> nat" where
  "pos es p = length (takeWhile (\<lambda>e. fst e \<noteq> p) es)"

lemma pos_nth: "distinct (map fst es) \<Longrightarrow> k < length es \<Longrightarrow> pos es (fst (es ! k)) = k"
proof (induction es arbitrary: k)
  case (Cons e es)
  then show ?case by (cases k) (auto simp: pos_def)
qed simp

definition open_levels :: "(string list \<times> bool) list \<Rightarrow> string list \<Rightarrow> levels" where
  "open_levels es cur = map (\<lambda>k. (of_nat (pos es (take k cur)), dir_path (take k cur))) [0..<Suc (length cur)]"

lemma open_levels_length [simp]: "length (open_levels es cur) = Suc (length cur)"
  by (simp add: open_levels_def)

lemma open_levels_nth: "k \<le> length cur \<Longrightarrow> open_levels es cur ! k = (of_nat (pos es (take k cur)), dir_path (take k cur))"
  by (simp add: open_levels_def nth_append del: upt_Suc)

lemma open_levels_snoc: "open_levels es (cur @ [x]) = open_levels es cur @ [(of_nat (pos es (cur @ [x])), dir_path (cur @ [x]))]"
  by (simp add: open_levels_def)

lemma open_levels_last [simp]: "last (open_levels es cur) = (of_nat (pos es cur), dir_path cur)"
  by (simp add: open_levels_def)

lemma dir_path_take_length: "j < k \<Longrightarrow> k \<le> length cur \<Longrightarrow> length (dir_path (take j cur)) < length (dir_path (take k cur))"
proof (induction k)
  case (Suc k)
  then have "take (Suc k) cur = take k cur @ [cur ! k]" by (simp add: take_Suc_conv_app_nth)
  then have "length (dir_path (take k cur)) < length (dir_path (take (Suc k) cur))" by (simp add: dir_path_snoc)
  then show ?case using Suc by (cases "j = k") auto
qed simp

lemma dir_path_take_inj: "j \<le> length cur \<Longrightarrow> k \<le> length cur \<Longrightarrow> dir_path (take j cur) = dir_path (take k cur) \<longleftrightarrow> j = k"
  using dir_path_take_length [of j k cur] dir_path_take_length [of k j cur] by (metis less_irrefl linorder_neqE_nat)

lemma pop_open_levels:
  assumes "k \<le> length cur"
  shows "pop_levels (dir_path (take k cur)) (open_levels es cur) = open_levels es (take k cur)"
proof -
  let ?L = "open_levels es cur" and ?d = "dir_path (take k cur)"
  have split: "?L = open_levels es (take k cur) @ drop (Suc k) ?L"
    by (rule nth_equalityI) (use assms in \<open>auto simp: nth_append open_levels_nth min_def\<close>)
  have "\<forall>l \<in> set (drop (Suc k) ?L). ?d \<noteq> snd l"
  proof
    fix l assume "l \<in> set (drop (Suc k) ?L)"
    then obtain j where "j < length cur - k" "l = ?L ! (Suc k + j)" by (auto simp: in_set_conv_nth)
    then show "?d \<noteq> snd l" using assms dir_path_take_inj [of k cur "Suc k + j"] by (simp add: open_levels_nth)
  qed
  moreover have "dropWhile (\<lambda>(_, p). ?d \<noteq> p) (rev (open_levels es (take k cur))) = rev (open_levels es (take k cur))"
    using assms by (simp add: open_levels_def min_absorb2)
  moreover have "dropWhile (\<lambda>(_, p). ?d \<noteq> p) (rev (drop (Suc k) ?L) @ rev (open_levels es (take k cur))) =
      dropWhile (\<lambda>(_, p). ?d \<noteq> p) (rev (open_levels es (take k cur)))"
    using calculation(1) by (intro dropWhile_append2) auto
  ultimately show ?thesis by (subst split) (simp add: pop_levels_def)
qed

lemma file_levels_found:
  assumes "k < length st" "\<forall>j < length st. snd (st ! j) = d \<longleftrightarrow> j = k" "length (pop_levels d st) = Suc k" "i \<le> k" "length st \<le> i + n"
  shows "file_levels n i d f st us = rbind (us_attach (fst (last (pop_levels d st))) f us) (\<lambda>us. Inr (pop_levels d st, us))"
  using assms(4,5)
proof (induction n arbitrary: i)
  case 0
  then show ?case using assms(1) by simp
next
  case (Suc n)
  show ?case
  proof (cases "i = k")
    case True
    have end_loop: "file_levels n (Suc k) d f (pop_levels d st) = (\<lambda>us'. Inr (pop_levels d st, us'))" by (rule ext, cases n) (simp_all add: assms(3))
    have "pop_levels d st \<noteq> []" "snd (st ! k) = d" using assms(1-3) by auto
    then show ?thesis using True assms(1) end_loop by (simp add: Let_def)
  next
    case False
    then have "i < length st" "d \<noteq> snd (st ! i)" using Suc.prems(1) assms(1) assms(2) [rule_format, of i] by auto
    then show ?thesis using Suc.IH [of "Suc i"] Suc.prems False by simp
  qed
qed

subsection \<open>Linking\<close>

text \<open>
  The inodes when the first \<open>m\<close> files are linked: the children of a file are those of them whose directory it is, in the
  order of the archive. The offsets are given.
\<close>

definition kids :: "(string list \<times> bool) list \<Rightarrow> nat \<Rightarrow> nat \<Rightarrow> nat list" where
  "kids es m k = filter (\<lambda>j. butlast (fst (es ! j)) = fst (es ! k)) [1..<m]"

definition dad :: "(string list \<times> bool) list \<Rightarrow> nat \<Rightarrow> nat" where
  "dad es k = pos es (butlast (fst (es ! k)))"

definition link_node :: "(string list \<times> bool) list \<Rightarrow> nat \<Rightarrow> (nat \<Rightarrow> int) \<Rightarrow> nat \<Rightarrow> USTARInode \<Rightarrow> USTARInode" where
  "link_node es m off k nd =
     nd\<lparr>u_Children := map of_nat (kids es m k), u_Parent := (if 0 < k \<and> k < m then Some (of_nat (dad es k)) else None),
        u_Node := (u_Node nd)\<lparr>i_Offset := off k\<rparr>\<rparr>"

definition link_state :: "(string list \<times> bool) list \<Rightarrow> nat \<Rightarrow> (nat \<Rightarrow> int) \<Rightarrow> USTAR \<Rightarrow> USTAR" where
  "link_state es m off us =
     us\<lparr>us_nodes := (\<lambda>i. map_option (\<lambda>nd. if unat i < length es then link_node es m off (unat i) nd else nd) (us_nodes us i))\<rparr>"

text \<open>The state the headers leave: every file has its inode.\<close>

definition has_nodes :: "(string list \<times> bool) list \<Rightarrow> USTAR \<Rightarrow> bool" where
  "has_nodes es us \<longleftrightarrow> (\<forall>k < length es. \<exists>nd. us_nodes us (of_nat k) = Some nd \<and> u_Path nd = tar_path (es ! k))"

lemma tar_order_unat: "tar_order es \<Longrightarrow> k < length es \<Longrightarrow> unat (of_nat k :: u64) = k"
  by (rule unat_of_nat_less) (simp add: tar_order_def)

lemma link_state_node:
  assumes "tar_order es" "has_nodes es us" "k < length es"
  shows "\<exists>nd. us_nodes us (of_nat k) = Some nd \<and> us_nodes (link_state es m off us) (of_nat k) = Some (link_node es m off k nd) \<and>
    u_Path (link_node es m off k nd) = tar_path (es ! k)"
  using assms tar_order_unat [OF assms(1,3)] by (auto simp: has_nodes_def link_state_def link_node_def)

lemma kids_Suc: "0 < m \<Longrightarrow> kids es (Suc m) k = kids es m k @ (if butlast (fst (es ! m)) = fst (es ! k) then [m] else [])"
  by (simp add: kids_def)

lemma attach_kid:
  assumes o: "tar_order es" and n: "has_nodes es us" and m: "0 < m" "m < length es" and q: "q < m" "butlast (fst (es ! m)) = fst (es ! q)"
  shows "us_attach (of_nat q) (of_nat m) (link_state es m off us) = Inr (link_state es (Suc m) off us)"
proof -
  have u: "unat (of_nat q :: u64) = q" "unat (of_nat m :: u64) = m" using tar_order_unat [OF o] m q by simp_all
  then have ne: "(of_nat q :: u64) \<noteq> of_nat m" using q(1) by (metis less_irrefl)
  have dad: "dad es m = q" using q o m by (simp add: dad_def pos_nth tar_order_def)
  have only: "butlast (fst (es ! m)) = fst (es ! k) \<longleftrightarrow> k = q" if "k < length es" for k
    using that q m o pos_nth [of es k] pos_nth [of es q] by (auto simp: tar_order_def)
  obtain a where a: "us_nodes us (of_nat q) = Some a" "us_nodes (link_state es m off us) (of_nat q) = Some (link_node es m off q a)"
    using link_state_node [OF o n, of q m off] q(1) m(2) by auto
  obtain b where b: "us_nodes us (of_nat m) = Some b" "us_nodes (link_state es m off us) (of_nat m) = Some (link_node es m off m b)"
    using link_state_node [OF o n, of m m off] m(2) by auto
  have eq: "us_nodes (link_state es (Suc m) off us) i =
      ((us_nodes (link_state es m off us))(of_nat q \<mapsto> link_node es (Suc m) off q a, of_nat m \<mapsto> link_node es (Suc m) off m b)) i" for i
  proof -
    consider "i = of_nat m" | "i = of_nat q" | "i \<noteq> of_nat m" "i \<noteq> of_nat q" by blast
    then show ?thesis
    proof cases
      case 3
      then have "unat i \<noteq> m" "unat i \<noteq> q" by auto
      then have "link_node es (Suc m) off (unat i) nd = link_node es m off (unat i) nd" if "unat i < length es" for nd
        using only [OF that] m(1) by (simp add: link_node_def kids_Suc less_Suc_eq)
      then show ?thesis using 3 by (cases "unat i < length es") (simp_all add: link_state_def)
    qed (use ne u a(1) b(1) m q in \<open>simp_all add: link_state_def\<close>)
  qed
  have a': "link_node es (Suc m) off q a = (link_node es m off q a)\<lparr>u_Children := u_Children (link_node es m off q a) @ [of_nat m]\<rparr>"
    using q m by (simp add: link_node_def kids_Suc)
  have b': "link_node es (Suc m) off m b = (link_node es m off m b)\<lparr>u_Parent := Some (of_nat q)\<rparr>"
    using q m only [of m] dad by (simp add: link_node_def kids_Suc)
  have "us_nodes (link_state es (Suc m) off us) = (us_nodes (link_state es m off us))
      (of_nat q \<mapsto> (link_node es m off q a)\<lparr>u_Children := u_Children (link_node es m off q a) @ [of_nat m]\<rparr>,
       of_nat m \<mapsto> (link_node es m off m b)\<lparr>u_Parent := Some (of_nat q)\<rparr>)"
    (is "_ = ?nodes") using ext [of "us_nodes (link_state es (Suc m) off us)", OF eq] unfolding a' b' .
  moreover have "link_state es (Suc m) off us = (link_state es m off us)\<lparr>us_nodes := us_nodes (link_state es (Suc m) off us)\<rparr>"
    by (simp add: link_state_def)
  ultimately have "link_state es (Suc m) off us = (link_state es m off us)\<lparr>us_nodes := ?nodes\<rparr>" by metis
  then show ?thesis using a(2) b(2) ne by (simp add: us_attach_def us_node_def us_put_def Let_def)
qed

lemma pop_levels_same: "st \<noteq> [] \<Longrightarrow> snd (last st) = d \<Longrightarrow> pop_levels d st = st"
  by (cases st rule: rev_cases) (auto simp: pop_levels_def)

text \<open>A file whose directory is open goes below it, and the directories inside that are closed.\<close>

lemma link_file_eq:
  assumes "us_node us f = Inr nd" "u_Path nd = p" "p \<noteq> ''/''" "p \<noteq> []" "cwk_path_get_dirname CWK_STYLE_UNIX p = Inr n" "take n p = d"
    and "\<exists>l \<in> set st. snd l = d" "us_attach (fst (last (pop_levels d st))) f us = Inr us'" "pop_levels d st \<noteq> []"
    and "file_levels (length st) 0 d f st us = Inr (pop_levels d st, us')"
  shows "link_file f (st, us) = Inr (pop_levels d st @ (if last p = CHR ''/'' then [(f, p)] else []), us')"
proof -
  have ne: "st \<noteq> []" using assms(7) by auto
  have start: "link_file f (st, us) =
     (if last p = CHR ''/'' then
         rbind (us_attach (fst (last (if d = snd (last st) then st else pop_levels d st))) f us)
           (\<lambda>us. Inr ((if d = snd (last st) then st else pop_levels d st) @ [(f, p)], us))
      else if d = snd (last st) then rbind (us_attach (fst (last st)) f us) (\<lambda>us. Inr (st, us))
      else file_levels (length st) 0 d f st us)"
    using assms(1-7,9) ne unfolding link_file_def by (simp add: Let_def)
  show ?thesis using pop_levels_same [OF ne, of d] assms(8,10) unfolding start by (cases "d = snd (last st)") simp_all
qed

lemma link_file_step:
  assumes o: "tar_order es" and n: "has_nodes es us" and m: "0 < m" "m < length es" and e: "es ! m = (ds @ [x], d)" "ds = take (length ds) cur"
    and q: "q < m" "fst (es ! q) = ds"
  shows "link_file (of_nat m) (open_levels es cur, link_state es m off us) =
    Inr (open_levels es (if d then ds @ [x] else ds), link_state es (Suc m) off us)"
proof -
  have pl: "\<forall>y \<in> set (ds @ [x]). plain y" using o nth_mem [OF m(2)] e(1) by (fastforce simp: tar_order_def)
  obtain nd where nd: "us_nodes (link_state es m off us) (of_nat m) = Some nd" "u_Path nd = tar_path (ds @ [x], d)"
    using link_state_node [OF o n m(2), of m off] e(1) by auto
  have pm: "pos es (ds @ [x]) = m" "pos es ds = q" using pos_nth [of es m] pos_nth [of es q] o m q e(1) by (simp_all add: tar_order_def)
  have att: "us_attach (of_nat q) (of_nat m) (link_state es m off us) = Inr (link_state es (Suc m) off us)"
    by (rule attach_kid [OF o n m q(1)]) (simp add: e(1) q(2))
  have le: "length ds \<le> length cur" using arg_cong [OF e(2), of length] by simp
  have pop: "pop_levels (dir_path ds) (open_levels es cur) = open_levels es ds" using pop_open_levels [OF le, of es] e(2) by simp
  have at: "snd (open_levels es cur ! j) = dir_path ds \<longleftrightarrow> j = length ds" if "j < length (open_levels es cur)" for j
    using that dir_path_take_inj [of j cur "length ds"] le e(2) by (simp add: open_levels_nth)
  have "open_levels es cur ! length ds \<in> set (open_levels es cur)" "snd (open_levels es cur ! length ds) = dir_path ds"
    using le at [of "length ds"] nth_mem [of "length ds" "open_levels es cur"] by simp_all
  then have ex: "\<exists>l \<in> set (open_levels es cur). snd l = dir_path ds" by blast
  have ne: "open_levels es ds \<noteq> []" by (simp add: open_levels_def)
  have files: "file_levels (length (open_levels es cur)) 0 (dir_path ds) (of_nat m) (open_levels es cur) (link_state es m off us) =
      Inr (pop_levels (dir_path ds) (open_levels es cur), link_state es (Suc m) off us)"
    by (subst file_levels_found [of "length ds"]) (use at le in \<open>simp_all add: pop pm att\<close>)
  have "link_file (of_nat m) (open_levels es cur, link_state es m off us) =
      Inr (pop_levels (dir_path ds) (open_levels es cur) @ (if last (tar_path (ds @ [x], d)) = CHR ''/'' then [(of_nat m, tar_path (ds @ [x], d))] else []),
        link_state es (Suc m) off us)"
    by (rule link_file_eq [OF _ nd(2) tar_path_base(3) [OF pl] _ dirname_tar_path [OF pl] tar_path_base(2) [OF pl] ex _ _ files])
      (use nd(1) ne in \<open>simp_all add: us_node_def tar_path_snoc pop pm att\<close>)
  then show ?thesis using tar_path_base(4) [OF pl] by (simp add: pop pm open_levels_snoc tar_path_snoc dir_path_snoc)
qed

lemma dfs_step:
  assumes "dfs_order cur (drop m es)" "m < length es" "\<forall>j \<le> length cur. \<exists>q < m. fst (es ! q) = take j cur"
  obtains ds x q where "es ! m = (ds @ [x], snd (es ! m))" "ds = take (length ds) cur" "q < m" "fst (es ! q) = ds"
    "dfs_order (if snd (es ! m) then ds @ [x] else ds) (drop (Suc m) es)"
    "\<forall>j \<le> length (if snd (es ! m) then ds @ [x] else ds). \<exists>q < Suc m. fst (es ! q) = take j (if snd (es ! m) then ds @ [x] else ds)"
proof -
  have d: "drop m es = es ! m # drop (Suc m) es" using assms(2) by (simp add: Cons_nth_drop_Suc)
  then have "fst (es ! m) \<noteq> []" using assms(1) by simp
  then obtain ds x where "fst (es ! m) = ds @ [x]" by (metis append_butlast_last_id)
  then have e: "es ! m = (ds @ [x], snd (es ! m))" "ds = take (length ds) cur" "dfs_order (if snd (es ! m) then ds @ [x] else ds) (drop (Suc m) es)"
    using assms(1) d by (auto simp: prod_eq_iff)
  let ?cur = "if snd (es ! m) then ds @ [x] else ds"
  have le: "length ds \<le> length cur" using arg_cong [OF e(2), of length] by simp
  then obtain q where q: "q < m" "fst (es ! q) = ds" using assms(3) e(2) by metis
  have open_dirs: "\<exists>q < Suc m. fst (es ! q) = take j ?cur" if "j \<le> length ?cur" for j
  proof (cases "j \<le> length ds")
    case True
    then have "take j ?cur = take j cur" using arg_cong [OF e(2), of "take j"] by (simp add: min_absorb1)
    then show ?thesis using assms(3) True le by (metis less_SucI le_trans)
  next
    case False
    then have "take j ?cur = fst (es ! m)" using that e(1) by (cases "snd (es ! m)") (auto simp: prod_eq_iff)
    then show ?thesis by auto
  qed
  show thesis by (rule that [OF e(1,2) q e(3)]) (use open_dirs in blast)
qed

lemma link_files:
  assumes o: "tar_order es" and n: "has_nodes es us"
    and "0 < m" "m \<le> length es" "dfs_order cur (drop m es)" "\<forall>j \<le> length cur. \<exists>q < m. fst (es ! q) = take j cur"
  shows "\<exists>st. each_res link_file (map of_nat [m..<length es]) (open_levels es cur, link_state es m off us) = Inr (st, link_state es (length es) off us)"
  using assms(3-6)
proof (induction "length es - m" arbitrary: m cur)
  case (Suc r)
  then have m: "m < length es" by simp
  obtain ds x q where e: "es ! m = (ds @ [x], snd (es ! m))" "ds = take (length ds) cur" "q < m" "fst (es ! q) = ds"
    "dfs_order (if snd (es ! m) then ds @ [x] else ds) (drop (Suc m) es)"
    "\<forall>j \<le> length (if snd (es ! m) then ds @ [x] else ds). \<exists>q < Suc m. fst (es ! q) = take j (if snd (es ! m) then ds @ [x] else ds)"
    by (rule dfs_step [OF Suc.prems(3) m Suc.prems(4)])
  have "each_res link_file (map of_nat [m..<length es]) (open_levels es cur, link_state es m off us) =
      each_res link_file (map of_nat [Suc m..<length es]) (open_levels es (if snd (es ! m) then ds @ [x] else ds), link_state es (Suc m) off us)"
    using link_file_step [OF o n Suc.prems(1) m e(1-4)] m by (simp add: upt_conv_Cons del: upt_Suc)
  moreover have "r = length es - Suc m" "Suc m \<le> length es" using Suc.hyps(2) m by simp_all
  ultimately show ?case using Suc.hyps(1) [OF _ _ _ e(5,6)] by simp
qed simp

lemma dad_earlier:
  assumes "m \<le> k" "k < length es" "dfs_order cur (drop m es)" "\<forall>j \<le> length cur. \<exists>q < m. fst (es ! q) = take j cur"
  shows "fst (es ! k) \<noteq> [] \<and> (\<exists>q < k. fst (es ! q) = butlast (fst (es ! k)))"
  using assms(1,3,4)
proof (induction "k - m" arbitrary: m cur)
  case 0
  then have "m = k" by simp
  then show ?case using dfs_step [OF _ assms(2), of cur] 0 by (metis butlast_snoc fst_conv snoc_eq_iff_butlast)
next
  case (Suc r)
  then have m: "m < length es" "Suc m \<le> k" using assms(2) by simp_all
  obtain cur' where cur': "dfs_order cur' (drop (Suc m) es)" "\<forall>j \<le> length cur'. \<exists>q < Suc m. fst (es ! q) = take j cur'"
    using dfs_step [OF Suc.prems(2) m(1) Suc.prems(3)] by metis
  show ?case using Suc.hyps(1) [OF _ m(2) cur'] Suc.hyps(2) by simp
qed

lemma dad_before:
  assumes "tar_order es" "0 < k" "k < length es"
  shows "dad es k < k" "fst (es ! k) \<noteq> []" "fst (es ! dad es k) = butlast (fst (es ! k))"
proof -
  have "dfs_order [] (drop 1 es)" "fst (es ! 0) = []" using assms(1) by (auto simp: tar_order_def drop_Suc hd_conv_nth)
  then have ne: "fst (es ! k) \<noteq> []" and "\<exists>q < k. fst (es ! q) = butlast (fst (es ! k))" using dad_earlier [of 1 k es "[]"] assms by auto
  then obtain q where q: "q < k" "fst (es ! q) = butlast (fst (es ! k))" by blast
  then have "dad es k = q" using assms pos_nth [of es q] by (simp add: dad_def tar_order_def)
  then show "dad es k < k" "fst (es ! dad es k) = butlast (fst (es ! k))" using q by simp_all
  show "fst (es ! k) \<noteq> []" by (rule ne)
qed

lemma kids_iff: "tar_order es \<Longrightarrow> k < length es \<Longrightarrow> c \<in> set (kids es (length es) k) \<longleftrightarrow> 0 < c \<and> c < length es \<and> dad es c = k"
  using dad_before [of es c] pos_nth [of es k] by (auto simp: kids_def dad_def tar_order_def Suc_le_eq)

subsection \<open>Numbering\<close>

text \<open>The place of a file in the listing of its directory, after the two entries every directory has.\<close>

definition seat :: "(string list \<times> bool) list \<Rightarrow> nat \<Rightarrow> int" where
  "seat es j = int (2 + length (takeWhile (\<lambda>c. c \<noteq> j) (kids es (length es) (dad es j))))"

definition below :: "(string list \<times> bool) list \<Rightarrow> nat \<Rightarrow> nat \<Rightarrow> bool" where
  "below es k j \<longleftrightarrow> strict_prefix (fst (es ! k)) (fst (es ! j))"

lemma takeWhile_nth: "distinct xs \<Longrightarrow> i < length xs \<Longrightarrow> length (takeWhile (\<lambda>c. c \<noteq> xs ! i) xs) = i"
proof (induction xs arbitrary: i)
  case (Cons x xs)
  then show ?case by (cases i) auto
qed simp

lemma zip_seats:
  assumes "tar_order es" "k < length es"
  shows "zip (map of_nat (kids es (length es) k)) (map int [2..<2 + length (kids es (length es) k)]) =
    map (\<lambda>c. (of_nat c :: u64, seat es c)) (kids es (length es) k)"
proof (rule nth_equalityI)
  fix i assume "i < length (zip (map of_nat (kids es (length es) k) :: u64 list) (map int [2..<2 + length (kids es (length es) k)]))"
  then have i: "i < length (kids es (length es) k)" by simp
  moreover have "dad es (kids es (length es) k ! i) = k" using nth_mem [OF i] kids_iff [OF assms] by blast
  moreover have "distinct (kids es (length es) k)" by (simp add: kids_def)
  ultimately show "zip (map of_nat (kids es (length es) k)) (map int [2..<2 + length (kids es (length es) k)]) ! i =
      map (\<lambda>c. (of_nat c :: u64, seat es c)) (kids es (length es) k) ! i" by (simp add: seat_def takeWhile_nth del: upt_Suc)
qed (simp del: upt_Suc)

lemma below_kid:
  assumes o: "tar_order es" and k: "k < length es"
  shows "j < length es \<Longrightarrow> below es k j \<Longrightarrow> \<exists>c \<in> set (kids es (length es) k). c = j \<or> below es c j"
proof (induction j rule: less_induct)
  case (less j)
  have root: "fst (es ! 0) = []" using o by (auto simp: tar_order_def hd_conv_nth)
  then have j: "0 < j" using less.prems(2) by (cases j) (simp_all add: below_def)
  note d = dad_before [OF o j less.prems(1)]
  have "strict_prefix (fst (es ! k)) (fst (es ! dad es j) @ [last (fst (es ! j))])" using less.prems(2) d(2,3) by (simp add: below_def)
  then have "prefix (fst (es ! k)) (fst (es ! dad es j))" by (auto simp: strict_prefix_def)
  then consider "fst (es ! k) = fst (es ! dad es j)" | "below es k (dad es j)" by (auto simp: below_def strict_prefix_def)
  then show ?case
  proof cases
    case 1
    then have "dad es j = k" using pos_nth [of es k] o k d(3) by (simp add: dad_def tar_order_def)
    then show ?thesis using kids_iff [OF o k] j less.prems(1) by blast
  next
    case 2
    then obtain c where c: "c \<in> set (kids es (length es) k)" "c = dad es j \<or> below es c (dad es j)"
      using less.IH [OF d(1)] less_trans [OF d(1) less.prems(1)] by blast
    moreover have "below es (dad es j) j" using d(2,3) strict_prefixI' [of "fst (es ! j)" "butlast (fst (es ! j))" "last (fst (es ! j))" "[]"] by (simp add: below_def)
    ultimately have "below es c j" using c(2) unfolding below_def by (auto intro: prefix_order.less_trans)
    then show ?thesis using c(1) by blast
  qed
qed

lemma set_offset_link:
  assumes "tar_order es" "has_nodes es us" "k < length es"
  shows "set_offset (of_nat k) off' (link_state es m off us) = Inr (link_state es m (off(k := off')) us)"
proof -
  have u: "unat (of_nat k :: u64) = k" by (rule tar_order_unat [OF assms(1,3)])
  obtain nd where nd: "us_nodes us (of_nat k) = Some nd" "us_nodes (link_state es m off us) (of_nat k) = Some (link_node es m off k nd)"
    using link_state_node [OF assms] by blast
  have "us_nodes (link_state es m (off(k := off')) us) = (us_nodes (link_state es m off us))(of_nat k \<mapsto> link_node es m (off(k := off')) k nd)"
  proof (rule ext)
    fix i
    show "us_nodes (link_state es m (off(k := off')) us) i = ((us_nodes (link_state es m off us))(of_nat k \<mapsto> link_node es m (off(k := off')) k nd)) i"
    proof (cases "i = of_nat k")
      case False
      then have "unat i \<noteq> k" by auto
      then show ?thesis using False by (cases "unat i < length es") (simp_all add: link_state_def link_node_def)
    qed (use u nd(1) assms(3) in \<open>simp add: link_state_def\<close>)
  qed
  then show ?thesis using nd(2) by (simp add: set_offset_def us_node_def us_put_def) (simp add: link_state_def link_node_def)
qed

text \<open>The files that got their number.\<close>

definition numbered :: "(string list \<times> bool) list \<Rightarrow> nat list \<Rightarrow> (nat \<Rightarrow> int) \<Rightarrow> (nat \<Rightarrow> int) \<Rightarrow> bool" where
  "numbered es cs off off' \<longleftrightarrow> (\<forall>j. off' j = off j \<or> off' j = seat es j) \<and> (\<forall>c \<in> set cs. \<forall>j < length es. c = j \<or> below es c j \<longrightarrow> off' j = seat es j)"

lemma number_files:
  assumes "\<forall>c \<in> set cs. c < length es \<and> (\<forall>off. \<exists>off'. ustarTree n (of_nat c) (link_state es (length es) off us) = Inr (link_state es (length es) off' us) \<and>
        (\<forall>j. off' j = off j \<or> off' j = seat es j) \<and> (\<forall>j < length es. below es c j \<longrightarrow> off' j = seat es j))"
    and o: "tar_order es" and n: "has_nodes es us"
  shows "\<exists>off'. each_res (\<lambda>(child, off) us. rbind (set_offset child off us) (ustarTree n child)) (map (\<lambda>c. (of_nat c, seat es c)) cs) (link_state es (length es) off us) =
    Inr (link_state es (length es) off' us) \<and> numbered es cs off off'"
  using assms(1)
proof (induction cs arbitrary: off)
  case Nil
  then show ?case by (auto simp: numbered_def)
next
  case (Cons c cs)
  then have c: "c < length es" by simp
  obtain off1 where off1: "ustarTree n (of_nat c) (link_state es (length es) (off(c := seat es c)) us) = Inr (link_state es (length es) off1 us)"
    "\<forall>j. off1 j = (off(c := seat es c)) j \<or> off1 j = seat es j" "\<forall>j < length es. below es c j \<longrightarrow> off1 j = seat es j"
    using Cons.prems by (metis list.set_intros(1))
  obtain off2 where off2: "each_res (\<lambda>(child, off) us. rbind (set_offset child off us) (ustarTree n child)) (map (\<lambda>c. (of_nat c, seat es c)) cs) (link_state es (length es) off1 us) =
      Inr (link_state es (length es) off2 us)" "numbered es cs off1 off2" using Cons.IH [of off1] Cons.prems by auto
  have kept: "off2 j = seat es j" if "off1 j = seat es j" for j using off2(2) that unfolding numbered_def by metis
  have "off1 c = seat es c" using off1(2) by (metis fun_upd_same)
  moreover have "off2 j = off j \<or> off2 j = seat es j" for j
    using off1(2) [rule_format, of j] off2(2) unfolding numbered_def by (metis fun_upd_apply)
  ultimately have "numbered es (c # cs) off off2" using kept off1(3) off2(2) unfolding numbered_def by auto
  then show ?case using set_offset_link [OF o n c, of "seat es c" "length es" off] off1(1) off2(1) by auto
qed

lemma ustarTree_numbers:
  assumes o: "tar_order es" and n: "has_nodes es us"
  shows "k < length es \<Longrightarrow> length es \<le> k + n \<Longrightarrow> \<exists>off'. ustarTree n (of_nat k) (link_state es (length es) off us) = Inr (link_state es (length es) off' us) \<and>
    (\<forall>j. off' j = off j \<or> off' j = seat es j) \<and> (\<forall>j < length es. below es k j \<longrightarrow> off' j = seat es j)"
proof (induction n arbitrary: k off)
  case (Suc n)
  let ?ks = "kids es (length es) k"
  obtain nd where nd: "us_nodes (link_state es (length es) off us) (of_nat k) = Some nd" "u_Children nd = map of_nat ?ks"
    using link_state_node [OF o n Suc.prems(1), of "length es" off] by (auto simp: link_node_def)
  have kid: "c < length es \<and> length es \<le> c + n" if "c \<in> set ?ks" for c
    using that kids_iff [OF o Suc.prems(1)] dad_before(1) [OF o, of c] Suc.prems(2) by auto
  obtain off' where off': "each_res (\<lambda>(child, off) us. rbind (set_offset child off us) (ustarTree n child)) (map (\<lambda>c. (of_nat c, seat es c)) ?ks) (link_state es (length es) off us) =
      Inr (link_state es (length es) off' us)" "numbered es ?ks off off'"
    using number_files [OF _ o n, of ?ks n off] Suc.IH kid by blast
  have "ustarTree (Suc n) (of_nat k) (link_state es (length es) off us) = Inr (link_state es (length es) off' us)"
    using off'(1) nd zip_seats [OF o Suc.prems(1)] by (simp add: us_node_def del: upt_Suc)
  moreover have "off' j = seat es j" if "j < length es" "below es k j" for j
    using below_kid [OF o Suc.prems(1) that] off'(2) that(1) by (auto simp: numbered_def)
  ultimately show ?case using off'(2) unfolding numbered_def by blast
qed simp

end
