(* ===== verification/UstarRead.thy ===== *)
theory UstarRead
  imports UstarTree RamfsProofs
begin

unbundle bit_operations_syntax

section \<open>Files of an archive\<close>

text \<open>
  What a \<open>tar\<close> program has written is found by its path, listed in its directory and read back.
\<close>

subsection \<open>The state after reading an archive\<close>

text \<open>
  The names and kinds \<open>es\<close> of the files, with the paths, contents and blocks \<open>ps\<close>, and what follows them.
\<close>

definition archive_ok :: "(string list \<times> bool) list \<Rightarrow> (string \<times> string \<times> string) list \<Rightarrow> string \<Rightarrow> bool" where
  "archive_ok es ps post \<longleftrightarrow> tar_order es \<and> tar_blocks ps \<and> map fst ps = map tar_path es \<and> tar_end post"

definition headers_read :: "(string list \<times> bool) list \<Rightarrow> (string \<times> string \<times> string) list \<Rightarrow> string \<Rightarrow> u64 \<Rightarrow> USTAR \<Rightarrow> bool" where
  "headers_read es ps post dev us \<longleftrightarrow>
     us_mem us = tar_stripped ps @ post \<and> us_Files us = map of_nat [0..<length es] \<and> us_NextInode us = of_nat (length es) \<and> us_DeviceID us = dev \<and>
     has_archived us 0 0 ps \<and> (\<forall>i. us_nodes us i \<noteq> None \<longleftrightarrow> unat i < length es)"

lemma archive_length: "archive_ok es ps post \<Longrightarrow> length ps = length es"
  by (metis archive_ok_def length_map)

lemma archive_path:
  assumes "archive_ok es ps post" "k < length es"
  shows "fst (ps ! k) = tar_path (es ! k)"
proof -
  have "map fst ps ! k = map tar_path es ! k" using assms(1) by (simp add: archive_ok_def)
  then show ?thesis using assms(2) archive_length [OF assms(1)] by simp
qed

lemma headers_read_node:
  assumes "archive_ok es ps post" "headers_read es ps post dev us" "k < length es"
  shows "\<exists>mode. us_nodes us (of_nat k) = Some (archived us (of_nat k) (length (tar_image (take k ps))) (tar_path (es ! k)) (snd (snd (ps ! k))) mode)"
proof -
  have "has_archived us 0 0 ps" "k < length ps" using assms(2,3) archive_length [OF assms(1)] by (simp_all add: headers_read_def)
  then show ?thesis using archive_path [OF assms(1,3)] unfolding has_archived_def by fastforce
qed

lemma headers_read_nodes:
  assumes "archive_ok es ps post" "headers_read es ps post dev us"
  shows "has_nodes es us"
  unfolding has_nodes_def
proof (intro allI impI)
  fix k assume "k < length es"
  then obtain mode where "us_nodes us (of_nat k) = Some (archived us (of_nat k) (length (tar_image (take k ps))) (tar_path (es ! k)) (snd (snd (ps ! k))) mode)"
    using headers_read_node [OF assms] by blast
  then show "\<exists>nd. us_nodes us (of_nat k) = Some nd \<and> u_Path nd = tar_path (es ! k)" by (simp add: archived_def)
qed

lemma link_state_start:
  assumes "archive_ok es ps post" "headers_read es ps post dev us"
  shows "link_state es 1 (\<lambda>_. 0) us = us"
proof -
  have "map_option (\<lambda>nd. if unat i < length es then link_node es 1 (\<lambda>_. 0) (unat i) nd else nd) (us_nodes us i) = us_nodes us i" for i
  proof (cases "unat i < length es")
    case True
    then obtain nd where nd: "us_nodes us i = Some nd" "u_Children nd = []" "u_Parent nd = None" "i_Offset (u_Node nd) = 0"
      using headers_read_node [OF assms True] by (auto simp: archived_def)
    have "link_node es 1 (\<lambda>_. 0) k nd = nd" for k using nd(2-4) by (cases "k = 0") (simp_all add: link_node_def kids_def)
    then show ?thesis using nd(1) by simp
  qed (simp add: option.map_ident)
  then show ?thesis by (simp add: link_state_def del: One_nat_def)
qed

lemma read_headers_read:
  assumes "archive_ok es ps post"
  shows "\<exists>us. read_headers 0 [] (USTAR_new\<lparr>us_DeviceID := dev, us_mem := tar_image ps @ post\<rparr>) = Inr (True, map of_nat [0..<length es], us) \<and> headers_read es ps post dev us"
proof -
  have ps: "tar_blocks ps" "tar_end post" "length ps = length es" "length es < 2 ^ 64" using assms archive_length [OF assms] by (auto simp: archive_ok_def tar_order_def)
  let ?us = "USTAR_new\<lparr>us_DeviceID := dev, us_mem := tar_image ps @ post\<rparr>"
  have mem: "us_mem ?us = [] @ tar_image ps @ post" "us_NextInode ?us = of_nat 0" "0 + length ps < 2 ^ 64" using ps(3,4) by (simp_all add: USTAR_new_def)
  have new: "us_Files ?us = []" "us_DeviceID ?us = dev" "us_nodes ?us = (\<lambda>_. None)" by (simp_all add: USTAR_new_def)
  have "\<exists>us. read_headers 0 [] ?us = Inr (True, map of_nat [0..<length es], us) \<and>
    us_mem us = tar_stripped ps @ post \<and> us_Files us = map of_nat [0..<length es] \<and> us_NextInode us = of_nat (length es) \<and>
    us_DeviceID us = dev \<and> has_archived us 0 0 ps \<and> (\<forall>i. (\<forall>k < length es. i \<noteq> of_nat k) \<longrightarrow> us_nodes us i = None)"
    using read_headers_archive [OF ps(1,2) mem, of "[]"] by (simp only: new ps(3) list.size(3) append_Nil add_0)
  then obtain us where us: "read_headers 0 [] ?us = Inr (True, map of_nat [0..<length es], us)"
    "us_mem us = tar_stripped ps @ post" "us_Files us = map of_nat [0..<length es]" "us_NextInode us = of_nat (length es)"
    "us_DeviceID us = dev" "has_archived us 0 0 ps" "\<forall>i. (\<forall>k < length es. i \<noteq> of_nat k) \<longrightarrow> us_nodes us i = None"
    by (elim exE conjE)
  have "us_nodes us i \<noteq> None \<longleftrightarrow> unat i < length es" for i
  proof
    assume "us_nodes us i \<noteq> None"
    then obtain k where "k < length es" "i = of_nat k" using spec [OF us(7), of i] by (auto simp del: not_None_eq)
    then show "unat i < length es" using tar_order_unat [of es k] assms by (simp add: archive_ok_def)
  next
    assume "unat i < length es"
    then have "us_nodes us (of_nat (0 + unat i)) \<noteq> None" using us(6) ps(3) unfolding has_archived_def by (metis option.distinct(1))
    then show "us_nodes us i \<noteq> None" by simp
  qed
  then have "headers_read es ps post dev us" using us(2-6) by (simp add: headers_read_def)
  then show ?thesis using us(1) by blast
qed

lemma read_archive:
  assumes ok: "archive_ok es ps post"
  shows "\<exists>us off. ReadArchive (tar_image ps @ post) (USTAR_new\<lparr>us_DeviceID := dev\<rparr>) = Inr (link_state es (length es) off us) \<and>
    headers_read es ps post dev us \<and> (\<forall>j. 0 < j \<and> j < length es \<longrightarrow> off j = seat es j)"
proof -
  have o: "tar_order es" using ok by (simp add: archive_ok_def)
  obtain us where us: "read_headers 0 [] (USTAR_new\<lparr>us_DeviceID := dev, us_mem := tar_image ps @ post\<rparr>) = Inr (True, map of_nat [0..<length es], us)"
    "headers_read es ps post dev us" using read_headers_read [OF ok] by blast
  note n = headers_read_nodes [OF ok us(2)] and s = link_state_start [OF ok us(2)]
  have e0: "0 < length es" "es ! 0 = ([], True)" "dfs_order [] (drop 1 es)" using o by (auto simp: tar_order_def hd_conv_nth drop_Suc)
  obtain nd where nd: "us_nodes us 0 = Some nd" "u_Path nd = ''/''" using n e0 by (auto simp: has_nodes_def tar_path_def dir_path_def)
  have "pos es [] = 0" using pos_nth [of es 0] e0 o by (simp add: tar_order_def)
  then have first: "link_file 0 ([], us) = Inr (open_levels es [], us)" using nd by (simp add: link_file_def us_node_def open_levels_def dir_path_def)
  obtain st where "each_res link_file (map of_nat [1..<length es]) (open_levels es [], link_state es 1 (\<lambda>_. 0) us) = Inr (st, link_state es (length es) (\<lambda>_. 0) us)"
    using link_files [OF o n, of 1 "[]" "\<lambda>_. 0"] e0 by auto
  then have link: "each_res link_file (map of_nat [0..<length es]) ([], us) = Inr (st, link_state es (length es) (\<lambda>_. 0) us)"
    using first s e0(1) by (simp add: upt_conv_Cons del: upt_Suc)
  obtain off where off: "ustarTree (Suc (length es)) 0 (link_state es (length es) (\<lambda>_. 0) us) = Inr (link_state es (length es) off us)"
    "\<forall>j < length es. below es 0 j \<longrightarrow> off j = seat es j" using ustarTree_numbers [OF o n e0(1), of "Suc (length es)" "\<lambda>_. 0"] by (auto simp del: ustarTree.simps)
  have "below es 0 j" if "0 < j" "j < length es" for j using dad_before(2) [OF o that] e0(2) by (simp add: below_def strict_prefix_def)
  moreover have "ReadArchive (tar_image ps @ post) (USTAR_new\<lparr>us_DeviceID := dev\<rparr>) = Inr (link_state es (length es) off us)"
    using us(1) link off(1) e0(1) by (simp add: ReadArchive_def upt_conv_Cons del: upt_Suc ustarTree.simps)
  ultimately show ?thesis using us(2) off(2) by blast
qed

lemma archive_node:
  assumes "archive_ok es ps post" "headers_read es ps post dev us" "k < length es"
  shows "\<exists>mode. us_nodes (link_state es (length es) off us) (of_nat k) = Some (link_node es (length es) off k
    (archived us (of_nat k) (length (tar_image (take k ps))) (tar_path (es ! k)) (snd (snd (ps ! k))) mode))"
proof -
  have o: "tar_order es" using assms(1) by (simp add: archive_ok_def)
  obtain nd where "us_nodes us (of_nat k) = Some nd" "us_nodes (link_state es (length es) off us) (of_nat k) = Some (link_node es (length es) off k nd)"
    using link_state_node [OF o headers_read_nodes [OF assms(1,2)] assms(3)] by blast
  then show ?thesis using headers_read_node [OF assms] by auto
qed

lemma archive_wf:
  assumes ok: "archive_ok es ps post" and h: "headers_read es ps post dev us"
  shows "ustar_wf (link_state es (length es) off us)"
proof -
  let ?us = "link_state es (length es) off us"
  have o: "tar_order es" using ok by (simp add: archive_ok_def)
  have nodes: "us_nodes ?us i \<noteq> None \<longleftrightarrow> unat i < length es" for i using h by (simp add: link_state_def headers_read_def)
  have files: "i \<in> set (us_Files ?us) \<longleftrightarrow> unat i < length es" for i
  proof
    assume "i \<in> set (us_Files ?us)"
    then show "unat i < length es" using h tar_order_unat [OF o] by (auto simp: link_state_def headers_read_def)
  next
    assume "unat i < length es"
    then have "i \<in> of_nat ` {0..<length es}" by (intro image_eqI [of i of_nat "unat i"]) simp_all
    then show "i \<in> set (us_Files ?us)" using h by (simp add: link_state_def headers_read_def)
  qed
  have "unat (us_NextInode ?us) = length es" using h o by (simp add: link_state_def headers_read_def tar_order_def unat_of_nat_less)
  then have "i < us_NextInode ?us" if "i \<in> set (us_Files ?us)" for i using files that by (simp add: word_less_nat_alt)
  moreover have "us_nodes ?us c \<noteq> None" if n: "us_nodes ?us i = Some n" and c: "c \<in> set (u_Children n)" for i n c
  proof -
    have i: "unat i < length es" using nodes [of i] n by simp
    then have "u_Children n = map of_nat (kids es (length es) (unat i))" using n by (auto simp: link_state_def link_node_def)
    then obtain j where "j < length es" "c = of_nat j" using c kids_iff [OF o i] by auto
    then show ?thesis using nodes [of c] tar_order_unat [OF o] by simp
  qed
  ultimately show ?thesis unfolding ustar_wf_def using nodes files by blast
qed

subsection \<open>Paths\<close>

lemma map_of_unique: "j \<in> set cs \<Longrightarrow> \<forall>c \<in> set cs. f c = f j \<longrightarrow> c = j \<Longrightarrow> map_of (map (\<lambda>c. (f c, g c)) cs) (f j) = Some (g j)"
  by (induction cs) auto

lemma archive_names:
  assumes "tar_order es" "0 < c" "c < length es"
  shows "fst (es ! c) = fst (es ! dad es c) @ [last (fst (es ! c))]" "base_name (tar_path (es ! c)) = last (fst (es ! c))"
proof -
  note d = dad_before [OF assms]
  show s: "fst (es ! c) = fst (es ! dad es c) @ [last (fst (es ! c))]" using d(2,3) by simp
  have "\<forall>y \<in> set (fst (es ! dad es c) @ [last (fst (es ! c))]). plain y" using assms(1) nth_mem [OF assms(3)] s by (auto simp: tar_order_def)
  then show "base_name (tar_path (es ! c)) = last (fst (es ! c))" using tar_path_base(1) [of "fst (es ! dad es c)" _ "snd (es ! c)"] s by (metis prod.collapse)
qed

lemma archive_entries:
  assumes ok: "archive_ok es ps post" and h: "headers_read es ps post dev us" and k: "k < length es"
  shows "us_entries (link_state es (length es) off us) (map of_nat (kids es (length es) k)) =
    map (\<lambda>c. (last (fst (es ! c)), of_nat c)) (kids es (length es) k)"
proof -
  let ?us = "link_state es (length es) off us"
  have o: "tar_order es" using ok by (simp add: archive_ok_def)
  have "u_Name (the (us_nodes ?us (of_nat c))) = last (fst (es ! c)) \<and> \<not> u_Deleted (the (us_nodes ?us (of_nat c)))" if "c \<in> set (kids es (length es) k)" for c
  proof -
    have c: "0 < c" "c < length es" using that kids_iff [OF o k] by auto
    then show ?thesis using archive_node [OF ok h c(2), of off] archive_names(2) [OF o c] by (auto simp: link_node_def archived_def)
  qed
  then have "us_entries ?us (map of_nat cs) = map (\<lambda>c. (last (fst (es ! c)), of_nat c)) cs" if "set cs \<subseteq> set (kids es (length es) k)" for cs
    using that by (induction cs) (auto simp: us_entries_def)
  then show ?thesis by blast
qed

lemma archive_lookup:
  assumes ok: "archive_ok es ps post" and h: "headers_read es ps post dev us" and k: "k < length es" and x: "plain x"
  shows "USTAR_Lookup walk (link_state es (length es) off us) (Some (of_nat k)) x =
    Inr (found (if fst (es ! k) @ [x] \<in> fst ` set es then Some (of_nat (pos es (fst (es ! k) @ [x]))) else None))"
proof -
  let ?us = "link_state es (length es) off us" and ?ks = "kids es (length es) k" and ?ent = "\<lambda>c. (last (fst (es ! c)), of_nat c :: u64)"
  have o: "tar_order es" using ok by (simp add: archive_ok_def)
  obtain nd where nd: "us_nodes ?us (of_nat k) = Some nd" "u_Children nd = map of_nat ?ks" using archive_node [OF ok h k, of off] by (auto simp: link_node_def)
  have look: "USTAR_Lookup walk ?us (Some (of_nat k)) x = Inr (found (map_of (map ?ent ?ks) x))"
    using ustar_lookup_eq [OF archive_wf [OF ok h, of off] nd(1) x, of walk] nd(2) archive_entries [OF ok h k, of off] by simp
  have kid: "fst (es ! c) = fst (es ! k) @ [last (fst (es ! c))] \<and> pos es (fst (es ! c)) = c \<and> c < length es" if "c \<in> set ?ks" for c
    using that kids_iff [OF o k] archive_names(1) [OF o, of c] pos_nth [of es c] o by (simp add: tar_order_def)
  show ?thesis
  proof (cases "fst (es ! k) @ [x] \<in> fst ` set es")
    case True
    then obtain j where j: "j < length es" "fst (es ! j) = fst (es ! k) @ [x]" by (auto simp: in_set_conv_nth)
    have "es ! 0 = ([], True)" using o by (auto simp: tar_order_def hd_conv_nth)
    then have "0 < j" using j(2) by (cases j) auto
    moreover have "dad es j = k" using j(2) pos_nth [of es k] o k by (simp add: dad_def tar_order_def)
    ultimately have in_ks: "j \<in> set ?ks" using kids_iff [OF o k] j(1) by simp
    have x: "last (fst (es ! j)) = x" by (simp add: j(2))
    have "c = j" if "c \<in> set ?ks" "last (fst (es ! c)) = x" for c using kid [OF that(1)] kid [OF in_ks] that(2) x by metis
    then have "map_of (map ?ent ?ks) x = Some (of_nat j)" using map_of_unique [OF in_ks, of "\<lambda>c. last (fst (es ! c))" of_nat] unfolding x by blast
    then show ?thesis using look True kid [OF in_ks] j(2) by simp
  next
    case False
    have "x \<noteq> last (fst (es ! c))" if "c \<in> set ?ks" for c using kid [OF that] False nth_mem [of c es] by (metis image_eqI)
    then have "map_of (map ?ent ?ks) x = None" unfolding map_of_eq_None_iff by force
    then show ?thesis using look False by simp
  qed
qed

lemma walk_names_snoc:
  "walk_names lookup s p (xs @ [x]) = rbind (walk_names lookup s p xs) (\<lambda>(ret, r). case r of None \<Rightarrow> Inr (ret, None) | Some i \<Rightarrow> walk_names lookup s i [x])"
  by (induction lookup s p xs rule: walk_names.induct) (auto simp: rbind_def split: sum.splits option.splits)

lemma archive_walk:
  assumes ok: "archive_ok es ps post" and h: "headers_read es ps post dev us"
  shows "\<forall>x \<in> set ns. plain x \<Longrightarrow> walk_names (\<lambda>us p. USTAR_Lookup walk us (Some p)) (link_state es (length es) off us) 0 ns =
    Inr (found (if ns \<in> fst ` set es then Some (of_nat (pos es ns)) else None))"
proof (induction ns rule: rev_induct)
  case Nil
  have "es \<noteq> []" "fst (es ! 0) = []" "distinct (map fst es)" using ok by (auto simp: archive_ok_def tar_order_def hd_conv_nth)
  then have "[] \<in> fst ` set es" "pos es [] = 0" using imageI [OF nth_mem [of 0 es], of fst] pos_nth [of es 0] by simp_all
  then show ?case by (simp add: found_def)
next
  case (snoc x ns)
  have o: "tar_order es" using ok by (simp add: archive_ok_def)
  show ?case
  proof (cases "ns \<in> fst ` set es")
    case True
    then obtain k where k: "k < length es" "fst (es ! k) = ns" by (auto simp: in_set_conv_nth)
    then have "pos es ns = k" using pos_nth [of es k] o by (simp add: tar_order_def)
    then show ?thesis using snoc True archive_lookup [OF ok h k(1), of x walk off] k(2) by (auto simp: walk_names_snoc found_def)
  next
    case False
    have "ns @ [x] \<notin> fst ` set es"
    proof
      assume "ns @ [x] \<in> fst ` set es"
      then obtain j where j: "j < length es" "fst (es ! j) = ns @ [x]" by (auto simp: in_set_conv_nth)
      have "fst (es ! 0) = []" using o by (auto simp: tar_order_def hd_conv_nth)
      then have "0 < j" using j(2) by (cases j) auto
      then have "dad es j < length es" "fst (es ! dad es j) = ns" using dad_before [OF o _ j(1)] j by auto
      then show False using False nth_mem [of "dad es j" es] by (metis image_eqI)
    qed
    then show ?thesis using snoc False by (simp add: walk_names_snoc found_def)
  qed
qed

subsection \<open>Contents\<close>

lemma tar_stripped_length: "tar_blocks ps \<Longrightarrow> length (tar_stripped ps) = length (tar_image ps)"
  by (induction ps) (auto simp: tar_stripped_def tar_image_def tar_blocks_def)

lemma tar_stripped_append: "tar_stripped (ps @ qs) = tar_stripped ps @ tar_stripped qs"
  by (simp add: tar_stripped_def)

lemma tar_stripped_Cons: "tar_stripped (p # ps) = stripped (fst p) (snd (snd p)) @ tar_stripped ps"
  by (simp add: tar_stripped_def case_prod_unfold)

text \<open>The memory from the header of a file on.\<close>

lemma archive_header:
  assumes "tar_blocks ps" "k < length ps"
  shows "drop (length (tar_image (take k ps))) (tar_stripped ps @ post) =
    stripped (fst (ps ! k)) (snd (snd (ps ! k))) @ tar_stripped (drop (Suc k) ps) @ post"
proof -
  have "tar_blocks (take k ps)" using assms(1) set_take_subset [of k ps] by (auto simp: tar_blocks_def)
  then have l: "length (tar_image (take k ps)) = length (tar_stripped (take k ps))" by (simp add: tar_stripped_length)
  have "tar_stripped ps = tar_stripped (take k ps) @ stripped (fst (ps ! k)) (snd (snd (ps ! k))) @ tar_stripped (drop (Suc k) ps)"
    using arg_cong [OF id_take_nth_drop [OF assms(2)], of tar_stripped] by (simp only: tar_stripped_append tar_stripped_Cons)
  then show ?thesis by (simp add: l)
qed

lemma archive_read:
  assumes ok: "archive_ok es ps post" and h: "headers_read es ps post dev us" and k: "k < length es"
    and a: "a + s \<le> length (fst (snd (ps ! k)))" "0 < s" "s \<le> length Buffer"
  shows "USTAR_Read (link_state es (length es) off us) (of_nat k) Buffer (of_nat s) (int a) =
    Inr (int s, map of_char (take s (drop a (fst (snd (ps ! k))))) @ drop s Buffer)"
proof -
  let ?us = "link_state es (length es) off us"
  obtain path content blk where e: "ps ! k = (path, content, blk)" by (cases "ps ! k")
  have ps: "tar_blocks ps" "k < length ps" using ok k archive_length [OF ok] by (simp_all add: archive_ok_def)
  then have b: "tar_block path content blk" using nth_mem [OF ps(2)] e by (auto simp: tar_blocks_def)
  note len = tar_block_length [OF b]
  have lt: "length content < 2 ^ 32" "take (length content) (drop 512 blk) = content" "length path + 1 \<le> 100" using b by (simp_all add: tar_block_def)
  obtain nd where nd: "us_find ?us (of_nat k) = Inr nd" "u_Header nd = InArchive (length (tar_image (take k ps)))" "\<not> u_Deleted nd"
    using archive_node [OF ok h k, of off] ustar_wf_node(1) [OF archive_wf [OF ok h, of off]] by (auto simp: us_find_def us_node_def assert_res_def link_node_def archived_def)
  obtain rest where hdr: "header_bytes ?us (u_Header nd) = stripped path blk @ rest"
    using archive_header [OF ps, of post] h nd(2) e by (simp add: header_bytes_def link_state_def headers_read_def)
  have size: "cstr (stripped path blk @ rest) 124 = Inr (takeWhile (\<lambda>c. c \<noteq> NUL) (drop 124 blk))" "GetSize (takeWhile (\<lambda>c. c \<noteq> NUL) (drop 124 blk)) = of_nat (length content)"
    using b lt(3) by (simp_all add: cstr_append stripped_drop tar_block_def)
  have w: "unat (ucast (of_nat (length content) :: u32) :: u64) = length content" "unat (of_nat s :: u64) = s" "unat (of_nat a :: u64) = a"
    using lt(1) a e by (simp_all add: unat_of_nat_less unsigned_ucast_eq take_bit_nat_eq_self_iff)
  have "unat (of_nat a + of_nat s :: u64) = a + s" using w a e lt(1) by (simp add: unat_word_ariths)
  then have c: "\<not> (of_nat a :: u64) > ucast (of_nat (length content) :: u32)" "ucast (of_nat (length content) :: u32) - (of_nat a :: u64) \<noteq> 0"
    "\<not> (of_nat a + of_nat s :: u64) > ucast (of_nat (length content) :: u32)" "(of_nat s :: u64) \<noteq> 0"
    using w a e by (auto simp: word_less_nat_alt)
  have "drop 512 blk = content @ drop (length content) (drop 512 blk)" using lt(2) append_take_drop_id [of "length content" "drop 512 blk"] by simp
  moreover have "drop (512 + a) (stripped path blk) = drop a (drop 512 blk)" using stripped_drop [of path "512 + a" blk] lt(3) by (simp add: add.commute)
  ultimately have "drop (512 + a) (stripped path blk @ rest) = drop a content @ drop (length content) (drop 512 blk) @ rest"
    using len(3) stripped_length [OF b] a(1) e by simp
  then have "memcpy Buffer 0 (map of_char (drop (512 + a) (stripped path blk @ rest))) s = Inr (map of_char (take s (drop a content)) @ drop s Buffer)"
    using a e by (simp add: memcpy_eq take_map drop_map)
  then show ?thesis
    using nd hdr size c w a(1) e lt(1) by (simp add: USTAR_Read_def Let_def header_size_def sint_small)
qed

subsection \<open>Listings\<close>

lemma first_bit_type: "first_bit mode_bits m AND S_IFMT = 0"
proof (cases "find (\<lambda>(b, _). m AND b \<noteq> 0) mode_bits")
  case (Some r)
  then have "r \<in> set mode_bits" by (metis find_Some_iff nth_mem)
  then have "snd r AND S_IFMT = 0"
    by (auto simp: mode_bits_def S_IFMT_def S_ISUID_def S_ISGID_def S_ISVTX_def S_IRUSR_def S_IWUSR_def S_IXUSR_def S_IRGRP_def S_IWGRP_def
        S_IXGRP_def S_IROTH_def S_IWOTH_def S_IXOTH_def)
  then show ?thesis using Some by (auto simp: first_bit_def split: prod.splits)
qed (simp add: first_bit_def)

lemma archive_type_byte:
  assumes "tar_block path content blk"
  shows "byte_at (stripped path blk @ rest) (field_offset h_typeflag) = Inr (blk ! field_offset h_typeflag)"
proof -
  have l: "156 < length blk" "length path + 1 \<le> 156" "length (stripped path blk) = length blk"
    using tar_block_length(1) [OF assms] assms stripped_length [OF assms] by (auto simp: tar_block_def)
  then have "stripped path blk ! 156 = blk ! 156" using stripped_drop [OF l(2), of blk] hd_drop_conv_nth [of 156 blk] hd_drop_conv_nth [of 156 "stripped path blk"] by simp
  then show ?thesis using l(1,3) by (simp add: byte_at_append)
qed

text \<open>The entry of a file in the listing of its directory.\<close>

definition file_entry :: "(string list \<times> bool) list \<Rightarrow> (string \<times> string \<times> string) list \<Rightarrow> nat \<Rightarrow> kdirent" where
  "file_entry es ps c = (let name = last (fst (es ! c)) in
     \<lparr>d_ino = of_nat c, d_off = seat es c, d_reclen = reclen name, d_type = type_d_type (snd (snd (ps ! c)) ! field_offset h_typeflag), d_name = name\<rparr>)"

definition entries_size :: "(string list \<times> bool) list \<Rightarrow> nat list \<Rightarrow> nat" where
  "entries_size es cs = sum_list (map (\<lambda>c. unat (reclen (last (fst (es ! c))))) cs)"

lemma archive_list_children:
  assumes ok: "archive_ok es ps post" and h: "headers_read es ps post dev us" and off: "\<forall>j. 0 < j \<and> j < length es \<longrightarrow> off j = seat es j"
  shows "\<forall>c \<in> set cs. 0 < c \<and> c < length es \<Longrightarrow> n + int (length cs) \<le> Entries \<Longrightarrow> sz + entries_size es cs \<le> unat Size \<Longrightarrow>
    us_ReadDir_children (link_state es (length es) off us) (map of_nat cs) Size 2 Entries n sz ents =
      Inr (sz + entries_size es cs, ents @ map (file_entry es ps) cs)"
proof (induction cs arbitrary: n sz ents)
  case Nil
  then show ?case by (simp add: entries_size_def)
next
  case (Cons c cs)
  let ?us = "link_state es (length es) off us"
  have o: "tar_order es" and c: "0 < c" "c < length es" using ok Cons.prems(1) by (auto simp: archive_ok_def)
  have ps: "tar_blocks ps" "c < length ps" using ok c archive_length [OF ok] by (simp_all add: archive_ok_def)
  obtain path content blk where e: "ps ! c = (path, content, blk)" by (cases "ps ! c")
  have b: "tar_block path content blk" using nth_mem [OF ps(2)] ps(1) e by (auto simp: tar_blocks_def)
  obtain nd where nd: "us_nodes ?us (of_nat c) = Some nd" "u_Header nd = InArchive (length (tar_image (take c ps)))" "\<not> u_Deleted nd"
    "u_Name nd = last (fst (es ! c))" "i_Offset (u_Node nd) = seat es c" "i_Index (u_Node nd) = of_nat c"
    using archive_node [OF ok h c(2), of off] archive_names(2) [OF o c] off c by (auto simp: link_node_def archived_def)
  obtain rest where "header_bytes ?us (u_Header nd) = stripped path blk @ rest"
    using archive_header [OF ps, of post] h nd(2) e by (simp add: header_bytes_def link_state_def headers_read_def)
  then have t: "byte_at (header_bytes ?us (u_Header nd)) 156 = Inr (blk ! 156)" using archive_type_byte [OF b, of rest] by simp
  have "2 \<le> seat es c" by (simp add: seat_def)
  moreover have "sz + unat (reclen (last (fst (es ! c)))) \<le> unat Size" using Cons.prems(3) by (simp add: entries_size_def)
  ultimately show ?case
    using Cons.IH [of "n + 1" "sz + unat (reclen (last (fst (es ! c))))" "ents @ [file_entry es ps c]"] Cons.prems nd t
    by (simp add: us_node_def entries_size_def file_entry_def e add.assoc Let_def)
qed

definition dot_entries :: "(string list \<times> bool) list \<Rightarrow> nat \<Rightarrow> kdirent list" where
  "dot_entries es k =
     [\<lparr>d_ino = of_nat k, d_off = 0, d_reclen = reclen ''.'', d_type = DT DT_DIR, d_name = ''.''\<rparr>,
      \<lparr>d_ino = of_nat (if k = 0 then 0 else dad es k), d_off = 1, d_reclen = reclen ''..'', d_type = DT DT_DIR, d_name = ''..''\<rparr>]"

lemma archive_list:
  assumes ok: "archive_ok es ps post" and h: "headers_read es ps post dev us" and off: "\<forall>j. 0 < j \<and> j < length es \<longrightarrow> off j = seat es j"
    and k: "k < length es" "snd (snd (ps ! k)) ! field_offset h_typeflag = type_char DIRTYPE"
    and room: "int (length (kids es (length es) k)) \<le> Entries"
      "unat (reclen ''.'') + unat (reclen ''..'') + entries_size es (kids es (length es) k) + kdirent_size < unat Size"
  shows "USTAR_ReadDir (link_state es (length es) off us) (of_nat k) Size 0 Entries =
    Inr (int (unat (reclen ''.'') + unat (reclen ''..'') + entries_size es (kids es (length es) k)),
      dot_entries es k @ map (file_entry es ps) (kids es (length es) k) @ [\<lparr>d_ino = 0, d_off = 0, d_reclen = 0, d_type = DT DT_UNKNOWN, d_name = []\<rparr>])"
proof -
  let ?us = "link_state es (length es) off us" and ?ks = "kids es (length es) k"
  have o: "tar_order es" using ok by (simp add: archive_ok_def)
  obtain nd where nd: "us_nodes ?us (of_nat k) = Some nd" "u_Children nd = map of_nat ?ks" "i_Index (u_Node nd) = of_nat k"
    "u_Parent nd = (if 0 < k then Some (of_nat (dad es k)) else None)" "S_IS S_IFDIR (i_Mode (u_Node nd))"
    using archive_node [OF ok h k(1), of off] k first_bit_type
    by (auto simp: link_node_def archived_def S_IS_def bit.conj_disj_distrib2 type_mode_def type_char_def S_IFDIR_def S_IFMT_def)
  have up: "\<exists>pn. us_nodes ?us (of_nat (dad es k)) = Some pn \<and> i_Index (u_Node pn) = of_nat (dad es k)" if "0 < k"
    using archive_node [OF ok h, of "dad es k" off] dad_before(1) [OF o that k(1)] k(1) by (auto simp: link_node_def archived_def)
  have kids: "us_ReadDir_children ?us (map of_nat ?ks) Size 2 Entries 0 (unat (reclen ''.'') + unat (reclen ''..'')) (dot_entries es k) =
      Inr (unat (reclen ''.'') + unat (reclen ''..'') + entries_size es ?ks, dot_entries es k @ map (file_entry es ps) ?ks)"
    by (rule archive_list_children [OF ok h off]) (use kids_iff [OF o k(1)] room in auto)
  have sizes: "unat (reclen ''.'') < unat Size" "unat (reclen ''.'') + unat (reclen ''..'') < unat Size" using room(2) by simp_all
  show ?thesis
  proof (cases "k = 0")
    case True
    then show ?thesis using nd kids sizes room(2) by (simp add: USTAR_ReadDir_def us_ReadDir_dot_def us_node_def dot_entries_def)
  next
    case False
    then show ?thesis using nd up kids sizes room(2) by (auto simp: USTAR_ReadDir_def us_ReadDir_dot_def us_node_def dot_entries_def)
  qed
qed

end
