(* ===== verification/UstarFiles.thy ===== *)
theory UstarFiles
  imports UstarRead
begin

unbundle bit_operations_syntax

section \<open>What the archive file system keeps and loses\<close>

text \<open>
  Every list of files with contents has an archive, which is read back; what the files that are created later are listed as.
\<close>

subsection \<open>Blocks with every content\<close>

text \<open>The block of a file with its size in eleven octal digits.\<close>

definition tar_entry :: "string \<Rightarrow> string \<Rightarrow> TypeFlag \<Rightarrow> string" where
  "tar_entry path content flag =
     take 100 (CHR ''.'' # path @ replicate 100 NUL) @ octal_digits 7 420 @ [NUL] @ replicate 16 NUL @
     octal_digits 11 (length content) @ [NUL] @ replicate 20 NUL @ [type_char flag] @ replicate 100 NUL @ TMAGIC @ [NUL] @ replicate 249 NUL @
     content @ replicate (next_header 0 (of_nat (length content)) - 512 - length content) NUL"

lemma octal_digits_Suc: "octal_digits (Suc n) x = char_of (48 + (x div 8 ^ n) mod 8) # octal_digits n x"
  by (simp add: octal_digits_def)

lemma octal_digits_all: "list_all (\<lambda>d. char_int (char_of (48 + d)) - 48 = of_nat d \<and> (char_of (48 + d) :: char) \<noteq> NUL) [0..<8]"
  by code_simp

lemma octal_digit:
  assumes "d < 8"
  shows "char_int (char_of (48 + d)) - 48 = of_nat d" "(char_of (48 + d) :: char) \<noteq> NUL"
proof -
  have "d \<in> set [0..<8]" using assms by (simp only: set_upt atLeastLessThan_iff) simp
  then show "char_int (char_of (48 + d)) - 48 = of_nat d" "(char_of (48 + d) :: char) \<noteq> NUL" using octal_digits_all unfolding list_all_iff by blast+
qed

lemma octal_digits_fold: "foldl (\<lambda>ret c. ret * 8 + (char_int c - 48)) r (octal_digits n x) = r * 8 ^ n + of_nat (x mod 8 ^ n)"
proof (induction n arbitrary: r)
  case 0
  then show ?case by (simp add: octal_digits_def)
next
  case (Suc n)
  let ?d = "(x div 8 ^ n) mod 8"
  have "x mod 8 ^ Suc n = 8 ^ n * ?d + x mod 8 ^ n" using mod_mult2_eq [of x "8 ^ n" 8] by (simp add: mult.commute)
  then have m: "of_nat (x mod 8 ^ Suc n) = (8 ^ n * of_nat ?d + of_nat (x mod 8 ^ n) :: u32)" by (simp only: of_nat_add of_nat_mult of_nat_power of_nat_numeral)
  have "foldl (\<lambda>ret c. ret * 8 + (char_int c - 48)) r (octal_digits (Suc n) x) = (r * 8 + of_nat ?d) * 8 ^ n + of_nat (x mod 8 ^ n)"
    using octal_digit(1) [of ?d] by (simp add: octal_digits_Suc Suc.IH)
  also have "\<dots> = r * 8 ^ Suc n + of_nat (x mod 8 ^ Suc n)" unfolding m by (simp add: algebra_simps)
  finally show ?case .
qed

lemma GetSize_octal: "x < 8 ^ n \<Longrightarrow> GetSize (octal_digits n x) = of_nat x"
  by (simp add: GetSize_def octal_digits_fold)

lemma octal_digits_length [simp]: "length (octal_digits n x) = n"
  by (simp add: octal_digits_def)

lemma octal_digits_no_NUL: "NUL \<notin> set (octal_digits n x)"
proof (induction n)
  case (Suc n)
  then show ?case using octal_digit(2) [of "(x div 8 ^ n) mod 8", symmetric] by (simp add: octal_digits_Suc)
qed (simp add: octal_digits_def)

lemma tar_entry_block:
  assumes path: "length path + 2 \<le> 100" "NUL \<notin> set path" "path \<noteq> []" "hd path = CHR ''/''" and content: "length content < 2 ^ 32"
  shows "tar_block path content (tar_entry path content flag)"
proof -
  let ?name = "CHR ''.'' # path @ replicate (99 - length path) NUL"
  let ?size = "octal_digits 11 (length content)"
  obtain tl where blk: "tar_entry path content flag = ?name @ (octal_digits 7 420 @ NUL # replicate 16 NUL) @ (?size @ [NUL] @ replicate 20 NUL @ [type_char flag] @ replicate 100 NUL) @
      TMAGIC @ (NUL # replicate 249 NUL) @ content @ tl" and tl: "length tl = next_header 0 (of_nat (length content)) - 512 - length content"
    using path(1) by (simp add: tar_entry_def min_def)
  have len: "length ?name = 100" "length (octal_digits 7 420 @ NUL # replicate 16 NUL) = 24" "length TMAGIC = 5"
    "length (?size @ [NUL] @ replicate 20 NUL @ [type_char flag] @ replicate 100 NUL) = 133" using path(1) by (simp_all add: TMAGIC_def)
  have d124: "drop 124 (tar_entry path content flag) = ?size @ NUL # replicate 20 NUL @ type_char flag # replicate 100 NUL @ TMAGIC @ (NUL # replicate 249 NUL) @ content @ tl"
    using path(1) by (simp add: blk)
  have size: "takeWhile (\<lambda>c. c \<noteq> NUL) (drop 124 (tar_entry path content flag)) = ?size"
    unfolding d124 using octal_digits_no_NUL by (subst takeWhile_append2) force+
  have "GetSize ?size = of_nat (length content)" by (rule GetSize_octal) (use content in simp)
  moreover have "take (length path + 2) (tar_entry path content flag) = CHR ''.'' # path @ [NUL]" using path(1) by (simp add: blk Suc_diff_le min_def take_Cons')
  moreover have "take 5 (drop 257 (tar_entry path content flag)) = TMAGIC" "take (length content) (drop 512 (tar_entry path content flag)) = content"
    "NUL \<in> set (drop 100 (tar_entry path content flag))" using path(1) len(3) by (simp_all add: blk)
  moreover have "length (tar_entry path content flag) = next_header 0 (of_nat (length content))"
    using path(1) len(3) tl next_header_content [OF content] by (simp add: blk)
  ultimately show ?thesis using assms size by (simp add: tar_block_def d124)
qed

text \<open>
  C38. What was archived is found and read back. Let the memory hold an archive of the files \<open>es\<close> as \<open>tar\<close> writes it: the root
  first, every directory before what it contains and its files together, distinct paths below 98 characters of
  non-empty names, contents below 4 GiB, and behind the last file readable memory without the signature. Reading it
  succeeds. Following the names of a file from the root then leads to the inode with its place in the archive, any other
  names end with \<open>ENOENT\<close>, and a non-empty read inside a file into a buffer that is large enough returns the archived bytes.
\<close>

theorem archive_is_read_back:
  assumes "archive_ok es ps post"
  shows "\<exists>us. ReadArchive (tar_image ps @ post) (USTAR_new\<lparr>us_DeviceID := dev\<rparr>) = Inr us \<and>
    (\<forall>ns. (\<forall>x \<in> set ns. plain x) \<longrightarrow> walk_names (\<lambda>us p. USTAR_Lookup walk us (Some p)) us 0 ns =
       Inr (found (if ns \<in> fst ` set es then Some (of_nat (pos es ns)) else None))) \<and>
    (\<forall>k a s Buffer. k < length es \<and> 0 < s \<and> a + s \<le> length (fst (snd (ps ! k))) \<and> s \<le> length Buffer \<longrightarrow>
       USTAR_Read us (of_nat (pos es (fst (es ! k)))) Buffer (of_nat s) (int a) =
         Inr (int s, map of_char (take s (drop a (fst (snd (ps ! k))))) @ drop s Buffer))"
proof -
  obtain us off where us: "ReadArchive (tar_image ps @ post) (USTAR_new\<lparr>us_DeviceID := dev\<rparr>) = Inr (link_state es (length es) off us)"
    "headers_read es ps post dev us" using read_archive [OF assms] by blast
  have "pos es (fst (es ! k)) = k" if "k < length es" for k using pos_nth [OF _ that] assms by (simp add: archive_ok_def tar_order_def)
  then show ?thesis using us archive_walk [OF assms us(2)] archive_read [OF assms us(2)] by (intro exI [of _ "link_state es (length es) off us"]) simp
qed

text \<open>
  C39. A directory of such an archive is listed completely from the offset 0: when the buffer has room for all entries and
  the end mark, and the count of the caller allows them, the listing has the two dot entries and the files of the
  directory in the order of the archive, with the numbers, types and names they have there, and the end mark.
\<close>

theorem archive_directory_is_listed:
  assumes "archive_ok es ps post" "k < length es" "snd (snd (ps ! k)) ! field_offset h_typeflag = type_char DIRTYPE"
    "int (length (kids es (length es) k)) \<le> Entries"
    "unat (reclen ''.'') + unat (reclen ''..'') + entries_size es (kids es (length es) k) + kdirent_size < unat Size"
  shows "\<exists>us. ReadArchive (tar_image ps @ post) (USTAR_new\<lparr>us_DeviceID := dev\<rparr>) = Inr us \<and>
    USTAR_ReadDir us (of_nat k) Size 0 Entries =
      Inr (int (unat (reclen ''.'') + unat (reclen ''..'') + entries_size es (kids es (length es) k)),
        dot_entries es k @ map (file_entry es ps) (kids es (length es) k) @ [\<lparr>d_ino = 0, d_off = 0, d_reclen = 0, d_type = DT DT_UNKNOWN, d_name = []\<rparr>])"
  using read_archive [OF assms(1)] archive_list [OF assms(1) _ _ assms(2-5)] by blast

subsection \<open>An archive with two files\<close>

definition two_files :: "(string list \<times> bool) list" where
  "two_files = [([], True), ([''a''], False)]"

definition two_blocks :: "(string \<times> string \<times> string) list" where
  "two_blocks = [(''/'', [], tar_entry ''/'' [] DIRTYPE), (''/a'', ''hi'', tar_entry ''/a'' ''hi'' REGTYPE)]"

lemma two_files_ok: "archive_ok two_files two_blocks (replicate 512 NUL)"
proof -
  have "tar_block ''/'' [] (tar_entry ''/'' [] DIRTYPE)" "tar_block ''/a'' ''hi'' (tar_entry ''/a'' ''hi'' REGTYPE)"
    by (rule tar_entry_block; simp)+
  moreover have "tar_end (replicate 512 NUL)" by (simp add: tar_end_def TMAGIC_def Cons_replicate_eq eq_commute [of "replicate _ _"])
  ultimately show ?thesis
    by (simp add: archive_ok_def two_files_def two_blocks_def tar_order_def tar_blocks_def tar_path_def dir_path_def plain_def)
qed

theorem archive_is_read_back_witness:
  "\<exists>us. ReadArchive (tar_image two_blocks @ replicate 512 NUL) (USTAR_new\<lparr>us_DeviceID := 1\<rparr>) = Inr us \<and>
     walk_names (\<lambda>us p. USTAR_Lookup id us (Some p)) us 0 [''a''] = Inr (0, Some 1) \<and>
     walk_names (\<lambda>us p. USTAR_Lookup id us (Some p)) us 0 [''b''] = Inr (- ENOENT, None) \<and>
     USTAR_Read us 1 [0, 0] 2 0 = Inr (2, [104, 105])"
proof -
  obtain us where us: "ReadArchive (tar_image two_blocks @ replicate 512 NUL) (USTAR_new\<lparr>us_DeviceID := 1\<rparr>) = Inr us"
    "\<forall>ns. (\<forall>x \<in> set ns. plain x) \<longrightarrow> walk_names (\<lambda>us p. USTAR_Lookup id us (Some p)) us 0 ns =
       Inr (found (if ns \<in> fst ` set two_files then Some (of_nat (pos two_files ns)) else None))"
    "\<forall>k a s Buffer. k < length two_files \<and> 0 < s \<and> a + s \<le> length (fst (snd (two_blocks ! k))) \<and> s \<le> length Buffer \<longrightarrow>
       USTAR_Read us (of_nat (pos two_files (fst (two_files ! k)))) Buffer (of_nat s) (int a) =
         Inr (int s, map of_char (take s (drop a (fst (snd (two_blocks ! k))))) @ drop s Buffer)"
    using archive_is_read_back [OF two_files_ok, of 1 id] by (elim exE conjE) 
  have names: "pos two_files [''a''] = 1" "[''a''] \<in> fst ` set two_files" "[''b''] \<notin> fst ` set two_files" "plain ''a''" "plain ''b''"
    by (simp_all add: pos_def two_files_def plain_def)
  have "USTAR_Read us 1 [0, 0] 2 0 = Inr (2, [104, 105])" using us(3) [rule_format, of 1 2 0 "[0, 0]"] names(1) by (simp add: two_files_def two_blocks_def)
  moreover have "walk_names (\<lambda>us p. USTAR_Lookup id us (Some p)) us 0 [''a''] = Inr (0, Some 1)" using us(2) [rule_format, of "[''a'']"] names by (simp add: found_def del: walk_names.simps)
  moreover have "walk_names (\<lambda>us p. USTAR_Lookup id us (Some p)) us 0 [''b''] = Inr (- ENOENT, None)" using us(2) [rule_format, of "[''b'']"] names by (simp add: found_def del: walk_names.simps)
  ultimately show ?thesis using us(1) by blast
qed

theorem archive_directory_is_listed_witness:
  "\<exists>us. ReadArchive (tar_image two_blocks @ replicate 512 NUL) (USTAR_new\<lparr>us_DeviceID := 1\<rparr>) = Inr us \<and>
     (\<exists>n. map_sum id (\<lambda>(n, ents). (n, map d_name ents)) (USTAR_ReadDir us 0 1000 0 10) = Inr (n, [''.'', ''..'', ''a'', []]))"
proof -
  have kids: "kids two_files (length two_files) 0 = [1]" by (simp add: kids_def two_files_def)
  have flag: "snd (snd (two_blocks ! 0)) ! field_offset h_typeflag = type_char DIRTYPE" 
    by (simp add: two_blocks_def tar_entry_def nth_append)
  have sz: "unat (reclen ''.'') + unat (reclen ''..'') + entries_size two_files (kids two_files (length two_files) 0) + kdirent_size < unat (1000 :: u64)"
    unfolding kids by (simp add: entries_size_def two_files_def reclen_def d_name_offset_def kdirent_size_def)
  have "0 < length two_files" "int (length (kids two_files (length two_files) 0)) \<le> 10" unfolding kids by (simp_all add: two_files_def)
  then obtain us where us: "ReadArchive (tar_image two_blocks @ replicate 512 NUL) (USTAR_new\<lparr>us_DeviceID := 1\<rparr>) = Inr us"
    "USTAR_ReadDir us (of_nat 0) 1000 0 10 =
      Inr (int (unat (reclen ''.'') + unat (reclen ''..'') + entries_size two_files [1]),
        dot_entries two_files 0 @ map (file_entry two_files two_blocks) [1] @ [\<lparr>d_ino = 0, d_off = 0, d_reclen = 0, d_type = DT DT_UNKNOWN, d_name = []\<rparr>])"
    using archive_directory_is_listed [OF two_files_ok _ flag _ sz, of 10 1] unfolding kids by blast
  moreover have "d_name (file_entry two_files two_blocks 1) = ''a''" by (simp add: file_entry_def Let_def two_files_def)
  ultimately show ?thesis by (simp add: dot_entries_def)
qed

subsection \<open>Files that are created\<close>

lemma strncpy_at_nth:
  assumes "strncpy_at destination p source num = Inr d" "i < p \<or> p + num < i" "i < length destination"
  shows "d ! i = destination ! i"
  using assms by (auto simp: strncpy_at_def Let_def memcpy_def nth_append min_def split: if_splits)

lemma directory_type_char:
  assumes "S_IS S_IFDIR Mode"
  shows "mode_type_char Mode = Some (type_char BLKTYPE)"
proof -
  have "Mode AND b = S_IFDIR AND b" if "S_IFMT AND b = b" for b using assms that by (metis S_IS_def and.assoc)
  then show ?thesis by (simp add: mode_type_char_def mode_defs)
qed

text \<open>The header of a new directory: its type, and that every field of it ends.\<close>

lemma created_header:
  assumes "ustar_wf us" "us_nodes us p = Some pn" "plain Name" "S_IS S_IFDIR Mode"
  shows "\<exists>n hdr. USTAR_Create us (Some p) Name Mode = Inr (0, Some (us_NextInode us), us_created us p pn n) \<and> u_Header n = OnHeap hdr \<and>
    \<not> u_Deleted n \<and> length hdr = 512 \<and> hdr ! 156 = type_char BLKTYPE \<and> hdr ! 511 = NUL"
proof -
  let ?h0 = "(replicate header_size NUL)[156 := type_char BLKTYPE]"
  have h0: "length ?h0 = 512" "?h0 ! 156 = type_char BLKTYPE" "?h0 ! 511 = NUL" by (simp_all add: header_size_def)
  obtain n h1 h2 h3 h4 where c: "USTAR_Create us (Some p) Name Mode = Inr (0, Some (us_NextInode us), us_created us p pn n)" "u_Header n = OnHeap h4" "\<not> u_Deleted n"
    and h1: "SetMode Mode (replicate header_size NUL) = Inr h1" "length h1 = 512" and h2: "strncpy_at h1 0 Name 100 = Inr h2" "length h2 = 512"
    and h3: "strncpy_at h2 257 TMAGIC TMAGLEN = Inr h3" "length h3 = 512" and h4: "strncpy_at h3 263 TVERSION TVERSLEN = Inr h4" "length h4 = 512"
    using USTAR_Create_eq [OF assms(1-3), of Mode] by blast
  have "strncpy_at ?h0 100 (octal_digits 7 (unat (first_bit (map (\<lambda>(t, s). (s, t)) mode_bits) Mode))) 7 = Inr h1"
    using h1(1) directory_type_char [OF assms(4)] by (simp add: SetMode_def)
  then have t: "h1 ! 156 = type_char BLKTYPE" "h1 ! 511 = NUL" using strncpy_at_nth [of ?h0 100 _ 7 h1] h0 by simp_all
  have "h4 ! i = h1 ! i" if "i = 156 \<or> i = 511" for i
    using that strncpy_at_nth [OF h2(1), of i] strncpy_at_nth [OF h3(1), of i] strncpy_at_nth [OF h4(1), of i] h1(2) h2(2) h3(2) by (auto simp: TMAGLEN_def TVERSLEN_def)
  then have "h4 ! 156 = type_char BLKTYPE" "h4 ! 511 = NUL" using t by simp_all
  then show ?thesis using c h4(2) by blast
qed

lemma cstr_ends:
  assumes "hdr ! 511 = NUL" "length hdr = 512" "i \<le> 511"
  shows "cstr hdr i = Inr (takeWhile (\<lambda>c. c \<noteq> NUL) (drop i hdr))"
proof -
  have "drop i hdr ! (511 - i) = NUL" "511 - i < length (drop i hdr)" using assms by simp_all
  then have "NUL \<in> set (drop i hdr)" by (metis nth_mem)
  then show ?thesis by (simp add: cstr_def)
qed

text \<open>
  A directory that is created in the archive file system becomes a block device: the flags of a directory share a bit
  with those of a block device, for which \<open>Create\<close> looks first, so that \<open>Stat\<close> of the new directory reports a block device.
\<close>

theorem created_directory_is_a_block_device:
  assumes "ustar_wf us" "us_nodes us p = Some pn" "plain Name" "S_IS S_IFDIR Mode" "st_Mode st = 0"
  shows "\<exists>i us' st'. USTAR_Create us (Some p) Name Mode = Inr (0, Some i, us') \<and> USTAR_Stat us' i st = Inr (0, st') \<and>
    S_IS S_IFBLK (st_Mode st') \<and> \<not> S_IS S_IFDIR (st_Mode st')"
proof -
  obtain n hdr where c: "USTAR_Create us (Some p) Name Mode = Inr (0, Some (us_NextInode us), us_created us p pn n)" "u_Header n = OnHeap hdr" "\<not> u_Deleted n"
    "length hdr = 512" "hdr ! 156 = type_char BLKTYPE" "hdr ! 511 = NUL" using created_header [OF assms(1-4)] by blast
  obtain m where m: "header_mode hdr = Inr (first_bit mode_bits m OR S_IFBLK)"
    using c(4,5) cstr_ends [OF c(6,4), of 100] by (simp add: header_mode_def byte_at_def type_mode_def type_char_def)
  have find: "us_find (us_created us p pn n) (us_NextInode us) = Inr n" by (simp add: us_find_def us_created_def assert_res_def us_node_def)
  obtain st' where st': "USTAR_Stat (us_created us p pn n) (us_NextInode us) st = Inr (0, st')" "st_Mode st' = first_bit mode_bits m OR S_IFBLK"
    using find c(2,3) m assms(5) cstr_ends [OF c(6,4)] by (simp add: USTAR_Stat_def header_bytes_def Let_def)
  have "st_Mode st' AND S_IFMT = S_IFBLK" using first_bit_type [of m] by (simp add: st'(2) bit.conj_disj_distrib2 S_IFBLK_def S_IFMT_def)
  then show ?thesis using c(1) st'(1) by (intro exI [of _ "us_NextInode us"] exI [of _ "us_created us p pn n"] exI [of _ st']) (simp add: S_IS_def S_IFBLK_def S_IFDIR_def)
qed

text \<open>An archive file system with a root directory only.\<close>

definition root_archive :: USTAR where
  "root_archive = us_put 0 (archived USTAR_new 0 0 ''/'' (tar_entry ''/'' [] DIRTYPE) 0) (USTAR_new\<lparr>us_Files := [0], us_NextInode := 1\<rparr>)"

lemma root_archive_wf: "ustar_wf root_archive"
  by (simp add: ustar_wf_def root_archive_def us_put_def USTAR_new_def archived_def)

theorem created_directory_is_a_block_device_witness:
  "\<exists>i us' st'. USTAR_Create root_archive (Some 0) ''tmp'' (S_IFDIR OR 0x1FF) = Inr (0, Some i, us') \<and> USTAR_Stat us' i kstat_zero = Inr (0, st') \<and>
     S_IS S_IFBLK (st_Mode st') \<and> \<not> S_IS S_IFDIR (st_Mode st')"
  by (rule created_directory_is_a_block_device [OF root_archive_wf])
    (simp_all add: root_archive_def us_put_def plain_def mode_defs kstat_zero_def)

end
