(* ===== verification/VfsUstar.thy ===== *)
theory VfsUstar
  imports VfsRamfs UstarFiles
begin

unbundle bit_operations_syntax

section \<open>The archive as the root file system\<close>

text \<open>
  \<open>TestAndInitializeUSTAR\<close> of src/Kernel/fs/ustar.cpp and the start of the virtual file system in src/Kernel/kernel_vfs.cpp: the
  module of the boot loader that is called \<open>rootfs\<close> is read as an archive, which becomes the first root. As in
  \<open>VfsRamfs\<close> the state behind the virtual file system is a heap of file systems, and a pointer to an inode is the object it
  is of and its number there. A module is its address, its command line and the memory it is mapped at.
\<close>

subsection \<open>Initialisation\<close>

definition ustar_Destroy :: "nat \<Rightarrow> USTAR option list \<Rightarrow> (int \<times> USTAR option list) res" where
  "ustar_Destroy k ss = on_obj ss k (\<lambda>_. Inr (0, ss[k := None]))"

definition ustar_fsi :: "(u64 list \<Rightarrow> u64 list) \<Rightarrow> nat \<Rightarrow> (USTAR option list, nat \<times> u64) FileSystemInfo" where
  "ustar_fsi walk k = \<lparr>f_Name = ''ustar'',
     f_SuperOps = \<lparr>so_Synchronize = None, so_Destroy = Some (ustar_Destroy k), so_Probe = None, so_Mount = None\<rparr>,
     f_Ops = obj_Ops (ustar_Ops walk)\<rparr>"

definition TestAndInitializeUSTAR :: "(u64 list \<Rightarrow> u64 list) \<Rightarrow> string \<Rightarrow> u64 \<Rightarrow> (USTAR option list, nat \<times> u64) Virtual \<Rightarrow>
    (bool \<times> (USTAR option list, nat \<times> u64) Virtual) res" where
  "TestAndInitializeUSTAR walk mem Index v =
     rbind (TestArchive mem) (\<lambda>ok.
     if \<not> ok then Inr (False, v)
     else
       let k = length (v_fs v);
           (DeviceID, v) = RegisterFileSystem k (v\<lparr>v_fsis := (v_fsis v)(k \<mapsto> ustar_fsi walk k)\<rparr>) in
       rbind (ReadArchive mem (USTAR_new\<lparr>us_DeviceID := DeviceID\<rparr>)) (\<lambda>ustar.
       rbind (USTAR_Lookup walk ustar None ''/'') (\<lambda>(_, rootfs).
       case rootfs of
         None \<Rightarrow> Inl AssertFailed
       | Some rootfs \<Rightarrow>
           case Convert (k, rootfs) (v\<lparr>v_fs := v_fs v @ [Some ustar]\<rparr>) of (node, v) \<Rightarrow>
             rbind (vfs_node v node) (\<lambda>n.
             let v = vfs_put node (n\<lparr>n_fsi := Some k, n_MountPoint := True, n_Name := ''/'', n_Path := ''/''\<rparr>) v in
             rbind (AddRoot Index (Some node) False v) (\<lambda>(_, v). Inr (True, v))))))"

record boot_module =
  mod_Address :: u64
  mod_CommandLine :: string
  mod_mem :: string

definition SearchForInitrd :: "(u64 list \<Rightarrow> u64 list) \<Rightarrow> boot_module list \<Rightarrow> (USTAR option list, nat \<times> u64) Virtual \<Rightarrow> (USTAR option list, nat \<times> u64) Virtual res" where
  "SearchForInitrd walk Modules =
     each_res (\<lambda>m v.
       if mod_Address m = 0 then Inr v
       else if mod_CommandLine m = ''rootfs'' then rbind (TestAndInitializeUSTAR walk (mod_mem m) 0 v) (\<lambda>(_, v). Inr v)
       else Inr v) Modules"

definition arc_deref :: "USTAR option list \<Rightarrow> nat \<times> u64 \<Rightarrow> Inode option" where
  "arc_deref ss p = (case obj ss (fst p) of None \<Rightarrow> None | Some us \<Rightarrow> map_option u_Node (us_nodes us (snd p)))"

definition new_Virtual :: "(USTAR option list, nat \<times> u64) Virtual" where
  "new_Virtual = \<lparr>v_nodes = Map.empty, v_next = 0, v_Roots = [], v_FileSystems = [], v_fsis = Map.empty, v_deref = arc_deref, v_fs = []\<rparr>"

definition KernelVFS :: "(u64 list \<Rightarrow> u64 list) \<Rightarrow> boot_module list \<Rightarrow> (USTAR option list, nat \<times> u64) Virtual res" where
  "KernelVFS walk Modules = rbind (SearchForInitrd walk Modules new_Virtual) Initialize"

subsection \<open>Archives behind the virtual file system\<close>

definition arc_lookup :: "USTAR option list \<Rightarrow> nat \<times> u64 \<Rightarrow> string \<Rightarrow> (int \<times> (nat \<times> u64) option) res" where
  "arc_lookup = obj_lookup (\<lambda>us p. USTAR_Lookup id us (Some p))"

definition arc_create :: "USTAR option list \<Rightarrow> nat \<times> u64 \<Rightarrow> string \<Rightarrow> u32 \<Rightarrow> (int \<times> (nat \<times> u64) option \<times> USTAR option list) res" where
  "arc_create = obj_create (\<lambda>us p. USTAR_Create us (Some p))"

definition arc_good :: "USTAR option list \<Rightarrow> bool" where
  "arc_good ss \<longleftrightarrow> (\<forall>k us. obj ss k = Some us \<longrightarrow> ustar_wf us)"

definition arc_room :: "nat \<Rightarrow> USTAR option list \<Rightarrow> bool" where
  "arc_room n ss \<longleftrightarrow> (\<forall>k us. obj ss k = Some us \<longrightarrow> ustar_room n us)"

definition arc_live :: "USTAR option list \<Rightarrow> nat \<times> u64 \<Rightarrow> bool" where
  "arc_live ss p \<longleftrightarrow> (\<exists>us. obj ss (fst p) = Some us \<and> us_nodes us (snd p) \<noteq> None)"

interpretation arc_vfs: vfs_store arc_good arc_room arc_live arc_lookup arc_create fst
proof (rule vfs_store.intro)
  show "inode_store arc_good arc_room arc_live plain arc_lookup arc_create"
    using inode_store.objects_store [OF ustar_store.inode_store_axioms] unfolding arc_good_def arc_room_def arc_live_def arc_lookup_def arc_create_def .
  show "vfs_store_axioms arc_lookup arc_create fst"
    by standard (auto simp: arc_lookup_def obj_lookup_def arc_create_def obj_create_def on_obj_def rbind_def split: option.splits sum.splits)
qed

lemma ustar_fsi_serves:
  assumes "v_fsis v = [k \<mapsto> ustar_fsi id k]"
  shows "serves arc_lookup arc_create fst v"
  unfolding serves_def assms
  by (simp add: ustar_fsi_def obj_Ops_def ustar_Ops_def lookup_keeps_objects arc_lookup_def obj_lookup_def arc_create_def obj_create_def)

subsection \<open>The first root\<close>

definition boot_node :: "(nat \<times> u64) NodeCache" where
  "boot_node = (new_cache (0, 0))\<lparr>n_fsi := Some 0, n_MountPoint := True, n_Name := ''/'', n_Path := ''/''\<rparr>"

definition boot_state :: "u64 \<Rightarrow> USTAR \<Rightarrow> (USTAR option list, nat \<times> u64) Virtual" where
  "boot_state Index us = \<lparr>v_nodes = [0 \<mapsto> boot_node], v_next = 1, v_Roots = [(Index, 0)], v_FileSystems = [(0, 0)], v_fsis = [0 \<mapsto> ustar_fsi id 0],
     v_deref = arc_deref, v_fs = [Some us]\<rparr>"

lemma TestArchive_image:
  assumes ok: "archive_ok es ps post"
  shows "TestArchive (tar_image ps @ post) = Inr True"
proof -
  have ps: "tar_blocks ps" "ps \<noteq> []" using ok archive_length [OF ok] by (auto simp: archive_ok_def tar_order_def)
  obtain path content blk qs where q: "ps = (path, content, blk) # qs" using ps(2) by (cases ps) auto
  have b: "tar_block path content blk" using ps(1) by (simp add: q tar_blocks_def)
  have l: "512 \<le> length blk" by (rule tar_block_length(1) [OF b])
  have mem: "tar_image ps @ post = blk @ tar_image qs @ post" by (simp add: q tar_image_def)
  have d: "drop 257 (tar_image ps @ post) = drop 257 blk @ tar_image qs @ post" using l unfolding mem by simp
  have "take 5 (drop 257 blk) = TMAGIC" using b by (simp add: tar_block_def)
  moreover have "drop 5 (drop 257 blk) \<noteq> []" using l by simp
  ultimately obtain c rest where "drop 257 blk = TMAGIC @ c # rest" by (metis append_take_drop_id neq_Nil_conv)
  then have sig: "drop 257 (tar_image ps @ post) = TMAGIC @ c # rest @ tar_image qs @ post" using d by simp
  have "strncmp_eq (TMAGIC @ c # rest') TMAGIC 6 = Inr (c = NUL)" "strncmp_eq (TMAGIC @ c # rest') TMAGIC 5 = Inr True" for rest'
    by (simp_all add: TMAGIC_def eval_nat_numeral)
  moreover have "tar_image ps @ post \<noteq> []" using l unfolding mem by auto
  ultimately show ?thesis by (simp add: TestArchive_def sig TMAGLEN_def del: drop_append)
qed

lemma boot_root:
  assumes ok: "archive_ok es ps post"
  shows "\<exists>us off. TestAndInitializeUSTAR id (tar_image ps @ post) Index new_Virtual = Inr (True, boot_state Index (link_state es (length es) off us)) \<and>
    headers_read es ps post 0 us"
proof -
  obtain us off where us: "ReadArchive (tar_image ps @ post) (USTAR_new\<lparr>us_DeviceID := 0\<rparr>) = Inr (link_state es (length es) off us)" "headers_read es ps post 0 us"
    using read_archive [OF ok, of 0] by blast
  have "0 < length es" using ok by (auto simp: archive_ok_def tar_order_def)
  then have "0 \<in> set (us_Files (link_state es (length es) off us))" using us(2) by (force simp: link_state_def headers_read_def)
  moreover have "cwk_path_get_basename CWK_STYLE_UNIX ''/'' = Inr None" by code_simp
  ultimately have "USTAR_Lookup id (link_state es (length es) off us) None ''/'' = Inr (0, Some 0)" by (simp add: USTAR_Lookup_def)
  then have "TestAndInitializeUSTAR id (tar_image ps @ post) Index new_Virtual = Inr (True, boot_state Index (link_state es (length es) off us))"
    using TestArchive_image [OF ok] us(1)
    by (simp add: TestAndInitializeUSTAR_def new_Virtual_def RegisterFileSystem_def Convert_def vfs_node_def vfs_put_def AddRoot_def boot_state_def boot_node_def)
  then show ?thesis using us(2) by blast
qed

lemma boot_state_ok:
  assumes ok: "archive_ok es ps post" and h: "headers_read es ps post dev us"
  shows "arc_vfs.vfs_ok (\<lambda>_ _. None) (boot_state Index (link_state es (length es) off us))"
    "placed (boot_state Index (link_state es (length es) off us)) 0 [] 0" "attached (boot_state Index (link_state es (length es) off us)) 0 boot_node"
proof -
  let ?us = "link_state es (length es) off us"
  let ?v = "boot_state Index ?us"
  have "0 < length es" using ok by (auto simp: archive_ok_def tar_order_def)
  then obtain nd where "us_nodes ?us 0 = Some nd" using archive_node [OF ok h, of 0 off] by auto
  then have live: "arc_live (v_fs ?v) (n_inode boot_node)" by (simp add: arc_live_def boot_state_def boot_node_def new_cache_def obj_def)
  have good: "arc_good (v_fs ?v)" using archive_wf [OF ok h, of off] by (auto simp: arc_good_def boot_state_def obj_def split: if_splits)
  have serves: "serves arc_lookup arc_create fst ?v" by (rule ustar_fsi_serves [of _ 0]) (simp add: boot_state_def)
  note root = arc_vfs.only_root [OF good serves, of boot_node]
  show "arc_vfs.vfs_ok (\<lambda>_ _. None) ?v" "placed ?v 0 [] 0" "attached ?v 0 boot_node"
    by (rule root; use live in \<open>simp add: boot_state_def boot_node_def new_cache_def\<close>)+
qed

lemma boot_walk:
  assumes ok: "archive_ok es ps post" and h: "headers_read es ps post dev us" and x: "\<forall>x \<in> set ns. plain x"
  shows "walk_ns (\<lambda>_. None) (arc_lookup [Some (link_state es (length es) off us)]) [] (0, 0) ns =
    (if ns \<in> fst ` set es then Inr (0, Some (0, of_nat (pos es ns))) else missing)"
proof -
  let ?us = "link_state es (length es) off us"
  have "walk_names arc_lookup [Some s] (0, p) ns = rbind (walk_names (\<lambda>us p. USTAR_Lookup id us (Some p)) s p ns) (\<lambda>(ret, r). Inr (ret, map_option (Pair 0) r))" for s p
    by (induction ns arbitrary: p) (auto simp: arc_lookup_def obj_lookup_def on_obj_def obj_def rbind_def split: sum.splits option.splits)
  then show ?thesis using archive_walk [OF ok h x, of id off] by (simp add: walk_ns_nothing_mounted found_def missing_def)
qed

subsection \<open>Start of the virtual file system\<close>

lemma each_res_filter: "\<forall>x s. \<not> P x \<longrightarrow> f x s = Inr s \<Longrightarrow> each_res f xs s = each_res f (filter P xs) s"
  by (induction xs arbitrary: s) (auto simp: rbind_def split: sum.splits)

definition rootfs_module :: "boot_module \<Rightarrow> bool" where
  "rootfs_module m \<longleftrightarrow> mod_Address m \<noteq> 0 \<and> mod_CommandLine m = ''rootfs''"

lemma SearchForInitrd_found:
  assumes "filter rootfs_module Modules = [m]" "TestAndInitializeUSTAR id (mod_mem m) 0 v = Inr (True, v')"
  shows "SearchForInitrd id Modules v = Inr v'"
proof -
  have "rootfs_module m" using arg_cong [OF assms(1), of set] by auto
  moreover have "SearchForInitrd id Modules v = each_res (\<lambda>m v.
       if mod_Address m = 0 then Inr v
       else if mod_CommandLine m = ''rootfs'' then rbind (TestAndInitializeUSTAR id (mod_mem m) 0 v) (\<lambda>(_, v). Inr v)
       else Inr v) (filter rootfs_module Modules) v"
    unfolding SearchForInitrd_def by (rule each_res_filter) (auto simp: rootfs_module_def)
  ultimately show ?thesis using assms by (simp add: rootfs_module_def)
qed

text \<open>A walk to an inode stays what it is when a file is created.\<close>

lemma arc_walk_kept:
  assumes "arc_good s" "arc_room (Suc n) s" "arc_live s p" "plain x" "arc_create s p x mode = Inr (0, Some i, s')" "arc_lookup s p x = missing"
    and "arc_live s q" "\<forall>y \<in> set ys. plain y" "walk_ns (\<lambda>_. None) (arc_lookup s) [] q ys = Inr (0, Some k)"
  shows "walk_ns (\<lambda>_. None) (arc_lookup s') [] q ys = Inr (0, Some k)" "arc_live s' q"
proof -
  show "walk_ns (\<lambda>_. None) (arc_lookup s') [] q ys = Inr (0, Some k)" using arc_vfs.walk_kept [OF assms(1-8)] assms(9) by (simp add: walk_ns_nothing_mounted)
  show "arc_live s' q" using arc_vfs.create_keeps [OF assms(1-5)] assms(7) by blast
qed

definition arc_kept :: "(USTAR option list, nat \<times> u64) Virtual \<Rightarrow> (USTAR option list, nat \<times> u64) Virtual \<Rightarrow> bool" where
  "arc_kept v v' \<longleftrightarrow> (\<forall>q ys j. arc_live (v_fs v) q \<and> (\<forall>y \<in> set ys. plain y) \<and> walk_ns (\<lambda>_. None) (arc_lookup (v_fs v)) [] q ys = Inr (0, Some j) \<longrightarrow>
     arc_live (v_fs v') q \<and> walk_ns (\<lambda>_. None) (arc_lookup (v_fs v')) [] q ys = Inr (0, Some j))"

text \<open>The directory that is made below a node of the tree.\<close>

lemma make_directory:
  assumes ok: "arc_vfs.vfs_ok (\<lambda>_ _. None) v" and i: "placed v i ns 0" "attached v i n" and x: "proper x" and room: "arc_room (Suc k) (v_fs v)"
    and none: "walk_ns (\<lambda>_. None) (arc_lookup (v_fs v)) [] (root_inode v 0) (ns @ [x]) = missing"
  obtains c m v' where "Create (Some i) x Mode e v = Inr ((Some c, 0), v')" "arc_vfs.vfs_ok (\<lambda>_ _. None) v'" "grows v v'" "placed v' c (ns @ [x]) 0" "attached v' c m"
    "arc_room k (v_fs v')" "v_Roots v' = v_Roots v" "\<forall>y. plain y \<longrightarrow> arc_lookup (v_fs v') (n_inode m) y = missing"
    "arc_kept v v'"
proof -
  obtain c m v' where c: "Create (Some i) x Mode e v = Inr ((Some c, 0), v')" "arc_vfs.vfs_ok (\<lambda>_ _. None) v'" "grows v v'" "placed v' c (ns @ [x]) 0" "attached v' c m"
    "arc_room k (v_fs v')" "arc_create (v_fs v) (n_inode n) x Mode = Inr (0, Some (n_inode m), v_fs v')" "v' = v\<lparr>v_nodes := v_nodes v', v_next := v_next v', v_fs := v_fs v'\<rparr>"
    by (rule arc_vfs.create_new [OF ok i x room none, of Mode e])
  have t: "cached arc_live arc_lookup fst (\<lambda>_ _. None) v" "arc_good (v_fs v)" and pl: "plain x" using ok x by (simp_all add: arc_vfs.vfs_ok_def proper_def)
  note n = cached_node(3,4) [OF t(1) i]
  have "arc_lookup (v_fs v) (n_inode n) x = missing \<or> (\<exists>j. arc_lookup (v_fs v) (n_inode n) x = Inr (0, Some j))"
    using arc_vfs.lookup_cases [OF t(2) n(1) pl] by blast
  then have miss: "arc_lookup (v_fs v) (n_inode n) x = missing" using none n(2) by (auto simp: walk_ns_append missing_def)
  have roots: "v_Roots v' = v_Roots v" using c(8) by (metis Virtual.select_convs Virtual.update_convs Virtual.surjective)
  have "\<forall>y. plain y \<longrightarrow> arc_lookup (v_fs v') (n_inode m) y = missing" using arc_vfs.create_empty [OF t(2) room n(1) pl c(7)] by blast
  then show thesis using that [OF c(1-6) roots] arc_walk_kept [OF t(2) room n(1) pl c(7) miss] unfolding arc_kept_def by blast
qed

lemma boot_lookup:
  assumes ok: "arc_vfs.vfs_ok (\<lambda>_ _. None) v" and r: "placed v 0 [] 0" "attached v 0 n" and ns: "\<forall>x \<in> set ns. proper x"
    and w: "walk_ns (\<lambda>_. None) (arc_lookup (v_fs v)) [] (root_inode v 0) ns = Inr (0, Some i)"
  shows "\<exists>c m v'. Lookup (Some 0) (CHR ''/'' # join_segs ns) v = Inr ((Some c, 0), v') \<and> v_nodes v' c = Some m \<and> n_inode m = i"
proof (rule arc_vfs.lookup_walk [OF ok r join_segs_NUL [OF ns]], unfold path_names_absolute [OF ns], goal_cases)
  case 1
  then show ?case by (simp add: PathIsAbsolute_iff char_at_def)
next
  case (2 c m v')
  then show ?case using w by (auto simp: attached_def)
next
  case (3 v')
  then show ?case using w by (simp add: missing_def)
qed

lemma initialize_archive:
  assumes ok: "arc_vfs.vfs_ok (\<lambda>_ _. None) v" and r: "placed v 0 [] 0" "attached v 0 n" and room: "arc_room 2 (v_fs v)" and roots: "GetRoot v 0 = (Some 0, 0)"
    and none: "walk_ns (\<lambda>_. None) (arc_lookup (v_fs v)) [] (root_inode v 0) [''var''] = missing"
  obtains c m w where "Initialize v = Inr w" "arc_vfs.vfs_ok (\<lambda>_ _. None) w" "grows v w" "v_Roots w = v_Roots v"
    "placed w c [''var'', ''log''] 0" "attached w c m" "arc_kept v w"
proof -
  have names: "proper ''var''" "proper ''log''" by (simp_all add: proper_def plain_def)
  have room2: "arc_room (Suc (Suc 0)) (v_fs v)" and none1: "walk_ns (\<lambda>_. None) (arc_lookup (v_fs v)) [] (root_inode v 0) ([] @ [''var'']) = missing"
    using room none by (simp_all add: numeral_2_eq_2 del: walk_ns.simps)
  obtain c1 m1 v1 where v1: "Create (Some 0) ''var'' (0x1FF OR S_IFDIR) False v = Inr ((Some c1, 0), v1)" "arc_vfs.vfs_ok (\<lambda>_ _. None) v1" "grows v v1"
      "placed v1 c1 ([] @ [''var'']) 0" "attached v1 c1 m1" "arc_room (Suc 0) (v_fs v1)" "v_Roots v1 = v_Roots v"
      "\<forall>y. plain y \<longrightarrow> arc_lookup (v_fs v1) (n_inode m1) y = missing" "arc_kept v v1"
    by (rule make_directory [OF ok r names(1) room2 none1])
  have c: "cached arc_live arc_lookup fst (\<lambda>_ _. None) v1" using v1(2) by (simp add: arc_vfs.vfs_ok_def)
  have none2: "walk_ns (\<lambda>_. None) (arc_lookup (v_fs v1)) [] (root_inode v1 0) (([] @ [''var'']) @ [''log'']) = missing"
    using cached_node(4) [OF c v1(4,5)] v1(8) names(2) by (subst walk_ns_append) (simp add: proper_def missing_def)
  obtain c2 m2 v2 where v2: "Create (Some c1) ''log'' (0x1FF OR S_IFDIR) False v1 = Inr ((Some c2, 0), v2)" "arc_vfs.vfs_ok (\<lambda>_ _. None) v2" "grows v1 v2"
      "placed v2 c2 (([] @ [''var'']) @ [''log'']) 0" "attached v2 c2 m2" "v_Roots v2 = v_Roots v1" "arc_kept v1 v2"
    by (rule make_directory [OF v1(2,4,5) names(2) v1(6) none2])
  have "Initialize v = Inr v2" using v1(1) v2(1) roots by (simp add: Initialize_def)
  moreover have "arc_kept v v2" using v1(9) v2(7) unfolding arc_kept_def by blast
  ultimately show thesis using that v2(2,4-6) grows_trans [OF v1(3) v2(3)] v1(7) by auto
qed

text \<open>
  C40. The kernel starts with the files of the archive. Let exactly one module of the boot loader that has an address be called
  \<open>rootfs\<close>, and let it hold an archive as above, without \<open>/var\<close> and with two inode numbers left. Then the start of the
  virtual file system succeeds and ends with a first root in which looking up the path of every archived file, whose
  names are not \<open>.\<close> or \<open>..\<close>, finds its inode, and in which \<open>/var/log\<close> is found.
\<close>

theorem kernel_starts_with_the_archive:
  assumes "archive_ok es ps post" "length es + 2 < 2 ^ 64" "[''var''] \<notin> fst ` set es"
    "filter rootfs_module Modules = [m]" "mod_mem m = tar_image ps @ post"
  shows "\<exists>v r. KernelVFS id Modules = Inr v \<and> GetRoot v 0 = (Some r, 0) \<and>
    (\<forall>ns. ns \<in> fst ` set es \<and> (\<forall>x \<in> set ns. proper x) \<longrightarrow>
       (\<exists>c n v'. Lookup (Some r) (CHR ''/'' # join_segs ns) v = Inr ((Some c, 0), v') \<and> v_nodes v' c = Some n \<and> n_inode n = (0, of_nat (pos es ns)))) \<and>
    (\<exists>c v'. Lookup (Some r) ''/var/log'' v = Inr ((Some c, 0), v'))"
proof -
  note ok = assms(1)
  obtain us off where b: "TestAndInitializeUSTAR id (tar_image ps @ post) 0 new_Virtual = Inr (True, boot_state 0 (link_state es (length es) off us))"
    and h: "headers_read es ps post 0 us" using boot_root [OF ok] by blast
  define v where "v = boot_state 0 (link_state es (length es) off us)"
  have fs: "v_fs v = [Some (link_state es (length es) off us)]" "GetRoot v 0 = (Some 0, 0)" by (simp_all add: v_def boot_state_def GetRoot_def)
  note s = boot_state_ok [OF ok h, of 0 off, folded v_def]
  have c: "cached arc_live arc_lookup fst (\<lambda>_ _. None) v" using s(1) by (simp add: arc_vfs.vfs_ok_def)
  have ri: "root_inode v 0 = (0, 0)" and live: "arc_live (v_fs v) (0, 0)"
    using s(3) cached_node(3) [OF c s(2,3)] by (simp_all add: root_inode_def attached_def boot_node_def new_cache_def)
  have room: "arc_room 2 (v_fs v)"
    using h assms(2) by (auto simp: arc_room_def fs obj_def ustar_room_def link_state_def headers_read_def unat_of_nat_less split: if_splits)
  have none: "walk_ns (\<lambda>_. None) (arc_lookup (v_fs v)) [] (root_inode v 0) [''var''] = missing"
    using boot_walk [OF ok h, of "[''var'']" off] assms(3) unfolding fs ri by (simp add: plain_def del: walk_ns.simps)
  obtain d k w where w: "Initialize v = Inr w" "arc_vfs.vfs_ok (\<lambda>_ _. None) w" "grows v w" "v_Roots w = v_Roots v"
    "placed w d [''var'', ''log''] 0" "attached w d k" "arc_kept v w" by (rule initialize_archive [OF s room fs(2) none])
  have r: "placed w 0 [] 0" by (rule grows_placed [OF s(2) w(3)])
  obtain cs where n: "attached w 0 (boot_node\<lparr>n_Children := cs\<rparr>)" using grows_attached [OF w(3) s(3)] by blast
  have ri': "root_inode w 0 = (0, 0)" using n by (simp add: root_inode_def attached_def boot_node_def new_cache_def)
  have files: "\<exists>c n v'. Lookup (Some 0) (CHR ''/'' # join_segs ns) w = Inr ((Some c, 0), v') \<and> v_nodes v' c = Some n \<and> n_inode n = (0, of_nat (pos es ns))"
    if ns: "ns \<in> fst ` set es" "\<forall>x \<in> set ns. proper x" for ns
  proof (rule boot_lookup [OF w(2) r n ns(2)])
    have pl: "\<forall>x \<in> set ns. plain x" using ns(2) by (auto simp: proper_def)
    have "walk_ns (\<lambda>_. None) (arc_lookup (v_fs v)) [] (0, 0) ns = Inr (0, Some (0, of_nat (pos es ns)))" using boot_walk [OF ok h pl, of off] ns(1) unfolding fs by simp
    then show "walk_ns (\<lambda>_. None) (arc_lookup (v_fs w)) [] (root_inode w 0) ns = Inr (0, Some (0, of_nat (pos es ns)))" using w(7) live pl unfolding ri' arc_kept_def by blast
  qed
  have cw: "cached arc_live arc_lookup fst (\<lambda>_ _. None) w" using w(2) by (simp add: arc_vfs.vfs_ok_def)
  have "\<exists>c n v'. Lookup (Some 0) (CHR ''/'' # join_segs [''var'', ''log'']) w = Inr ((Some c, 0), v') \<and> v_nodes v' c = Some n \<and> n_inode n = n_inode k"
    by (rule boot_lookup [OF w(2) r n _ cached_node(4) [OF cw w(5,6)]]) (simp add: proper_def plain_def)
  moreover have "KernelVFS id Modules = Inr w" using SearchForInitrd_found [OF assms(4)] b assms(5) w(1) by (simp add: KernelVFS_def v_def)
  moreover have "GetRoot w 0 = (Some 0, 0)" using fs(2) w(4) by (simp add: GetRoot_def)
  ultimately show ?thesis using files by (intro exI [of _ w] exI [of _ "0 :: nat"]) auto
qed

theorem kernel_starts_with_the_archive_witness:
  "\<exists>v r. KernelVFS id [\<lparr>mod_Address = 0, mod_CommandLine = [], mod_mem = []\<rparr>,
       \<lparr>mod_Address = 0x100000, mod_CommandLine = ''rootfs'', mod_mem = tar_image two_blocks @ replicate 512 NUL\<rparr>] = Inr v \<and> GetRoot v 0 = (Some r, 0) \<and>
     (\<exists>c n v'. Lookup (Some r) ''/a'' v = Inr ((Some c, 0), v') \<and> v_nodes v' c = Some n \<and> n_inode n = (0, 1)) \<and>
     (\<exists>c v'. Lookup (Some r) ''/var/log'' v = Inr ((Some c, 0), v'))"
proof -
  let ?m = "\<lparr>mod_Address = 0x100000, mod_CommandLine = ''rootfs'', mod_mem = tar_image two_blocks @ replicate 512 NUL\<rparr>"
  let ?ms = "[\<lparr>mod_Address = 0, mod_CommandLine = [], mod_mem = []\<rparr>, ?m]"
  have m: "filter rootfs_module ?ms = [?m]" by (simp add: rootfs_module_def)
  have names: "[''var''] \<notin> fst ` set two_files" "[''a''] \<in> fst ` set two_files" "pos two_files [''a''] = 1" "length two_files + 2 < 2 ^ 64" "proper ''a''"
    by (simp_all add: two_files_def pos_def proper_def plain_def)
  obtain v r where v: "KernelVFS id ?ms = Inr v" "GetRoot v 0 = (Some r, 0)" "\<exists>c v'. Lookup (Some r) ''/var/log'' v = Inr ((Some c, 0), v')"
    "\<forall>ns. ns \<in> fst ` set two_files \<and> (\<forall>x \<in> set ns. proper x) \<longrightarrow>
       (\<exists>c n v'. Lookup (Some r) (CHR ''/'' # join_segs ns) v = Inr ((Some c, 0), v') \<and> v_nodes v' c = Some n \<and> n_inode n = (0, of_nat (pos two_files ns)))"
    using kernel_starts_with_the_archive [OF two_files_ok names(4,1) m] by auto
  have "\<exists>c n v'. Lookup (Some r) ''/a'' v = Inr ((Some c, 0), v') \<and> v_nodes v' c = Some n \<and> n_inode n = (0, 1)"
    using v(4) [rule_format, of "[''a'']"] names by simp
  then show ?thesis using v(1-3) by blast
qed

end
