(* ===== verification/Spec2Isabelle.thy ===== *)
theory Spec2Isabelle
  imports Prelude Bitmap Physical PageRequests PageRuns Paging Translation PagingFindings Vma VmaProofs
    Tasks LinuxSignals Signals SignalProofs SignalFrame Scheduler SchedulerProofs SchedulerFindings Cwalk CwalkProofs
    Hashes CrcProofs DigestProofs ChecksumProofs
    Inodes InodeStore Names Ramfs RamfsProofs Vfs VfsPaths VfsTree VfsLookup VfsCreate VfsRamfs
    Ustar UstarProofs UstarArchive UstarTree UstarRead UstarFiles VfsUstar
begin

text \<open>
  \<^bold>\<open>A verification development of the Fennix kernel (src/Kernel).\<close>

  \<^bold>\<open>The program.\<close> Fennix is an operating system in C and C++. Its kernel hands out physical pages from a bitmap, builds
  the page tables of amd64 from them, gives each process a list of the pages it owns, keeps processes and threads with
  their signals, and switches between threads in a timer interrupt. Paths are split and normalised by a library of their
  own, which the virtual file system and the file systems behind it use, and checksums and digests serve the network code
  and the check of drivers. The layers call each other in this
  order, and so do the theories.

  \<^bold>\<open>Conventions\<close> (theory \<open>Prelude\<close>). Machine integers are words of their width; an operation is a function on the record
  of the state it changes. Undefined behaviour, failed assertions, a stop of the machine and a loop without end are
  values of \<open>fault\<close>, the left side of \<open>'a res\<close>; \<open>rbind\<close> is the sequence of two statements. A lock makes the operation it
  guards one step. A loop whose end is a theorem and not a syntactic fact has a fuel argument or a termination proof; the
  fuel is always a bound that the state gives (number of pages, of processes, of characters left), and the theorems
  named below show that it is enough.

  \<^bold>\<open>Physical memory.\<close>
  \<^item> \<open>Bitmap\<close>: library/bitmap.cpp. The locale \<open>bit_array\<close> is its interface.
  \<^item> \<open>Physical\<close>: core/memory/pmm.cpp, the allocator of pages with its counters and its hint. The locale
    \<open>page_invariant\<close> lifts an invariant of single pages to the operations on ranges.
  \<^item> \<open>PageRequests\<close>: the requests return the first free page or a free run and take exactly these; the counters agree with
    the bitmap in every reachable state (\<open>phys_reach\<close>); freeing undoes a request; the search ends. Here the bytes of the
    bitmap are the only ones that can be accessed.
  \<^item> \<open>PageRuns\<close>: the same request when memory follows the bitmap, in which case a run may end behind it.

  \<^bold>\<open>Virtual memory.\<close>
  \<^item> \<open>Paging\<close>: arch/amd64/memory/vmm.cpp, core/memory/pmi.cpp, include/memory/table.hpp and virtual.hpp. The state is the
    memory of entries and the physical allocator.
  \<^item> \<open>Translation\<close>: mapping, remapping and unmapping a page change the translation of that page and of no other.
  \<^item> \<open>PagingFindings\<close>: behaviours of unmapped and large pages that the code does not mean to have.
  \<^item> \<open>Vma\<close>, \<open>VmaProofs\<close>: core/memory/vma.cpp and brk.cpp, the pages of a process. Requested pages are fresh, freed pages
    return, the destructor frees every page, and the check of user addresses translates.

  \<^bold>\<open>Tasks, signals, scheduler.\<close>
  \<^item> \<open>Tasks\<close>: the control blocks of include/task.hpp and their state changes.
  \<^item> \<open>LinuxSignals\<close>: signal numbers, masks, actions and errors between the kernel and Linux programs
    (subsystem/linux/syscall.cpp); the locale \<open>signal_conv\<close> has both directions as interpretations.
  \<^item> \<open>Signals\<close>, \<open>SignalProofs\<close>: tasking/signal.cpp. Sending ends when no process watches itself and memory for a
    trampoline is available; caught signals are queued
    in order; default actions terminate; the deliverable ones are delivered first; invariants along \<open>sig_step\<close>.
  \<^item> \<open>SignalFrame\<close>: arch/amd64/tasking/signal.cpp, the frame on the user stack and the return from a handler.
  \<^item> \<open>Scheduler\<close>, \<open>SchedulerProofs\<close>, \<open>SchedulerFindings\<close>: tasking/scheduler/custom.cpp on one CPU. The searches for a thread
    share the locale \<open>thread_search\<close>. An interrupt continues a ready thread or the idle one, saves the interrupted
    thread and wakes the sleepers; a terminated current process is used after its deletion.

  \<^bold>\<open>Libraries.\<close>
  \<^item> \<open>Cwalk\<close>, \<open>CwalkProofs\<close>: library/cwalk.c. Joining and normalising paths refines a stack of segments.
  \<^item> \<open>Hashes\<close>: library/crc32.c, md5.c, sha512.c and network/checksum.cpp. \<open>CrcProofs\<close>: the CRC table divides by the
    polynomial. \<open>DigestProofs\<close>: the locale \<open>block_stream\<close>, interpreted on the contexts of MD5 and SHA-512, gives the
    digests as folds over the padded message. \<open>ChecksumProofs\<close>: the internet checksum is the one of RFC 1071.

  \<^bold>\<open>File systems.\<close>
  \<^item> \<open>Inodes\<close>: include/interface/fs.h, the operations a file system registers. \<open>InodeStore\<close>: the locale \<open>inode_store\<close>, what the
    virtual file system relies on. \<open>Names\<close>: names as segments of paths.
  \<^item> \<open>Ramfs\<close>, \<open>RamfsProofs\<close>: fs/ramfs.cpp. It keeps the contract; what is written is read back; listings and reads past the
    end do not do what they mean to.
  \<^item> \<open>Vfs\<close>: fs/vfs.cpp, include/fs/vfs.hpp and node.hpp. The nodes of the cache are a heap of objects, a file system is a
    record of operations on the state \<open>v_fs\<close>.
  \<^item> \<open>VfsPaths\<close>, \<open>VfsTree\<close>, \<open>VfsLookup\<close>, \<open>VfsCreate\<close>: normalised paths, the tree of nodes and its invariant, and the locale
    \<open>vfs_store\<close>, in which lookup is shown to refine a walk along names through the mounted file systems and creation and
    mounting are shown to keep the cache in agreement with them.
  \<^item> \<open>VfsRamfs\<close>: the interpretation of \<open>vfs_store\<close> on the RAM file systems, mounting one, and the properties of the
    composition.

  \<^item> \<open>Ustar\<close>: fs/ustar.cpp, the file system of the boot archive; the archive is a piece of memory. \<open>UstarProofs\<close>: it keeps
    the contract \<open>inode_store\<close>. \<open>UstarArchive\<close>, \<open>UstarTree\<close>: reading the headers, and the tree that is built from their
    order. \<open>UstarRead\<close>, \<open>UstarFiles\<close>: what was archived is found, listed and read back.
  \<^item> \<open>VfsUstar\<close>: kernel_vfs.cpp, the archive as the first root, with the interpretation of \<open>vfs_store\<close> on archives.

  Objects of the file systems are never out of memory in the model, children and inodes of nodes are not null, and an
  object without an owner stays in the state instead of being deleted.

  \<^bold>\<open>Not modelled.\<close> Code whose effect is on hardware (interrupt controllers, timers, device drivers, display), start-up,
  assembly and the ports other than amd64; the heap allocators and other third-party code; program loading and
  file descriptors, the network protocols beyond their checksum and the system calls beyond the conversions, which are wrappers of
  the parts above around state of their own; the C and C++ run-time library, of which the theories model what the code
  uses; user space.
\<close>

end
